(* ===== verification/Relink_Prelude.thy ===== *)
theory Relink_Prelude
  imports Main "HOL-Library.Word"
begin

text \<open>
  The prelude of the ReLink development: the machine types the C++ sources use, the
  little-endian byte layout of a packed integer (every wire struct is declared under
  \<^verbatim>\<open>#pragma pack(push, 1)\<close> and copied with \<^verbatim>\<open>memcpy\<close> on little-endian targets), reads of a
  sub-range of a buffer, and the interface \<open>packed_codec\<close> of a fixed-size wire struct,
  whose lemmas lift one struct to the trailing array of structs that follows a packet
  header.
\<close>

unbundle bit_operations_syntax

named_theorems wire_simps \<open>computation rules for packed byte layouts\<close>
named_theorems relink_splits \<open>elimination facts for the error-returning operations\<close>

type_synonym u8 = "8 word"
type_synonym u16 = "16 word"
type_synonym u32 = "32 word"
type_synonym u64 = "64 word"
type_synonym bytes = "u8 list"

section \<open>Little-endian integers\<close>

text \<open>
  \<open>nat_le n v\<close> is the \<open>n\<close>-byte little-endian image of \<open>v\<close>; \<open>le_nat\<close> reads one back.
\<close>

fun nat_le :: "nat \<Rightarrow> nat \<Rightarrow> bytes" where
  "nat_le 0 v = []"
| "nat_le (Suc n) v = word_of_nat v # nat_le n (v div 256)"

fun le_nat :: "bytes \<Rightarrow> nat" where
  "le_nat [] = 0"
| "le_nat (b # bs) = unat b + 256 * le_nat bs"

lemma length_nat_le [simp]: "length (nat_le n v) = n"
  by (induction n arbitrary: v) simp_all

lemma unat_byte_less: "unat (b :: u8) < 256"
  using unsigned_less [of b, where ?'a = nat] by simp

lemma unat_u16_of_nat: "n < 65536 \<Longrightarrow> unat (word_of_nat n :: u16) = n"
  by (simp add: unat_of_nat)

lemma unat_u16_less: "unat (w :: u16) < 65536"
  using unsigned_less [of w, where ?'a = nat] by simp

lemma unat_u8_of_nat: "n < 256 \<Longrightarrow> unat (word_of_nat n :: u8) = n"
  by (simp add: unat_of_nat)

lemma le_nat_nat_le: "le_nat (nat_le n v) = v mod 256 ^ n"
proof (induction n arbitrary: v)
  case 0
  then show ?case by simp
next
  case (Suc n)
  have "v mod 256 ^ Suc n = 256 * (v div 256 mod 256 ^ n) + v mod 256"
    by (simp add: mod_mult2_eq)
  with Suc.IH show ?case by (simp add: unat_of_nat)
qed

lemma le_nat_bound: "le_nat bs < 256 ^ length bs"
proof (induction bs)
  case Nil
  then show ?case by simp
next
  case (Cons b bs)
  then show ?case using unat_byte_less [of b] by simp
qed

lemma nat_le_le_nat: "nat_le (length bs) (le_nat bs) = bs"
proof (induction bs)
  case Nil
  then show ?case by simp
next
  case (Cons b bs)
  have "(unat b + 256 * le_nat bs) div 256 = le_nat bs"
    using unat_byte_less [of b] by simp
  moreover have "word_of_nat (unat b + 256 * le_nat bs) = b"
  proof -
    have "unat (word_of_nat (unat b + 256 * le_nat bs) :: u8) = (unat b + 256 * le_nat bs) mod 256"
      by (simp only: unat_of_nat) simp
    also have "\<dots> = unat b"
      using unat_byte_less [of b] by simp
    finally show ?thesis by (simp only: word_unat_eq_iff)
  qed
  ultimately show ?case using Cons.IH by simp
qed

definition le16 :: "u16 \<Rightarrow> bytes" where "le16 w = nat_le 2 (unat w)"
definition le32 :: "u32 \<Rightarrow> bytes" where "le32 w = nat_le 4 (unat w)"
definition le64 :: "u64 \<Rightarrow> bytes" where "le64 w = nat_le 8 (unat w)"

definition rd16 :: "bytes \<Rightarrow> u16" where "rd16 bs = word_of_nat (le_nat bs)"
definition rd32 :: "bytes \<Rightarrow> u32" where "rd32 bs = word_of_nat (le_nat bs)"
definition rd64 :: "bytes \<Rightarrow> u64" where "rd64 bs = word_of_nat (le_nat bs)"

lemma length_le [simp]:
  "length (le16 a) = 2" "length (le32 b) = 4" "length (le64 c) = 8"
  by (simp_all add: le16_def le32_def le64_def)

lemma rd16_le16 [simp, wire_simps]: "rd16 (le16 w) = w"
  using unsigned_less [of w, where ?'a = nat] by (simp add: rd16_def le16_def le_nat_nat_le)

lemma rd32_le32 [simp, wire_simps]: "rd32 (le32 w) = w"
  using unsigned_less [of w, where ?'a = nat] by (simp add: rd32_def le32_def le_nat_nat_le)

lemma rd64_le64 [simp, wire_simps]: "rd64 (le64 w) = w"
  using unsigned_less [of w, where ?'a = nat] by (simp add: rd64_def le64_def le_nat_nat_le)

lemma le16_rd16: "length bs = 2 \<Longrightarrow> le16 (rd16 bs) = bs"
  using le_nat_bound [of bs] nat_le_le_nat [of bs]
  by (simp add: rd16_def le16_def unat_of_nat)

lemma le32_rd32: "length bs = 4 \<Longrightarrow> le32 (rd32 bs) = bs"
  using le_nat_bound [of bs] nat_le_le_nat [of bs]
  by (simp add: rd32_def le32_def unat_of_nat)

lemma le64_rd64: "length bs = 8 \<Longrightarrow> le64 (rd64 bs) = bs"
  using le_nat_bound [of bs] nat_le_le_nat [of bs]
  by (simp add: rd64_def le64_def unat_of_nat)

lemmas le_rd [wire_simps] = le16_rd16 le32_rd32 le64_rd64

section \<open>Reading a sub-range of a buffer\<close>

text \<open>
  \<open>bslice off n buf\<close> is the source operand of \<^verbatim>\<open>memcpy(dst, buf + off, n)\<close>.
\<close>

definition bslice :: "nat \<Rightarrow> nat \<Rightarrow> 'a list \<Rightarrow> 'a list" where
  "bslice off n xs = take n (drop off xs)"

lemma length_bslice: "off + n \<le> length xs \<Longrightarrow> length (bslice off n xs) = n"
  by (simp add: bslice_def)

lemma bslice_append_left:
  "length xs \<le> off \<Longrightarrow> bslice off n (xs @ ys) = bslice (off - length xs) n ys"
  by (simp add: bslice_def)

lemma bslice_append_right:
  "off + n \<le> length xs \<Longrightarrow> bslice off n (xs @ ys) = bslice off n xs"
  by (simp add: bslice_def)

lemma bslice_append_all: "length xs = n \<Longrightarrow> bslice 0 n (xs @ ys) = xs"
  by (simp add: bslice_def)

lemma bslice_all: "n = length xs \<Longrightarrow> bslice 0 n xs = xs"
  by (simp add: bslice_def)

lemma bslice_slice: "off + n \<le> m \<Longrightarrow> bslice off n (bslice b m xs) = bslice (b + off) n xs"
  by (simp add: bslice_def drop_take min_def add.commute)

lemma bslice_join: "bslice a n xs @ bslice (a + n) m xs = bslice a (n + m) xs"
  by (simp add: bslice_def take_add) (simp add: add.commute)

lemma bslice_nth: "i < n \<Longrightarrow> off + n \<le> length xs \<Longrightarrow> bslice off n xs ! i = xs ! (off + i)"
  by (simp add: bslice_def)

lemmas bslice_simps [wire_simps] =
  bslice_append_left bslice_append_right bslice_append_all bslice_all

text \<open>
  \<open>read_array xs n\<close> is the loop \<^verbatim>\<open>for (i = 0; i < n; ++i) ... xs[i]\<close> over a caller's array.
\<close>

definition read_array :: "'a list \<Rightarrow> nat \<Rightarrow> 'a list" where
  "read_array xs n = map (\<lambda>i. xs ! i) [0..<n]"

lemma length_read_array [simp]: "length (read_array xs n) = n"
  by (simp add: read_array_def)

lemma read_array_take: "n \<le> length xs \<Longrightarrow> read_array xs n = take n xs"
  by (simp add: read_array_def list_eq_iff_nth_eq)

lemma read_array_all [simp]: "read_array xs (length xs) = xs"
  by (simp add: read_array_def map_nth)

section \<open>Fixed-size packed structs\<close>

text \<open>
  What a packed wire struct promises: \<open>enc\<close> is its memory image, \<open>dec\<close> the \<^verbatim>\<open>memcpy\<close> back,
  \<open>sz\<close> its \<^verbatim>\<open>sizeof\<close>. The lemmas are about an array of such structs laid out back to back
  after \<open>pre\<close>, read by index as \<^verbatim>\<open>memcpy(&v, base + i * sizeof(T), sizeof(T))\<close>.
\<close>

locale packed_codec =
  fixes enc :: "'a \<Rightarrow> bytes" and dec :: "bytes \<Rightarrow> 'a" and sz :: nat
  assumes enc_length: "length (enc x) = sz"
    and dec_enc: "dec (enc x) = x"
    and enc_dec: "length bs = sz \<Longrightarrow> enc (dec bs) = bs"
begin

lemma enc_inj: "enc x = enc y \<longleftrightarrow> x = y"
  by (metis dec_enc)

lemma array_length: "length (concat (map enc xs)) = sz * length xs"
  by (induction xs) (simp_all add: enc_length)

lemma array_at:
  "i < length xs \<Longrightarrow> dec (bslice (i * sz) sz (concat (map enc xs) @ ys)) = xs ! i"
proof (induction xs arbitrary: i)
  case Nil
  then show ?case by simp
next
  case (Cons x xs)
  show ?case
  proof (cases i)
    case 0
    then show ?thesis by (simp add: bslice_def enc_length dec_enc)
  next
    case (Suc j)
    have "bslice (i * sz) sz (concat (map enc (x # xs)) @ ys)
        = bslice (j * sz) sz (concat (map enc xs) @ ys)"
      by (simp add: Suc bslice_def enc_length)
    with Cons Suc show ?thesis by simp
  qed
qed

lemma array_read:
  "map (\<lambda>i. dec (bslice (i * sz) sz (concat (map enc xs) @ ys))) [0..<length xs] = xs"
  by (rule nth_equalityI) (simp_all add: array_at)

lemma array_write:
  "length bs = sz * n \<Longrightarrow>
   concat (map enc (map (\<lambda>i. dec (bslice (i * sz) sz bs)) [0..<n])) = bs"
proof (induction n arbitrary: bs)
  case 0
  then show ?case by simp
next
  case (Suc n)
  let ?f = "\<lambda>cs i. dec (bslice (i * sz) sz cs)"
  have pre: "length (take (sz * n) bs) = sz * n" and last: "length (bslice (n * sz) sz bs) = sz"
    using Suc.prems by (simp_all add: bslice_def mult.commute)
  have firsts: "map (?f bs) [0..<n] = map (?f (take (sz * n) bs)) [0..<n]"
  proof (rule map_cong [OF refl])
    fix i assume "i \<in> set [0..<n]"
    then have "Suc i * sz \<le> n * sz"
      by (intro mult_le_mono1) simp
    then have "i * sz + sz \<le> sz * n"
      by (simp add: mult.commute)
    then show "?f bs i = ?f (take (sz * n) bs) i"
      by (simp add: bslice_def drop_take min_def)
  qed
  have "concat (map enc (map (?f bs) [0..<Suc n]))
      = concat (map enc (map (?f bs) [0..<n])) @ enc (?f bs n)"
    by simp
  also have "\<dots> = take (sz * n) bs @ bslice (n * sz) sz bs"
    by (simp only: firsts Suc.IH [OF pre] enc_dec [OF last])
  also have "\<dots> = bs"
    using Suc.prems by (simp add: bslice_def mult.commute)
  finally show ?case .
qed

end

interpretation c16: packed_codec le16 rd16 2
  by unfold_locales (simp_all add: wire_simps)

interpretation c32: packed_codec le32 rd32 4
  by unfold_locales (simp_all add: wire_simps)

interpretation c64: packed_codec le64 rd64 8
  by unfold_locales (simp_all add: wire_simps)

text \<open>Splitting a buffer of a known small length into its bytes.\<close>

lemmas list_of_length = length_Suc_conv numeral_eq_Suc

section \<open>Decimal numbers as printf writes them\<close>

fun dec :: "nat \<Rightarrow> string" where
  "dec n = (if n < 10 then [char_of (48 + n)] else dec (n div 10) @ [char_of (48 + n mod 10)])"

declare dec.simps [simp del]

lemma char_of_48: "n < 208 \<Longrightarrow> of_char (char_of (48 + n :: nat)) = 48 + n"
  by (simp add: of_char_of)

text \<open>Reading a string of digits back; no digit is a dot, so dotted numbers can be split.\<close>

definition undec :: "string \<Rightarrow> nat" where
  "undec s = foldl (\<lambda>v c. 10 * v + (of_char c - 48)) 0 s"

lemma undec_dec [simp]: "undec (dec n) = n"
proof (induction n rule: dec.induct)
  case (1 n)
  show ?case
  proof (cases "n < 10")
    case True
    then show ?thesis by (simp add: dec.simps [of n] undec_def)
  next
    case False
    then have "undec (dec (n div 10)) = n div 10" by (rule 1)
    then show ?thesis using False by (simp add: dec.simps [of n] undec_def)
  qed
qed

lemma dec_inj: "dec m = dec n \<longleftrightarrow> m = n"
  by (metis undec_dec)

lemma dec_no_dot: "CHR ''.'' \<notin> set (dec n)"
proof (induction n rule: dec.induct)
  case (1 n)
  have "\<forall>d \<in> set [0..<10]. CHR ''.'' \<noteq> char_of (48 + d :: nat)"
    by code_simp
  then have ne: "CHR ''.'' \<noteq> char_of (48 + d)" if "d < 10" for d :: nat
    using that by simp
  then show ?case
    using 1 ne [of n] ne [of "n mod 10"] by (subst dec.simps) simp
qed

lemma dotted_inj:
  "CHR ''.'' \<notin> set a \<Longrightarrow> CHR ''.'' \<notin> set c \<Longrightarrow> a @ CHR ''.'' # b = c @ CHR ''.'' # d \<longleftrightarrow> a = c \<and> b = d"
proof (induction a arbitrary: c)
  case Nil
  then show ?case by (cases c) auto
next
  case (Cons x a)
  then show ?case by (cases c) auto
qed

section \<open>Decimal numbers\<close>

text \<open>\<^verbatim>\<open>std::to_string\<close> of an unsigned and of a signed number.\<close>

function to_digits :: "nat \<Rightarrow> string" where
  "to_digits n = (if n < 10 then [char_of (48 + n)] else to_digits (n div 10) @ [char_of (48 + n mod 10)])"
  by auto
termination by (relation "measure (\<lambda>n. n)") auto

definition show_int :: "int \<Rightarrow> string" where
  "show_int i = (if i < 0 then ''-'' @ to_digits (nat (- i)) else to_digits (nat i))"

declare to_digits.simps [simp del]

lemma digit_inj: "a < 10 \<Longrightarrow> b < 10 \<Longrightarrow> (char_of (48 + a :: nat) = char_of (48 + b)) = (a = b)"
proof -
  assume "a < 10" "b < 10"
  moreover have "of_char (char_of (48 + x)) = 48 + x" if "x < 10" for x :: nat using that by simp
  ultimately show ?thesis by (metis add_left_cancel)
qed

lemma to_digits_nonempty [simp]: "to_digits n \<noteq> []"
  by (subst to_digits.simps) simp

lemma to_digits_inj: "to_digits m = to_digits n \<Longrightarrow> m = n"
proof (induction m arbitrary: n rule: to_digits.induct)
  case (1 m)
  show ?case
  proof (cases "m < 10")
    case True
    then show ?thesis
      using "1.prems" to_digits.simps [of m] to_digits.simps [of n] to_digits_nonempty [of "n div 10"]
      by (auto simp: digit_inj split: if_splits dest: sym [of "[]"])
  next
    case False
    then have m: "to_digits m = to_digits (m div 10) @ [char_of (48 + m mod 10)]"
      by (subst to_digits.simps) simp
    have "\<not> n < 10"
    proof
      assume "n < 10"
      then have "to_digits n = [char_of (48 + n)]" by (subst to_digits.simps) simp
      then show False using "1.prems" m by simp
    qed
    then have n: "to_digits n = to_digits (n div 10) @ [char_of (48 + n mod 10)]"
      by (subst to_digits.simps) simp
    have "m div 10 = n div 10" using "1.IH" [OF False] "1.prems" m n by simp
    moreover have "m mod 10 = n mod 10" using "1.prems" m n by (simp add: digit_inj)
    ultimately show ?thesis by (metis div_mult_mod_eq)
  qed
qed

end
