(* ===== verification/Wire.thy ===== *)
theory Wire
  imports Relink_Prelude
begin

text \<open>
  The wire structs of \<^verbatim>\<open>cpp/include/relink/wire.hpp\<close>: each is a record with the source's
  fields, its packed memory image (\<open>enc_\<dots>\<close>) and the \<^verbatim>\<open>memcpy\<close> that reads it back (\<open>dec_\<dots>\<close>).
  Every struct is an instance of \<open>packed_codec\<close> at the size its \<^verbatim>\<open>static_assert\<close> states.
\<close>

section \<open>Frame delimiters and flags\<close>

definition kStartByte :: u8 where "kStartByte = 0x23"
definition kStopByte :: u8 where "kStopByte = 0x0A"
definition kFlagSecure :: u8 where "kFlagSecure = 0x01"
definition kFlagChecksum :: u8 where "kFlagChecksum = 0x02"
definition kNatPunchTopicId :: u32 where "kNatPunchTopicId = 0xFFFFFFFF"
definition kAuthTagBytes :: nat where "kAuthTagBytes = 16"
definition kChecksumBytes :: nat where "kChecksumBytes = 2"

section \<open>RelinkHeader and SecureExt\<close>

record RelinkHeader =
  hdr_topic_id :: u32
  hdr_seq_num :: u16
  hdr_payload_len :: u16
  hdr_flags :: u8

definition enc_RelinkHeader :: "RelinkHeader \<Rightarrow> bytes" where
  "enc_RelinkHeader h =
     le32 (hdr_topic_id h) @ le16 (hdr_seq_num h) @ le16 (hdr_payload_len h) @ [hdr_flags h]"

definition dec_RelinkHeader :: "bytes \<Rightarrow> RelinkHeader" where
  "dec_RelinkHeader b =
     \<lparr>hdr_topic_id = rd32 (bslice 0 4 b), hdr_seq_num = rd16 (bslice 4 2 b),
      hdr_payload_len = rd16 (bslice 6 2 b), hdr_flags = b ! 8\<rparr>"

definition sizeof_RelinkHeader :: nat where "sizeof_RelinkHeader = 9"

record SecureExt =
  se_session_id :: u32
  se_nonce_counter :: u32

definition enc_SecureExt :: "SecureExt \<Rightarrow> bytes" where
  "enc_SecureExt e = le32 (se_session_id e) @ le32 (se_nonce_counter e)"

definition dec_SecureExt :: "bytes \<Rightarrow> SecureExt" where
  "dec_SecureExt b =
     \<lparr>se_session_id = rd32 (bslice 0 4 b), se_nonce_counter = rd32 (bslice 4 4 b)\<rparr>"

section \<open>Discovery packets: RegisterRequest, RegisterAck, Beacon\<close>

record RegisterRequestHeader =
  rq_node_ip :: u32
  rq_node_port :: u16
  rq_topic_count :: u16

definition enc_RegisterRequestHeader :: "RegisterRequestHeader \<Rightarrow> bytes" where
  "enc_RegisterRequestHeader h =
     le32 (rq_node_ip h) @ le16 (rq_node_port h) @ le16 (rq_topic_count h)"

definition dec_RegisterRequestHeader :: "bytes \<Rightarrow> RegisterRequestHeader" where
  "dec_RegisterRequestHeader b =
     \<lparr>rq_node_ip = rd32 (bslice 0 4 b), rq_node_port = rd16 (bslice 4 2 b),
      rq_topic_count = rd16 (bslice 6 2 b)\<rparr>"

record RegisterAckHeader =
  ah_status :: u8
  ah_peer_count :: u16

definition enc_RegisterAckHeader :: "RegisterAckHeader \<Rightarrow> bytes" where
  "enc_RegisterAckHeader h = [ah_status h] @ le16 (ah_peer_count h)"

definition dec_RegisterAckHeader :: "bytes \<Rightarrow> RegisterAckHeader" where
  "dec_RegisterAckHeader b = \<lparr>ah_status = b ! 0, ah_peer_count = rd16 (bslice 1 2 b)\<rparr>"

record RegisterAckPeer =
  ap_ip :: u32
  ap_port :: u16
  ap_topic_id :: u32
  ap_lan_ip :: u32
  ap_lan_port :: u16

definition enc_RegisterAckPeer :: "RegisterAckPeer \<Rightarrow> bytes" where
  "enc_RegisterAckPeer p =
     le32 (ap_ip p) @ le16 (ap_port p) @ le32 (ap_topic_id p) @ le32 (ap_lan_ip p)
     @ le16 (ap_lan_port p)"

definition dec_RegisterAckPeer :: "bytes \<Rightarrow> RegisterAckPeer" where
  "dec_RegisterAckPeer b =
     \<lparr>ap_ip = rd32 (bslice 0 4 b), ap_port = rd16 (bslice 4 2 b),
      ap_topic_id = rd32 (bslice 6 4 b), ap_lan_ip = rd32 (bslice 10 4 b),
      ap_lan_port = rd16 (bslice 14 2 b)\<rparr>"

record BeaconPacketHeader =
  bh_node_ip :: u32
  bh_node_port :: u16
  bh_topic_count :: u16

definition enc_BeaconPacketHeader :: "BeaconPacketHeader \<Rightarrow> bytes" where
  "enc_BeaconPacketHeader h =
     le32 (bh_node_ip h) @ le16 (bh_node_port h) @ le16 (bh_topic_count h)"

definition dec_BeaconPacketHeader :: "bytes \<Rightarrow> BeaconPacketHeader" where
  "dec_BeaconPacketHeader b =
     \<lparr>bh_node_ip = rd32 (bslice 0 4 b), bh_node_port = rd16 (bslice 4 2 b),
      bh_topic_count = rd16 (bslice 6 2 b)\<rparr>"

section \<open>Arrays with a length prefix\<close>

record MultiArrayHeader =
  ma_count :: u32

definition enc_MultiArrayHeader :: "MultiArrayHeader \<Rightarrow> bytes" where
  "enc_MultiArrayHeader h = le32 (ma_count h)"

definition dec_MultiArrayHeader :: "bytes \<Rightarrow> MultiArrayHeader" where
  "dec_MultiArrayHeader b = \<lparr>ma_count = rd32 (bslice 0 4 b)\<rparr>"

section \<open>Every wire struct is a packed codec of its asserted size\<close>

lemmas struct_defs =
  enc_RelinkHeader_def dec_RelinkHeader_def enc_SecureExt_def dec_SecureExt_def
  enc_RegisterRequestHeader_def dec_RegisterRequestHeader_def
  enc_RegisterAckHeader_def dec_RegisterAckHeader_def
  enc_RegisterAckPeer_def dec_RegisterAckPeer_def
  enc_BeaconPacketHeader_def dec_BeaconPacketHeader_def
  enc_MultiArrayHeader_def dec_MultiArrayHeader_def

interpretation relink_header: packed_codec enc_RelinkHeader dec_RelinkHeader 9
proof unfold_locales
  fix bs :: bytes assume "length bs = 9"
  then show "enc_RelinkHeader (dec_RelinkHeader bs) = bs"
    by (auto simp: struct_defs list_of_length bslice_def le16_rd16 le32_rd32)
qed (simp_all add: struct_defs bslice_def nth_append)

interpretation secure_ext: packed_codec enc_SecureExt dec_SecureExt 8
proof unfold_locales
  fix bs :: bytes assume "length bs = 8"
  then show "enc_SecureExt (dec_SecureExt bs) = bs"
    by (auto simp: struct_defs list_of_length bslice_def le32_rd32)
qed (simp_all add: struct_defs bslice_def)

interpretation register_request_header:
  packed_codec enc_RegisterRequestHeader dec_RegisterRequestHeader 8
proof unfold_locales
  fix bs :: bytes assume "length bs = 8"
  then show "enc_RegisterRequestHeader (dec_RegisterRequestHeader bs) = bs"
    by (auto simp: struct_defs list_of_length bslice_def le16_rd16 le32_rd32)
qed (simp_all add: struct_defs bslice_def)

interpretation register_ack_header: packed_codec enc_RegisterAckHeader dec_RegisterAckHeader 3
proof unfold_locales
  fix bs :: bytes assume "length bs = 3"
  then show "enc_RegisterAckHeader (dec_RegisterAckHeader bs) = bs"
    by (auto simp: struct_defs list_of_length bslice_def le16_rd16)
qed (simp_all add: struct_defs bslice_def)

interpretation register_ack_peer: packed_codec enc_RegisterAckPeer dec_RegisterAckPeer 16
proof unfold_locales
  fix bs :: bytes assume "length bs = 16"
  then show "enc_RegisterAckPeer (dec_RegisterAckPeer bs) = bs"
    by (auto simp: struct_defs list_of_length bslice_def le16_rd16 le32_rd32)
qed (simp_all add: struct_defs bslice_def)

interpretation beacon_packet_header: packed_codec enc_BeaconPacketHeader dec_BeaconPacketHeader 8
proof unfold_locales
  fix bs :: bytes assume "length bs = 8"
  then show "enc_BeaconPacketHeader (dec_BeaconPacketHeader bs) = bs"
    by (auto simp: struct_defs list_of_length bslice_def le16_rd16 le32_rd32)
qed (simp_all add: struct_defs bslice_def)

interpretation multi_array_header: packed_codec enc_MultiArrayHeader dec_MultiArrayHeader 4
proof unfold_locales
  fix bs :: bytes assume "length bs = 4"
  then show "enc_MultiArrayHeader (dec_MultiArrayHeader bs) = bs"
    by (auto simp: struct_defs list_of_length bslice_def le32_rd32)
qed (simp_all add: struct_defs bslice_def)

lemmas struct_lengths [simp] =
  relink_header.enc_length secure_ext.enc_length register_request_header.enc_length
  register_ack_header.enc_length register_ack_peer.enc_length beacon_packet_header.enc_length

lemmas struct_round_trips [simp] =
  relink_header.dec_enc secure_ext.dec_enc register_request_header.dec_enc
  register_ack_header.dec_enc register_ack_peer.dec_enc beacon_packet_header.dec_enc

section \<open>A header followed by a counted array\<close>

text \<open>
  Requests, acks and beacons all have the layout \<open>header @ array\<close>, where the header carries the
  element count. The interface takes the two packed codecs and gives what every decoder of such
  a packet needs: the header read back, the elements read back by index behind any trailing
  bytes, and the uniqueness of the image of a buffer of the exact length.
\<close>

locale counted_packet =
  hd: packed_codec henc hdec hsz + el: packed_codec eenc edec esz
  for henc :: "'h \<Rightarrow> bytes" and hdec and hsz and eenc :: "'e \<Rightarrow> bytes" and edec and esz
begin

lemma image_length: "length (henc h @ concat (map eenc xs)) = hsz + length xs * esz"
  by (simp add: hd.enc_length el.array_length mult.commute)

lemma image_header: "hdec (bslice 0 hsz (henc h @ rest)) = h"
  by (simp add: bslice_def hd.enc_length hd.dec_enc)

lemma image_rest: "drop hsz (henc h @ rest) = rest"
  by (simp add: hd.enc_length)

lemma image_elem:
  "i < length xs \<Longrightarrow>
   edec (bslice (i * esz) esz (drop hsz (henc h @ concat (map eenc xs) @ rest))) = xs ! i"
  by (simp only: image_rest el.array_at)

lemma image_unique:
  assumes "length buf = hsz + n * esz"
  shows "buf = henc (hdec (bslice 0 hsz buf)) @
    concat (map eenc (map (\<lambda>i. edec (bslice (i * esz) esz (drop hsz buf))) [0..<n]))"
proof -
  have "henc (hdec (bslice 0 hsz buf)) = take hsz buf"
    using assms by (simp add: bslice_def hd.enc_dec)
  moreover have "concat (map eenc (map (\<lambda>i. edec (bslice (i * esz) esz (drop hsz buf))) [0..<n]))
      = drop hsz buf"
    using assms by (intro el.array_write) (simp add: mult.commute)
  ultimately show ?thesis by simp
qed

end

interpretation request_packet:
  counted_packet enc_RegisterRequestHeader dec_RegisterRequestHeader 8 le32 rd32 4 ..

interpretation ack_packet:
  counted_packet enc_RegisterAckHeader dec_RegisterAckHeader 3
    enc_RegisterAckPeer dec_RegisterAckPeer 16 ..

interpretation beacon_packet:
  counted_packet enc_BeaconPacketHeader dec_BeaconPacketHeader 8 le32 rd32 4 ..

text \<open>A \<^verbatim>\<open>MultiArray\<close> of words; the count is not a field the header computes, the caller stores it.\<close>

interpretation word_array:
  counted_packet enc_MultiArrayHeader dec_MultiArrayHeader 4 le32 rd32 4 ..

end
