(* ===== verification/Frame.thy ===== *)
theory Frame
  imports Wire
begin

text \<open>
  Frame encoding and decoding, \<^verbatim>\<open>cpp/include/relink/frame.hpp\<close>. A frame is the start byte, the
  9-byte header, the payload and the stop byte. The out-parameters of the C++ functions are
  the result: \<open>Inr\<close> carries what \<^verbatim>\<open>Ok\<close> leaves in them, \<open>Inl\<close> the other enumerators. The
  encoder's result is the prefix of \<^verbatim>\<open>out\<close> of length \<^verbatim>\<open>*out_len\<close>.
\<close>

definition kMaxPayloadBytes :: nat where "kMaxPayloadBytes = 1400"
definition kMaxFrameBytes :: nat where
  "kMaxFrameBytes = 1 + sizeof_RelinkHeader + kMaxPayloadBytes + 1"

datatype EncodeResult = PayloadTooLarge

datatype DecodeResult = TooShort | BadStartByte | BadStopByte | LengthMismatch

record DecodedFrame =
  df_header :: RelinkHeader
  df_payload :: bytes
  df_payload_len :: nat

definition encode_frame :: "u32 \<Rightarrow> u16 \<Rightarrow> bytes \<Rightarrow> nat \<Rightarrow> EncodeResult + bytes" where
  "encode_frame topic_id seq_num payload out_capacity =
     (let payload_len = length payload;
          frame_len = 1 + sizeof_RelinkHeader + payload_len + 1 in
      if payload_len > kMaxPayloadBytes then Inl PayloadTooLarge
      else if out_capacity < frame_len then Inl PayloadTooLarge
      else
        let header = \<lparr>hdr_topic_id = topic_id, hdr_seq_num = seq_num,
                      hdr_payload_len = word_of_nat payload_len, hdr_flags = 0\<rparr>
        in Inr ([kStartByte] @ enc_RelinkHeader header @ payload @ [kStopByte]))"

definition decode_frame :: "bytes \<Rightarrow> DecodeResult + DecodedFrame" where
  "decode_frame buf =
     (let len = length buf; kMinFrame = 1 + sizeof_RelinkHeader + 1 in
      if len < kMinFrame then Inl TooShort
      else if buf ! 0 \<noteq> kStartByte then Inl BadStartByte
      else
        let header = dec_RelinkHeader (bslice 1 sizeof_RelinkHeader buf) in
        if hdr_flags header \<noteq> 0 then Inl LengthMismatch
        else
          let payload_off = 1 + sizeof_RelinkHeader;
              stop_off = payload_off + unat (hdr_payload_len header) in
          if stop_off \<ge> len then Inl LengthMismatch
          else if stop_off + 1 \<noteq> len then Inl LengthMismatch
          else if buf ! stop_off \<noteq> kStopByte then Inl BadStopByte
          else Inr \<lparr>df_header = header,
                    df_payload = bslice payload_off (unat (hdr_payload_len header)) buf,
                    df_payload_len = unat (hdr_payload_len header)\<rparr>)"

section \<open>The frame of a message, and its decoding\<close>

text \<open>
  The specification: the bytes of the frame of a message whose length fits the 16-bit length
  field, and the value a receiver is to see for it.
\<close>

definition frame_header :: "u32 \<Rightarrow> u16 \<Rightarrow> nat \<Rightarrow> RelinkHeader" where
  "frame_header topic_id seq_num n =
     \<lparr>hdr_topic_id = topic_id, hdr_seq_num = seq_num, hdr_payload_len = word_of_nat n,
      hdr_flags = 0\<rparr>"

definition frame_bytes :: "u32 \<Rightarrow> u16 \<Rightarrow> bytes \<Rightarrow> bytes" where
  "frame_bytes topic_id seq_num payload =
     kStartByte # enc_RelinkHeader (frame_header topic_id seq_num (length payload))
       @ payload @ [kStopByte]"

definition frame_value :: "u32 \<Rightarrow> u16 \<Rightarrow> bytes \<Rightarrow> DecodedFrame" where
  "frame_value topic_id seq_num payload =
     \<lparr>df_header = frame_header topic_id seq_num (length payload), df_payload = payload,
      df_payload_len = length payload\<rparr>"

lemmas frame_consts =
  kMaxPayloadBytes_def kMaxFrameBytes_def sizeof_RelinkHeader_def

lemma length_frame_bytes [simp]: "length (frame_bytes t s p) = length p + 11"
  by (simp add: frame_bytes_def)

lemma frame_value_simps [simp]:
  "df_payload (frame_value t s p) = p"
  "hdr_topic_id (df_header (frame_value t s p)) = t"
  "hdr_seq_num (df_header (frame_value t s p)) = s"
  "hdr_flags (df_header (frame_value t s p)) = 0"
  "df_payload_len (frame_value t s p) = length p"
  by (simp_all add: frame_value_def frame_header_def)

lemma encode_frame_eq:
  "encode_frame t s p cap =
     (if length p > 1400 \<or> cap < length p + 11 then Inl PayloadTooLarge
      else Inr (frame_bytes t s p))"
  by (auto simp: encode_frame_def frame_bytes_def frame_header_def frame_consts Let_def)

lemma decode_frame_bytes:
  assumes "length p < 65536"
  shows "decode_frame (frame_bytes t s p) = Inr (frame_value t s p)"
proof -
  have len: "unat (word_of_nat (length p) :: u16) = length p"
    using assms by (simp add: unat_of_nat)
  have hdr: "dec_RelinkHeader (bslice (Suc 0) 9 (frame_bytes t s p)) = frame_header t s (length p)"
    by (simp add: frame_bytes_def bslice_def)
  have stop: "frame_bytes t s p ! (10 + length p) = kStopByte"
    by (simp add: frame_bytes_def nth_append)
  have pay: "bslice 10 (length p) (frame_bytes t s p) = p"
    by (simp add: frame_bytes_def bslice_def)
  have start: "frame_bytes t s p ! 0 = kStartByte"
    by (simp add: frame_bytes_def)
  show ?thesis
    unfolding decode_frame_def Let_def sizeof_RelinkHeader_def
    by (simp add: hdr start) (simp add: frame_header_def frame_value_def len stop pay)
qed

lemma decode_frame_sound:
  assumes "decode_frame buf = Inr f"
  obtains t s p where "buf = frame_bytes t s p" and "length p < 65536" and "f = frame_value t s p"
proof -
  let ?h = "dec_RelinkHeader (bslice 1 9 buf)"
  let ?n = "unat (hdr_payload_len ?h)"
  from assms have len: "length buf = ?n + 11" and start: "buf ! 0 = kStartByte"
    and flags: "hdr_flags ?h = 0" and stop: "buf ! (10 + ?n) = kStopByte"
    and f: "f = \<lparr>df_header = ?h, df_payload = bslice 10 ?n buf, df_payload_len = ?n\<rparr>"
    by (simp_all add: decode_frame_def Let_def sizeof_RelinkHeader_def split: if_splits)
  let ?p = "bslice 10 ?n buf"
  have lenp: "length ?p = ?n"
    by (rule length_bslice) (simp add: len)
  have n: "?n < 65536"
    using unsigned_less [of "hdr_payload_len ?h", where ?'a = nat] by simp
  have h: "?h = frame_header (hdr_topic_id ?h) (hdr_seq_num ?h) ?n"
    using flags by (simp add: frame_header_def)
  have "enc_RelinkHeader ?h = bslice 1 9 buf"
    by (intro relink_header.enc_dec length_bslice) (simp add: len)
  moreover have "buf = buf ! 0 # bslice 1 9 buf @ ?p @ [buf ! (10 + ?n)]"
  proof -
    have "buf = bslice 0 (1 + (9 + (?n + 1))) buf"
      by (rule bslice_all [symmetric]) (simp add: len)
    also have "\<dots> = bslice 0 1 buf @ bslice 1 9 buf @ bslice 10 ?n buf @ bslice (10 + ?n) 1 buf"
      by (simp only: bslice_join [symmetric]) simp
    also have "bslice 0 1 buf = [buf ! 0]"
      using len by (cases buf) (simp_all add: bslice_def [of 0])
    also have "bslice (10 + ?n) 1 buf = [buf ! (10 + ?n)]"
      by (rule nth_equalityI) (simp_all add: length_bslice bslice_nth len)
    finally show ?thesis by simp
  qed
  ultimately have "buf = frame_bytes (hdr_topic_id ?h) (hdr_seq_num ?h) ?p"
    using start stop lenp h by (simp add: frame_bytes_def)
  moreover have "f = frame_value (hdr_topic_id ?h) (hdr_seq_num ?h) ?p"
    using f lenp h by (simp add: frame_value_def)
  ultimately show thesis
    using that n lenp by metis
qed

lemma decode_frame_iff:
  "decode_frame buf = Inr f \<longleftrightarrow>
   (\<exists>t s p. length p < 65536 \<and> buf = frame_bytes t s p \<and> f = frame_value t s p)"
  by (metis decode_frame_bytes decode_frame_sound)

text \<open>
  C9: Encoding never truncates: either the payload is over 1400 bytes or the buffer too small,
  and the call is refused, or the frame is at most 1411 bytes, fits the buffer, and decodes to the
  topic id, sequence number and payload it was made from.
\<close>

theorem frame_round_trip:
  "case encode_frame topic_id seq_num payload out_capacity of
     Inl _ \<Rightarrow> length payload > kMaxPayloadBytes \<or> out_capacity < length payload + 11
   | Inr pkt \<Rightarrow> length pkt \<le> kMaxFrameBytes \<and> length pkt \<le> out_capacity \<and>
       (\<exists>f. decode_frame pkt = Inr f \<and> hdr_topic_id (df_header f) = topic_id \<and>
            hdr_seq_num (df_header f) = seq_num \<and> df_payload f = payload)"
  using decode_frame_bytes [of payload topic_id seq_num]
  by (auto simp: encode_frame_eq frame_consts)

text \<open>
  The decoder accepts nothing but frames: a buffer it accepts with a payload of at most 1400
  bytes is, byte for byte, the encoding of the decoded topic id, sequence number and payload, so no
  byte of the buffer is ignored.
\<close>

theorem frame_decode_unique:
  assumes "decode_frame buf = Inr f" and "df_payload_len f \<le> 1400"
  shows "encode_frame (hdr_topic_id (df_header f)) (hdr_seq_num (df_header f)) (df_payload f)
           (length buf) = Inr buf"
proof -
  obtain t s p where "buf = frame_bytes t s p" "f = frame_value t s p"
    using decode_frame_sound [OF assms(1)] by blast
  with assms(2) show ?thesis by (simp add: encode_frame_eq)
qed

theorem frame_decode_unique_witness:
  "encode_frame 5 6 [7] (length (frame_bytes 5 6 [7])) = Inr (frame_bytes 5 6 [7])"
  using frame_decode_unique [of "frame_bytes 5 6 [7]" "frame_value 5 6 [7]"]
    decode_frame_bytes [of "[7]" 5 6] by simp

end
