(* ===== verification/Topic_Hash.thy ===== *)
theory Topic_Hash
  imports Relink_Prelude
begin

text \<open>
  Topic names to 32-bit topic ids: FNV-1a, \<^verbatim>\<open>cpp/include/relink/topic_hash.hpp\<close>. A
  \<^verbatim>\<open>std::string\<close> is the list of its bytes; the multiplication wraps at 32 bits.
\<close>

fun fnv1a32_loop :: "u32 \<Rightarrow> bytes \<Rightarrow> u32" where
  "fnv1a32_loop hash [] = hash"
| "fnv1a32_loop hash (b # bs) = fnv1a32_loop ((hash XOR ucast b) * 0x01000193) bs"

definition fnv1a32 :: "bytes \<Rightarrow> u32" where
  "fnv1a32 data = fnv1a32_loop 0x811c9dc5 data"

lemma fnv1a32_loop_append:
  "fnv1a32_loop h (xs @ ys) = fnv1a32_loop (fnv1a32_loop h xs) ys"
  by (induction h xs rule: fnv1a32_loop.induct) simp_all

text \<open>
  The FNV prime is odd, so a step is a bijection of the 32-bit states: the inverse multiplies by
  the inverse of the prime modulo \<open>2 ^ 32\<close>. Hence two names of which one is the other with its
  prefix replaced by one of the same hash collide exactly when the prefixes do.
\<close>

lemma fnv_prime_inverse: "(0x01000193 :: u32) * 0x359c449b = 1"
  by simp

lemma fnv_mult_cancel: "(a :: u32) * 0x01000193 = b * 0x01000193 \<longleftrightarrow> a = b"
proof
  assume "a * 0x01000193 = b * 0x01000193"
  then have "(a * 0x01000193) * 0x359c449b = (b * 0x01000193) * 0x359c449b"
    by (rule arg_cong)
  then have "a * (0x01000193 * 0x359c449b) = b * (0x01000193 * 0x359c449b)"
    by (simp only: mult.assoc)
  then show "a = b" by (simp only: fnv_prime_inverse mult_1_right)
qed simp

lemma xor_right_cancel: "(a :: u32) XOR c = b XOR c \<longleftrightarrow> a = b"
proof
  assume "a XOR c = b XOR c"
  then have "(a XOR c) XOR c = (b XOR c) XOR c" by simp
  then show "a = b" by (simp only: xor.assoc xor_self_eq xor.right_neutral)
qed simp

lemma fnv1a32_loop_inj: "fnv1a32_loop a bs = fnv1a32_loop b bs \<longleftrightarrow> a = b"
  by (induction bs arbitrary: a b) (simp_all add: fnv_mult_cancel xor_right_cancel)

lemma ucast_byte_inj: "(ucast (a :: u8) :: u32) = ucast b \<longleftrightarrow> a = b"
proof
  assume "(ucast a :: u32) = ucast b"
  then have "(ucast (ucast a :: u32) :: u8) = ucast (ucast b :: u32)" by simp
  then show "a = b" by (simp add: ucast_down_ucast_id is_down)
qed simp

text \<open>
  Two topic names that differ in a single byte never share a topic id.
\<close>

theorem fnv1a32_byte_differs:
  assumes "c \<noteq> d"
  shows "fnv1a32 (pre @ [c] @ suf) \<noteq> fnv1a32 (pre @ [d] @ suf)"
proof -
  have "s XOR ucast c \<noteq> s XOR (ucast d :: u32)" for s :: u32
    using assms by (metis ucast_byte_inj xor_right_cancel xor.commute)
  then show ?thesis
    by (simp add: fnv1a32_def fnv1a32_loop_append fnv1a32_loop_inj fnv_mult_cancel)
qed

theorem fnv1a32_byte_differs_witness:
  "fnv1a32 ([0x61] @ [0x62] @ [0x63]) \<noteq> fnv1a32 ([0x61] @ [0x64] @ [0x63])"
  by (rule fnv1a32_byte_differs) simp

end
