(* ===== verification/Ring_Buffer.thy ===== *)
theory Ring_Buffer
  imports Relink_Prelude
begin

text \<open>
  The fixed-capacity drop-oldest ring buffer, \<^verbatim>\<open>cpp/include/relink/ring_buffer.hpp\<close>. The template
  parameter \<^verbatim>\<open>Capacity\<close> is the length of \<open>rb_data\<close>, as \<^verbatim>\<open>std::array\<close> has it; indices are below it,
  so \<^verbatim>\<open>size_t\<close> never wraps. The contract of a lossy FIFO is a locale over an abstraction to lists;
  the class is its interpretation.
\<close>

record 'a RingBuffer =
  rb_data :: "'a list"
  rb_head :: nat
  rb_tail :: nat
  rb_count :: nat

definition rb_new :: "'a \<Rightarrow> nat \<Rightarrow> 'a RingBuffer" where
  "rb_new zero Capacity =
     \<lparr>rb_data = replicate Capacity zero, rb_head = 0, rb_tail = 0, rb_count = 0\<rparr>"

definition rb_capacity :: "'a RingBuffer \<Rightarrow> nat" where
  "rb_capacity b = length (rb_data b)"

definition rb_push :: "'a \<Rightarrow> 'a RingBuffer \<Rightarrow> bool \<times> 'a RingBuffer" where
  "rb_push v b =
     (let Capacity = rb_capacity b;
          dropped = (rb_count b = Capacity);
          b1 = (if dropped then b\<lparr>rb_head := (rb_head b + 1) mod Capacity\<rparr>
                else b\<lparr>rb_count := rb_count b + 1\<rparr>);
          b2 = b1\<lparr>rb_data := (rb_data b1)[rb_tail b1 := v]\<rparr>
      in (dropped, b2\<lparr>rb_tail := (rb_tail b2 + 1) mod Capacity\<rparr>))"

definition rb_pop :: "'a RingBuffer \<Rightarrow> 'a option \<times> 'a RingBuffer" where
  "rb_pop b =
     (if rb_count b = 0 then (None, b)
      else (Some (rb_data b ! rb_head b),
            b\<lparr>rb_head := (rb_head b + 1) mod rb_capacity b, rb_count := rb_count b - 1\<rparr>))"

definition rb_size :: "'a RingBuffer \<Rightarrow> nat" where "rb_size b = rb_count b"
definition rb_empty :: "'a RingBuffer \<Rightarrow> bool" where "rb_empty b \<longleftrightarrow> rb_count b = 0"
definition rb_full :: "'a RingBuffer \<Rightarrow> bool" where "rb_full b \<longleftrightarrow> rb_count b = rb_capacity b"

definition rb_clear :: "'a RingBuffer \<Rightarrow> 'a RingBuffer" where
  "rb_clear b = b\<lparr>rb_head := 0, rb_tail := 0, rb_count := 0\<rparr>"

section \<open>The contract: a FIFO that drops its oldest element\<close>

text \<open>
  \<open>absq\<close> reads the queue as a list, oldest first. A push into a full queue loses the head of the
  list and reports it; nothing else is ever lost, and pop returns the head.
\<close>

locale lossy_fifo =
  fixes wf :: "'q \<Rightarrow> bool" and absq :: "'q \<Rightarrow> 'a list" and cap :: "'q \<Rightarrow> nat"
    and push :: "'a \<Rightarrow> 'q \<Rightarrow> bool \<times> 'q" and pop :: "'q \<Rightarrow> 'a option \<times> 'q"
  assumes fits: "wf q \<Longrightarrow> length (absq q) \<le> cap q"
    and push_wf: "wf q \<Longrightarrow> wf (snd (push x q))"
    and push_cap: "wf q \<Longrightarrow> cap (snd (push x q)) = cap q"
    and push_dropped: "wf q \<Longrightarrow> fst (push x q) \<longleftrightarrow> length (absq q) = cap q"
    and push_abs: "wf q \<Longrightarrow> absq (snd (push x q)) =
      (if length (absq q) = cap q then tl (absq q) else absq q) @ [x]"
    and pop_wf: "wf q \<Longrightarrow> wf (snd (pop q))"
    and pop_fst: "wf q \<Longrightarrow> fst (pop q) = (case absq q of [] \<Rightarrow> None | x # _ \<Rightarrow> Some x)"
    and pop_abs: "wf q \<Longrightarrow> absq (snd (pop q)) = tl (absq q)"
    and pop_cap: "wf q \<Longrightarrow> cap (snd (pop q)) = cap q"
    and cap_pos: "wf q \<Longrightarrow> 0 < cap q"
begin

text \<open>Pushing a run of elements leaves the newest \<open>cap\<close> of old and new together.\<close>

definition push_all :: "'a list \<Rightarrow> 'q \<Rightarrow> 'q" where
  "push_all xs q = fold (\<lambda>x q. snd (push x q)) xs q"

definition newest :: "nat \<Rightarrow> 'a list \<Rightarrow> 'a list" where
  "newest n xs = drop (length xs - n) xs"

lemma newest_snoc: "length ys \<le> n \<Longrightarrow> 0 < n \<Longrightarrow>
  newest n ((if length ys = n then tl ys else ys) @ x # xs) = newest n (ys @ x # xs)"
proof (cases "length ys = n")
  case True
  then show "0 < n \<Longrightarrow> ?thesis"
    by (cases ys) (auto simp: newest_def Suc_diff_le)
qed simp

lemma push_all_abs:
  "wf q \<Longrightarrow> wf (push_all xs q) \<and> cap (push_all xs q) = cap q \<and>
     absq (push_all xs q) = newest (cap q) (absq q @ xs)"
proof (induction xs arbitrary: q)
  case Nil
  then show ?case using fits [of q] by (simp add: push_all_def newest_def)
next
  case (Cons x xs)
  let ?q = "snd (push x q)"
  have "push_all (x # xs) q = push_all xs ?q"
    by (simp add: push_all_def)
  moreover have "newest (cap q) (absq ?q @ xs) = newest (cap q) (absq q @ x # xs)"
    using Cons.prems newest_snoc [OF fits cap_pos] by (simp add: push_abs split: if_splits)
  ultimately show ?case
    using Cons.IH [of ?q] Cons.prems push_wf push_cap by simp
qed

text \<open>Popping until the queue is empty returns its elements in order.\<close>

fun pop_n :: "nat \<Rightarrow> 'q \<Rightarrow> 'a option list" where
  "pop_n 0 q = []"
| "pop_n (Suc n) q = fst (pop q) # pop_n n (snd (pop q))"

lemma pop_n_abs: "wf q \<Longrightarrow> pop_n (length (absq q)) q = map Some (absq q)"
proof (induction "absq q" arbitrary: q)
  case Nil
  then show ?case using Nil.hyps by (metis list.size(3) list.simps(8) pop_n.simps(1))
next
  case (Cons x xs)
  have step: "fst (pop q) = Some x" "absq (snd (pop q)) = xs" "wf (snd (pop q))"
    using Cons.prems pop_fst [of q] pop_abs [of q] pop_wf [of q] Cons.hyps(2) [symmetric] by simp_all
  from Cons.hyps(1) [OF step(2) [symmetric] step(3)] step
  show ?case by (simp add: Cons.hyps(2) [symmetric])
qed

end

section \<open>RingBuffer meets the contract\<close>

definition rb_wf :: "'a RingBuffer \<Rightarrow> bool" where
  "rb_wf b \<longleftrightarrow> 0 < rb_capacity b \<and> rb_head b < rb_capacity b \<and> rb_count b \<le> rb_capacity b \<and>
     rb_tail b = (rb_head b + rb_count b) mod rb_capacity b"

definition rb_list :: "'a RingBuffer \<Rightarrow> 'a list" where
  "rb_list b = map (\<lambda>i. rb_data b ! ((rb_head b + i) mod rb_capacity b)) [0..<rb_count b]"

lemmas rb_ops =
  rb_push_def rb_pop_def rb_clear_def rb_size_def rb_empty_def rb_full_def rb_capacity_def Let_def

lemma length_rb_list [simp]: "length (rb_list b) = rb_count b"
  by (simp add: rb_list_def)

lemma rb_new_wf [simp]: "0 < n \<Longrightarrow> rb_wf (rb_new z n)"
  by (simp add: rb_new_def rb_wf_def rb_capacity_def)

lemma rb_new_list [simp]: "rb_list (rb_new z n) = []"
  by (simp add: rb_new_def rb_list_def)

lemma rb_clear_wf: "rb_wf b \<Longrightarrow> rb_wf (rb_clear b) \<and> rb_list (rb_clear b) = []"
  by (simp add: rb_wf_def rb_list_def rb_ops)

lemma mod_shift_ne:
  assumes "i < j" "j < (c :: nat)"
  shows "(h + i) mod c \<noteq> (h + j) mod c"
proof
  assume "(h + i) mod c = (h + j) mod c"
  then have "c dvd (h + j) - (h + i)"
    using assms(1) by (metis mod_eq_dvd_iff_nat add_le_cancel_left less_imp_le)
  then have "c dvd j - i" by simp
  then show False using assms dvd_imp_le [of c "j - i"] by simp
qed

lemma rb_push_abs:
  assumes wf: "rb_wf b"
  shows "rb_list (snd (rb_push v b)) =
    (if rb_count b = rb_capacity b then tl (rb_list b) else rb_list b) @ [v]"
proof (cases "rb_count b = rb_capacity b")
  case False
  let ?c = "rb_capacity b" and ?h = "rb_head b" and ?n = "rb_count b"
  have tl: "rb_tail b = (?h + ?n) mod ?c" and lt: "?n < ?c" and len: "length (rb_data b) = ?c"
    using wf False by (auto simp: rb_wf_def rb_capacity_def)
  have "rb_list (snd (rb_push v b))
      = map (\<lambda>i. (rb_data b)[(?h + ?n) mod ?c := v] ! ((?h + i) mod ?c)) [0..<Suc ?n]"
    using False tl by (simp add: rb_push_def rb_list_def rb_capacity_def Let_def)
  also have "\<dots> = rb_list b @ [v]"
    using lt len mod_shift_ne [of _ ?n ?c ?h, THEN not_sym]
    by (auto simp: rb_list_def)
  finally show ?thesis using False by simp
next
  case True
  let ?c = "rb_capacity b" and ?h = "rb_head b"
  have tl: "rb_tail b = ?h" and pos: "0 < ?c" and len: "length (rb_data b) = ?c" and h: "?h < ?c"
    using wf True by (auto simp: rb_wf_def rb_capacity_def)
  obtain m where c: "?c = Suc m" using pos by (cases ?c) auto
  have "rb_list (snd (rb_push v b))
      = map (\<lambda>i. (rb_data b)[?h := v] ! ((?h + 1 + i) mod ?c)) [0..<Suc m]"
    using True tl c
    by (simp add: rb_push_def rb_list_def rb_capacity_def Let_def mod_add_left_eq del: upt_Suc)
  also have "\<dots> = map (\<lambda>i. rb_data b ! ((?h + 1 + i) mod ?c)) [0..<m] @ [v]"
  proof -
    have "?h + 1 + m = ?h + ?c" using c by simp
    then have "(?h + 1 + m) mod ?c = ?h" using h by (simp only: mod_add_self2 mod_less)
    moreover have "?h \<noteq> (?h + 1 + i) mod ?c" if "i < m" for i
      using mod_shift_ne [of 0 "Suc i" ?c ?h] that c h by simp
    ultimately show ?thesis using len h by auto
  qed
  also have "map (\<lambda>i. rb_data b ! ((?h + 1 + i) mod ?c)) [0..<m] = tl (rb_list b)"
    using True c by (intro nth_equalityI) (simp_all add: rb_list_def nth_tl del: upt_Suc)
  finally show ?thesis using True by simp
qed

lemma rb_push_wf: "rb_wf b \<Longrightarrow> rb_wf (snd (rb_push v b))"
  by (auto simp: rb_wf_def rb_push_def rb_capacity_def Let_def mod_simps)

lemma rb_pop_abs:
  assumes "rb_wf b"
  shows "rb_wf (snd (rb_pop b))" "rb_list (snd (rb_pop b)) = tl (rb_list b)"
    "fst (rb_pop b) = (case rb_list b of [] \<Rightarrow> None | x # _ \<Rightarrow> Some x)"
proof -
  show "rb_wf (snd (rb_pop b))"
    using assms by (cases "rb_count b") (auto simp: rb_wf_def rb_pop_def rb_capacity_def mod_simps)
  show "rb_list (snd (rb_pop b)) = tl (rb_list b)"
    by (intro nth_equalityI) (auto simp: rb_list_def rb_pop_def rb_capacity_def nth_tl mod_simps)
  show "fst (rb_pop b) = (case rb_list b of [] \<Rightarrow> None | x # _ \<Rightarrow> Some x)"
    using assms by (cases "rb_count b")
      (simp_all add: rb_list_def rb_pop_def rb_wf_def upt_conv_Cons del: upt_Suc)
qed

interpretation ring: lossy_fifo rb_wf rb_list rb_capacity rb_push rb_pop
proof unfold_locales
  fix b :: "'a RingBuffer" and v :: 'a
  assume wf: "rb_wf b"
  show "length (rb_list b) \<le> rb_capacity b" "0 < rb_capacity b"
    using wf by (simp_all add: rb_wf_def)
  show "rb_wf (snd (rb_push v b))" by (rule rb_push_wf [OF wf])
  show "rb_capacity (snd (rb_push v b)) = rb_capacity b"
    "fst (rb_push v b) \<longleftrightarrow> length (rb_list b) = rb_capacity b"
    "rb_capacity (snd (rb_pop b)) = rb_capacity b"
    by (simp_all add: rb_push_def rb_pop_def rb_capacity_def Let_def)
  show "rb_list (snd (rb_push v b)) =
      (if length (rb_list b) = rb_capacity b then tl (rb_list b) else rb_list b) @ [v]"
    by (simp add: rb_push_abs [OF wf])
  show "rb_wf (snd (rb_pop b))" "rb_list (snd (rb_pop b)) = tl (rb_list b)"
    "fst (rb_pop b) = (case rb_list b of [] \<Rightarrow> None | x # _ \<Rightarrow> Some x)"
    by (rule rb_pop_abs [OF wf])+
qed

text \<open>
  Pushing any run of elements into a buffer of capacity \<open>n\<close> and then draining it returns
  exactly the newest \<open>n\<close> of the elements it held and was given, oldest first.
\<close>

theorem ring_keeps_newest:
  assumes "rb_wf b"
  shows "let b' = fold (\<lambda>x b. snd (rb_push x b)) xs b;
             kept = drop (rb_size b + length xs - rb_capacity b) (rb_list b @ xs)
         in rb_wf b' \<and> rb_list b' = kept \<and> ring.pop_n (length kept) b' = map Some kept"
  using ring.push_all_abs [OF assms, of xs] ring.pop_n_abs [of "ring.push_all xs b"]
  by (simp add: ring.push_all_def ring.newest_def rb_size_def Let_def)

theorem ring_keeps_newest_witness:
  "rb_list (fold (\<lambda>x b. snd (rb_push x b)) [1, 2, 3] (rb_new (0 :: nat) 2)) = [2, 3]"
  using ring_keeps_newest [of "rb_new (0 :: nat) 2" "[1, 2, 3]"]
  by (simp add: Let_def) (simp add: rb_new_def rb_size_def rb_capacity_def)

text \<open>
  C20: One step at a time, the buffer simulates a list: push reports a drop exactly when the buffer
  is full, push and pop keep the invariant and act on the list view as on a drop-oldest queue, and
  clear empties it.
\<close>

theorem ring_refines_lossy_fifo:
  assumes "rb_wf b"
  shows "rb_wf (snd (rb_push v b)) \<and> fst (rb_push v b) = rb_full b \<and>
    rb_list (snd (rb_push v b)) = (if rb_full b then tl (rb_list b) else rb_list b) @ [v] \<and>
    rb_wf (snd (rb_pop b)) \<and> rb_list (snd (rb_pop b)) = tl (rb_list b) \<and>
    fst (rb_pop b) = (if rb_empty b then None else Some (hd (rb_list b))) \<and>
    rb_wf (rb_clear b) \<and> rb_empty (rb_clear b) \<and> rb_size b \<le> rb_capacity b"
proof (intro conjI)
  show "rb_wf (snd (rb_push v b))" "rb_wf (snd (rb_pop b))" "rb_list (snd (rb_pop b)) = tl (rb_list b)"
    by (rule ring.push_wf ring.pop_wf ring.pop_abs assms)+
  show "fst (rb_push v b) = rb_full b"
    by (simp add: ring.push_dropped [OF assms] rb_full_def)
  show "rb_list (snd (rb_push v b)) = (if rb_full b then tl (rb_list b) else rb_list b) @ [v]"
    by (simp add: rb_push_abs [OF assms] rb_full_def)
  show "fst (rb_pop b) = (if rb_empty b then None else Some (hd (rb_list b)))"
    using length_rb_list [of b]
    by (cases "rb_list b") (simp_all add: ring.pop_fst [OF assms] rb_empty_def)
  show "rb_wf (rb_clear b)" "rb_empty (rb_clear b)" "rb_size b \<le> rb_capacity b"
    using assms rb_clear_wf [OF assms] by (simp_all add: rb_empty_def rb_clear_def rb_size_def rb_wf_def)
qed

theorem ring_refines_lossy_fifo_witness:
  "fst (rb_push 9 (rb_new (0 :: nat) 2)) = rb_full (rb_new (0 :: nat) 2)"
  using ring_refines_lossy_fifo [of "rb_new (0 :: nat) 2" 9] by simp

end
