(* ===== verification/Beacon.thy ===== *)
theory Beacon
  imports Wire
begin

text \<open>
  The multicast beacon packet, \<^verbatim>\<open>cpp/include/relink/beacon.hpp\<close>: header, topic ids, and an 8-byte
  capability extension (pid and flags) that a decoder accepts with or without. The pointer
  \<^verbatim>\<open>topic_ids_raw\<close> into the receive buffer is the suffix of the buffer that starts there.
\<close>

definition kMaxBeaconTopics :: nat where "kMaxBeaconTopics = 128"
definition kCapFlagShmLocalIpc :: u32 where "kCapFlagShmLocalIpc = 0x01"

datatype BeaconEncodeResult = BeaconTooManyTopics | BeaconBufferTooSmall
datatype BeaconDecodeResult = BeaconTooShort | BeaconLengthMismatch

definition encode_beacon_packet ::
  "u32 \<Rightarrow> u16 \<Rightarrow> u32 list \<Rightarrow> u16 \<Rightarrow> nat \<Rightarrow> u32 \<Rightarrow> bool \<Rightarrow> BeaconEncodeResult + bytes" where
  "encode_beacon_packet node_ip node_port topic_ids topic_count out_capacity node_pid shm_capable =
     (if unat topic_count > kMaxBeaconTopics then Inl BeaconTooManyTopics
      else if out_capacity < 8 + unat topic_count * 4 + 8 then Inl BeaconBufferTooSmall
      else
        let hdr = \<lparr>bh_node_ip = node_ip, bh_node_port = node_port, bh_topic_count = topic_count\<rparr>;
            flags = (if shm_capable then kCapFlagShmLocalIpc else 0)
        in Inr (enc_BeaconPacketHeader hdr
                @ concat (map le32 (read_array topic_ids (unat topic_count)))
                @ le32 node_pid @ le32 flags))"

record DecodedBeacon =
  db_node_ip :: u32
  db_node_port :: u16
  db_topic_count :: u16
  db_topic_ids_raw :: bytes
  db_node_pid :: u32
  db_shm_capable :: bool

definition decode_beacon_packet :: "bytes \<Rightarrow> BeaconDecodeResult + DecodedBeacon" where
  "decode_beacon_packet buf =
     (if length buf < 8 then Inl BeaconTooShort
      else
        let hdr = dec_BeaconPacketHeader (bslice 0 8 buf);
            needed = 8 + unat (bh_topic_count hdr) * 4 in
        if length buf < needed then Inl BeaconLengthMismatch
        else
          let out = \<lparr>db_node_ip = bh_node_ip hdr, db_node_port = bh_node_port hdr,
                     db_topic_count = bh_topic_count hdr, db_topic_ids_raw = drop 8 buf,
                     db_node_pid = 0, db_shm_capable = False\<rparr>
          in if length buf \<ge> needed + 8 then
               let pid = rd32 (bslice needed 4 buf); flags = rd32 (bslice (needed + 4) 4 buf)
               in Inr (out\<lparr>db_node_pid := pid,
                           db_shm_capable := (flags AND kCapFlagShmLocalIpc) \<noteq> 0\<rparr>)
             else Inr out)"

definition beacon_topic_at :: "DecodedBeacon \<Rightarrow> nat \<Rightarrow> u32" where
  "beacon_topic_at b i = rd32 (bslice (i * 4) 4 (db_topic_ids_raw b))"

definition beacon_topics :: "DecodedBeacon \<Rightarrow> u32 list" where
  "beacon_topics b = map (beacon_topic_at b) [0..<unat (db_topic_count b)]"

section \<open>What a peer learns from a beacon\<close>

lemmas beacon_consts = kMaxBeaconTopics_def kCapFlagShmLocalIpc_def

text \<open>The packet the encoder writes, and what any extension \<open>ext\<close> after the topics decodes to.\<close>

definition beacon_image :: "u32 \<Rightarrow> u16 \<Rightarrow> u32 list \<Rightarrow> bytes" where
  "beacon_image ip port ts =
     enc_BeaconPacketHeader \<lparr>bh_node_ip = ip, bh_node_port = port,
                             bh_topic_count = word_of_nat (length ts)\<rparr> @ concat (map le32 ts)"

lemma length_beacon_image [simp]: "length (beacon_image ip port ts) = 8 + length ts * 4"
  unfolding beacon_image_def by (rule beacon_packet.image_length)

lemma decode_beacon_image:
  assumes "length ts < 65536"
  shows "decode_beacon_packet (beacon_image ip port ts @ ext) =
    Inr \<lparr>db_node_ip = ip, db_node_port = port, db_topic_count = word_of_nat (length ts),
         db_topic_ids_raw = concat (map le32 ts) @ ext,
         db_node_pid = (if length ext < 8 then 0 else rd32 (bslice 0 4 ext)),
         db_shm_capable = (8 \<le> length ext \<and>
            (rd32 (bslice 4 4 ext) AND kCapFlagShmLocalIpc) \<noteq> 0)\<rparr>"
proof -
  let ?h = "\<lparr>bh_node_ip = ip, bh_node_port = port, bh_topic_count = word_of_nat (length ts)\<rparr>"
  let ?buf = "beacon_image ip port ts @ ext"
  have n: "unat (word_of_nat (length ts) :: u16) = length ts"
    using assms by (simp add: unat_of_nat)
  have buf: "?buf = enc_BeaconPacketHeader ?h @ (concat (map le32 ts) @ ext)"
    by (simp add: beacon_image_def)
  have hdr: "dec_BeaconPacketHeader (bslice 0 8 ?buf) = ?h"
    unfolding buf by (rule beacon_packet.image_header)
  have raw: "drop 8 ?buf = concat (map le32 ts) @ ext"
    unfolding buf by (rule beacon_packet.image_rest)
  have ext: "bslice (8 + length ts * 4 + i) 4 ?buf = bslice i 4 ext" for i
    by (subst bslice_append_left) simp_all
  show ?thesis
    unfolding decode_beacon_packet_def Let_def hdr raw
    using ext [of 0] ext [of 4] by (simp add: n not_less)
qed

lemma beacon_topics_image:
  assumes "decode_beacon_packet (beacon_image ip port ts @ ext) = Inr b" and "length ts < 65536"
  shows "beacon_topics b = ts"
proof -
  have b: "db_topic_ids_raw b = concat (map le32 ts) @ ext"
    "unat (db_topic_count b) = length ts"
    using assms by (simp_all add: decode_beacon_image unat_of_nat)
       (auto simp: unat_of_nat)
  show ?thesis
    unfolding beacon_topics_def beacon_topic_at_def b by (rule c32.array_read)
qed

lemma encode_beacon_eq:
  assumes "length ts < 65536"
  shows "encode_beacon_packet ip port ts (word_of_nat (length ts)) cap pid shm =
    (if length ts > 128 then Inl BeaconTooManyTopics
     else if cap < 16 + length ts * 4 then Inl BeaconBufferTooSmall
     else Inr (beacon_image ip port ts @ le32 pid @ le32 (if shm then 1 else 0)))"
proof -
  have n: "unat (word_of_nat (length ts) :: u16) = length ts"
    using assms by (simp add: unat_of_nat)
  show ?thesis
    by (simp add: encode_beacon_packet_def beacon_image_def n beacon_consts add.commute)
qed

text \<open>
  A beacon that fits is decoded to exactly the address, topics, pid and shared-memory
  capability it was encoded from.
\<close>

theorem beacon_round_trip:
  assumes "length ts \<le> 128" and "16 + length ts * 4 \<le> cap"
  shows "\<exists>pkt b. encode_beacon_packet ip port ts (word_of_nat (length ts)) cap pid shm = Inr pkt \<and>
    decode_beacon_packet pkt = Inr b \<and> db_node_ip b = ip \<and> db_node_port b = port \<and>
    beacon_topics b = ts \<and> db_node_pid b = pid \<and> db_shm_capable b = shm"
proof -
  let ?ext = "le32 pid @ le32 (if shm then 1 else 0)"
  have ts: "length ts < 65536" using assms by simp
  obtain b where b: "decode_beacon_packet (beacon_image ip port ts @ ?ext) = Inr b"
    by (simp add: decode_beacon_image ts)
  have "bslice 0 4 ?ext = le32 pid" "bslice 4 4 ?ext = le32 (if shm then 1 else 0)"
    by (simp_all add: bslice_def)
  then have "db_node_pid b = pid \<and> db_shm_capable b = shm \<and> db_node_ip b = ip \<and> db_node_port b = port"
    using b by (cases shm) (auto simp: decode_beacon_image ts kCapFlagShmLocalIpc_def)
  moreover have "beacon_topics b = ts"
    by (rule beacon_topics_image [OF b ts])
  ultimately show ?thesis
    using b assms by (simp add: encode_beacon_eq [OF ts])
qed

theorem beacon_round_trip_witness:
  "\<exists>pkt b. encode_beacon_packet 1 2 [7, 9] (word_of_nat (length [7 :: u32, 9])) 512 4 True = Inr pkt \<and>
    decode_beacon_packet pkt = Inr b \<and> db_node_ip b = 1 \<and> db_node_port b = 2 \<and>
    beacon_topics b = [7, 9] \<and> db_node_pid b = 4 \<and> db_shm_capable b = True"
  by (rule beacon_round_trip) simp_all

end
