(* ===== verification/Register.thy ===== *)
theory Register
  imports Wire
begin

text \<open>
  RegisterRequest and RegisterAck, \<^verbatim>\<open>cpp/include/relink/register.hpp\<close>: the packets a node and
  rlcore exchange. Both decoders require the exact length the count field announces.
\<close>

definition kRlCoreDefaultPort :: u16 where "kRlCoreDefaultPort = 8445"
definition kMaxRegisterTopics :: nat where "kMaxRegisterTopics = 16374"

datatype RegisterEncodeResult = RegTooManyTopics | RegBufferTooSmall
datatype RegisterDecodeResult = RegTooShort | RegLengthMismatch

section \<open>RegisterRequest\<close>

definition encode_register_request ::
  "u32 \<Rightarrow> u16 \<Rightarrow> u32 list \<Rightarrow> u16 \<Rightarrow> nat \<Rightarrow> RegisterEncodeResult + bytes" where
  "encode_register_request node_ip node_port topic_ids topic_count out_capacity =
     (if unat topic_count > kMaxRegisterTopics then Inl RegTooManyTopics
      else if out_capacity < 8 + unat topic_count * 4 then Inl RegBufferTooSmall
      else
        let hdr = \<lparr>rq_node_ip = node_ip, rq_node_port = node_port, rq_topic_count = topic_count\<rparr>
        in Inr (enc_RegisterRequestHeader hdr
                @ concat (map le32 (read_array topic_ids (unat topic_count)))))"

record DecodedRegisterRequest =
  dr_node_ip :: u32
  dr_node_port :: u16
  dr_topic_count :: u16
  dr_topic_ids_raw :: bytes

definition decode_register_request :: "bytes \<Rightarrow> RegisterDecodeResult + DecodedRegisterRequest" where
  "decode_register_request buf =
     (if length buf < 8 then Inl RegTooShort
      else
        let hdr = dec_RegisterRequestHeader (bslice 0 8 buf);
            needed = 8 + unat (rq_topic_count hdr) * 4 in
        if length buf \<noteq> needed then Inl RegLengthMismatch
        else Inr \<lparr>dr_node_ip = rq_node_ip hdr, dr_node_port = rq_node_port hdr,
                  dr_topic_count = rq_topic_count hdr, dr_topic_ids_raw = drop 8 buf\<rparr>)"

definition register_request_topic_at :: "DecodedRegisterRequest \<Rightarrow> nat \<Rightarrow> u32" where
  "register_request_topic_at req i = rd32 (bslice (i * 4) 4 (dr_topic_ids_raw req))"

definition register_request_topics :: "DecodedRegisterRequest \<Rightarrow> u32 list" where
  "register_request_topics req = map (register_request_topic_at req) [0..<unat (dr_topic_count req)]"

section \<open>RegisterAck\<close>

definition encode_register_ack ::
  "u8 \<Rightarrow> RegisterAckPeer list \<Rightarrow> u16 \<Rightarrow> nat \<Rightarrow> RegisterEncodeResult + bytes" where
  "encode_register_ack status peers peer_count out_capacity =
     (if out_capacity < 3 + unat peer_count * 16 then Inl RegBufferTooSmall
      else
        let hdr = \<lparr>ah_status = status, ah_peer_count = peer_count\<rparr>
        in Inr (enc_RegisterAckHeader hdr
                @ concat (map enc_RegisterAckPeer (read_array peers (unat peer_count)))))"

record DecodedRegisterAck =
  da_status :: u8
  da_peer_count :: u16
  da_peers_raw :: bytes

definition decode_register_ack :: "bytes \<Rightarrow> RegisterDecodeResult + DecodedRegisterAck" where
  "decode_register_ack buf =
     (if length buf < 3 then Inl RegTooShort
      else
        let hdr = dec_RegisterAckHeader (bslice 0 3 buf);
            needed = 3 + unat (ah_peer_count hdr) * 16 in
        if length buf \<noteq> needed then Inl RegLengthMismatch
        else Inr \<lparr>da_status = ah_status hdr, da_peer_count = ah_peer_count hdr,
                  da_peers_raw = drop 3 buf\<rparr>)"

definition register_ack_peer_at :: "DecodedRegisterAck \<Rightarrow> nat \<Rightarrow> RegisterAckPeer" where
  "register_ack_peer_at ack i = dec_RegisterAckPeer (bslice (i * 16) 16 (da_peers_raw ack))"

definition register_ack_peers :: "DecodedRegisterAck \<Rightarrow> RegisterAckPeer list" where
  "register_ack_peers ack = map (register_ack_peer_at ack) [0..<unat (da_peer_count ack)]"

section \<open>Requests and acks determine their packets\<close>

text \<open>The image of a request and of an ack: the only buffers their decoders accept.\<close>

definition request_image :: "u32 \<Rightarrow> u16 \<Rightarrow> u32 list \<Rightarrow> bytes" where
  "request_image ip port ts =
     enc_RegisterRequestHeader \<lparr>rq_node_ip = ip, rq_node_port = port,
                                rq_topic_count = word_of_nat (length ts)\<rparr> @ concat (map le32 ts)"

definition ack_image :: "u8 \<Rightarrow> RegisterAckPeer list \<Rightarrow> bytes" where
  "ack_image status ps =
     enc_RegisterAckHeader \<lparr>ah_status = status, ah_peer_count = word_of_nat (length ps)\<rparr>
     @ concat (map enc_RegisterAckPeer ps)"

lemma header_collapse:
  "\<lparr>rq_node_ip = rq_node_ip h, rq_node_port = rq_node_port h, rq_topic_count = rq_topic_count h\<rparr> = h"
  "\<lparr>ah_status = ah_status k, ah_peer_count = ah_peer_count k\<rparr> = k"
  by simp_all

lemma length_request_image [simp]: "length (request_image ip port ts) = 8 + length ts * 4"
  unfolding request_image_def by (rule request_packet.image_length)

lemma length_ack_image [simp]: "length (ack_image status ps) = 3 + length ps * 16"
  unfolding ack_image_def by (rule ack_packet.image_length)

lemma encode_request_eq:
  "length ts < 65536 \<Longrightarrow>
   encode_register_request ip port ts (word_of_nat (length ts)) cap =
     (if length ts > 16374 then Inl RegTooManyTopics
      else if cap < 8 + length ts * 4 then Inl RegBufferTooSmall
      else Inr (request_image ip port ts))"
  by (simp add: encode_register_request_def request_image_def unat_u16_of_nat
      kMaxRegisterTopics_def)

lemma encode_ack_eq:
  "length ps < 65536 \<Longrightarrow>
   encode_register_ack status ps (word_of_nat (length ps)) cap =
     (if cap < 3 + length ps * 16 then Inl RegBufferTooSmall else Inr (ack_image status ps))"
  by (simp add: encode_register_ack_def ack_image_def unat_u16_of_nat)

lemma decode_request_image:
  assumes "length ts < 65536"
  shows "\<exists>r. decode_register_request (request_image ip port ts) = Inr r \<and>
    dr_node_ip r = ip \<and> dr_node_port r = port \<and> dr_topic_count r = word_of_nat (length ts) \<and>
    register_request_topics r = ts"
proof -
  let ?buf = "request_image ip port ts"
  let ?h = "\<lparr>rq_node_ip = ip, rq_node_port = port, rq_topic_count = word_of_nat (length ts)\<rparr>"
  have hdr: "dec_RegisterRequestHeader (bslice 0 8 ?buf) = ?h"
    unfolding request_image_def by (rule request_packet.image_header)
  have raw: "drop 8 ?buf = concat (map le32 ts)"
    unfolding request_image_def by (rule request_packet.image_rest)
  show ?thesis
    unfolding decode_register_request_def Let_def hdr raw
    using c32.array_read [of ts "[]"] assms
    by (simp add: unat_u16_of_nat register_request_topics_def register_request_topic_at_def [abs_def])
qed

lemma decode_request_sound:
  assumes "decode_register_request buf = Inr r"
  shows "buf = request_image (dr_node_ip r) (dr_node_port r) (register_request_topics r)"
proof -
  let ?h = "dec_RegisterRequestHeader (bslice 0 8 buf)"
  let ?n = "unat (rq_topic_count ?h)"
  have len: "length buf = 8 + ?n * 4" and r: "r = \<lparr>dr_node_ip = rq_node_ip ?h,
      dr_node_port = rq_node_port ?h, dr_topic_count = rq_topic_count ?h, dr_topic_ids_raw = drop 8 buf\<rparr>"
    using assms by (simp_all add: decode_register_request_def Let_def split: if_splits)
  show ?thesis
    using request_packet.image_unique [OF len]
    by (simp add: request_image_def register_request_topics_def register_request_topic_at_def [abs_def] r
        comp_def header_collapse)
qed

lemma decode_ack_image:
  assumes "length ps < 65536"
  shows "\<exists>a. decode_register_ack (ack_image status ps) = Inr a \<and> da_status a = status \<and>
    da_peer_count a = word_of_nat (length ps) \<and> register_ack_peers a = ps"
proof -
  let ?buf = "ack_image status ps"
  let ?h = "\<lparr>ah_status = status, ah_peer_count = word_of_nat (length ps)\<rparr>"
  have hdr: "dec_RegisterAckHeader (bslice 0 3 ?buf) = ?h"
    unfolding ack_image_def by (rule ack_packet.image_header)
  have raw: "drop 3 ?buf = concat (map enc_RegisterAckPeer ps)"
    unfolding ack_image_def by (rule ack_packet.image_rest)
  show ?thesis
    unfolding decode_register_ack_def Let_def hdr raw
    using register_ack_peer.array_read [of ps "[]"] assms
    by (simp add: unat_u16_of_nat register_ack_peers_def register_ack_peer_at_def [abs_def])
qed

lemma decode_ack_sound:
  assumes "decode_register_ack buf = Inr a"
  shows "buf = ack_image (da_status a) (register_ack_peers a)"
proof -
  let ?h = "dec_RegisterAckHeader (bslice 0 3 buf)"
  let ?n = "unat (ah_peer_count ?h)"
  have len: "length buf = 3 + ?n * 16" and a: "a = \<lparr>da_status = ah_status ?h,
      da_peer_count = ah_peer_count ?h, da_peers_raw = drop 3 buf\<rparr>"
    using assms by (simp_all add: decode_register_ack_def Let_def split: if_splits)
  show ?thesis
    using ack_packet.image_unique [OF len]
    by (simp add: ack_image_def register_ack_peers_def register_ack_peer_at_def [abs_def] a comp_def
        header_collapse)
qed

text \<open>
  The request decoder accepts exactly the images of requests: a buffer decodes to a request
  if and only if it is the encoding of that request's address and topic list, with nothing
  missing and nothing trailing.
\<close>

theorem register_request_exact:
  "(\<exists>r. decode_register_request buf = Inr r \<and> dr_node_ip r = ip \<and> dr_node_port r = port \<and>
      register_request_topics r = ts) \<longleftrightarrow>
   length ts < 65536 \<and> buf = request_image ip port ts"
  using decode_request_image [of ts ip port] decode_request_sound [of buf]
  by (auto simp: register_request_topics_def unat_u16_less)

text \<open>
  An ack that fits the buffer is decoded to the status and the peers it was encoded from;
  one that does not fit is refused by the encoder.
\<close>

theorem register_ack_round_trip:
  assumes "length ps < 65536"
  shows "case encode_register_ack status ps (word_of_nat (length ps)) cap of
      Inl e \<Rightarrow> e = RegBufferTooSmall \<and> cap < 3 + length ps * 16
    | Inr pkt \<Rightarrow> length pkt \<le> cap \<and> (\<exists>a. decode_register_ack pkt = Inr a \<and>
        da_status a = status \<and> register_ack_peers a = ps)"
  using decode_ack_image [OF assms, of status] by (auto simp: encode_ack_eq [OF assms])

theorem register_ack_round_trip_witness:
  "case encode_register_ack 1 [] (word_of_nat (length ([] :: RegisterAckPeer list))) 65507 of
      Inl e \<Rightarrow> e = RegBufferTooSmall \<and> 65507 < 3 + length ([] :: RegisterAckPeer list) * 16
    | Inr pkt \<Rightarrow> length pkt \<le> 65507 \<and> (\<exists>a. decode_register_ack pkt = Inr a \<and>
        da_status a = 1 \<and> register_ack_peers a = [])"
  by (rule register_ack_round_trip) simp

end
