(* ===== verification/Relay_Wire.thy ===== *)
theory Relay_Wire
  imports Frame
begin

text \<open>
  The relay's control packet and the topic peek on data frames,
  \<^verbatim>\<open>cpp/include/relink/relay_wire.hpp\<close>. A failed peek is \<open>None\<close>.
\<close>

definition kRelayDefaultPort :: u16 where "kRelayDefaultPort = 8446"
definition kRelayControlMagic :: u8 where "kRelayControlMagic = 0x52"
definition kRelayRegister :: u8 where "kRelayRegister = 0x01"

definition encode_relay_register :: "u32 \<Rightarrow> nat \<Rightarrow> bytes" where
  "encode_relay_register topic_id out_cap =
     (if out_cap < 6 then [] else [kRelayControlMagic, kRelayRegister] @ le32 topic_id)"

definition decode_relay_register :: "bytes \<Rightarrow> u32 option" where
  "decode_relay_register buf =
     (if length buf \<noteq> 6 \<or> buf ! 0 \<noteq> kRelayControlMagic \<or> buf ! 1 \<noteq> kRelayRegister then None
      else Some (rd32 (bslice 2 4 buf)))"

definition peek_frame_topic_id :: "bytes \<Rightarrow> u32 option" where
  "peek_frame_topic_id buf =
     (if length buf < 1 + sizeof_RelinkHeader \<or> buf ! 0 \<noteq> kStartByte then None
      else Some (rd32 (bslice 1 4 buf)))"

lemmas relay_consts =
  kRelayControlMagic_def kRelayRegister_def kStartByte_def sizeof_RelinkHeader_def

lemma decode_relay_register_iff:
  "decode_relay_register buf = Some t \<longleftrightarrow> buf = [kRelayControlMagic, kRelayRegister] @ le32 t"
  (is "?l \<longleftrightarrow> ?r")
proof
  assume ?l
  then have "length buf = 6" "buf ! 0 = kRelayControlMagic" "buf ! 1 = kRelayRegister"
    and "t = rd32 (bslice 2 4 buf)"
    by (auto simp: decode_relay_register_def split: if_splits)
  then show ?r
    by (auto simp: list_of_length bslice_def le32_rd32)
next
  assume ?r
  then show ?l by (simp add: decode_relay_register_def bslice_def)
qed

lemma peek_frame_bytes: "peek_frame_topic_id (frame_bytes t s p) = Some t"
proof -
  have "bslice 1 4 (frame_bytes t s p) = le32 t"
    by (simp add: frame_bytes_def frame_header_def enc_RelinkHeader_def bslice_def)
  then show ?thesis
    by (simp add: peek_frame_topic_id_def sizeof_RelinkHeader_def) (simp add: frame_bytes_def)
qed

text \<open>
  The relay tells its two inputs apart: a REGISTER packet is never peeked as a data frame,
  every frame that decodes is peeked to the topic id of its header, and REGISTER packets
  round-trip.
\<close>

theorem relay_inputs_disjoint:
  "decode_relay_register (encode_relay_register t 6) = Some t \<and>
   (decode_relay_register buf = Some t' \<longrightarrow> peek_frame_topic_id buf = None) \<and>
   (decode_frame buf = Inr f \<longrightarrow>
      peek_frame_topic_id buf = Some (hdr_topic_id (df_header f)) \<and> decode_relay_register buf = None)"
proof -
  have "decode_frame buf = Inr f \<Longrightarrow> decode_relay_register buf = None"
    by (auto simp: decode_frame_def decode_relay_register_def relay_consts Let_def split: if_splits)
  moreover have "decode_frame buf = Inr f \<Longrightarrow>
      peek_frame_topic_id buf = Some (hdr_topic_id (df_header f))"
    by (auto simp: decode_frame_iff peek_frame_bytes)
  ultimately show ?thesis
    by (auto simp: decode_relay_register_iff encode_relay_register_def peek_frame_topic_id_def
        relay_consts)
qed

theorem relay_inputs_disjoint_witness:
  "decode_relay_register (encode_relay_register 5 6) = Some 5 \<and>
   peek_frame_topic_id (encode_relay_register 5 6) = None"
  using relay_inputs_disjoint [of 5 "encode_relay_register 5 6" 5] by simp

end
