(* ===== verification/Topic_Directory.thy ===== *)
theory Topic_Directory
  imports Wire
begin

text \<open>
  The topic name directory and the topic role directory,
  \<^verbatim>\<open>cpp/include/relink/topic_directory.hpp\<close>. A \<^verbatim>\<open>false\<close> return is \<open>None\<close>. The byte loops keep the
  source's explicit offset \<^verbatim>\<open>off\<close>: \<open>write_entries\<close> and \<open>read_entries\<close> are the loops over a per-entry
  body, and \<open>chunk_loop\<close> is the loop all three chunkers share. A name is the list of its bytes.
\<close>

section \<open>The loops\<close>

fun write_entries :: "(nat \<Rightarrow> 'e \<Rightarrow> bytes option) \<Rightarrow> nat \<Rightarrow> 'e list \<Rightarrow> bytes option" where
  "write_entries body off [] = Some []"
| "write_entries body off (e # es) =
     (case body off e of
        None \<Rightarrow> None
      | Some b \<Rightarrow> (case write_entries body (off + length b) es of
                     None \<Rightarrow> None
                   | Some bs \<Rightarrow> Some (b @ bs)))"

fun read_entries :: "(bytes \<Rightarrow> nat \<Rightarrow> ('e \<times> nat) option) \<Rightarrow> bytes \<Rightarrow> nat \<Rightarrow> nat \<Rightarrow> ('e list \<times> nat) option"
where
  "read_entries body buf 0 off = Some ([], off)"
| "read_entries body buf (Suc n) off =
     (case body buf off of
        None \<Rightarrow> None
      | Some (e, off') \<Rightarrow> (case read_entries body buf n off' of
                             None \<Rightarrow> None
                           | Some (es, end_off) \<Rightarrow> Some (e # es, end_off)))"

fun chunk_loop ::
  "nat \<Rightarrow> nat \<Rightarrow> nat \<Rightarrow> ('e \<Rightarrow> nat) \<Rightarrow> 'e list \<Rightarrow> 'e list list \<Rightarrow> 'e list \<Rightarrow> nat \<Rightarrow> 'e list list"
where
  "chunk_loop max_entries max_packet header_len entry_len [] chunks current current_len =
     (if current \<noteq> [] then chunks @ [current] else chunks)"
| "chunk_loop max_entries max_packet header_len entry_len (e # es) chunks current current_len =
     (if current \<noteq> [] \<and>
         (length current \<ge> max_entries \<or> current_len + entry_len e > max_packet)
      then chunk_loop max_entries max_packet header_len entry_len es
             (chunks @ [current]) [e] (header_len + entry_len e)
      else chunk_loop max_entries max_packet header_len entry_len es
             chunks (current @ [e]) (current_len + entry_len e))"

section \<open>The name directory\<close>

definition kTopicDirMagicLen :: nat where "kTopicDirMagicLen = 4"
definition kTopicDirAnnounceMagic :: bytes where "kTopicDirAnnounceMagic = [0x52, 0x4C, 0x4E, 0x4D]"
definition kTopicDirQueryMagic :: bytes where "kTopicDirQueryMagic = [0x52, 0x4C, 0x4E, 0x51]"
definition kTopicDirReplyMagic :: bytes where "kTopicDirReplyMagic = [0x52, 0x4C, 0x4E, 0x52]"
definition kTopicDirMaxEntries :: nat where "kTopicDirMaxEntries = 512"
definition kTopicDirMaxNameLen :: nat where "kTopicDirMaxNameLen = 255"
definition kTopicDirMaxPacket :: nat where "kTopicDirMaxPacket = 8192"

record TopicDirEntry =
  td_topic_id :: u32
  td_name :: bytes

datatype TopicDirKind = TdAnnounce | TdQuery | TdReply | TdUnknown

definition topic_dir_packet_kind :: "bytes \<Rightarrow> TopicDirKind" where
  "topic_dir_packet_kind buf =
     (if length buf < kTopicDirMagicLen then TdUnknown
      else if take kTopicDirMagicLen buf = kTopicDirAnnounceMagic then TdAnnounce
      else if take kTopicDirMagicLen buf = kTopicDirQueryMagic then TdQuery
      else if take kTopicDirMagicLen buf = kTopicDirReplyMagic then TdReply
      else TdUnknown)"

definition encode_topic_dir_query :: "nat \<Rightarrow> bytes option" where
  "encode_topic_dir_query out_capacity =
     (if out_capacity < kTopicDirMagicLen then None else Some kTopicDirQueryMagic)"

definition put_topic_dir_entry :: "nat \<Rightarrow> nat \<Rightarrow> TopicDirEntry \<Rightarrow> bytes option" where
  "put_topic_dir_entry out_capacity off e =
     (if length (td_name e) > kTopicDirMaxNameLen then None
      else if off + (4 + 1 + length (td_name e)) > out_capacity then None
      else
        let name_len = word_of_nat (length (td_name e)) :: u8
        in Some (le32 (td_topic_id e) @ [name_len] @ take (unat name_len) (td_name e)))"

definition encode_topic_dir_entries ::
  "bytes \<Rightarrow> TopicDirEntry list \<Rightarrow> nat \<Rightarrow> bytes option" where
  "encode_topic_dir_entries magic entries out_capacity =
     (if length entries > kTopicDirMaxEntries then None
      else if out_capacity < kTopicDirMagicLen + 2 then None
      else
        let head = magic @ le16 (word_of_nat (length entries))
        in (case write_entries (put_topic_dir_entry out_capacity) (kTopicDirMagicLen + 2) entries of
              None \<Rightarrow> None
            | Some body \<Rightarrow> Some (head @ body)))"

definition encode_topic_dir_announce :: "TopicDirEntry list \<Rightarrow> nat \<Rightarrow> bytes option" where
  "encode_topic_dir_announce = encode_topic_dir_entries kTopicDirAnnounceMagic"

definition encode_topic_dir_reply :: "TopicDirEntry list \<Rightarrow> nat \<Rightarrow> bytes option" where
  "encode_topic_dir_reply = encode_topic_dir_entries kTopicDirReplyMagic"

definition topic_dir_entry_len :: "TopicDirEntry \<Rightarrow> nat" where
  "topic_dir_entry_len e = 4 + 1 + length (td_name e)"

definition chunk_topic_dir_entries :: "TopicDirEntry list \<Rightarrow> TopicDirEntry list list" where
  "chunk_topic_dir_entries entries =
     (let kHeaderLen = kTopicDirMagicLen + 2
      in chunk_loop kTopicDirMaxEntries kTopicDirMaxPacket kHeaderLen topic_dir_entry_len
           entries [] [] kHeaderLen)"

definition get_topic_dir_entry :: "bytes \<Rightarrow> nat \<Rightarrow> (TopicDirEntry \<times> nat) option" where
  "get_topic_dir_entry buf off =
     (if off + 4 + 1 > length buf then None
      else
        let topic_id = rd32 (bslice off 4 buf);
            name_len = unat (buf ! (off + 4));
            off = off + 4 + 1
        in if off + name_len > length buf then None
           else Some (\<lparr>td_topic_id = topic_id, td_name = bslice off name_len buf\<rparr>, off + name_len))"

definition decode_topic_dir_entries :: "bytes \<Rightarrow> TopicDirEntry list option" where
  "decode_topic_dir_entries buf =
     (if length buf < kTopicDirMagicLen + 2 \<or> length buf > kTopicDirMaxPacket then None
      else
        let count = unat (rd16 (bslice kTopicDirMagicLen 2 buf))
        in if count > kTopicDirMaxEntries then None
           else (case read_entries get_topic_dir_entry buf count (kTopicDirMagicLen + 2) of
                   None \<Rightarrow> None
                 | Some (entries, off) \<Rightarrow> if off \<noteq> length buf then None else Some entries))"

section \<open>The role directory\<close>

definition kRoleAnnounceMagic :: bytes where "kRoleAnnounceMagic = [0x52, 0x4C, 0x50, 0x41]"
definition kRoleQueryMagic :: bytes where "kRoleQueryMagic = [0x52, 0x4C, 0x50, 0x51]"
definition kRoleReplyMagic :: bytes where "kRoleReplyMagic = [0x52, 0x4C, 0x50, 0x52]"
definition kRolePublisher :: u8 where "kRolePublisher = 1"
definition kRoleSubscriber :: u8 where "kRoleSubscriber = 2"
definition kRoleMaxEntries :: nat where "kRoleMaxEntries = 2048"
definition kRoleMaxPacket :: nat where "kRoleMaxPacket = 8192"

datatype RoleDirKind = RdAnnounce | RdQuery | RdReply | RdUnknown

definition role_packet_kind :: "bytes \<Rightarrow> RoleDirKind" where
  "role_packet_kind buf =
     (if length buf < kTopicDirMagicLen then RdUnknown
      else if take kTopicDirMagicLen buf = kRoleAnnounceMagic then RdAnnounce
      else if take kTopicDirMagicLen buf = kRoleQueryMagic then RdQuery
      else if take kTopicDirMagicLen buf = kRoleReplyMagic then RdReply
      else RdUnknown)"

definition encode_role_query :: "nat \<Rightarrow> bytes option" where
  "encode_role_query out_capacity =
     (if out_capacity < kTopicDirMagicLen then None else Some kRoleQueryMagic)"

record RoleAnnounceEntry =
  ra_topic_id :: u32
  ra_role :: u8

record RolePeerEntry =
  rp_topic_id :: u32
  rp_role :: u8
  rp_ip :: u32
  rp_port :: u16

definition chunk_role_announce_entries :: "RoleAnnounceEntry list \<Rightarrow> RoleAnnounceEntry list list" where
  "chunk_role_announce_entries entries =
     (let kEntryLen = 4 + 1; kHeaderLen = kTopicDirMagicLen + 2
      in chunk_loop kRoleMaxEntries kRoleMaxPacket kHeaderLen (\<lambda>e. kEntryLen)
           entries [] [] kHeaderLen)"

definition put_role_announce :: "nat \<Rightarrow> nat \<Rightarrow> RoleAnnounceEntry \<Rightarrow> bytes option" where
  "put_role_announce out_capacity off e =
     (if off + (4 + 1) > out_capacity then None
      else Some (le32 (ra_topic_id e) @ [ra_role e]))"

definition encode_role_announce :: "RoleAnnounceEntry list \<Rightarrow> nat \<Rightarrow> bytes option" where
  "encode_role_announce entries out_capacity =
     (if length entries > kRoleMaxEntries then None
      else if out_capacity < kTopicDirMagicLen + 2 then None
      else
        let head = kRoleAnnounceMagic @ le16 (word_of_nat (length entries))
        in (case write_entries (put_role_announce out_capacity) (kTopicDirMagicLen + 2) entries of
              None \<Rightarrow> None
            | Some body \<Rightarrow> Some (head @ body)))"

definition get_role_announce :: "bytes \<Rightarrow> nat \<Rightarrow> (RoleAnnounceEntry \<times> nat) option" where
  "get_role_announce buf off =
     (if off + 4 + 1 > length buf then None
      else Some (\<lparr>ra_topic_id = rd32 (bslice off 4 buf), ra_role = buf ! (off + 4)\<rparr>, off + 4 + 1))"

definition decode_role_announce :: "bytes \<Rightarrow> RoleAnnounceEntry list option" where
  "decode_role_announce buf =
     (if length buf < kTopicDirMagicLen + 2 \<or> length buf > kRoleMaxPacket then None
      else
        let count = unat (rd16 (bslice kTopicDirMagicLen 2 buf))
        in if count > kRoleMaxEntries then None
           else (case read_entries get_role_announce buf count (kTopicDirMagicLen + 2) of
                   None \<Rightarrow> None
                 | Some (entries, off) \<Rightarrow> if off \<noteq> length buf then None else Some entries))"

definition chunk_role_peer_entries :: "RolePeerEntry list \<Rightarrow> RolePeerEntry list list" where
  "chunk_role_peer_entries entries =
     (let kEntryLen = 4 + 1 + 4 + 2; kHeaderLen = kTopicDirMagicLen + 2
      in chunk_loop kRoleMaxEntries kRoleMaxPacket kHeaderLen (\<lambda>e. kEntryLen)
           entries [] [] kHeaderLen)"

definition put_role_peer :: "nat \<Rightarrow> nat \<Rightarrow> RolePeerEntry \<Rightarrow> bytes option" where
  "put_role_peer out_capacity off e =
     (if off + (4 + 1 + 4 + 2) > out_capacity then None
      else Some (le32 (rp_topic_id e) @ [rp_role e] @ le32 (rp_ip e) @ le16 (rp_port e)))"

definition encode_role_reply :: "RolePeerEntry list \<Rightarrow> nat \<Rightarrow> bytes option" where
  "encode_role_reply entries out_capacity =
     (if length entries > kRoleMaxEntries then None
      else if out_capacity < kTopicDirMagicLen + 2 then None
      else
        let head = kRoleReplyMagic @ le16 (word_of_nat (length entries))
        in (case write_entries (put_role_peer out_capacity) (kTopicDirMagicLen + 2) entries of
              None \<Rightarrow> None
            | Some body \<Rightarrow> Some (head @ body)))"

definition get_role_peer :: "bytes \<Rightarrow> nat \<Rightarrow> (RolePeerEntry \<times> nat) option" where
  "get_role_peer buf off =
     (if off + (4 + 1 + 4 + 2) > length buf then None
      else Some (\<lparr>rp_topic_id = rd32 (bslice off 4 buf), rp_role = buf ! (off + 4),
                  rp_ip = rd32 (bslice (off + 5) 4 buf), rp_port = rd16 (bslice (off + 9) 2 buf)\<rparr>,
                 off + (4 + 1 + 4 + 2)))"

definition decode_role_reply :: "bytes \<Rightarrow> RolePeerEntry list option" where
  "decode_role_reply buf =
     (if length buf < kTopicDirMagicLen + 2 \<or> length buf > kRoleMaxPacket then None
      else
        let count = unat (rd16 (bslice kTopicDirMagicLen 2 buf))
        in if count > kRoleMaxEntries then None
           else (case read_entries get_role_peer buf count (kTopicDirMagicLen + 2) of
                   None \<Rightarrow> None
                 | Some (entries, off) \<Rightarrow> if off \<noteq> length buf then None else Some entries))"

section \<open>What an entry codec promises, and the packets built from one\<close>

text \<open>
  \<open>img\<close> is the byte image of an entry, \<open>ok\<close> the entries the writer accepts; \<open>put\<close> and \<open>get\<close> are the
  loop bodies. The locale lifts them to whole packets: a header of a magic and a 16-bit count,
  then the entries.
\<close>

locale entry_codec =
  fixes img :: "'e \<Rightarrow> bytes" and ok :: "'e \<Rightarrow> bool"
    and put :: "nat \<Rightarrow> nat \<Rightarrow> 'e \<Rightarrow> bytes option"
    and get :: "bytes \<Rightarrow> nat \<Rightarrow> ('e \<times> nat) option"
  assumes put_eq: "put cap off e =
      (if ok e \<and> off + length (img e) \<le> cap then Some (img e) else None)"
    and get_img: "ok e \<Longrightarrow> get (pre @ img e @ suf) (length pre) = Some (e, length pre + length (img e))"
    and get_sound: "get buf off = Some (e, off') \<Longrightarrow>
      ok e \<and> off' = off + length (img e) \<and> off' \<le> length buf \<and> bslice off (length (img e)) buf = img e"
begin

definition imgs :: "'e list \<Rightarrow> bytes" where
  "imgs es = concat (map img es)"

lemma imgs_simps [simp]: "imgs [] = []" "imgs (e # es) = img e @ imgs es"
  by (simp_all add: imgs_def)

lemma write_eq:
  "off \<le> cap \<Longrightarrow> write_entries (put cap) off es =
     (if (\<forall>e \<in> set es. ok e) \<and> off + length (imgs es) \<le> cap then Some (imgs es) else None)"
  by (induction es arbitrary: off) (auto simp: put_eq)

lemma read_complete:
  "\<forall>e \<in> set es. ok e \<Longrightarrow> read_entries get (pre @ imgs es @ suf) (length es) (length pre) =
     Some (es, length pre + length (imgs es))"
proof (induction es arbitrary: pre)
  case Nil
  then show ?case by simp
next
  case (Cons e es)
  have "get (pre @ imgs (e # es) @ suf) (length pre) = Some (e, length pre + length (img e))"
    using get_img [of e pre "imgs es @ suf"] Cons.prems by simp
  moreover have "read_entries get (pre @ imgs (e # es) @ suf) (length es) (length pre + length (img e))
      = Some (es, length pre + length (img e) + length (imgs es))"
    using Cons.IH [of "pre @ img e"] Cons.prems by simp
  ultimately show ?case by simp
qed

lemma read_sound:
  "read_entries get buf n off = Some (es, off') \<Longrightarrow> off \<le> length buf \<Longrightarrow>
   length es = n \<and> (\<forall>e \<in> set es. ok e) \<and> off' = off + length (imgs es) \<and> off' \<le> length buf \<and>
   bslice off (length (imgs es)) buf = imgs es"
proof (induction n arbitrary: off es)
  case 0
  then show ?case by (simp add: bslice_def)
next
  case (Suc n)
  then obtain e o1 fs where e: "get buf off = Some (e, o1)"
    and fs: "read_entries get buf n o1 = Some (fs, off')" and es: "es = e # fs"
    by (auto split: option.splits)
  note g = get_sound [OF e]
  note r = Suc.IH [OF fs]
  have "bslice off (length (img e) + length (imgs fs)) buf = img e @ imgs fs"
    using g r bslice_join [of off "length (img e)" buf "length (imgs fs)"] by simp
  with g r es show ?case by auto
qed

text \<open>The packet decoder of the source, over \<open>get\<close>, with its two caps.\<close>

definition packet_decode :: "nat \<Rightarrow> nat \<Rightarrow> bytes \<Rightarrow> 'e list option" where
  "packet_decode max_entries max_packet buf =
     (if length buf < 4 + 2 \<or> length buf > max_packet then None
      else if unat (rd16 (bslice 4 2 buf)) > max_entries then None
      else (case read_entries get buf (unat (rd16 (bslice 4 2 buf))) (4 + 2) of
              None \<Rightarrow> None
            | Some (entries, off) \<Rightarrow> if off \<noteq> length buf then None else Some entries))"

definition packet_encode :: "bytes \<Rightarrow> nat \<Rightarrow> 'e list \<Rightarrow> nat \<Rightarrow> bytes option" where
  "packet_encode magic max_entries es cap =
     (if length es > max_entries then None
      else if cap < 4 + 2 then None
      else (case write_entries (put cap) (4 + 2) es of
              None \<Rightarrow> None
            | Some body \<Rightarrow> Some ((magic @ le16 (word_of_nat (length es))) @ body)))"

definition packet_image :: "bytes \<Rightarrow> 'e list \<Rightarrow> bytes" where
  "packet_image magic es = magic @ le16 (word_of_nat (length es)) @ imgs es"

lemma length_packet_image: "length magic = 4 \<Longrightarrow> length (packet_image magic es) = 6 + length (imgs es)"
  by (simp add: packet_image_def)

lemma packet_encode_eq:
  "packet_encode magic max_entries es cap =
     (if length es \<le> max_entries \<and> (\<forall>e \<in> set es. ok e) \<and> 6 + length (imgs es) \<le> cap
      then Some (packet_image magic es) else None)"
  using write_eq [of 6 cap es]
  by (auto simp: packet_encode_def packet_image_def not_less)

lemma packet_decode_image:
  assumes "length magic = 4" "length es \<le> max_entries" "max_entries < 65536"
    and "\<forall>e \<in> set es. ok e" and "6 + length (imgs es) \<le> max_packet"
  shows "packet_decode max_entries max_packet (packet_image magic es) = Some es"
proof -
  let ?buf = "packet_image magic es"
  have "bslice 4 2 ?buf = le16 (word_of_nat (length es))"
    using assms(1) by (simp add: packet_image_def bslice_def)
  then have count: "unat (rd16 (bslice 4 2 ?buf)) = length es"
    using assms by (simp add: unat_u16_of_nat)
  have "read_entries get ?buf (length es) (4 + 2) = Some (es, 6 + length (imgs es))"
    using read_complete [OF assms(4), of "magic @ le16 (word_of_nat (length es))" "[]"] assms(1)
    by (simp add: packet_image_def)
  with count assms show ?thesis
    by (simp add: packet_decode_def length_packet_image)
qed

lemma packet_decode_sound:
  assumes "packet_decode max_entries max_packet buf = Some es"
  shows "length es \<le> max_entries \<and> (\<forall>e \<in> set es. ok e) \<and> length buf \<le> max_packet \<and>
    buf = packet_image (take 4 buf) es"
proof -
  let ?n = "unat (rd16 (bslice 4 2 buf))"
  obtain off where len: "6 \<le> length buf" "length buf \<le> max_packet" and n: "?n \<le> max_entries"
    and rd: "read_entries get buf ?n 6 = Some (es, off)" and off: "off = length buf"
    using assms by (auto simp: packet_decode_def split: if_splits option.splits)
  note r = read_sound [OF rd len(1)]
  have "le16 (word_of_nat (length es)) = bslice 4 2 buf"
    using r len by (simp add: le16_rd16 length_bslice)
  moreover have "imgs es = drop 6 buf"
    using r off by (metis add_diff_cancel_left' bslice_def length_drop order_refl take_all)
  moreover have "buf = take 4 buf @ bslice 4 2 buf @ drop 6 buf"
    using append_take_drop_id [of 2 "drop 4 buf"] by (simp add: bslice_def)
  ultimately have "buf = packet_image (take 4 buf) es"
    by (simp add: packet_image_def)
  with r len n show ?thesis by simp
qed

end

text \<open>
  The chunker: its chunks concatenate to the input, none is empty, and each respects both caps,
  provided a single entry fits a packet on its own.
\<close>

definition chunk_fits :: "nat \<Rightarrow> nat \<Rightarrow> nat \<Rightarrow> ('e \<Rightarrow> nat) \<Rightarrow> 'e list \<Rightarrow> bool" where
  "chunk_fits max_entries max_packet header_len entry_len c \<longleftrightarrow>
     c \<noteq> [] \<and> length c \<le> max_entries \<and> header_len + sum_list (map entry_len c) \<le> max_packet"

lemma chunk_loop_concat:
  "concat (chunk_loop me mp hl len es chunks cur cl) = concat chunks @ cur @ es"
  by (induction me mp hl len es chunks cur cl rule: chunk_loop.induct) simp_all

lemma chunk_loop_fits:
  assumes "\<forall>c \<in> set chunks. chunk_fits me mp hl len c" and "0 < me"
    and "\<forall>e \<in> set es. hl + len e \<le> mp"
    and "cl = hl + sum_list (map len cur)" and "cur \<noteq> [] \<Longrightarrow> chunk_fits me mp hl len cur"
  shows "\<forall>c \<in> set (chunk_loop me mp hl len es chunks cur cl). chunk_fits me mp hl len c"
  using assms
proof (induction me mp hl len es chunks cur cl rule: chunk_loop.induct)
  case (1 me mp hl len chunks cur cl)
  then show ?case by auto
next
  case (2 me mp hl len e es chunks cur cl)
  have e: "hl + len e \<le> mp" and es: "\<forall>e \<in> set es. hl + len e \<le> mp" and me: "0 < me"
    and cl: "cl = hl + sum_list (map len cur)" and chunks: "\<forall>c \<in> set chunks. chunk_fits me mp hl len c"
    using "2.prems" by simp_all
  show ?case
  proof (cases "cur \<noteq> [] \<and> (me \<le> length cur \<or> mp < cl + len e)")
    case True
    have "\<forall>c \<in> set (chunks @ [cur]). chunk_fits me mp hl len c" and "chunk_fits me mp hl len [e]"
      using True chunks "2.prems"(5) e me by (simp_all add: chunk_fits_def Suc_le_eq)
    then show ?thesis
      unfolding chunk_loop.simps if_P [OF True]
      using es me by (intro "2.IH"(1) [OF True]) simp_all
  next
    case False
    have "chunk_fits me mp hl len (cur @ [e])"
      using False e me cl by (cases "cur = []") (simp_all add: chunk_fits_def Suc_le_eq not_le)
    then show ?thesis
      unfolding chunk_loop.simps if_not_P [OF False]
      using chunks es me cl by (intro "2.IH"(2) [OF False]) simp_all
  qed
qed

section \<open>The three entry kinds are entry codecs\<close>

definition topic_dir_image :: "TopicDirEntry \<Rightarrow> bytes" where
  "topic_dir_image e = le32 (td_topic_id e) @ [word_of_nat (length (td_name e))] @ td_name e"

definition role_announce_image :: "RoleAnnounceEntry \<Rightarrow> bytes" where
  "role_announce_image e = le32 (ra_topic_id e) @ [ra_role e]"

definition role_peer_image :: "RolePeerEntry \<Rightarrow> bytes" where
  "role_peer_image e = le32 (rp_topic_id e) @ [rp_role e] @ le32 (rp_ip e) @ le16 (rp_port e)"

lemma length_entry_images [simp]:
  "length (topic_dir_image e) = 5 + length (td_name e)"
  "length (role_announce_image a) = 5" "length (role_peer_image p) = 11"
  by (simp_all add: topic_dir_image_def role_announce_image_def role_peer_image_def)

definition name_fits :: "TopicDirEntry \<Rightarrow> bool" where
  "name_fits e \<longleftrightarrow> length (td_name e) \<le> kTopicDirMaxNameLen"

lemmas dir_consts =
  kTopicDirMagicLen_def kTopicDirMaxEntries_def kTopicDirMaxNameLen_def kTopicDirMaxPacket_def
  kRoleMaxEntries_def kRoleMaxPacket_def

lemma slice_head_at: "bslice (length pre) n (pre @ xs) = take n xs"
  by (simp add: bslice_def)

lemma slice_tail_at: "bslice (length pre + k) n (pre @ xs) = bslice k n xs"
  by (simp add: bslice_def)

lemma bslice_snoc:
  "off + n < length xs \<Longrightarrow> bslice off (Suc n) xs = bslice off n xs @ [xs ! (off + n)]"
  by (simp add: bslice_def take_Suc_conv_app_nth)

lemma bslice_split: "bslice off (n + m) xs = bslice off n xs @ bslice (off + n) m xs"
  by (simp add: bslice_join)

interpretation topic_dir: entry_codec topic_dir_image name_fits put_topic_dir_entry get_topic_dir_entry
proof unfold_locales
  fix cap off and e :: TopicDirEntry
  show "put_topic_dir_entry cap off e = (if name_fits e \<and> off + length (topic_dir_image e) \<le> cap
      then Some (topic_dir_image e) else None)"
    by (auto simp: put_topic_dir_entry_def topic_dir_image_def name_fits_def dir_consts
        unat_u8_of_nat Let_def)
next
  fix e :: TopicDirEntry and pre suf
  assume "name_fits e"
  then have "unat (word_of_nat (length (td_name e)) :: u8) = length (td_name e)"
    by (simp add: name_fits_def dir_consts unat_u8_of_nat)
  then show "get_topic_dir_entry (pre @ topic_dir_image e @ suf) (length pre) =
      Some (e, length pre + length (topic_dir_image e))"
    by (simp add: get_topic_dir_entry_def topic_dir_image_def Let_def nth_append bslice_def)
next
  fix buf off off' and e :: TopicDirEntry
  assume get: "get_topic_dir_entry buf off = Some (e, off')"
  let ?n = "unat (buf ! (off + 4))"
  from get have len: "off + 5 + ?n \<le> length buf" and off': "off' = off + 5 + ?n"
    and e: "e = \<lparr>td_topic_id = rd32 (bslice off 4 buf), td_name = bslice (off + 5) ?n buf\<rparr>"
    by (auto simp: get_topic_dir_entry_def Let_def add.commute split: if_splits)
  have "length (td_name e) = ?n" using len by (simp add: e length_bslice)
  moreover have "bslice off (4 + (1 + ?n)) buf = topic_dir_image e"
    using len \<open>length (td_name e) = ?n\<close> unfolding bslice_split topic_dir_image_def
    by (simp add: e le32_rd32 length_bslice add.assoc)
      (simp add: bslice_snoc [of _ 0] bslice_def [of _ 0] add.commute)
  ultimately show "name_fits e \<and> off' = off + length (topic_dir_image e) \<and> off' \<le> length buf \<and>
      bslice off (length (topic_dir_image e)) buf = topic_dir_image e"
    using len off' unat_byte_less [of "buf ! (off + 4)"]
    by (simp add: name_fits_def dir_consts topic_dir_image_def)
qed

interpretation role_announce:
  entry_codec role_announce_image "\<lambda>_. True" put_role_announce get_role_announce
proof unfold_locales
  fix buf off off' e
  assume "get_role_announce buf off = Some (e, off')"
  then have len: "off + 5 \<le> length buf" and "off' = off + 5"
    and "e = \<lparr>ra_topic_id = rd32 (bslice off 4 buf), ra_role = buf ! (off + 4)\<rparr>"
    by (auto simp: get_role_announce_def split: if_splits)
  moreover have "bslice off 5 buf = bslice off 4 buf @ [buf ! (off + 4)]"
    using len bslice_snoc [of off 4 buf] by simp
  ultimately show "True \<and> off' = off + length (role_announce_image e) \<and> off' \<le> length buf \<and>
      bslice off (length (role_announce_image e)) buf = role_announce_image e"
    by (simp add: role_announce_image_def le32_rd32 length_bslice)
qed (simp_all add: put_role_announce_def get_role_announce_def role_announce_image_def
      nth_append bslice_def)

interpretation role_peer: entry_codec role_peer_image "\<lambda>_. True" put_role_peer get_role_peer
proof unfold_locales
  fix buf off off' e
  assume "get_role_peer buf off = Some (e, off')"
  then have len: "off + 11 \<le> length buf" and "off' = off + 11"
    and "e = \<lparr>rp_topic_id = rd32 (bslice off 4 buf), rp_role = buf ! (off + 4),
      rp_ip = rd32 (bslice (off + 5) 4 buf), rp_port = rd16 (bslice (off + 9) 2 buf)\<rparr>"
    by (auto simp: get_role_peer_def split: if_splits)
  moreover have "bslice off (Suc 4 + (4 + 2)) buf =
      bslice off 4 buf @ [buf ! (off + 4)] @ bslice (off + 5) 4 buf @ bslice (off + 9) 2 buf"
    using len bslice_snoc [of off 4 buf] unfolding bslice_split by (simp add: add.commute)
  ultimately show "True \<and> off' = off + length (role_peer_image e) \<and> off' \<le> length buf \<and>
      bslice off (length (role_peer_image e)) buf = role_peer_image e"
    by (simp add: role_peer_image_def le32_rd32 le16_rd16 length_bslice)
qed (simp_all add: put_role_peer_def get_role_peer_def role_peer_image_def nth_append bslice_def)

text \<open>The functions of the source are the packet functions of their codec.\<close>

lemma topic_dir_packets:
  "encode_topic_dir_entries magic es cap = topic_dir.packet_encode magic 512 es cap"
  "decode_topic_dir_entries buf = topic_dir.packet_decode 512 8192 buf"
  by (simp_all add: encode_topic_dir_entries_def decode_topic_dir_entries_def Let_def dir_consts
      topic_dir.packet_encode_def topic_dir.packet_decode_def)

lemma role_announce_packets:
  "encode_role_announce as cap = role_announce.packet_encode kRoleAnnounceMagic 2048 as cap"
  "decode_role_announce buf = role_announce.packet_decode 2048 8192 buf"
  by (simp_all add: encode_role_announce_def decode_role_announce_def Let_def dir_consts
      role_announce.packet_encode_def role_announce.packet_decode_def)

lemma role_reply_packets:
  "encode_role_reply ps cap = role_peer.packet_encode kRoleReplyMagic 2048 ps cap"
  "decode_role_reply buf = role_peer.packet_decode 2048 8192 buf"
  by (simp_all add: encode_role_reply_def decode_role_reply_def Let_def dir_consts
      role_peer.packet_encode_def role_peer.packet_decode_def)

lemma chunkers_eq:
  "chunk_topic_dir_entries es = chunk_loop 512 8192 6 topic_dir_entry_len es [] [] 6"
  "chunk_role_announce_entries as = chunk_loop 2048 8192 6 (\<lambda>e. 5) as [] [] 6"
  "chunk_role_peer_entries ps = chunk_loop 2048 8192 6 (\<lambda>e. 11) ps [] [] 6"
  by (simp_all add: chunk_topic_dir_entries_def chunk_role_announce_entries_def
      chunk_role_peer_entries_def dir_consts)

lemmas dir_magics =
  kTopicDirAnnounceMagic_def kTopicDirQueryMagic_def kTopicDirReplyMagic_def
  kRoleAnnounceMagic_def kRoleQueryMagic_def kRoleReplyMagic_def

lemma sum_imgs:
  "sum_list (map topic_dir_entry_len es) = length (topic_dir.imgs es)"
  "5 * length as = length (role_announce.imgs as)"
  "11 * length ps = length (role_peer.imgs ps)"
proof -
  show "sum_list (map topic_dir_entry_len es) = length (topic_dir.imgs es)"
    by (induction es) (simp_all add: topic_dir_entry_len_def)
  show "5 * length as = length (role_announce.imgs as)"
    by (induction as) simp_all
  show "11 * length ps = length (role_peer.imgs ps)"
    by (induction ps) simp_all
qed

section \<open>Properties of the directories\<close>

text \<open>
  C31: The name-directory decoder is the exact inverse of the encoder: it accepts a buffer with
  entries \<open>es\<close> if and only if the buffer is at most 8192 bytes and encoding \<open>es\<close> under the buffer's
  own magic gives the buffer back. Truncated packets, trailing bytes and counts over the cap are
  refused.
\<close>

theorem topic_dir_decode_iff_encode:
  "decode_topic_dir_entries buf = Some es \<longleftrightarrow>
   4 \<le> length buf \<and> length buf \<le> 8192 \<and>
   encode_topic_dir_entries (take 4 buf) es (length buf) = Some buf" (is "?l \<longleftrightarrow> ?r")
proof
  assume ?l
  note s = topic_dir.packet_decode_sound [OF \<open>?l\<close> [unfolded topic_dir_packets]]
  have "6 \<le> length buf"
    using \<open>?l\<close> by (auto simp: decode_topic_dir_entries_def dir_consts split: if_splits)
  with s topic_dir.length_packet_image [of "take 4 buf" es]
  show ?r by (simp add: topic_dir_packets topic_dir.packet_encode_eq)
next
  assume ?r
  then have "length es \<le> 512" "\<forall>e \<in> set es. name_fits e" "topic_dir.packet_image (take 4 buf) es = buf"
    "6 + length (topic_dir.imgs es) \<le> 8192" "length (take 4 buf) = 4"
    by (auto simp: topic_dir_packets topic_dir.packet_encode_eq split: if_splits)
  then show ?l
    using topic_dir.packet_decode_image [of "take 4 buf" es 512 8192] by (simp add: topic_dir_packets)
qed

lemma topic_dir_chunks_concat: "concat (chunk_topic_dir_entries es) = es"
  by (simp add: chunkers_eq chunk_loop_concat)

text \<open>A chunk is one packet under any of the magics, and decodes to itself.\<close>

lemma topic_dir_chunk_packet:
  assumes "\<forall>e \<in> set es. length (td_name e) \<le> 255" and "c \<in> set (chunk_topic_dir_entries es)" and "length magic = 4"
  defines "pkt \<equiv> topic_dir.packet_image magic c"
  shows "encode_topic_dir_entries magic c 8192 = Some pkt" and "decode_topic_dir_entries pkt = Some c"
    and "6 \<le> length pkt \<and> length pkt \<le> 8192" and "take 4 pkt = magic"
proof -
  have "\<forall>c \<in> set (chunk_topic_dir_entries es). chunk_fits 512 8192 6 topic_dir_entry_len c"
    unfolding chunkers_eq
    by (rule chunk_loop_fits) (use assms in \<open>auto simp: topic_dir_entry_len_def\<close>)
  then have len: "length c \<le> 512" "6 + length (topic_dir.imgs c) \<le> 8192"
    using assms(2) by (auto simp: chunk_fits_def sum_imgs)
  have ok: "\<forall>e \<in> set c. name_fits e"
    using assms(1,2) by (subst (asm) topic_dir_chunks_concat [symmetric]) (auto simp: name_fits_def dir_consts)
  show "encode_topic_dir_entries magic c 8192 = Some pkt"
    using ok len by (simp add: pkt_def topic_dir_packets topic_dir.packet_encode_eq)
  show "decode_topic_dir_entries pkt = Some c"
    using ok len assms(3) by (simp add: pkt_def topic_dir_packets topic_dir.packet_decode_image)
  show "6 \<le> length pkt \<and> length pkt \<le> 8192"
    using len assms(3) by (simp add: pkt_def topic_dir.length_packet_image)
  show "take 4 pkt = magic" using assms(3) by (simp add: pkt_def topic_dir.packet_image_def)
qed

text \<open>
  Chunking the name directory loses nothing and reorders nothing, and, as long as every name
  is at most 255 bytes, each chunk is encoded into one 8192-byte packet that the receiver
  classifies as an announce and decodes to exactly that chunk.
\<close>

theorem topic_dir_chunks_delivered:
  assumes "\<forall>e \<in> set es. length (td_name e) \<le> 255"
  shows "concat (chunk_topic_dir_entries es) = es \<and>
    (\<forall>c \<in> set (chunk_topic_dir_entries es). \<exists>pkt. encode_topic_dir_announce c 8192 = Some pkt \<and>
       topic_dir_packet_kind pkt = TdAnnounce \<and> decode_topic_dir_entries pkt = Some c)"
proof (intro conjI ballI)
  show "concat (chunk_topic_dir_entries es) = es" by (rule topic_dir_chunks_concat)
  fix c assume c: "c \<in> set (chunk_topic_dir_entries es)"
  have m: "length kTopicDirAnnounceMagic = 4" by (simp add: dir_magics)
  note p = topic_dir_chunk_packet [OF assms c m]
  show "\<exists>pkt. encode_topic_dir_announce c 8192 = Some pkt \<and>
       topic_dir_packet_kind pkt = TdAnnounce \<and> decode_topic_dir_entries pkt = Some c"
    using p by (auto simp: encode_topic_dir_announce_def topic_dir_packet_kind_def dir_magics dir_consts)
qed

theorem topic_dir_chunks_delivered_witness:
  "concat (chunk_topic_dir_entries [\<lparr>td_topic_id = 7, td_name = [0x2F, 0x61]\<rparr>]) =
     [\<lparr>td_topic_id = 7, td_name = [0x2F, 0x61]\<rparr>]"
  using topic_dir_chunks_delivered [of "[\<lparr>td_topic_id = 7, td_name = [0x2F, 0x61]\<rparr>]"] by simp

text \<open>
  A topic whose name is longer than 255 bytes silences its whole chunk: whatever the buffer,
  no packet is encoded for the chunk that holds it, although chunking keeps every entry.
\<close>

theorem topic_dir_long_name_unsendable:
  "length (td_name e) > 255 \<and> e \<in> set es \<longrightarrow>
   (\<exists>c \<in> set (chunk_topic_dir_entries es). e \<in> set c \<and>
      (\<forall>magic cap. encode_topic_dir_entries magic c cap = None))"
proof
  assume a: "length (td_name e) > 255 \<and> e \<in> set es"
  then obtain c where "c \<in> set (chunk_topic_dir_entries es)" "e \<in> set c"
    using chunk_loop_concat [of 512 8192 6 topic_dir_entry_len es "[]" "[]" 6]
    by (metis UN_E append_Nil chunkers_eq(1) concat.simps(1) set_concat)
  then show "\<exists>c \<in> set (chunk_topic_dir_entries es). e \<in> set c \<and>
      (\<forall>magic cap. encode_topic_dir_entries magic c cap = None)"
    using a by (force simp: topic_dir_packets topic_dir.packet_encode_eq name_fits_def dir_consts)
qed

theorem topic_dir_long_name_unsendable_witness:
  "\<exists>c \<in> set (chunk_topic_dir_entries [\<lparr>td_topic_id = 7, td_name = replicate 256 0x61\<rparr>]).
     \<lparr>td_topic_id = 7, td_name = replicate 256 0x61\<rparr> \<in> set c \<and>
     (\<forall>magic cap. encode_topic_dir_entries magic c cap = None)"
  by (rule topic_dir_long_name_unsendable [rule_format]) simp

text \<open>
  Role announcements and role replies reach the receiver unchanged: chunking keeps the list,
  every chunk fits one packet, is classified as what it is, and decodes to itself.
\<close>

theorem role_chunks_delivered:
  "concat (chunk_role_announce_entries as) = as \<and> concat (chunk_role_peer_entries ps) = ps \<and>
   list_all (\<lambda>c. \<exists>pkt. encode_role_announce c 8192 = Some pkt \<and> role_packet_kind pkt = RdAnnounce \<and>
      topic_dir_packet_kind pkt = TdUnknown \<and> decode_role_announce pkt = Some c)
     (chunk_role_announce_entries as) \<and>
   list_all (\<lambda>c. \<exists>pkt. encode_role_reply c 8192 = Some pkt \<and> role_packet_kind pkt = RdReply \<and>
      topic_dir_packet_kind pkt = TdUnknown \<and> decode_role_reply pkt = Some c)
     (chunk_role_peer_entries ps)"
proof -
  have fa: "\<forall>c \<in> set (chunk_role_announce_entries as). chunk_fits 2048 8192 6 (\<lambda>e. 5) c"
    and fp: "\<forall>c \<in> set (chunk_role_peer_entries ps). chunk_fits 2048 8192 6 (\<lambda>e. 11) c"
    unfolding chunkers_eq by (rule chunk_loop_fits; simp)+
  have "\<exists>pkt. encode_role_announce c 8192 = Some pkt \<and> role_packet_kind pkt = RdAnnounce \<and>
      topic_dir_packet_kind pkt = TdUnknown \<and> decode_role_announce pkt = Some c"
    if "chunk_fits 2048 8192 6 (\<lambda>e. 5) c" for c
  proof (intro exI conjI)
    have fits: "length c \<le> 2048" "6 + length (role_announce.imgs c) \<le> 8192"
      using that sum_imgs(2) [of c] by (simp_all add: chunk_fits_def sum_list_triv)
    let ?pkt = "role_announce.packet_image kRoleAnnounceMagic c"
    show "encode_role_announce c 8192 = Some ?pkt"
      using fits by (simp add: role_announce_packets role_announce.packet_encode_eq)
    show "role_packet_kind ?pkt = RdAnnounce" "topic_dir_packet_kind ?pkt = TdUnknown"
      by (simp_all add: role_announce.packet_image_def role_packet_kind_def topic_dir_packet_kind_def
          dir_magics dir_consts)
    show "decode_role_announce ?pkt = Some c"
      unfolding role_announce_packets using fits
      by (intro role_announce.packet_decode_image) (simp_all add: dir_magics)
  qed
  moreover have "\<exists>pkt. encode_role_reply c 8192 = Some pkt \<and> role_packet_kind pkt = RdReply \<and>
      topic_dir_packet_kind pkt = TdUnknown \<and> decode_role_reply pkt = Some c"
    if "chunk_fits 2048 8192 6 (\<lambda>e. 11) c" for c
  proof (intro exI conjI)
    have fits: "length c \<le> 2048" "6 + length (role_peer.imgs c) \<le> 8192"
      using that sum_imgs(3) [of c] by (simp_all add: chunk_fits_def sum_list_triv)
    let ?pkt = "role_peer.packet_image kRoleReplyMagic c"
    show "encode_role_reply c 8192 = Some ?pkt"
      using fits by (simp add: role_reply_packets role_peer.packet_encode_eq)
    show "role_packet_kind ?pkt = RdReply" "topic_dir_packet_kind ?pkt = TdUnknown"
      by (simp_all add: role_peer.packet_image_def role_packet_kind_def topic_dir_packet_kind_def
          dir_magics dir_consts)
    show "decode_role_reply ?pkt = Some c"
      unfolding role_reply_packets using fits
      by (intro role_peer.packet_decode_image) (simp_all add: dir_magics)
  qed
  ultimately show ?thesis
    using fa fp by (simp add: list_all_iff chunkers_eq chunk_loop_concat)
qed

end
