(* ===== verification/Crypto.thy ===== *)
theory Crypto
  imports Relink_Prelude
begin

text \<open>
  AES-256-GCM as \<^verbatim>\<open>cpp/include/relink/crypto.hpp\<close> implements it for sealed registration traffic, and the
  textual key format. A \<^verbatim>\<open>uint8_t[16]\<close> is a list of sixteen bytes; an \<^verbatim>\<open>Aes256\<close> object is its sixty
  round-key words. The random nonce is a parameter of \<open>aes256gcm_seal\<close>.
\<close>

definition kAesKeyBytes :: nat where "kAesKeyBytes = 32"
definition kAesGcmNonceBytes :: nat where "kAesGcmNonceBytes = 12"
definition kAesGcmTagBytes :: nat where "kAesGcmTagBytes = 16"

section \<open>AES-256\<close>

definition kSbox :: bytes where
  "kSbox = [
    0x63, 0x7c, 0x77, 0x7b, 0xf2, 0x6b, 0x6f, 0xc5, 0x30, 0x01, 0x67, 0x2b, 0xfe, 0xd7, 0xab, 0x76,
    0xca, 0x82, 0xc9, 0x7d, 0xfa, 0x59, 0x47, 0xf0, 0xad, 0xd4, 0xa2, 0xaf, 0x9c, 0xa4, 0x72, 0xc0,
    0xb7, 0xfd, 0x93, 0x26, 0x36, 0x3f, 0xf7, 0xcc, 0x34, 0xa5, 0xe5, 0xf1, 0x71, 0xd8, 0x31, 0x15,
    0x04, 0xc7, 0x23, 0xc3, 0x18, 0x96, 0x05, 0x9a, 0x07, 0x12, 0x80, 0xe2, 0xeb, 0x27, 0xb2, 0x75,
    0x09, 0x83, 0x2c, 0x1a, 0x1b, 0x6e, 0x5a, 0xa0, 0x52, 0x3b, 0xd6, 0xb3, 0x29, 0xe3, 0x2f, 0x84,
    0x53, 0xd1, 0x00, 0xed, 0x20, 0xfc, 0xb1, 0x5b, 0x6a, 0xcb, 0xbe, 0x39, 0x4a, 0x4c, 0x58, 0xcf,
    0xd0, 0xef, 0xaa, 0xfb, 0x43, 0x4d, 0x33, 0x85, 0x45, 0xf9, 0x02, 0x7f, 0x50, 0x3c, 0x9f, 0xa8,
    0x51, 0xa3, 0x40, 0x8f, 0x92, 0x9d, 0x38, 0xf5, 0xbc, 0xb6, 0xda, 0x21, 0x10, 0xff, 0xf3, 0xd2,
    0xcd, 0x0c, 0x13, 0xec, 0x5f, 0x97, 0x44, 0x17, 0xc4, 0xa7, 0x7e, 0x3d, 0x64, 0x5d, 0x19, 0x73,
    0x60, 0x81, 0x4f, 0xdc, 0x22, 0x2a, 0x90, 0x88, 0x46, 0xee, 0xb8, 0x14, 0xde, 0x5e, 0x0b, 0xdb,
    0xe0, 0x32, 0x3a, 0x0a, 0x49, 0x06, 0x24, 0x5c, 0xc2, 0xd3, 0xac, 0x62, 0x91, 0x95, 0xe4, 0x79,
    0xe7, 0xc8, 0x37, 0x6d, 0x8d, 0xd5, 0x4e, 0xa9, 0x6c, 0x56, 0xf4, 0xea, 0x65, 0x7a, 0xae, 0x08,
    0xba, 0x78, 0x25, 0x2e, 0x1c, 0xa6, 0xb4, 0xc6, 0xe8, 0xdd, 0x74, 0x1f, 0x4b, 0xbd, 0x8b, 0x8a,
    0x70, 0x3e, 0xb5, 0x66, 0x48, 0x03, 0xf6, 0x0e, 0x61, 0x35, 0x57, 0xb9, 0x86, 0xc1, 0x1d, 0x9e,
    0xe1, 0xf8, 0x98, 0x11, 0x69, 0xd9, 0x8e, 0x94, 0x9b, 0x1e, 0x87, 0xe9, 0xce, 0x55, 0x28, 0xdf,
    0x8c, 0xa1, 0x89, 0x0d, 0xbf, 0xe6, 0x42, 0x68, 0x41, 0x99, 0x2d, 0x0f, 0xb0, 0x54, 0xbb, 0x16]"

definition kRcon :: bytes where
  "kRcon = [0x00, 0x01, 0x02, 0x04, 0x08, 0x10, 0x20, 0x40, 0x80, 0x1b, 0x36, 0x6c, 0xd8, 0xab, 0x4d]"

definition sub_word :: "u32 \<Rightarrow> u32" where
  "sub_word temp =
     push_bit 24 (ucast (kSbox ! unat (drop_bit 24 temp AND 0xff))) OR
     push_bit 16 (ucast (kSbox ! unat (drop_bit 16 temp AND 0xff))) OR
     push_bit 8 (ucast (kSbox ! unat (drop_bit 8 temp AND 0xff))) OR
     ucast (kSbox ! unat (temp AND 0xff))"

definition key_word :: "bytes \<Rightarrow> nat \<Rightarrow> u32" where
  "key_word key i =
     push_bit 24 (ucast (key ! (4 * i))) OR push_bit 16 (ucast (key ! (4 * i + 1))) OR
     push_bit 8 (ucast (key ! (4 * i + 2))) OR ucast (key ! (4 * i + 3))"

definition expand_step :: "nat \<Rightarrow> u32 list \<Rightarrow> u32 list" where
  "expand_step i w =
     (let temp = w ! (i - 1);
          temp = (if i mod 8 = 0 then
                    sub_word (push_bit 8 temp OR drop_bit 24 temp)
                      XOR push_bit 24 (ucast (kRcon ! (i div 8)))
                  else if i mod 8 = 4 then sub_word temp
                  else temp)
      in w @ [w ! (i - 8) XOR temp])"

definition Aes256 :: "bytes \<Rightarrow> u32 list" where
  "Aes256 key = fold expand_step [8..<60] (map (key_word key) [0..<8])"

definition xtime :: "u8 \<Rightarrow> u8" where
  "xtime x = push_bit 1 x XOR (if x AND 0x80 \<noteq> 0 then 0x1b else 0)"

fun gmul_loop :: "nat \<Rightarrow> u8 \<Rightarrow> u8 \<Rightarrow> u8 \<Rightarrow> u8" where
  "gmul_loop 0 a b p = p"
| "gmul_loop (Suc n) a b p =
     gmul_loop n (xtime a) (drop_bit 1 b) (if b AND 1 \<noteq> 0 then p XOR a else p)"

definition gmul :: "u8 \<Rightarrow> u8 \<Rightarrow> u8" where "gmul a b = gmul_loop 8 a b 0"

definition add_round_key :: "u32 list \<Rightarrow> nat \<Rightarrow> bytes \<Rightarrow> bytes" where
  "add_round_key round_keys round s =
     concat (map (\<lambda>c. let rk = round_keys ! (round * 4 + c) in
       [s ! (4 * c) XOR ucast (drop_bit 24 rk), s ! (4 * c + 1) XOR ucast (drop_bit 16 rk),
        s ! (4 * c + 2) XOR ucast (drop_bit 8 rk), s ! (4 * c + 3) XOR ucast rk]) [0..<4])"

definition sub_bytes :: "bytes \<Rightarrow> bytes" where
  "sub_bytes s = map (\<lambda>i. kSbox ! unat (s ! i)) [0..<16]"

definition shift_rows :: "bytes \<Rightarrow> bytes" where
  "shift_rows t = concat (map (\<lambda>c. map (\<lambda>r. t ! (4 * ((c + r) mod 4) + r)) [0..<4]) [0..<4])"

definition mix_columns :: "bytes \<Rightarrow> bytes" where
  "mix_columns s =
     concat (map (\<lambda>c.
       let a0 = s ! (4 * c); a1 = s ! (4 * c + 1); a2 = s ! (4 * c + 2); a3 = s ! (4 * c + 3) in
       [gmul a0 2 XOR gmul a1 3 XOR a2 XOR a3,
        a0 XOR gmul a1 2 XOR gmul a2 3 XOR a3,
        a0 XOR a1 XOR gmul a2 2 XOR gmul a3 3,
        gmul a0 3 XOR a1 XOR a2 XOR gmul a3 2]) [0..<4])"

definition encrypt_block :: "u32 list \<Rightarrow> bytes \<Rightarrow> bytes" where
  "encrypt_block round_keys inp =
     (let s = add_round_key round_keys 0 inp;
          s = fold (\<lambda>round s. add_round_key round_keys round (mix_columns (shift_rows (sub_bytes s))))
                [1..<14] s
      in add_round_key round_keys 14 (shift_rows (sub_bytes s)))"

section \<open>GHASH and the counter mode\<close>

definition xor16 :: "bytes \<Rightarrow> bytes \<Rightarrow> bytes" where
  "xor16 a b = map (\<lambda>k. a ! k XOR b ! k) [0..<16]"

definition gf128_bit :: "u8 \<Rightarrow> nat \<Rightarrow> bytes \<times> bytes \<Rightarrow> bytes \<times> bytes" where
  "gf128_bit xi b zv =
     (let (z, v) = zv;
          z = (if drop_bit b xi AND 1 \<noteq> 0 then xor16 z v else z);
          lsb_set = (v ! 15 AND 1 \<noteq> 0);
          w = map (\<lambda>k. if k = 0 then drop_bit 1 (v ! 0)
                       else drop_bit 1 (v ! k) OR push_bit 7 (v ! (k - 1) AND 1)) [0..<16];
          w = (if lsb_set then w[0 := w ! 0 XOR 0xe1] else w)
      in (z, w))"

definition gf128_mul :: "bytes \<Rightarrow> bytes \<Rightarrow> bytes" where
  "gf128_mul x y =
     fst (fold (\<lambda>i. fold (gf128_bit (x ! i)) [7, 6, 5, 4, 3, 2, 1, 0]) [0..<16]
            (replicate 16 0, y))"

function ghash_loop :: "bytes \<Rightarrow> bytes \<Rightarrow> bytes \<Rightarrow> bytes" where
  "ghash_loop h y data =
     (if data = [] then y
      else
        let n = (if length data < 16 then length data else 16);
            block = take n data @ replicate (16 - n) 0
        in ghash_loop h (gf128_mul (xor16 y block) h) (drop n data))"
  by pat_completeness auto
termination by (relation "measure (\<lambda>(h, y, data). length data)") auto

definition ghash :: "bytes \<Rightarrow> bytes \<Rightarrow> bytes" where
  "ghash h data =
     (let y = ghash_loop h (replicate 16 0) data;
          c_bits = (word_of_nat (length data) :: u64) * 8;
          len_block = replicate 8 0 @ rev (map (\<lambda>i. ucast (drop_bit (8 * i) c_bits)) [0..<8])
      in gf128_mul (xor16 y len_block) h)"

fun inc32_loop :: "nat \<Rightarrow> bytes \<Rightarrow> bytes" where
  "inc32_loop 0 block = block"
| "inc32_loop (Suc n) block =
     (let i = 12 + n; block = block[i := block ! i + 1]
      in if block ! i \<noteq> 0 then block else inc32_loop n block)"

definition inc32 :: "bytes \<Rightarrow> bytes" where "inc32 block = inc32_loop 4 block"

function gctr :: "u32 list \<Rightarrow> bytes \<Rightarrow> bytes \<Rightarrow> bytes" where
  "gctr aes counter_block inp =
     (if inp = [] then []
      else
        let keystream = encrypt_block aes counter_block;
            n = (if length inp < 16 then length inp else 16)
        in map (\<lambda>i. inp ! i XOR keystream ! i) [0..<n] @ gctr aes (inc32 counter_block) (drop n inp))"
  by pat_completeness auto
termination by (relation "measure (\<lambda>(aes, ctr, inp). length inp)") auto

section \<open>The textual key\<close>

definition hex_chars :: bytes where
  "hex_chars = [0x30, 0x31, 0x32, 0x33, 0x34, 0x35, 0x36, 0x37, 0x38, 0x39,
                0x61, 0x62, 0x63, 0x64, 0x65, 0x66]"

definition key32_to_hex :: "bytes \<Rightarrow> bytes" where
  "key32_to_hex key =
     concat (map (\<lambda>i. [hex_chars ! unat (drop_bit 4 (key ! i)), hex_chars ! unat (key ! i AND 0x0f)])
               [0..<kAesKeyBytes])"

definition nibble :: "u8 \<Rightarrow> int" where
  "nibble c =
     (if 0x30 \<le> c \<and> c \<le> 0x39 then uint c - 0x30
      else if 0x61 \<le> c \<and> c \<le> 0x66 then uint c - 0x61 + 10
      else if 0x41 \<le> c \<and> c \<le> 0x46 then uint c - 0x41 + 10
      else -1)"

fun hex_to_key32_loop :: "bytes \<Rightarrow> nat \<Rightarrow> nat \<Rightarrow> bytes option" where
  "hex_to_key32_loop hex 0 i = Some []"
| "hex_to_key32_loop hex (Suc n) i =
     (let hi = nibble (hex ! (i * 2)); lo = nibble (hex ! (i * 2 + 1)) in
      if hi < 0 \<or> lo < 0 then None
      else (case hex_to_key32_loop hex n (Suc i) of
              None \<Rightarrow> None
            | Some key \<Rightarrow> Some (word_of_int (push_bit 4 hi OR lo) # key)))"

definition hex_to_key32 :: "bytes \<Rightarrow> bytes option" where
  "hex_to_key32 hex =
     (if length hex \<noteq> kAesKeyBytes * 2 then None else hex_to_key32_loop hex kAesKeyBytes 0)"

section \<open>Seal and open\<close>

definition gcm_j0 :: "bytes \<Rightarrow> bytes" where
  "gcm_j0 nonce = (take kAesGcmNonceBytes nonce @ replicate 4 0)[15 := 1]"

definition aes256gcm_seal :: "bytes \<Rightarrow> bytes \<Rightarrow> bytes \<Rightarrow> nat \<Rightarrow> bytes option" where
  "aes256gcm_seal key nonce pt out_capacity =
     (if out_capacity < kAesGcmNonceBytes + length pt + kAesGcmTagBytes then None
      else
        let aes = Aes256 key;
            h = encrypt_block aes (replicate 16 0);
            j0 = gcm_j0 nonce;
            ct = gctr aes (inc32 j0) pt;
            s = ghash h ct;
            tag = gctr aes j0 s
        in Some (take kAesGcmNonceBytes nonce @ ct @ tag))"

definition tag_diff :: "bytes \<Rightarrow> bytes \<Rightarrow> u8" where
  "tag_diff expected_tag tag =
     fold (\<lambda>i diff. diff OR (expected_tag ! i XOR tag ! i)) [0..<kAesGcmTagBytes] 0"

definition aes256gcm_open :: "bytes \<Rightarrow> bytes \<Rightarrow> nat \<Rightarrow> bytes option" where
  "aes256gcm_open key inp out_capacity =
     (if length inp < kAesGcmNonceBytes + kAesGcmTagBytes then None
      else
        let nonce = take kAesGcmNonceBytes inp;
            ct_len = length inp - kAesGcmNonceBytes - kAesGcmTagBytes;
            ct = bslice kAesGcmNonceBytes ct_len inp;
            tag = drop (kAesGcmNonceBytes + ct_len) inp
        in if out_capacity < ct_len then None
           else
             let aes = Aes256 key;
                 h = encrypt_block aes (replicate 16 0);
                 j0 = gcm_j0 nonce;
                 s = ghash h ct;
                 expected_tag = gctr aes j0 s
             in if tag_diff expected_tag tag \<noteq> 0 then None
                else Some (gctr aes (inc32 j0) ct))"

section \<open>Lengths, and the counter mode as an involution\<close>

declare ghash_loop.simps [simp del] gctr.simps [simp del]

lemmas gcm_consts = kAesKeyBytes_def kAesGcmNonceBytes_def kAesGcmTagBytes_def

lemma length_xor16 [simp]: "length (xor16 a b) = 16"
  by (simp add: xor16_def)

lemma upt_0_4: "[0..<4] = [0, 1, 2, 3 :: nat]"
  by (simp add: upt_rec)

lemma length_add_round_key [simp]: "length (add_round_key k r s) = 16"
  by (simp add: add_round_key_def upt_0_4 Let_def)

lemma length_encrypt_block [simp]: "length (encrypt_block k s) = 16"
  by (simp add: encrypt_block_def Let_def)

lemma fst_gf128_bit_length:
  "length (fst zv) = 16 \<Longrightarrow> length (fst (gf128_bit xi b zv)) = 16"
  by (auto simp: gf128_bit_def Let_def split: prod.splits)

lemma length_gf128_mul [simp]: "length (gf128_mul x y) = 16"
proof -
  have "length (fst (fold (\<lambda>i. fold (gf128_bit (x ! i)) [7, 6, 5, 4, 3, 2, 1, 0]) is zv)) = 16"
    if "length (fst zv) = 16" for "is" zv
    using that by (induction "is" arbitrary: zv) (simp_all add: fst_gf128_bit_length)
  then show ?thesis by (simp add: gf128_mul_def)
qed

lemma length_ghash [simp]: "length (ghash h d) = 16"
  by (simp add: ghash_def Let_def)

lemma length_gctr [simp]: "length (gctr aes ctr inp) = length inp"
proof (induction aes ctr inp rule: gctr.induct)
  case (1 aes ctr inp)
  show ?case
  proof (cases "inp = []")
    case True
    then show ?thesis by (simp add: gctr.simps)
  next
    case False
    with 1 show ?thesis
      by (subst gctr.simps) (auto simp: Let_def)
  qed
qed

lemma xor_twice: "(a XOR k) XOR k = (a :: u8)"
  by (simp add: xor.assoc)

lemma gctr_gctr [simp]: "gctr aes ctr (gctr aes ctr inp) = inp"
proof (induction aes ctr inp rule: gctr.induct)
  case (1 aes ctr inp)
  show ?case
  proof (cases "inp = []")
    case True
    then show ?thesis by (simp add: gctr.simps)
  next
    case False
    let ?ks = "encrypt_block aes ctr"
    let ?n = "if length inp < 16 then length inp else 16"
    let ?hd = "map (\<lambda>i. inp ! i XOR ?ks ! i) [0..<?n]"
    let ?out = "gctr aes ctr inp"
    have out: "?out = ?hd @ gctr aes (inc32 ctr) (drop ?n inp)"
      using False by (subst gctr.simps) (simp add: Let_def)
    have n: "?n \<le> length inp" "length ?hd = ?n" by simp_all
    have drop_out: "drop ?n ?out = gctr aes (inc32 ctr) (drop ?n inp)"
      unfolding out using n(2) by simp
    have head: "map (\<lambda>i. ?out ! i XOR ?ks ! i) [0..<?n] = take ?n inp"
      unfolding out using n by (intro nth_equalityI) (simp_all add: nth_append xor_twice)
    have "gctr aes ctr ?out = map (\<lambda>i. ?out ! i XOR ?ks ! i) [0..<?n]
        @ gctr aes (inc32 ctr) (drop ?n ?out)"
    proof -
      have "?out \<noteq> []" using False by (metis length_0_conv length_gctr)
      then show ?thesis by (subst gctr.simps) (simp only: Let_def length_gctr if_False)
    qed
    also have "\<dots> = take ?n inp @ drop ?n inp"
      unfolding head drop_out using 1 [OF False refl refl] by simp
    finally show ?thesis by simp
  qed
qed

lemma or_eq_0: "(a :: u8) OR b = 0 \<longleftrightarrow> a = 0 \<and> b = 0"
  by (auto simp: bit_eq_iff bit_simps)

lemma xor_eq_0: "(a :: u8) XOR b = 0 \<longleftrightarrow> a = b"
  by (metis xor_self_eq xor_twice xor.left_neutral)

lemma tag_diff_zero:
  assumes "length t = 16" "length u = 16"
  shows "tag_diff t u = 0 \<longleftrightarrow> t = u"
proof -
  have "fold (\<lambda>i diff. diff OR (t ! i XOR u ! i)) is d = 0 \<longleftrightarrow> d = 0 \<and> (\<forall>i \<in> set is. t ! i = u ! i)"
    for "is" and d :: u8
    by (induction "is" arbitrary: d) (auto simp: or_eq_0 xor_eq_0)
  then show ?thesis
    using assms by (auto simp: tag_diff_def gcm_consts list_eq_iff_nth_eq)
qed

section \<open>The counter\<close>

definition be32 :: "bytes \<Rightarrow> nat" where
  "be32 block = le_nat (rev (drop 12 block))"

lemma unat_add_one: "unat ((a :: u8) + 1) = (unat a + 1) mod 256"
  by (simp add: unat_word_ariths)

lemma inc_zero_iff: "(a :: u8) + 1 = 0 \<longleftrightarrow> unat a = 255"
proof -
  have "a + 1 = 0 \<longleftrightarrow> unat (a + 1) = 0" by (simp add: unat_eq_0)
  then show ?thesis using unat_byte_less [of a] by (auto simp: unat_add_one mod_Suc)
qed

lemma unat_inc: "unat ((a :: u8) + 1) = (if a + 1 = 0 then 0 else unat a + 1)"
  using unat_byte_less [of a] by (auto simp: unat_add_one inc_zero_iff)

lemma length_4_cases: "length xs = 4 \<Longrightarrow> \<exists>a b c d. xs = [a, b, c, d]"
  by (auto simp: list_of_length)

lemma block_cases:
  assumes "length block = 16"
  obtains pre a b c d where "block = pre @ [a, b, c, d]" and "length pre = 12"
proof -
  have "length (drop 12 block) = 4" using assms by simp
  from length_4_cases [OF this] obtain a b c d where "drop 12 block = [a, b, c, d]" by blast
  then have "block = take 12 block @ [a, b, c, d]" by (metis append_take_drop_id)
  then show thesis using that [of "take 12 block" a b c d] assms by simp
qed

lemma inc32_quad:
  assumes "length pre = 12"
  shows "inc32 (pre @ [a, b, c, d]) = pre @
    (if d + 1 \<noteq> 0 then [a, b, c, d + 1] else if c + 1 \<noteq> 0 then [a, b, c + 1, 0]
     else if b + 1 \<noteq> 0 then [a, b + 1, 0, 0] else [a + 1, 0, 0, 0])"
  using assms by (simp add: inc32_def numeral_eq_Suc Let_def nth_append list_update_append)

lemma inc32_step:
  assumes "length block = 16"
  shows "length (inc32 block) = 16 \<and> take 12 (inc32 block) = take 12 block \<and>
    be32 (inc32 block) = (be32 block + 1) mod 2 ^ 32"
proof -
  obtain pre a b c d where block: "block = pre @ [a, b, c, d]" "length pre = 12"
    using block_cases [OF assms] .
  have "be32 (inc32 block) = (be32 block + 1) mod 2 ^ 32"
    using unat_byte_less [of a] unat_byte_less [of b] unat_byte_less [of c] unat_byte_less [of d]
    unfolding block(1) inc32_quad [OF block(2)] be32_def using block(2)
    by (auto simp: unat_inc inc_zero_iff)
  then show ?thesis
    by (simp add: block inc32_quad)
qed

lemma inc32_iterate:
  assumes "length block = 16"
  shows "length ((inc32 ^^ i) block) = 16 \<and> take 12 ((inc32 ^^ i) block) = take 12 block \<and>
    be32 ((inc32 ^^ i) block) = (be32 block + i) mod 2 ^ 32"
proof (induction i)
  case 0
  have "be32 block < 2 ^ 32"
    using le_nat_bound [of "rev (drop 12 block)"] assms by (simp add: be32_def)
  then show ?case using assms by simp
next
  case (Suc i)
  then show ?case using inc32_step [of "(inc32 ^^ i) block"] by (simp add: mod_simps)
qed

text \<open>
  Incrementing a counter block adds one modulo \<open>2 ^ 32\<close> to its last four bytes, read big-endian,
  and leaves the nonce alone; so the blocks of one message are pairwise different for up to \<open>2 ^ 32\<close>
  of them, and no keystream block is used twice.
\<close>

theorem counter_blocks_distinct:
  assumes "length block = 16" and "i < j" and "j < 2 ^ 32"
  shows "(inc32 ^^ i) block \<noteq> (inc32 ^^ j) block \<and>
    take 12 ((inc32 ^^ i) block) = take 12 block \<and>
    be32 ((inc32 ^^ i) block) = (be32 block + i) mod 2 ^ 32"
proof -
  have "(be32 block + i) mod 2 ^ 32 \<noteq> (be32 block + j) mod 2 ^ 32"
  proof
    assume "(be32 block + i) mod 2 ^ 32 = (be32 block + j) mod 2 ^ 32"
    then have "(2 :: nat) ^ 32 dvd (be32 block + j) - (be32 block + i)"
      using assms(2) mod_eq_dvd_iff_nat [of "be32 block + i" "be32 block + j" "2 ^ 32"] by simp
    then show False using assms(2,3) dvd_imp_le [of "2 ^ 32" "j - i"] by simp
  qed
  then show ?thesis
    using inc32_iterate [OF assms(1)] by metis
qed

theorem counter_blocks_distinct_witness:
  "(inc32 ^^ 0) (replicate 16 0xFF) \<noteq> (inc32 ^^ 1) (replicate 16 0xFF)"
  using counter_blocks_distinct [of "replicate 16 0xFF" 0 1] by simp

section \<open>Seal and open\<close>

lemma length_gcm_j0 [simp]: "length nonce = 12 \<Longrightarrow> length (gcm_j0 nonce) = 16"
  by (simp add: gcm_j0_def gcm_consts)

lemma seal_parts:
  assumes "length nonce = 12"
  shows "aes256gcm_seal key nonce pt cap =
    (if cap < 28 + length pt then None
     else
       let aes = Aes256 key; ct = gctr aes (inc32 (gcm_j0 nonce)) pt in
       Some (nonce @ ct @ gctr aes (gcm_j0 nonce) (ghash (encrypt_block aes (replicate 16 0)) ct)))"
  using assms by (simp add: aes256gcm_seal_def Let_def gcm_consts)

lemma open_parts:
  assumes "length nonce = 12" and "length tag = 16"
  shows "aes256gcm_open key (nonce @ ct @ tag) cap =
    (let aes = Aes256 key in
     if cap < length ct \<or>
        gctr aes (gcm_j0 nonce) (ghash (encrypt_block aes (replicate 16 0)) ct) \<noteq> tag
     then None else Some (gctr aes (inc32 (gcm_j0 nonce)) ct))"
proof -
  let ?inp = "nonce @ ct @ tag"
  have p: "take 12 ?inp = nonce" "length ?inp - 12 - 16 = length ct"
    "bslice 12 (length ct) ?inp = ct" "drop (12 + length ct) ?inp = tag" "\<not> length ?inp < 12 + 16"
    using assms by (simp_all add: bslice_def)
  show ?thesis
    using assms unfolding aes256gcm_open_def gcm_consts Let_def p
    by (simp add: tag_diff_zero)
qed

lemma open_iff_seal:
  "aes256gcm_open key pkt cap = Some pt \<longleftrightarrow>
   length pt \<le> cap \<and> 28 \<le> length pkt \<and> aes256gcm_seal key (take 12 pkt) pt (length pkt) = Some pkt"
proof (cases "28 \<le> length pkt")
  case False
  then show ?thesis by (simp add: aes256gcm_open_def gcm_consts)
next
  case True
  define nonce ct tag where "nonce = take 12 pkt" and "ct = bslice 12 (length pkt - 28) pkt"
    and "tag = drop (length pkt - 16) pkt"
  have "drop 12 pkt = ct @ tag"
    using True append_take_drop_id [of "length pkt - 28" "drop 12 pkt"]
    by (simp add: ct_def tag_def bslice_def)
  then have pkt: "pkt = nonce @ ct @ tag"
    by (metis append_take_drop_id nonce_def)
  have len: "length nonce = 12" "length tag = 16" "length ct = length pkt - 28"
    using True by (simp_all add: nonce_def tag_def ct_def bslice_def)
  show ?thesis (is "?l \<longleftrightarrow> ?r")
  proof
    assume ?l
    then show ?r
      using True len(3) unfolding nonce_def [symmetric] seal_parts [OF len(1)]
      by (subst (asm) pkt, subst (3) pkt)
        (auto simp: open_parts [OF len(1,2)] Let_def split: if_splits)
  next
    assume r: ?r
    then have "pkt = nonce @ gctr (Aes256 key) (inc32 (gcm_j0 nonce)) pt @
        gctr (Aes256 key) (gcm_j0 nonce) (ghash (encrypt_block (Aes256 key) (replicate 16 0))
          (gctr (Aes256 key) (inc32 (gcm_j0 nonce)) pt))"
      unfolding nonce_def [symmetric] seal_parts [OF len(1)]
      by (auto simp: Let_def split: if_splits)
    then show ?l
      using r len(1) by (subst (asm) (1) pkt, subst pkt) (auto simp: open_parts Let_def)
  qed
qed

lemma gcm_seal_opens:
  "length nonce = 12 \<Longrightarrow> length pt + 28 \<le> cap \<Longrightarrow> length pt \<le> cap' \<Longrightarrow>
   \<exists>pkt. aes256gcm_seal key nonce pt cap = Some pkt \<and> length pkt = length pt + 28 \<and>
     aes256gcm_open key pkt cap' = Some pt"
  by (simp add: seal_parts open_parts Let_def)

text \<open>
  C13: Opening is the exact inverse of sealing: a packet opens to \<open>pt\<close> if and only if it is the
  sealing of \<open>pt\<close> under the same key and the packet's own nonce. In particular sealed data opens to
  itself, and a packet with any other tag or ciphertext is refused.
\<close>

theorem gcm_open_iff_seal:
  "aes256gcm_open key pkt cap = Some pt \<longleftrightarrow>
   length pt \<le> cap \<and> 28 \<le> length pkt \<and> aes256gcm_seal key (take 12 pkt) pt (length pkt) = Some pkt"
  by (rule open_iff_seal)

text \<open>
  Whatever was sealed with a 12-byte nonce opens to itself in a buffer that can hold it, and the
  packet is exactly 28 bytes longer than the plaintext.
\<close>

theorem gcm_round_trip:
  assumes "length nonce = 12" and "length pt + 28 \<le> cap" and "length pt \<le> cap'"
  shows "\<exists>pkt. aes256gcm_seal key nonce pt cap = Some pkt \<and> length pkt = length pt + 28 \<and>
    aes256gcm_open key pkt cap' = Some pt"
  using assms by (rule gcm_seal_opens)

theorem gcm_round_trip_witness:
  "\<exists>pkt. aes256gcm_seal (replicate 32 0) (replicate 12 0) [1, 2, 3] 64 = Some pkt \<and>
    length pkt = length [1, 2, 3 :: u8] + 28 \<and> aes256gcm_open (replicate 32 0) pkt 8 = Some [1, 2, 3]"
  by (rule gcm_round_trip) simp_all

section \<open>The textual key format\<close>

lemma nibble_hex: "n < 16 \<Longrightarrow> nibble (hex_chars ! n) = int n"
proof -
  have "\<forall>n \<in> set [0..<16]. nibble (hex_chars ! n) = int n" by code_simp
  then show "n < 16 \<Longrightarrow> ?thesis" by simp
qed

lemma hex_byte:
  "nibble (hex_chars ! unat (drop_bit 4 b)) \<ge> 0 \<and> nibble (hex_chars ! unat (b AND 0x0f)) \<ge> 0 \<and>
   word_of_int (push_bit 4 (nibble (hex_chars ! unat (drop_bit 4 b))) OR
     nibble (hex_chars ! unat (b AND 0x0f))) = (b :: u8)"
proof -
  have "unat (drop_bit 4 b) = unat b div 16" by (simp add: drop_bit_eq_div unat_div_distrib)
  then have hi: "unat (drop_bit 4 b) < 16" using unat_byte_less [of b] by simp
  have "b AND 0x0f = take_bit 4 b" by (simp add: take_bit_eq_mask mask_eq_exp_minus_1)
  then have lo: "unat (b AND 0x0f) < 16" by (simp add: take_bit_eq_mod unat_mod_distrib)
  have join: "(word_of_int (push_bit 4 (uint x) OR uint y) :: u8) = push_bit 4 x OR y" for x y :: u8
    by (simp add: bit_eq_iff bit_simps bit_uint_iff)
  have "push_bit 4 (drop_bit 4 b) OR (b AND 0x0f) = b"
    by (simp add: \<open>b AND 0x0f = take_bit 4 b\<close>) (auto simp: bit_eq_iff bit_simps)
  then show ?thesis
    using hi lo join [of "drop_bit 4 b" "b AND 0x0f"] by (simp add: nibble_hex)
qed

lemma length_pairs [simp]: "length (concat (map (\<lambda>i. [f i, g i]) [0..<n])) = n * 2"
  by (induction n) simp_all

lemma pairs_nth:
  "i < n \<Longrightarrow> concat (map (\<lambda>i. [f i, g i]) [0..<n]) ! (i * 2) = f i \<and>
     concat (map (\<lambda>i. [f i, g i]) [0..<n]) ! (i * 2 + 1) = g i"
  by (induction n) (auto simp: nth_append less_Suc_eq)

lemma hex_to_key32_loop_hex:
  assumes "i + n \<le> 32" and "length key = 32"
  shows "hex_to_key32_loop (key32_to_hex key) n i = Some (bslice i n key)"
  using assms(1)
proof (induction n arbitrary: i)
  case 0
  then show ?case by (simp add: bslice_def)
next
  case (Suc n)
  let ?hex = "key32_to_hex key"
  have at: "?hex ! (i * 2) = hex_chars ! unat (drop_bit 4 (key ! i))"
    "?hex ! (i * 2 + 1) = hex_chars ! unat (key ! i AND 0x0f)"
    using Suc.prems pairs_nth [of i 32 "\<lambda>i. hex_chars ! unat (drop_bit 4 (key ! i))"
        "\<lambda>i. hex_chars ! unat (key ! i AND 0x0f)"]
    by (simp_all add: key32_to_hex_def gcm_consts)
  have "bslice i (Suc n) key = key ! i # bslice (Suc i) n key"
    using Suc.prems assms(2) by (simp add: bslice_def Cons_nth_drop_Suc [symmetric])
  with Suc.IH [of "Suc i"] Suc.prems hex_byte [of "key ! i"] show ?case
    by (simp only: hex_to_key32_loop.simps Let_def at) simp
qed

lemma hex_to_key32_loop_None:
  "hex_to_key32_loop hex n i = None \<longleftrightarrow> (\<exists>k. i * 2 \<le> k \<and> k < (i + n) * 2 \<and> nibble (hex ! k) < 0)"
proof (induction n arbitrary: i)
  case 0
  then show ?case by simp
next
  case (Suc n)
  have "(\<exists>k. i * 2 \<le> k \<and> k < (i + Suc n) * 2 \<and> nibble (hex ! k) < 0) \<longleftrightarrow>
      nibble (hex ! (i * 2)) < 0 \<or> nibble (hex ! (i * 2 + 1)) < 0 \<or>
      (\<exists>k. Suc i * 2 \<le> k \<and> k < (Suc i + n) * 2 \<and> nibble (hex ! k) < 0)" (is "?l \<longleftrightarrow> ?r")
  proof
    assume ?l
    then obtain k where k: "i * 2 \<le> k" "k < (i + Suc n) * 2" "nibble (hex ! k) < 0" by blast
    then have "k = i * 2 \<or> k = i * 2 + 1 \<or> Suc i * 2 \<le> k" by (simp add: le_less) arith
    with k show ?r by auto
  qed (auto intro: exI [of _ "i * 2"] exI [of _ "i * 2 + 1"] dest: Suc_leD)
  then show ?case
    using Suc.IH [of "Suc i"] by (auto simp: Let_def split: option.splits)
qed

text \<open>
  A key printed as hexadecimal reads back as itself, and a key string is refused exactly when
  it is not 64 characters long or has a character that is not a hexadecimal digit.
\<close>

theorem hex_key_round_trip:
  "(length key = 32 \<longrightarrow> length (key32_to_hex key) = 64 \<and> hex_to_key32 (key32_to_hex key) = Some key) \<and>
   (hex_to_key32 hex = None \<longleftrightarrow> length hex \<noteq> 64 \<or> (\<exists>c \<in> set hex. nibble c < 0))"
proof (intro conjI impI)
  assume "length key = 32"
  moreover have "length (key32_to_hex key) = 64"
    by (simp add: key32_to_hex_def gcm_consts)
  ultimately show "length (key32_to_hex key) = 64" "hex_to_key32 (key32_to_hex key) = Some key"
    using hex_to_key32_loop_hex [of 0 32 key] by (simp_all add: hex_to_key32_def gcm_consts bslice_def)
next
  show "hex_to_key32 hex = None \<longleftrightarrow> length hex \<noteq> 64 \<or> (\<exists>c \<in> set hex. nibble c < 0)"
    using hex_to_key32_loop_None [of hex 32 0]
    by (simp add: hex_to_key32_def gcm_consts) (metis in_set_conv_nth)
qed

theorem hex_key_round_trip_witness:
  "hex_to_key32 (key32_to_hex (replicate 32 0xAB)) = Some (replicate 32 0xAB)"
  using hex_key_round_trip [of "replicate 32 0xAB" "[]"] by simp

end
