(* ===== verification/Image.thy ===== *)
theory Image
  imports Frame
begin

text \<open>
  Chunked images: \<^verbatim>\<open>cpp/include/relink/image.hpp\<close>, \<^verbatim>\<open>cpp/include/relink/compressed_image.hpp\<close> and the
  two payload parsers \<^verbatim>\<open>subscribe_image\<close> and \<^verbatim>\<open>subscribe_compressed_image\<close> install in \<^verbatim>\<open>relink.hpp\<close>.
  A copy that leaves its buffer is the error \<open>OutOfBounds\<close>, so that the theorems can say when the
  reassembler stays inside it. The calls of \<^verbatim>\<open>send_chunk\<close> and \<^verbatim>\<open>on_complete_\<close> are the values returned.
\<close>

datatype MemFault = OutOfBounds

definition overwrite :: "nat \<Rightarrow> bytes \<Rightarrow> bytes \<Rightarrow> bytes" where
  "overwrite off src buf = take off buf @ src @ drop (off + length src) buf"

section \<open>Image\<close>

definition kImageChunkHeaderBytes :: nat where "kImageChunkHeaderBytes = 4 + 3 * 2"
definition kImageChunkDataBytes :: nat where
  "kImageChunkDataBytes = kMaxPayloadBytes - kImageChunkHeaderBytes"
definition kMaxImageBytes :: nat where "kMaxImageBytes = 65535 * kImageChunkDataBytes"

datatype ImageEncodeResult = TooLarge

record ImageChunk =
  ic_frame_id :: u32
  ic_chunk_index :: u16
  ic_chunk_count :: u16
  ic_chunk_bytes :: u16
  ic_data :: bytes

definition image_chunk_count :: "nat \<Rightarrow> u16" where
  "image_chunk_count len =
     (let chunk_count = word_of_nat ((len + kImageChunkDataBytes - 1) div kImageChunkDataBytes)
      in if chunk_count = 0 then 1 else chunk_count)"

definition encode_image_chunks :: "u32 \<Rightarrow> bytes \<Rightarrow> ImageEncodeResult + ImageChunk list" where
  "encode_image_chunks frame_id data =
     (if length data > kMaxImageBytes then Inl TooLarge
      else
        let chunk_count = image_chunk_count (length data)
        in Inr (map (\<lambda>i.
             let offset = i * kImageChunkDataBytes;
                 n = min kImageChunkDataBytes (length data - offset)
             in \<lparr>ic_frame_id = frame_id, ic_chunk_index = word_of_nat i, ic_chunk_count = chunk_count,
                 ic_chunk_bytes = word_of_nat n,
                 ic_data = bslice offset n data @ replicate (kImageChunkDataBytes - n) 0\<rparr>)
             [0..<unat chunk_count]))"

record ImageReassembler =
  ir_in_progress :: bool
  ir_current_frame_id :: u32
  ir_received :: "bool list"
  ir_buffer :: bytes
  ir_received_count :: nat
  ir_last_chunk_bytes :: u16

definition image_reassembler :: ImageReassembler where
  "image_reassembler =
     \<lparr>ir_in_progress = False, ir_current_frame_id = 0, ir_received = [], ir_buffer = [],
      ir_received_count = 0, ir_last_chunk_bytes = 0\<rparr>"

definition image_on_chunk_raw ::
  "u32 \<Rightarrow> u16 \<Rightarrow> u16 \<Rightarrow> bytes \<Rightarrow> u16 \<Rightarrow> ImageReassembler \<Rightarrow>
   MemFault + ImageReassembler \<times> (u32 \<times> bytes) option" where
  "image_on_chunk_raw frame_id chunk_index chunk_count data chunk_bytes st =
     (let st = (if frame_id \<noteq> ir_current_frame_id st \<or> \<not> ir_in_progress st
                then st\<lparr>ir_current_frame_id := frame_id, ir_in_progress := True,
                        ir_received := replicate (unat chunk_count) False,
                        ir_buffer := replicate (unat chunk_count * kImageChunkDataBytes) 0,
                        ir_received_count := 0\<rparr>
                else st)
      in if unat chunk_index \<ge> length (ir_received st) \<or> ir_received st ! unat chunk_index
         then Inr (st, None)
         else if unat chunk_bytes > length data \<or>
           unat chunk_index * kImageChunkDataBytes + unat chunk_bytes > length (ir_buffer st)
         then Inl OutOfBounds
         else
           let st = st\<lparr>ir_buffer := overwrite (unat chunk_index * kImageChunkDataBytes)
                                     (take (unat chunk_bytes) data) (ir_buffer st),
                       ir_received := (ir_received st)[unat chunk_index := True],
                       ir_received_count := ir_received_count st + 1\<rparr>;
               st = (if int (unat chunk_index) = int (unat chunk_count) - 1
                     then st\<lparr>ir_last_chunk_bytes := chunk_bytes\<rparr> else st)
           in if ir_received_count st = unat chunk_count
              then
                let total = (if unat chunk_count > 1
                             then (unat chunk_count - 1) * kImageChunkDataBytes
                                  + unat (ir_last_chunk_bytes st)
                             else unat (ir_last_chunk_bytes st))
                in if total > length (ir_buffer st) then Inl OutOfBounds
                   else Inr (st\<lparr>ir_in_progress := False\<rparr>,
                             Some (ir_current_frame_id st, take total (ir_buffer st)))
              else Inr (st, None))"

definition image_on_chunk ::
  "ImageChunk \<Rightarrow> ImageReassembler \<Rightarrow> MemFault + ImageReassembler \<times> (u32 \<times> bytes) option" where
  "image_on_chunk chunk =
     image_on_chunk_raw (ic_frame_id chunk) (ic_chunk_index chunk) (ic_chunk_count chunk)
       (ic_data chunk) (ic_chunk_bytes chunk)"

text \<open>The topic handler of \<^verbatim>\<open>subscribe_image\<close>, and the payloads \<^verbatim>\<open>publish_image\<close> sends to each peer.\<close>

definition image_topic_handler ::
  "bytes \<Rightarrow> ImageReassembler \<Rightarrow> MemFault + ImageReassembler \<times> (u32 \<times> bytes) option" where
  "image_topic_handler payload st =
     (if length payload < kImageChunkHeaderBytes then Inr (st, None)
      else
        let frame_id = rd32 (bslice 0 4 payload); chunk_index = rd16 (bslice 4 2 payload);
            chunk_count = rd16 (bslice 6 2 payload); chunk_bytes = rd16 (bslice 8 2 payload);
            data = drop kImageChunkHeaderBytes payload;
            data_len = length payload - kImageChunkHeaderBytes
        in if unat chunk_bytes \<noteq> data_len then Inr (st, None)
           else image_on_chunk_raw frame_id chunk_index chunk_count data chunk_bytes st)"

definition image_payload :: "u32 \<Rightarrow> bytes \<Rightarrow> nat \<Rightarrow> bytes \<times> bytes" where
  "image_payload frame_id data i =
     (let chunk_count = image_chunk_count (length data);
          offset = i * kImageChunkDataBytes;
          n = min kImageChunkDataBytes (length data - offset)
      in (le32 frame_id @ le16 (word_of_nat i) @ le16 chunk_count @ le16 (word_of_nat n),
          bslice offset n data))"

section \<open>CompressedImage\<close>

definition kCompressedImageChunkHeaderBytes :: nat where
  "kCompressedImageChunkHeaderBytes = 4 + 3 * 2 + 8 + 1"
definition kCompressedImageChunkDataBytes :: nat where
  "kCompressedImageChunkDataBytes = kMaxPayloadBytes - kCompressedImageChunkHeaderBytes"
definition kMaxCompressedImageBytes :: nat where
  "kMaxCompressedImageBytes = 65535 * kCompressedImageChunkDataBytes"

datatype CompressedImageEncodeResult = CompressedTooLarge

record CompressedImageChunk =
  cc_frame_id :: u32
  cc_chunk_index :: u16
  cc_chunk_count :: u16
  cc_chunk_bytes :: u16
  cc_capture_timestamp_ns :: u64
  cc_quality :: u8
  cc_data :: bytes

definition compressed_image_chunk_count :: "nat \<Rightarrow> u16" where
  "compressed_image_chunk_count len =
     (let chunk_count = word_of_nat ((len + kCompressedImageChunkDataBytes - 1)
                                     div kCompressedImageChunkDataBytes)
      in if chunk_count = 0 then 1 else chunk_count)"

definition encode_compressed_image_chunks ::
  "u32 \<Rightarrow> bytes \<Rightarrow> u64 \<Rightarrow> u8 \<Rightarrow> CompressedImageEncodeResult + CompressedImageChunk list" where
  "encode_compressed_image_chunks frame_id data capture_timestamp_ns quality =
     (if length data > kMaxCompressedImageBytes then Inl CompressedTooLarge
      else
        let chunk_count = compressed_image_chunk_count (length data)
        in Inr (map (\<lambda>i.
             let offset = i * kCompressedImageChunkDataBytes;
                 n = min kCompressedImageChunkDataBytes (length data - offset)
             in \<lparr>cc_frame_id = frame_id, cc_chunk_index = word_of_nat i, cc_chunk_count = chunk_count,
                 cc_chunk_bytes = word_of_nat n, cc_capture_timestamp_ns = capture_timestamp_ns,
                 cc_quality = quality,
                 cc_data = bslice offset n data @ replicate (kCompressedImageChunkDataBytes - n) 0\<rparr>)
             [0..<unat chunk_count]))"

record CompressedImageReassembler = ImageReassembler +
  cr_capture_timestamp_ns :: u64
  cr_quality :: u8

definition compressed_image_reassembler :: CompressedImageReassembler where
  "compressed_image_reassembler =
     \<lparr>ir_in_progress = False, ir_current_frame_id = 0, ir_received = [], ir_buffer = [],
      ir_received_count = 0, ir_last_chunk_bytes = 0, cr_capture_timestamp_ns = 0, cr_quality = 0\<rparr>"

definition compressed_image_on_chunk_raw ::
  "u64 \<Rightarrow> u8 \<Rightarrow> u32 \<Rightarrow> u16 \<Rightarrow> u16 \<Rightarrow> bytes \<Rightarrow> u16 \<Rightarrow> CompressedImageReassembler \<Rightarrow>
   MemFault + CompressedImageReassembler \<times> (u32 \<times> bytes \<times> u64 \<times> u8) option" where
  "compressed_image_on_chunk_raw capture_timestamp_ns quality frame_id chunk_index chunk_count data
     chunk_bytes st =
     (let st = (if frame_id \<noteq> ir_current_frame_id st \<or> \<not> ir_in_progress st
                then st\<lparr>ir_current_frame_id := frame_id, ir_in_progress := True,
                        ir_received := replicate (unat chunk_count) False,
                        ir_buffer := replicate (unat chunk_count * kCompressedImageChunkDataBytes) 0,
                        ir_received_count := 0,
                        cr_capture_timestamp_ns := capture_timestamp_ns, cr_quality := quality\<rparr>
                else st)
      in if unat chunk_index \<ge> length (ir_received st) \<or> ir_received st ! unat chunk_index
         then Inr (st, None)
         else if unat chunk_bytes > length data \<or>
           unat chunk_index * kCompressedImageChunkDataBytes + unat chunk_bytes
             > length (ir_buffer st)
         then Inl OutOfBounds
         else
           let st = st\<lparr>ir_buffer := overwrite (unat chunk_index * kCompressedImageChunkDataBytes)
                                     (take (unat chunk_bytes) data) (ir_buffer st),
                       ir_received := (ir_received st)[unat chunk_index := True],
                       ir_received_count := ir_received_count st + 1\<rparr>;
               st = (if int (unat chunk_index) = int (unat chunk_count) - 1
                     then st\<lparr>ir_last_chunk_bytes := chunk_bytes\<rparr> else st)
           in if ir_received_count st = unat chunk_count
              then
                let total = (if unat chunk_count > 1
                             then (unat chunk_count - 1) * kCompressedImageChunkDataBytes
                                  + unat (ir_last_chunk_bytes st)
                             else unat (ir_last_chunk_bytes st))
                in if total > length (ir_buffer st) then Inl OutOfBounds
                   else Inr (st\<lparr>ir_in_progress := False\<rparr>,
                             Some (ir_current_frame_id st, take total (ir_buffer st),
                                   cr_capture_timestamp_ns st, cr_quality st))
              else Inr (st, None))"

definition compressed_image_on_chunk ::
  "CompressedImageChunk \<Rightarrow> CompressedImageReassembler \<Rightarrow>
   MemFault + CompressedImageReassembler \<times> (u32 \<times> bytes \<times> u64 \<times> u8) option" where
  "compressed_image_on_chunk chunk =
     compressed_image_on_chunk_raw (cc_capture_timestamp_ns chunk) (cc_quality chunk)
       (cc_frame_id chunk) (cc_chunk_index chunk) (cc_chunk_count chunk) (cc_data chunk)
       (cc_chunk_bytes chunk)"

definition compressed_image_topic_handler ::
  "bytes \<Rightarrow> CompressedImageReassembler \<Rightarrow>
   MemFault + CompressedImageReassembler \<times> (u32 \<times> bytes \<times> u64 \<times> u8) option" where
  "compressed_image_topic_handler payload st =
     (if length payload < kCompressedImageChunkHeaderBytes then Inr (st, None)
      else
        let frame_id = rd32 (bslice 0 4 payload); chunk_index = rd16 (bslice 4 2 payload);
            chunk_count = rd16 (bslice 6 2 payload); chunk_bytes = rd16 (bslice 8 2 payload);
            capture_timestamp_ns = rd64 (bslice 10 8 payload); quality = payload ! 18;
            data = drop kCompressedImageChunkHeaderBytes payload;
            data_len = length payload - kCompressedImageChunkHeaderBytes
        in if unat chunk_bytes \<noteq> data_len then Inr (st, None)
           else compressed_image_on_chunk_raw capture_timestamp_ns quality frame_id chunk_index
                  chunk_count data chunk_bytes st)"

definition compressed_image_payload :: "u32 \<Rightarrow> u64 \<Rightarrow> u8 \<Rightarrow> bytes \<Rightarrow> nat \<Rightarrow> bytes \<times> bytes" where
  "compressed_image_payload frame_id capture_timestamp_ns quality data i =
     (let chunk_count = compressed_image_chunk_count (length data);
          offset = i * kCompressedImageChunkDataBytes;
          n = min kCompressedImageChunkDataBytes (length data - offset)
      in (le32 frame_id @ le16 (word_of_nat i) @ le16 chunk_count @ le16 (word_of_nat n)
            @ le64 capture_timestamp_ns @ [quality],
          bslice offset n data))"

lemmas image_consts =
  kImageChunkHeaderBytes_def kImageChunkDataBytes_def kMaxImageBytes_def
  kCompressedImageChunkHeaderBytes_def kCompressedImageChunkDataBytes_def
  kMaxCompressedImageBytes_def kMaxPayloadBytes_def

section \<open>Reassembly of one frame, for any chunk size\<close>

text \<open>
  \<open>asm_step D\<close> is the reassembly step at chunk size \<open>D\<close>. A reassembler implements it when its state
  has a view as the plain reassembler state that its steps follow.
\<close>

definition asm_step ::
  "nat \<Rightarrow> u32 \<Rightarrow> u16 \<Rightarrow> u16 \<Rightarrow> bytes \<Rightarrow> u16 \<Rightarrow> ImageReassembler \<Rightarrow>
   MemFault + ImageReassembler \<times> (u32 \<times> bytes) option" where
  "asm_step D fid idx cnt data nb st =
     (let st = (if fid \<noteq> ir_current_frame_id st \<or> \<not> ir_in_progress st
                then st\<lparr>ir_current_frame_id := fid, ir_in_progress := True,
                        ir_received := replicate (unat cnt) False,
                        ir_buffer := replicate (unat cnt * D) 0, ir_received_count := 0\<rparr>
                else st)
      in if unat idx \<ge> length (ir_received st) \<or> ir_received st ! unat idx then Inr (st, None)
         else if unat nb > length data \<or> unat idx * D + unat nb > length (ir_buffer st)
         then Inl OutOfBounds
         else
           let st = st\<lparr>ir_buffer := overwrite (unat idx * D) (take (unat nb) data) (ir_buffer st),
                       ir_received := (ir_received st)[unat idx := True],
                       ir_received_count := ir_received_count st + 1\<rparr>;
               st = (if int (unat idx) = int (unat cnt) - 1 then st\<lparr>ir_last_chunk_bytes := nb\<rparr> else st)
           in if ir_received_count st = unat cnt
              then
                let total = (if unat cnt > 1 then (unat cnt - 1) * D + unat (ir_last_chunk_bytes st)
                             else unat (ir_last_chunk_bytes st))
                in if total > length (ir_buffer st) then Inl OutOfBounds
                   else Inr (st\<lparr>ir_in_progress := False\<rparr>,
                             Some (ir_current_frame_id st, take total (ir_buffer st)))
              else Inr (st, None))"

text \<open>The chunks of an image: \<open>piece D data i\<close> is the payload of chunk \<open>i\<close> of \<open>pieces D data\<close>.\<close>

definition piece :: "nat \<Rightarrow> bytes \<Rightarrow> nat \<Rightarrow> bytes" where
  "piece D data i = bslice (i * D) (min D (length data - i * D)) data"

definition pieces :: "nat \<Rightarrow> bytes \<Rightarrow> nat" where
  "pieces D data = max 1 ((length data + D - 1) div D)"

fun feed :: "(nat \<Rightarrow> 's \<Rightarrow> MemFault + 's \<times> 'o option) \<Rightarrow> nat list \<Rightarrow> 's \<Rightarrow> MemFault + 's \<times> 'o option list" where
  "feed step [] st = Inr (st, [])"
| "feed step (i # is) st =
     (case step i st of
        Inl e \<Rightarrow> Inl e
      | Inr (st', out) \<Rightarrow> (case feed step is st' of
                             Inl e \<Rightarrow> Inl e
                           | Inr (st'', outs) \<Rightarrow> Inr (st'', out # outs)))"

lemma length_overwrite: "off + length src \<le> length buf \<Longrightarrow> length (overwrite off src buf) = length buf"
  by (simp add: overwrite_def)

lemma overwrite_same:
  "off + length src \<le> length buf \<Longrightarrow> bslice off (length src) (overwrite off src buf) = src"
  by (simp add: overwrite_def bslice_def)

lemma overwrite_other:
  assumes "off + length src \<le> length buf" and "p + n \<le> off \<or> off + length src \<le> p"
  shows "bslice p n (overwrite off src buf) = bslice p n buf"
proof (rule nth_equalityI)
  show len: "length (bslice p n (overwrite off src buf)) = length (bslice p n buf)"
    using length_overwrite [OF assms(1)] by (simp add: bslice_def)
  fix i assume "i < length (bslice p n (overwrite off src buf))"
  then have i: "i < n" "p + i < length buf"
    using length_overwrite [OF assms(1)] by (simp_all add: bslice_def less_diff_conv add.commute)
  have "overwrite off src buf ! (p + i) = buf ! (p + i)"
    using assms i by (auto simp: overwrite_def nth_append)
  then show "bslice p n (overwrite off src buf) ! i = bslice p n buf ! i"
    using i length_overwrite [OF assms(1)] by (simp add: bslice_def)
qed

lemma slots_apart:
  "i \<noteq> j \<Longrightarrow> m \<le> D \<Longrightarrow> n \<le> D \<Longrightarrow> i * D + n \<le> j * D \<or> j * D + m \<le> i * D" for i j :: nat
proof (cases "i < j")
  case True
  then have "Suc i * D \<le> j * D" by (intro mult_le_mono1) simp
  then show "n \<le> D \<Longrightarrow> ?thesis" by simp
next
  case False
  then show "i \<noteq> j \<Longrightarrow> m \<le> D \<Longrightarrow> ?thesis"
    using mult_le_mono1 [of "Suc j" i D] by simp
qed

locale image_data =
  fixes D :: nat and data :: bytes
  assumes D_pos: "0 < D" and D_small: "D < 65536" and small: "length data \<le> 65535 * D"
begin

abbreviation n :: nat where "n \<equiv> pieces D data"

lemma n_pos: "0 < n"
  by (simp add: pieces_def)

lemma n_small: "n \<le> 65535"
proof -
  have "(length data + D - 1) div D \<le> (65535 * D + (D - 1)) div D"
    using small D_pos by (intro div_le_mono) simp
  also have "\<dots> = 65535" using D_pos by (intro div_nat_eqI) simp_all
  finally show ?thesis by (simp add: pieces_def)
qed

lemma covers: "length data \<le> n * D" and tight: "(n - 1) * D \<le> length data"
proof -
  let ?q = "(length data + D - 1) div D"
  have q: "?q * D + (length data + D - 1) mod D = length data + D - 1" by simp
  have m: "(length data + D - 1) mod D < D" using D_pos by simp
  have "length data \<le> ?q * D" using q m by linarith
  also have "\<dots> \<le> n * D" by (intro mult_le_mono1) (simp add: pieces_def)
  finally show "length data \<le> n * D" .
  show "(n - 1) * D \<le> length data"
  proof (cases "?q \<le> 1")
    case True
    then show ?thesis by (simp add: pieces_def)
  next
    case False
    then have "(n - 1) * D = ?q * D - D" by (simp add: pieces_def diff_mult_distrib)
    also have "\<dots> \<le> length data" using q D_pos by linarith
    finally show ?thesis .
  qed
qed

lemma piece_length: "length (piece D data i) = min D (length data - i * D)"
  by (auto simp: piece_def bslice_def min_def)

lemma piece_le: "length (piece D data i) \<le> D"
  by (simp add: piece_length)

lemma piece_fits: "i < n \<Longrightarrow> i * D + length (piece D data i) \<le> n * D"
  using mult_le_mono1 [of "Suc i" n D] piece_le [of i] by simp

lemma piece_unat: "unat (word_of_nat (length (piece D data i)) :: u16) = length (piece D data i)"
  using piece_le [of i] D_small by (intro unat_u16_of_nat) linarith

lemma index_unat: "i < n \<Longrightarrow> unat (word_of_nat i :: u16) = i"
  using n_small by (intro unat_u16_of_nat) linarith

lemma count_unat: "unat (word_of_nat n :: u16) = n"
  using n_small by (intro unat_u16_of_nat) linarith

lemma last_piece: "(n - 1) * D + length (piece D data (n - 1)) = length data"
proof -
  have "length data - (n - 1) * D \<le> D"
    using covers n_pos by (cases n) simp_all
  then show ?thesis using tight by (simp add: piece_length)
qed

lemma pieces_make_image:
  assumes "length buf = n * D"
    and slots: "\<forall>i < n. bslice (i * D) (length (piece D data i)) buf = piece D data i"
  shows "take (length data) buf = data"
proof (rule nth_equalityI)
  show "length (take (length data) buf) = length data"
    using assms(1) covers by simp
  fix k assume "k < length (take (length data) buf)"
  then have k: "k < length data" by simp
  let ?i = "k div D" and ?r = "k mod D"
  have kr: "?i * D + ?r < length data" using k by simp
  have i: "?i < n" using k covers D_pos by (simp add: div_less_iff_less_mult)
  have r: "?r < length (piece D data ?i)"
    unfolding piece_length min_less_iff_conj using kr D_pos by (intro conjI) (simp, linarith)
  have "buf ! k = bslice (?i * D) (length (piece D data ?i)) buf ! ?r"
    using r piece_fits [OF i] assms(1) by (subst bslice_nth) simp_all
  also have "\<dots> = piece D data ?i ! ?r" using slots i by simp
  also have "\<dots> = drop (?i * D) data ! ?r"
    using r by (simp only: piece_length) (simp add: piece_def bslice_def)
  also have "\<dots> = data ! (?i * D + ?r)"
    by (rule nth_drop) (use kr in linarith)
  also have "\<dots> = data ! k" by simp
  finally show "take (length data) buf ! k = data ! k" using k by simp
qed

text \<open>The state after the chunks with index in \<open>S\<close> have arrived, some but not all of them.\<close>

definition seen :: "u32 \<Rightarrow> nat set \<Rightarrow> ImageReassembler \<Rightarrow> bool" where
  "seen fid S st \<longleftrightarrow>
     ir_in_progress st \<and> ir_current_frame_id st = fid \<and> S \<subseteq> {..<n} \<and>
     length (ir_received st) = n \<and> (\<forall>i < n. ir_received st ! i \<longleftrightarrow> i \<in> S) \<and>
     ir_received_count st = card S \<and> length (ir_buffer st) = n * D \<and>
     (\<forall>i \<in> S. bslice (i * D) (length (piece D data i)) (ir_buffer st) = piece D data i) \<and>
     (n - 1 \<in> S \<longrightarrow> unat (ir_last_chunk_bytes st) = length (piece D data (n - 1)))"

abbreviation chunk :: "u32 \<Rightarrow> nat \<Rightarrow> ImageReassembler \<Rightarrow> MemFault + ImageReassembler \<times> (u32 \<times> bytes) option"
where
  "chunk fid i \<equiv> asm_step D fid (word_of_nat i) (word_of_nat n) (piece D data i)
                    (word_of_nat (length (piece D data i)))"

lemma chunk_fresh:
  assumes "\<not> (ir_in_progress st \<and> ir_current_frame_id st = fid)"
  shows "\<exists>st0. seen fid {} st0 \<and> chunk fid i st = chunk fid i st0"
proof -
  let ?st = "st\<lparr>ir_current_frame_id := fid, ir_in_progress := True, ir_received := replicate n False,
      ir_buffer := replicate (n * D) 0, ir_received_count := 0\<rparr>"
  have "seen fid {} ?st" by (simp add: seen_def)
  moreover have "chunk fid i st = chunk fid i ?st"
    using assms by (auto simp: asm_step_def count_unat)
  ultimately show ?thesis by blast
qed

lemma chunk_again:
  assumes "seen fid S st" and "i \<in> S"
  shows "chunk fid i st = Inr (st, None)"
proof -
  have "i < n" using assms by (auto simp: seen_def)
  then show ?thesis
    using assms by (simp add: asm_step_def seen_def index_unat Let_def)
qed

lemma piece_stored:
  assumes s: "seen fid S st" and i: "i < n"
  shows "\<forall>j \<in> insert i S. bslice (j * D) (length (piece D data j))
    (overwrite (i * D) (piece D data i) (ir_buffer st)) = piece D data j"
proof
  have fits: "i * D + length (piece D data i) \<le> length (ir_buffer st)"
    using s piece_fits [OF i] by (simp add: seen_def)
  fix j assume "j \<in> insert i S"
  then consider "j = i" | "j \<noteq> i" "j \<in> S" by blast
  then show "bslice (j * D) (length (piece D data j))
    (overwrite (i * D) (piece D data i) (ir_buffer st)) = piece D data j"
  proof cases
    case 1
    then show ?thesis using overwrite_same [OF fits] by simp
  next
    case 2
    have "bslice (j * D) (length (piece D data j)) (overwrite (i * D) (piece D data i) (ir_buffer st))
        = bslice (j * D) (length (piece D data j)) (ir_buffer st)"
      using slots_apart [OF 2(1) piece_le piece_le] by (intro overwrite_other [OF fits]) blast
    then show ?thesis using s 2 by (simp add: seen_def)
  qed
qed

lemma chunk_new:
  assumes s: "seen fid S st" and i: "i < n" "i \<notin> S"
  shows "\<exists>st'. chunk fid i st =
      (if insert i S = {..<n} then Inr (st'\<lparr>ir_in_progress := False\<rparr>, Some (fid, data))
       else Inr (st', None)) \<and> seen fid (insert i S) st'"
proof -
  let ?p = "piece D data i"
  define buf where "buf = overwrite (i * D) ?p (ir_buffer st)"
  define st' where "st' = st\<lparr>ir_buffer := buf, ir_received := (ir_received st)[i := True],
      ir_received_count := card S + 1,
      ir_last_chunk_bytes := (if i = n - 1 then word_of_nat (length ?p) else ir_last_chunk_bytes st)\<rparr>"
  have fits: "i * D + length ?p \<le> length (ir_buffer st)"
    using s piece_fits [OF i(1)] by (simp add: seen_def)
  have fin: "finite S" and sub: "S \<subseteq> {..<n}"
    using s finite_subset by (auto simp: seen_def)
  have card: "card (insert i S) = card S + 1" using fin i by simp
  have slots: "\<forall>j \<in> insert i S. bslice (j * D) (length (piece D data j)) buf = piece D data j"
    unfolding buf_def by (rule piece_stored [OF s i(1)])
  have seen': "seen fid (insert i S) st'"
    using s i slots card fits piece_unat
    by (auto simp: seen_def st'_def buf_def length_overwrite nth_list_update)
  have full: "card (insert i S) = n \<longleftrightarrow> insert i S = {..<n}"
    using card_subset_eq [of "{..<n}" "insert i S"] sub i by auto
  have last: "int i = int n - 1 \<longleftrightarrow> i = n - 1" using n_pos by auto
  define tot where "tot = (if 1 < n then (n - 1) * D + unat (ir_last_chunk_bytes st')
      else unat (ir_last_chunk_bytes st'))"
  have cnt: "ir_received_count st' = n \<longleftrightarrow> insert i S = {..<n}"
    using full card by (simp add: st'_def)
  have step: "chunk fid i st = (if ir_received_count st' = n then
      (if tot > length (ir_buffer st') then Inl OutOfBounds
       else Inr (st'\<lparr>ir_in_progress := False\<rparr>, Some (fid, take tot (ir_buffer st'))))
      else Inr (st', None))"
    using s i fits
    by (auto simp: asm_step_def seen_def index_unat count_unat piece_unat last Let_def st'_def buf_def
        tot_def)
  show ?thesis
  proof (cases "insert i S = {..<n}")
    case False
    then show ?thesis using seen' cnt step by auto
  next
    case True
    then have "n - 1 \<in> insert i S" using n_pos by simp
    then have tot: "tot = length data"
      using seen' last_piece n_pos by (cases "1 < n") (auto simp: seen_def tot_def)
    have "take tot (ir_buffer st') = data"
      unfolding tot using seen' by (intro pieces_make_image) (simp_all add: seen_def True)
    moreover have "tot \<le> length (ir_buffer st')"
      using seen' covers by (simp add: tot seen_def)
    ultimately show ?thesis using True seen' cnt step by (intro exI [of _ st']) simp
  qed
qed

lemma feed_seen:
  assumes "seen fid S st" and "set is \<subseteq> {..<n}" and "S \<noteq> {..<n}"
    and "is \<noteq> []" and "S \<union> set is = {..<n}" and "S \<union> set (butlast is) \<noteq> {..<n}"
  shows "\<exists>st'. feed (chunk fid) is st = Inr (st', replicate (length is - 1) None @ [Some (fid, data)]) \<and>
    \<not> ir_in_progress st'"
  using assms
proof (induction "is" arbitrary: S st)
  case Nil
  then show ?case by simp
next
  case (Cons i js)
  have i: "i < n" using Cons.prems by simp
  show ?case
  proof (cases "insert i S = {..<n}")
    case True
    have js: "js = []"
    proof (rule ccontr)
      assume "js \<noteq> []"
      then have "set (butlast (i # js)) = insert i (set (butlast js))" by simp
      moreover have "set (butlast js) \<subseteq> {..<n}"
        using Cons.prems(2) in_set_butlastD [of _ js] by auto
      ultimately show False using Cons.prems(6) True by blast
    qed
    have "i \<notin> S" using True Cons.prems(3) by (metis insert_absorb)
    from chunk_new [OF Cons.prems(1) i this] obtain st' where
      "chunk fid i st = Inr (st'\<lparr>ir_in_progress := False\<rparr>, Some (fid, data))"
      unfolding if_P [OF True] by blast
    then show ?thesis by (simp add: js)
  next
    case False
    have js: "js \<noteq> []" using Cons.prems(5) False by (cases js) auto
    obtain st1 where st1: "chunk fid i st = Inr (st1, None)" "seen fid (insert i S) st1"
    proof (cases "i \<in> S")
      case True
      then show ?thesis using that chunk_again [OF Cons.prems(1)] Cons.prems(1)
        by (metis insert_absorb)
    next
      case False
      then show ?thesis using that chunk_new [OF Cons.prems(1) i] \<open>insert i S \<noteq> {..<n}\<close> by auto
    qed
    have "\<exists>st'. feed (chunk fid) js st1 = Inr (st', replicate (length js - 1) None @ [Some (fid, data)]) \<and>
        \<not> ir_in_progress st'"
      using Cons.prems js False by (intro Cons.IH [OF st1(2)]) auto
    then show ?thesis
      using st1(1) js by (auto simp: Suc_diff_Suc gr0_conv_Suc neq_Nil_conv)
  qed
qed

text \<open>
  Whatever the order and however often chunks are repeated, the image is delivered when its last
  missing chunk arrives, once, and complete.
\<close>

lemma feed_delivers:
  assumes "\<not> (ir_in_progress st \<and> ir_current_frame_id st = fid)"
    and "set is = {..<n}" and "set (butlast is) \<noteq> {..<n}"
  shows "\<exists>st'. feed (chunk fid) is st = Inr (st', replicate (length is - 1) None @ [Some (fid, data)]) \<and>
    \<not> ir_in_progress st'"
proof -
  obtain i js where "is": "is = i # js"
    using assms(2) n_pos by (cases "is") auto
  obtain st0 where st0: "seen fid {} st0" "chunk fid i st = chunk fid i st0"
    using chunk_fresh [OF assms(1)] by blast
  have "feed (chunk fid) is st = feed (chunk fid) is st0"
    by (simp add: "is" st0(2))
  with feed_seen [OF st0(1), of "is"] assms(2,3) n_pos show ?thesis
    by (auto simp: "is" lessThan_empty_iff)
qed

end

section \<open>The two reassemblers\<close>

text \<open>
  A reassembler is anything whose steps on the chunks of an image follow \<open>asm_step\<close> under a view of
  its state and outputs.
\<close>

locale reassembler = image_data D data for D :: nat and data :: bytes +
  fixes fid :: u32 and view :: "'s \<Rightarrow> ImageReassembler" and out :: "'o \<Rightarrow> u32 \<times> bytes"
    and step :: "nat \<Rightarrow> 's \<Rightarrow> MemFault + 's \<times> 'o option"
  assumes step_view: "i < pieces D data \<Longrightarrow>
    map_sum id (map_prod view (map_option out)) (step i st) = chunk fid i (view st)"
begin

lemma feed_view:
  "set is \<subseteq> {..<pieces D data} \<Longrightarrow>
   map_sum id (map_prod view (map (map_option out))) (feed step is st) = feed (chunk fid) is (view st)"
proof (induction "is" arbitrary: st)
  case Nil
  then show ?case by simp
next
  case (Cons i js)
  have i: "i < pieces D data" using Cons.prems by simp
  show ?case
  proof (cases "step i st")
    case (Inl e)
    then have "chunk fid i (view st) = Inl e" using step_view [OF i, of st] by simp
    then show ?thesis using Inl by simp
  next
    case (Inr p)
    obtain st1 o1 where p: "p = (st1, o1)" by (cases p)
    have "chunk fid i (view st) = Inr (view st1, map_option out o1)"
      using step_view [OF i, of st] Inr p by simp
    moreover have "feed (chunk fid) js (view st1)
        = map_sum id (map_prod view (map (map_option out))) (feed step js st1)"
      using Cons.prems by (intro Cons.IH [symmetric]) simp
    ultimately show ?thesis
      using Inr p by (cases "feed step js st1") auto
  qed
qed

lemma delivers:
  assumes "\<not> (ir_in_progress (view st) \<and> ir_current_frame_id (view st) = fid)"
    and "set order = {..<pieces D data}" and "set (butlast order) \<noteq> {..<pieces D data}"
  shows "\<exists>st' outs. feed step order st = Inr (st', outs) \<and>
    map (map_option out) outs = replicate (length order - 1) None @ [Some (fid, data)] \<and>
    \<not> ir_in_progress (view st')"
proof -
  obtain st' where st': "feed (chunk fid) order (view st) =
      Inr (st', replicate (length order - 1) None @ [Some (fid, data)])" "\<not> ir_in_progress st'"
    using feed_delivers [OF assms] by blast
  have "map_sum id (map_prod view (map (map_option out))) (feed step order st) =
      Inr (st', replicate (length order - 1) None @ [Some (fid, data)])"
    using feed_view [of order st] assms(2) st'(1) by simp
  then obtain p where p: "feed step order st = Inr p" and
    "map_prod view (map (map_option out)) p = (st', replicate (length order - 1) None @ [Some (fid, data)])"
    by (cases "feed step order st") auto
  then show ?thesis
    using st'(2) by (cases p) auto
qed

end

text \<open>The bytes of a chunk datagram's payload: header and data slice back to back.\<close>

definition wire :: "bytes \<times> bytes \<Rightarrow> bytes" where
  "wire p = fst p @ snd p"

lemma image_count: "length data \<le> 65535 * 1390 \<Longrightarrow>
    image_chunk_count (length data) = word_of_nat (pieces 1390 data)"
  and compressed_count: "length data \<le> 65535 * 1381 \<Longrightarrow>
    compressed_image_chunk_count (length data) = word_of_nat (pieces 1381 data)"
proof -
  have nz: "(word_of_nat q :: u16) = 0 \<longleftrightarrow> q = 0" if "q \<le> 65535" for q
    using unat_u16_of_nat [of q] that by (auto simp: unat_eq_0 [symmetric])
  show "length data \<le> 65535 * 1390 \<Longrightarrow>
      image_chunk_count (length data) = word_of_nat (pieces 1390 data)"
    using image_data.n_small [of 1390 data] nz [of "(length data + 1390 - 1) div 1390"]
    by (auto simp: image_chunk_count_def image_consts pieces_def image_data_def max_def Let_def)
  show "length data \<le> 65535 * 1381 \<Longrightarrow>
      compressed_image_chunk_count (length data) = word_of_nat (pieces 1381 data)"
    using image_data.n_small [of 1381 data] nz [of "(length data + 1381 - 1) div 1381"]
    by (auto simp: compressed_image_chunk_count_def image_consts pieces_def image_data_def max_def
        Let_def)
qed

lemma chunk_data_bytes:
  "kImageChunkDataBytes = 1390" "kCompressedImageChunkDataBytes = 1381"
  "kImageChunkHeaderBytes = 10" "kCompressedImageChunkHeaderBytes = 19"
  by (simp_all add: image_consts)

lemma image_on_chunk_raw_asm: "image_on_chunk_raw = asm_step 1390"
  by (intro ext) (simp only: image_on_chunk_raw_def asm_step_def chunk_data_bytes)

lemma compressed_on_chunk_raw_asm:
  "map_sum id (map_prod ImageReassembler.truncate (map_option (\<lambda>(f, im, t, q). (f, im))))
     (compressed_image_on_chunk_raw ts q fid idx cnt d nb st) =
   asm_step 1381 fid idx cnt d nb (ImageReassembler.truncate st)"
proof -
  let ?fresh = "fid \<noteq> ir_current_frame_id st \<or> \<not> ir_in_progress st"
  let ?last = "int (unat idx) = int (unat cnt) - 1"
  show ?thesis
    unfolding compressed_image_on_chunk_raw_def asm_step_def chunk_data_bytes
    by (cases ?fresh; cases ?last; cases "1 < unat cnt")
      (simp_all add: Let_def ImageReassembler.defs del: not_less)
qed

lemma image_payload_step:
  assumes "length data \<le> 65535 * 1390" and "i < pieces 1390 data"
  shows "image_topic_handler (wire (image_payload fid data i)) st =
    asm_step 1390 fid (word_of_nat i) (word_of_nat (pieces 1390 data)) (piece 1390 data i)
      (word_of_nat (length (piece 1390 data i))) st"
proof -
  have D: "image_data 1390 data" using assms(1) by (simp add: image_data_def)
  let ?n = "min 1390 (length data - i * 1390)"
  have n: "length (bslice (i * 1390) ?n data) = ?n" by (simp add: bslice_def)
  have "unat (word_of_nat ?n :: u16) = ?n" by (intro unat_u16_of_nat) simp
  then show ?thesis
    unfolding image_topic_handler_def image_payload_def wire_def chunk_data_bytes Let_def
      image_on_chunk_raw_asm piece_def image_count [OF assms(1)]
    using n by (simp add: bslice_def)
qed

lemma compressed_payload_step:
  assumes "length data \<le> 65535 * 1381" and "i < pieces 1381 data"
  shows "compressed_image_topic_handler (wire (compressed_image_payload fid ts q data i)) st =
    compressed_image_on_chunk_raw ts q fid (word_of_nat i) (word_of_nat (pieces 1381 data))
      (piece 1381 data i) (word_of_nat (length (piece 1381 data i))) st"
proof -
  let ?n = "min 1381 (length data - i * 1381)"
  have n: "length (bslice (i * 1381) ?n data) = ?n" by (simp add: bslice_def)
  have "unat (word_of_nat ?n :: u16) = ?n" by (intro unat_u16_of_nat) simp
  then show ?thesis
    unfolding compressed_image_topic_handler_def compressed_image_payload_def wire_def
      chunk_data_bytes Let_def piece_def compressed_count [OF assms(1)]
    using n by (simp add: bslice_def nth_append)
qed

lemma view_id: "map_sum id (map_prod (\<lambda>st. st) (map_option (\<lambda>p. p))) x = x"
  by (cases x) (auto simp: option.map_ident)

lemma map_option_same: "map_option (\<lambda>p. p) = id"
  by (rule ext) (simp add: option.map_ident)

lemma map_None_replicate: "map (map_option f) xs = replicate k None \<Longrightarrow> xs = replicate k None"
  by (induction k arbitrary: xs) auto

interpretation image_rx:
  reassembler 1390 "take (65535 * 1390) data" fid "\<lambda>st. st" "\<lambda>p. p"
    "\<lambda>i. image_topic_handler (wire (image_payload fid (take (65535 * 1390) data) i))"
  for data fid
proof unfold_locales
  fix i st
  assume "i < pieces 1390 (take (65535 * 1390) data)"
  then show "map_sum id (map_prod (\<lambda>st. st) (map_option (\<lambda>p. p)))
      (image_topic_handler (wire (image_payload fid (take (65535 * 1390) data) i)) st) =
    asm_step 1390 fid (word_of_nat i) (word_of_nat (pieces 1390 (take (65535 * 1390) data)))
      (piece 1390 (take (65535 * 1390) data) i)
      (word_of_nat (length (piece 1390 (take (65535 * 1390) data) i))) st"
    by (subst image_payload_step) (simp_all add: view_id)
qed simp_all

interpretation compressed_rx:
  reassembler 1381 "take (65535 * 1381) data" fid ImageReassembler.truncate
    "\<lambda>(f, im, t, q). (f, im)"
    "\<lambda>i. compressed_image_topic_handler
           (wire (compressed_image_payload fid ts q (take (65535 * 1381) data) i))"
  for data fid ts q
  by unfold_locales (simp_all add: compressed_payload_step compressed_on_chunk_raw_asm)

lemma compressed_meta:
  assumes "compressed_image_on_chunk_raw ts q fid idx cnt d nb st = Inr (st', res)"
    and "ir_in_progress st \<and> ir_current_frame_id st = fid \<Longrightarrow>
      cr_capture_timestamp_ns st = ts \<and> cr_quality st = q"
  shows "cr_capture_timestamp_ns st' = ts \<and> cr_quality st' = q \<and>
    (\<forall>f im t r. res = Some (f, im, t, r) \<longrightarrow> t = ts \<and> r = q)"
  using assms unfolding compressed_image_on_chunk_raw_def
  by (cases "fid \<noteq> ir_current_frame_id st \<or> \<not> ir_in_progress st")
    (auto simp: Let_def split: if_splits)

lemma compressed_feed_meta:
  assumes "length data \<le> 65535 * 1381" and "set is \<subseteq> {..<pieces 1381 data}"
    and "feed (\<lambda>i. compressed_image_topic_handler
           (wire (compressed_image_payload fid ts q data i))) is st = Inr (st', outs)"
    and "ir_in_progress st \<and> ir_current_frame_id st = fid \<Longrightarrow>
      cr_capture_timestamp_ns st = ts \<and> cr_quality st = q"
  shows "\<forall>f im t r. Some (f, im, t, r) \<in> set outs \<longrightarrow> t = ts \<and> r = q"
  using assms(2-)
proof (induction "is" arbitrary: st outs)
  case Nil
  then show ?case by simp
next
  case (Cons i js)
  obtain st1 res outs1 where
    step: "compressed_image_on_chunk_raw ts q fid (word_of_nat i) (word_of_nat (pieces 1381 data))
      (piece 1381 data i) (word_of_nat (length (piece 1381 data i))) st = Inr (st1, res)" and
    rest: "feed (\<lambda>i. compressed_image_topic_handler
           (wire (compressed_image_payload fid ts q data i))) js st1 = Inr (st', outs1)" and
    outs: "outs = res # outs1"
    using Cons.prems(1,2) assms(1)
    by (auto simp: compressed_payload_step split: sum.splits prod.splits)
  note m = compressed_meta [OF step Cons.prems(3)]
  have "\<forall>f im t r. Some (f, im, t, r) \<in> set outs1 \<longrightarrow> t = ts \<and> r = q"
    using Cons.prems(1) m by (intro Cons.IH [OF _ rest]) auto
  with m outs show ?case by auto
qed

text \<open>
  An image of up to \<open>kMaxImageBytes\<close> bytes published as chunk datagrams reaches the subscriber's
  callback intact: whatever the order in which the datagrams arrive and however often any of them is
  duplicated, nothing is delivered before the last missing chunk, that chunk delivers exactly the
  published bytes once, and no copy leaves its buffer.
\<close>

theorem image_delivered:
  assumes "length data \<le> kMaxImageBytes"
    and "\<not> (ir_in_progress st \<and> ir_current_frame_id st = fid)"
    and "set order = {..<unat (image_chunk_count (length data))}"
    and "set (butlast order) \<noteq> {..<unat (image_chunk_count (length data))}"
  shows "\<exists>st'. feed (\<lambda>i. image_topic_handler (wire (image_payload fid data i))) order st =
      Inr (st', replicate (length order - 1) None @ [Some (fid, data)]) \<and> \<not> ir_in_progress st'"
proof -
  have len: "length data \<le> 65535 * 1390" using assms(1) by (simp add: image_consts)
  have D: "image_data 1390 data" using len by (simp add: image_data_def)
  have cnt: "unat (image_chunk_count (length data)) = pieces 1390 data"
    by (simp add: image_count [OF len] image_data.count_unat [OF D])
  have "take (65535 * 1390) data = data" using len by simp
  then show ?thesis
    using image_rx.delivers [where data = data and fid = fid and st = st and order = order] assms(2-)
    unfolding cnt by (simp add: map_option_same)
qed

theorem image_delivered_witness:
  "\<exists>st'. feed (\<lambda>i. image_topic_handler (wire (image_payload 7 [1, 2, 3] i))) [0] image_reassembler =
     Inr (st', replicate (length [0 :: nat] - 1) None @ [Some (7, [1, 2, 3])]) \<and> \<not> ir_in_progress st'"
  by (rule image_delivered)
    (auto simp: image_consts image_reassembler_def image_chunk_count_def Let_def)

text \<open>
  The same holds for compressed images, and the callback gets the capture time and the quality
  the publisher stamped on the chunks.
\<close>

theorem compressed_image_delivered:
  assumes "length data \<le> kMaxCompressedImageBytes"
    and "\<not> (ir_in_progress st \<and> ir_current_frame_id st = fid)"
    and "set order = {..<unat (compressed_image_chunk_count (length data))}"
    and "set (butlast order) \<noteq> {..<unat (compressed_image_chunk_count (length data))}"
  shows "\<exists>st'. feed (\<lambda>i. compressed_image_topic_handler
        (wire (compressed_image_payload fid ts q data i))) order st =
      Inr (st', replicate (length order - 1) None @ [Some (fid, data, ts, q)]) \<and> \<not> ir_in_progress st'"
proof -
  have len: "length data \<le> 65535 * 1381" using assms(1) by (simp add: image_consts)
  have D: "image_data 1381 data" using len by (simp add: image_data_def)
  have cnt: "unat (compressed_image_chunk_count (length data)) = pieces 1381 data"
    by (simp add: compressed_count [OF len] image_data.count_unat [OF D])
  have data: "take (65535 * 1381) data = data" using len by simp
  obtain st' outs where f: "feed (\<lambda>i. compressed_image_topic_handler
        (wire (compressed_image_payload fid ts q data i))) order st = Inr (st', outs)"
    and o: "map (map_option (\<lambda>(f, im, t, q). (f, im))) outs =
      replicate (length order - 1) None @ [Some (fid, data)]"
    and p: "\<not> ir_in_progress st'"
    using compressed_rx.delivers [where data = data and fid = fid and ts = ts and q = q and st = st
        and order = order] assms(2-)
    unfolding cnt data by (auto simp: ImageReassembler.defs)
  have meta: "\<forall>f im t r. Some (f, im, t, r) \<in> set outs \<longrightarrow> t = ts \<and> r = q"
    using assms(2,3) cnt by (intro compressed_feed_meta [OF len _ f]) auto
  obtain os z where outs: "outs = os @ [z]" using o by (cases outs rule: rev_cases) auto
  with o have os: "map (map_option (\<lambda>(f, im, t, q). (f, im))) os = replicate (length order - 1) None"
    and z: "map_option (\<lambda>(f, im, t, q). (f, im)) z = Some (fid, data)" by auto
  have "os = replicate (length order - 1) None"
    by (rule map_None_replicate [OF os])
  moreover have "z = Some (fid, data, ts, q)"
    using z meta outs by auto
  ultimately show ?thesis using f p outs by blast
qed

theorem compressed_image_delivered_witness:
  "\<exists>st'. feed (\<lambda>i. compressed_image_topic_handler
        (wire (compressed_image_payload 7 99 80 [1, 2, 3] i))) [0] compressed_image_reassembler =
     Inr (st', replicate (length [0 :: nat] - 1) None @ [Some (7, [1, 2, 3], 99, 80)]) \<and>
     \<not> ir_in_progress st'"
  by (rule compressed_image_delivered)
    (auto simp: image_consts compressed_image_reassembler_def compressed_image_chunk_count_def Let_def)

text \<open>
  C40: The size of a chunk is not checked on arrival: a payload for a single-chunk image that
  carries more than 1390 data bytes, consistent with its own length field, makes the reassembler
  copy past the end of its buffer.
\<close>

theorem image_oversized_chunk_faults:
  assumes "1390 < length d" and "length d < 65536"
  shows "image_topic_handler (le32 fid @ le16 0 @ le16 1 @ le16 (word_of_nat (length d)) @ d)
    image_reassembler = Inl OutOfBounds"
proof -
  have n: "unat (word_of_nat (length d) :: u16) = length d" using assms by (simp add: unat_of_nat)
  show ?thesis
    using assms by (simp add: image_topic_handler_def chunk_data_bytes bslice_def n
        image_on_chunk_raw_asm asm_step_def image_reassembler_def)
qed

theorem image_oversized_chunk_faults_witness:
  "image_topic_handler (le32 1 @ le16 0 @ le16 1 @
     le16 (word_of_nat (length (replicate 1391 (0 :: u8)))) @ replicate 1391 0)
    image_reassembler = Inl OutOfBounds"
  by (rule image_oversized_chunk_faults) simp_all

end
