(* ===== verification/Adaptive_Bitrate.thy ===== *)
theory Adaptive_Bitrate
  imports Complex_Main Relink_Prelude
begin

text \<open>
  The encoder quality controller, \<^verbatim>\<open>cpp/include/relink/adaptive_bitrate.hpp\<close>. A \<^verbatim>\<open>double\<close> is a real and
  each arithmetic operation rounds its exact result with a parameter \<open>rnd\<close>; the properties need of it
  only that it is monotone and exact on halves of small integers, which IEEE 754 guarantees. NaN and infinity are left out.
  \<^verbatim>\<open>std::invalid_argument\<close> is the error value.
\<close>

record AdaptiveBitrateConfig =
  ab_quality_min :: int
  ab_quality_max :: int
  ab_motion_ceiling :: real
  ab_target_bitrate_bps :: real
  ab_window_sec :: real
  ab_smoothing :: real

definition AdaptiveBitrateConfig_default :: AdaptiveBitrateConfig where
  "AdaptiveBitrateConfig_default =
     \<lparr>ab_quality_min = 20, ab_quality_max = 80, ab_motion_ceiling = 30, ab_target_bitrate_bps = 0,
      ab_window_sec = 1, ab_smoothing = 3 / 10\<rparr>"

record Sample =
  sa_t :: real
  sa_bytes :: nat

record AdaptiveBitrateController =
  ac_cfg :: AdaptiveBitrateConfig
  ac_quality :: real
  ac_history :: "Sample list"

datatype invalid_argument = BadQualityRange | BadSmoothing

definition AdaptiveBitrateController_ctor ::
  "AdaptiveBitrateConfig \<Rightarrow> invalid_argument + AdaptiveBitrateController" where
  "AdaptiveBitrateController_ctor cfg =
     (if \<not> (ab_quality_min cfg \<ge> 0 \<and> ab_quality_min cfg \<le> ab_quality_max cfg \<and> ab_quality_max cfg \<le> 100)
      then Inl BadQualityRange
      else if \<not> (ab_smoothing cfg > 0 \<and> ab_smoothing cfg \<le> 1) then Inl BadSmoothing
      else
        let cfg = cfg\<lparr>ab_motion_ceiling := max (1 / 1000000) (ab_motion_ceiling cfg)\<rparr>
        in Inr \<lparr>ac_cfg = cfg, ac_quality = of_int (ab_quality_max cfg), ac_history = []\<rparr>)"

definition record_sent :: "nat \<Rightarrow> real \<Rightarrow> AdaptiveBitrateController \<Rightarrow> AdaptiveBitrateController" where
  "record_sent num_bytes now_sec c =
     c\<lparr>ac_history := ac_history c @ [\<lparr>sa_t = now_sec, sa_bytes = num_bytes\<rparr>]\<rparr>"

definition motion_quality :: "(real \<Rightarrow> real) \<Rightarrow> real \<Rightarrow> AdaptiveBitrateController \<Rightarrow> real" where
  "motion_quality rnd motion c =
     (let cfg = ac_cfg c;
          frac = max 0 (min 1 (rnd (motion / ab_motion_ceiling cfg)))
      in rnd (of_int (ab_quality_max cfg)
              - rnd (frac * of_int (ab_quality_max cfg - ab_quality_min cfg))))"

definition bitrate_scale ::
  "(real \<Rightarrow> real) \<Rightarrow> real \<Rightarrow> AdaptiveBitrateController \<Rightarrow> real \<times> AdaptiveBitrateController" where
  "bitrate_scale rnd now_sec c =
     (let cfg = ac_cfg c in
      if ab_target_bitrate_bps cfg \<le> 0 then (1, c)
      else
        let cutoff = rnd (now_sec - ab_window_sec cfg);
            c = c\<lparr>ac_history := dropWhile (\<lambda>s. sa_t s < cutoff) (ac_history c)\<rparr>;
            total_bytes = foldl (\<lambda>n s. (n + sa_bytes s) mod 2 ^ 64) 0 (ac_history c)
        in if total_bytes = 0 then (1, c)
           else
             let current_bps = rnd (rnd (rnd (of_nat total_bytes) * 8) / ab_window_sec cfg)
             in if current_bps \<le> ab_target_bitrate_bps cfg then (1, c)
                else (max 0 (rnd (ab_target_bitrate_bps cfg / current_bps)), c))"

definition round_quality :: "(real \<Rightarrow> real) \<Rightarrow> real \<Rightarrow> int" where
  "round_quality rnd q = (let x = rnd (q + 1 / 2) in if x \<ge> 0 then \<lfloor>x\<rfloor> else \<lceil>x\<rceil>)"

definition next_quality ::
  "(real \<Rightarrow> real) \<Rightarrow> real \<Rightarrow> real \<Rightarrow> AdaptiveBitrateController \<Rightarrow> int \<times> AdaptiveBitrateController" where
  "next_quality rnd motion now_sec c =
     (let target = motion_quality rnd motion c;
          (scale, c) = bitrate_scale rnd now_sec c;
          qmin = of_int (ab_quality_min (ac_cfg c)); qmax = of_int (ab_quality_max (ac_cfg c));
          target = rnd (qmin + rnd (rnd (target - qmin) * scale));
          q = rnd (ac_quality c + rnd (rnd (target - ac_quality c) * ab_smoothing (ac_cfg c)));
          q = max qmin (min qmax q)
      in (round_quality rnd q, c\<lparr>ac_quality := q\<rparr>))"

definition current_quality :: "(real \<Rightarrow> real) \<Rightarrow> AdaptiveBitrateController \<Rightarrow> int" where
  "current_quality rnd c = round_quality rnd (ac_quality c)"

section \<open>The quality stays in its range\<close>

datatype ab_call = RecordSent nat real | NextQuality real real

fun ab_run :: "(real \<Rightarrow> real) \<Rightarrow> ab_call list \<Rightarrow> AdaptiveBitrateController \<Rightarrow>
    int list \<times> AdaptiveBitrateController" where
  "ab_run rnd [] c = ([], c)"
| "ab_run rnd (RecordSent n t # cs) c = ab_run rnd cs (record_sent n t c)"
| "ab_run rnd (NextQuality m t # cs) c =
     (let (q, c) = next_quality rnd m t c; (qs, c) = ab_run rnd cs c in (q # qs, c))"

text \<open>What the controller needs of the machine's rounding.\<close>

locale half_exact =
  fixes rnd :: "real \<Rightarrow> real"
  assumes rnd_mono: "x \<le> y \<Longrightarrow> rnd x \<le> rnd y"
    and rnd_half: "0 \<le> k \<Longrightarrow> k \<le> 201 \<Longrightarrow> rnd (of_int k / 2) = of_int k / 2"
begin

lemma round_in_range:
  assumes "0 \<le> lo" "hi \<le> 100" "of_int lo \<le> q" "q \<le> of_int hi"
  shows "lo \<le> round_quality rnd q \<and> round_quality rnd q \<le> hi"
proof -
  have ends: "rnd (of_int lo + 1 / 2) = of_int lo + 1 / 2" "rnd (of_int hi + 1 / 2) = of_int hi + 1 / 2"
  proof -
    have "of_int lo \<le> (of_int hi :: real)" using assms by linarith
    then have "lo \<le> hi" by simp
    then show "rnd (of_int lo + 1 / 2) = of_int lo + 1 / 2" "rnd (of_int hi + 1 / 2) = of_int hi + 1 / 2"
      using rnd_half [of "2 * lo + 1"] rnd_half [of "2 * hi + 1"] assms by (simp_all add: add_divide_distrib)
  qed
  have "of_int lo + 1 / 2 \<le> rnd (q + 1 / 2)" "rnd (q + 1 / 2) \<le> of_int hi + 1 / 2"
    using rnd_mono [of "of_int lo + 1 / 2" "q + 1 / 2"] rnd_mono [of "q + 1 / 2" "of_int hi + 1 / 2"]
      ends assms by simp_all
  moreover have "0 \<le> rnd (q + 1 / 2)"
    using calculation(1) assms(1) by (metis add_nonneg_nonneg of_int_0_le_iff order_trans zero_le_divide_1_iff zero_le_numeral)
  ultimately show ?thesis
    by (simp add: round_quality_def Let_def) linarith
qed

end

definition ab_wf :: "AdaptiveBitrateController \<Rightarrow> bool" where
  "ab_wf c \<longleftrightarrow>
     0 \<le> ab_quality_min (ac_cfg c) \<and> ab_quality_min (ac_cfg c) \<le> ab_quality_max (ac_cfg c) \<and>
     ab_quality_max (ac_cfg c) \<le> 100 \<and> of_int (ab_quality_min (ac_cfg c)) \<le> ac_quality c \<and>
     ac_quality c \<le> of_int (ab_quality_max (ac_cfg c))"

lemma ctor_wf: "AdaptiveBitrateController_ctor cfg = Inr c \<Longrightarrow>
    ab_wf c \<and> ab_quality_min (ac_cfg c) = ab_quality_min cfg \<and> ab_quality_max (ac_cfg c) = ab_quality_max cfg"
  by (auto simp: AdaptiveBitrateController_ctor_def ab_wf_def Let_def split: if_splits)

lemma record_sent_wf: "ab_wf c \<Longrightarrow> ab_wf (record_sent n t c) \<and> ac_cfg (record_sent n t c) = ac_cfg c"
  by (simp add: ab_wf_def record_sent_def)

lemma bitrate_scale_cfg:
  "ac_cfg (snd (bitrate_scale rnd t c)) = ac_cfg c \<and> ac_quality (snd (bitrate_scale rnd t c)) = ac_quality c"
  by (simp add: bitrate_scale_def Let_def)

lemma next_quality_eq:
  obtains q where "next_quality rnd m t c = (round_quality rnd q, (snd (bitrate_scale rnd t c))\<lparr>ac_quality := q\<rparr>)"
    and "ab_wf c \<Longrightarrow> of_int (ab_quality_min (ac_cfg c)) \<le> q \<and> q \<le> of_int (ab_quality_max (ac_cfg c))"
proof -
  obtain s c' where sc: "bitrate_scale rnd t c = (s, c')" by fastforce
  then have cfg: "ac_cfg c' = ac_cfg c" using bitrate_scale_cfg [of rnd t c] by simp
  show thesis
    by (rule that [of "max (of_int (ab_quality_min (ac_cfg c))) (min (of_int (ab_quality_max (ac_cfg c))) (rnd (ac_quality c' + rnd (rnd (rnd (of_int (ab_quality_min (ac_cfg c)) + rnd (rnd (motion_quality rnd m c - of_int (ab_quality_min (ac_cfg c))) * s)) - ac_quality c') * ab_smoothing (ac_cfg c)))))"])
      (simp_all add: next_quality_def sc cfg Let_def ab_wf_def)
qed

context half_exact
begin

lemma next_quality_wf:
  assumes "ab_wf c" and "next_quality rnd m t c = (q, c')"
  shows "ab_wf c' \<and> ac_cfg c' = ac_cfg c \<and> ab_quality_min (ac_cfg c) \<le> q \<and> q \<le> ab_quality_max (ac_cfg c)"
proof -
  obtain r where r: "next_quality rnd m t c = (round_quality rnd r, (snd (bitrate_scale rnd t c))\<lparr>ac_quality := r\<rparr>)"
    and "of_int (ab_quality_min (ac_cfg c)) \<le> r" "r \<le> of_int (ab_quality_max (ac_cfg c))"
    using next_quality_eq [of rnd m t c] assms(1) by blast
  then show ?thesis
    using assms bitrate_scale_cfg [of rnd t c]
      round_in_range [of "ab_quality_min (ac_cfg c)" "ab_quality_max (ac_cfg c)" r]
    by (auto simp: ab_wf_def)
qed

lemma run_in_range:
  "ab_wf c \<Longrightarrow> ab_run rnd cs c = (qs, c') \<Longrightarrow> ab_wf c' \<and> ac_cfg c' = ac_cfg c \<and>
   list_all (\<lambda>q. ab_quality_min (ac_cfg c) \<le> q \<and> q \<le> ab_quality_max (ac_cfg c)) qs"
proof (induction cs arbitrary: c qs)
  case Nil
  then show ?case by simp
next
  case (Cons a cs)
  show ?case
  proof (cases a)
    case (RecordSent n t)
    then show ?thesis using Cons record_sent_wf [of c n t] by simp metis
  next
    case (NextQuality m t)
    obtain q c1 where n: "next_quality rnd m t c = (q, c1)" by fastforce
    obtain qs1 where r: "ab_run rnd cs c1 = (qs1, c')" and qs: "qs = q # qs1"
      using Cons.prems(2) NextQuality n by (auto split: prod.splits)
    note w = next_quality_wf [OF Cons.prems(1) n]
    then show ?thesis using Cons.IH [OF _ r] qs by simp
  qed
qed

end

text \<open>Rounding down to a multiple of \<open>1 / 1024\<close> is one such rounding.\<close>

definition grid :: "real \<Rightarrow> real" where "grid x = of_int \<lfloor>x * 1024\<rfloor> / 1024"

lemma grid_mono: "x \<le> y \<Longrightarrow> grid x \<le> grid y"
  by (simp add: grid_def floor_mono)

lemma grid_half: "grid (of_int k / 2) = of_int k / 2"
proof -
  have "(of_int k / 2 * 1024 :: real) = of_int (k * 512)" by simp
  then have "\<lfloor>of_int k / 2 * 1024 :: real\<rfloor> = k * 512" by (simp only: floor_of_int)
  then show ?thesis by (simp add: grid_def)
qed

interpretation grid: half_exact grid
  by unfold_locales (simp_all add: grid_mono grid_half)

text \<open>
  C32: Construction accepts a configuration exactly when \<open>0 \<le> quality_min \<le> quality_max \<le> 100\<close> and
  \<open>0 < smoothing \<le> 1\<close>, and then every quality any sequence of calls returns lies between
  \<open>quality_min\<close> and \<open>quality_max\<close>, whatever the motion values, clock readings, byte counts and
  target bitrate. Of the rounding it needs monotonicity and exactness on the halves up to 100.5.
\<close>

theorem quality_always_in_range:
  assumes "\<And>x y. x \<le> y \<Longrightarrow> rnd x \<le> rnd y"
    and "\<And>k. 0 \<le> k \<Longrightarrow> k \<le> 201 \<Longrightarrow> rnd (of_int k / 2) = of_int k / 2"
  shows "case AdaptiveBitrateController_ctor cfg of
      Inl _ \<Rightarrow> \<not> (0 \<le> ab_quality_min cfg \<and> ab_quality_min cfg \<le> ab_quality_max cfg \<and>
                 ab_quality_max cfg \<le> 100 \<and> 0 < ab_smoothing cfg \<and> ab_smoothing cfg \<le> 1)
    | Inr c \<Rightarrow> list_all (\<lambda>q. ab_quality_min cfg \<le> q \<and> q \<le> ab_quality_max cfg)
                 (fst (ab_run rnd calls c))"
proof (cases "AdaptiveBitrateController_ctor cfg")
  case (Inl e)
  then show ?thesis
    by (auto simp: AdaptiveBitrateController_ctor_def Let_def split: if_splits)
next
  case (Inr c)
  have h: "half_exact rnd" using assms by (simp add: half_exact_def)
  obtain qs c' where "ab_run rnd calls c = (qs, c')" by fastforce
  with half_exact.run_in_range [OF h, of c calls qs c'] ctor_wf [OF Inr] Inr
  show ?thesis by simp
qed

theorem quality_always_in_range_witness:
  "case AdaptiveBitrateController_ctor AdaptiveBitrateConfig_default of
      Inl _ \<Rightarrow> \<not> (0 \<le> ab_quality_min AdaptiveBitrateConfig_default \<and>
         ab_quality_min AdaptiveBitrateConfig_default \<le> ab_quality_max AdaptiveBitrateConfig_default \<and>
         ab_quality_max AdaptiveBitrateConfig_default \<le> 100 \<and>
         0 < ab_smoothing AdaptiveBitrateConfig_default \<and> ab_smoothing AdaptiveBitrateConfig_default \<le> 1)
    | Inr c \<Rightarrow> list_all (\<lambda>q. ab_quality_min AdaptiveBitrateConfig_default \<le> q \<and>
         q \<le> ab_quality_max AdaptiveBitrateConfig_default)
       (fst (ab_run grid [RecordSent 5000 0, NextQuality 12 1] c))"
  by (rule quality_always_in_range) (simp_all add: grid_mono grid_half)

end
