(* ===== verification/Udp_Transport.thy ===== *)
theory Udp_Transport
  imports Frame Ring_Buffer
begin

text \<open>
  The data transport, \<^verbatim>\<open>cpp/include/relink/udp_transport.hpp\<close>, with the two scatter sends of
  \<^verbatim>\<open>platform.hpp\<close>. The operating system is a set of parameters: what \<^verbatim>\<open>socket\<close>, \<^verbatim>\<open>bind\<close> and
  \<^verbatim>\<open>getsockname\<close> return, the number of bytes \<^verbatim>\<open>sendto\<close> reports for a datagram, and the datagram
  \<^verbatim>\<open>recvfrom\<close> yields. Every send returns the datagrams handed to the kernel; a callback is an
  identifier of type \<open>'h\<close>, and dispatching one is returned as the pair of it and the payload.
\<close>

record PeerAddr =
  pa_ip :: u32
  pa_port :: u16

type_synonym datagram = "PeerAddr \<times> bytes"

definition kSeqWindowSize :: nat where "kSeqWindowSize = 8"
definition kMaxQueuedRegisterReplies :: nat where "kMaxQueuedRegisterReplies = 16"
definition kRecvBufBytes :: nat where "kRecvBufBytes = 65507"

record SeqWindow =
  sw_seen :: "u16 list"
  sw_valid :: "bool list"
  sw_next :: nat

definition SeqWindow_init :: SeqWindow where
  "SeqWindow_init =
     \<lparr>sw_seen = replicate kSeqWindowSize 0, sw_valid = replicate kSeqWindowSize False, sw_next = 0\<rparr>"

record 'h UdpTransport =
  ut_sock :: "int option"
  ut_want_large_buffers :: bool
  ut_large_applied :: bool
  ut_local_port :: u16
  ut_running :: bool
  ut_pin_to_core :: int
  ut_use_realtime :: bool
  ut_rt_priority :: int
  ut_seq_counter :: u16
  ut_handlers :: "u32 \<rightharpoonup> 'h"
  ut_relay_dedup_enabled :: bool
  ut_recent_seqs :: "u32 \<rightharpoonup> SeqWindow"
  ut_register_reply_queue :: "bytes list"

definition UdpTransport_init :: "'h UdpTransport" where
  "UdpTransport_init =
     \<lparr>ut_sock = None, ut_want_large_buffers = False, ut_large_applied = False, ut_local_port = 0,
      ut_running = False, ut_pin_to_core = -1, ut_use_realtime = False, ut_rt_priority = 10,
      ut_seq_counter = 0, ut_handlers = Map.empty, ut_relay_dedup_enabled = False,
      ut_recent_seqs = Map.empty, ut_register_reply_queue = []\<rparr>"

section \<open>Setup\<close>

datatype TransportError = SocketFailed | BindFailed

definition apply_large_buffers :: "'h UdpTransport \<Rightarrow> 'h UdpTransport" where
  "apply_large_buffers t = t\<lparr>ut_large_applied := True\<rparr>"

definition transport_bind ::
  "int option \<Rightarrow> bool \<Rightarrow> u16 option \<Rightarrow> 'h UdpTransport \<Rightarrow> TransportError option \<times> 'h UdpTransport" where
  "transport_bind os_socket os_bind_ok os_sockname t =
     (let t = t\<lparr>ut_sock := os_socket\<rparr> in
      if os_socket = None then (Some SocketFailed, t)
      else
        let t = (if ut_want_large_buffers t then apply_large_buffers t else t)
        in if \<not> os_bind_ok then (Some BindFailed, t\<lparr>ut_sock := None\<rparr>)
           else (None, case os_sockname of
                         Some p \<Rightarrow> t\<lparr>ut_local_port := p\<rparr>
                       | None \<Rightarrow> t))"

definition enable_large_buffers :: "'h UdpTransport \<Rightarrow> 'h UdpTransport" where
  "enable_large_buffers t =
     (let t = t\<lparr>ut_want_large_buffers := True\<rparr>
      in if ut_sock t \<noteq> None then apply_large_buffers t else t)"

definition set_topic_handler :: "u32 \<Rightarrow> 'h \<Rightarrow> 'h UdpTransport \<Rightarrow> 'h UdpTransport" where
  "set_topic_handler topic_id cb t = t\<lparr>ut_handlers := (ut_handlers t)(topic_id \<mapsto> cb)\<rparr>"

definition enable_relay_dedup :: "'h UdpTransport \<Rightarrow> 'h UdpTransport" where
  "enable_relay_dedup t = t\<lparr>ut_relay_dedup_enabled := True\<rparr>"

definition transport_start :: "int \<Rightarrow> bool \<Rightarrow> int \<Rightarrow> 'h UdpTransport \<Rightarrow> 'h UdpTransport" where
  "transport_start pin_to_core use_realtime rt_priority t =
     (if ut_running t then t
      else t\<lparr>ut_running := True, ut_pin_to_core := pin_to_core, ut_use_realtime := use_realtime,
             ut_rt_priority := rt_priority\<rparr>)"

definition transport_stop :: "'h UdpTransport \<Rightarrow> 'h UdpTransport" where
  "transport_stop t = t\<lparr>ut_running := False\<rparr>"

definition transport_close_socket :: "'h UdpTransport \<Rightarrow> 'h UdpTransport" where
  "transport_close_socket t = t\<lparr>ut_sock := None\<rparr>"

section \<open>Sending\<close>

definition next_seq :: "'h UdpTransport \<Rightarrow> u16 \<times> 'h UdpTransport" where
  "next_seq t = (ut_seq_counter t, t\<lparr>ut_seq_counter := ut_seq_counter t + 1\<rparr>)"

definition publish_raw_seq ::
  "(datagram \<Rightarrow> int) \<Rightarrow> u32 \<Rightarrow> bytes \<Rightarrow> PeerAddr \<Rightarrow> u16 \<Rightarrow> bool \<times> datagram list" where
  "publish_raw_seq sendto topic_id payload peer seq =
     (case encode_frame topic_id seq payload kMaxFrameBytes of
        Inl _ \<Rightarrow> (False, [])
      | Inr frame \<Rightarrow> (sendto (peer, frame) = int (length frame), [(peer, frame)]))"

definition publish_raw ::
  "(datagram \<Rightarrow> int) \<Rightarrow> u32 \<Rightarrow> bytes \<Rightarrow> PeerAddr \<Rightarrow> 'h UdpTransport \<Rightarrow>
   bool \<times> datagram list \<times> 'h UdpTransport" where
  "publish_raw sendto topic_id payload peer t =
     (let (seq, t) = next_seq t; (ok, out) = publish_raw_seq sendto topic_id payload peer seq
      in (ok, out, t))"

definition sendmsg_to_posix ::
  "(datagram \<Rightarrow> int) \<Rightarrow> bytes list \<Rightarrow> PeerAddr \<Rightarrow> int \<times> datagram list" where
  "sendmsg_to_posix sendto iov dest = (sendto (dest, concat iov), [(dest, concat iov)])"

fun gather_iov :: "nat \<Rightarrow> bytes list \<Rightarrow> bytes \<Rightarrow> bytes option" where
  "gather_iov cap [] buf = Some buf"
| "gather_iov cap (seg # iov) buf =
     (if length buf + length seg > cap then None else gather_iov cap iov (buf @ seg))"

definition sendmsg_to_windows ::
  "(datagram \<Rightarrow> int) \<Rightarrow> bytes list \<Rightarrow> PeerAddr \<Rightarrow> int \<times> datagram list" where
  "sendmsg_to_windows sendto iov dest =
     (case gather_iov 1500 iov [] of
        None \<Rightarrow> (-1, [])
      | Some buf \<Rightarrow> (sendto (dest, buf), [(dest, buf)]))"

definition scatter_iov :: "u32 \<Rightarrow> u16 \<Rightarrow> bytes \<Rightarrow> bytes \<Rightarrow> bytes list" where
  "scatter_iov topic_id seq extra_header data =
     (let payload_len = length extra_header + length data;
          header = \<lparr>hdr_topic_id = topic_id, hdr_seq_num = seq,
                    hdr_payload_len = word_of_nat payload_len, hdr_flags = 0\<rparr>
      in [[kStartByte], enc_RelinkHeader header]
         @ (if length extra_header > 0 then [extra_header] else [])
         @ (if length data > 0 then [data] else [])
         @ [[kStopByte]])"

definition publish_scattered ::
  "(bytes list \<Rightarrow> PeerAddr \<Rightarrow> int \<times> datagram list) \<Rightarrow> u32 \<Rightarrow> bytes \<Rightarrow> bytes \<Rightarrow> PeerAddr \<Rightarrow>
   'h UdpTransport \<Rightarrow> bool \<times> datagram list \<times> 'h UdpTransport" where
  "publish_scattered sendmsg_to topic_id extra_header data peer t =
     (let payload_len = length extra_header + length data in
      if payload_len > kMaxPayloadBytes then (False, [], t)
      else
        let (seq, t) = next_seq t;
            frame_len = 1 + sizeof_RelinkHeader + payload_len + 1;
            (sent, out) = sendmsg_to (scatter_iov topic_id seq extra_header data) peer
        in (sent = int frame_len, out, t))"

section \<open>Receiving\<close>

fun window_scan :: "SeqWindow \<Rightarrow> u16 \<Rightarrow> nat \<Rightarrow> nat \<Rightarrow> bool" where
  "window_scan w seq 0 i = False"
| "window_scan w seq (Suc n) i =
     (if sw_valid w ! i \<and> sw_seen w ! i = seq then True else window_scan w seq n (Suc i))"

definition is_recent_duplicate :: "u32 \<Rightarrow> u16 \<Rightarrow> 'h UdpTransport \<Rightarrow> bool \<times> 'h UdpTransport" where
  "is_recent_duplicate topic_id seq t =
     (let w = (case ut_recent_seqs t topic_id of None \<Rightarrow> SeqWindow_init | Some w \<Rightarrow> w);
          t = t\<lparr>ut_recent_seqs := (ut_recent_seqs t)(topic_id \<mapsto> w)\<rparr>
      in if window_scan w seq kSeqWindowSize 0 then (True, t)
         else
           let w = w\<lparr>sw_seen := (sw_seen w)[sw_next w := seq],
                     sw_valid := (sw_valid w)[sw_next w := True],
                     sw_next := (sw_next w + 1) mod kSeqWindowSize\<rparr>
           in (False, t\<lparr>ut_recent_seqs := (ut_recent_seqs t)(topic_id \<mapsto> w)\<rparr>))"

definition recv_and_dispatch ::
  "bytes option \<Rightarrow> 'h UdpTransport \<Rightarrow> bool \<times> ('h \<times> bytes) option \<times> 'h UdpTransport" where
  "recv_and_dispatch os_recv t =
     (case os_recv of
        None \<Rightarrow> (False, None, t)
      | Some datagram \<Rightarrow>
          let buf = take kRecvBufBytes datagram in
          if length buf = 0 then (False, None, t)
          else
            (case decode_frame buf of
               Inl _ \<Rightarrow>
                 (False, None,
                  if length (ut_register_reply_queue t) < kMaxQueuedRegisterReplies
                  then t\<lparr>ut_register_reply_queue := ut_register_reply_queue t @ [buf]\<rparr> else t)
             | Inr frame \<Rightarrow>
                 let (dup, t) = (if ut_relay_dedup_enabled t
                                 then is_recent_duplicate (hdr_topic_id (df_header frame))
                                        (hdr_seq_num (df_header frame)) t
                                 else (False, t))
                 in if dup then (True, None, t)
                    else (case ut_handlers t (hdr_topic_id (df_header frame)) of
                            Some cb \<Rightarrow> (True, Some (cb, df_payload frame), t)
                          | None \<Rightarrow> (False, None, t))))"

text \<open>
  One wake-up of \<^verbatim>\<open>get_register_reply\<close>: the predicate of the condition variable holds, or the wait
  times out.
\<close>

definition get_register_reply :: "'h UdpTransport \<Rightarrow> bytes option \<times> 'h UdpTransport" where
  "get_register_reply t =
     (case ut_register_reply_queue t of
        [] \<Rightarrow> (None, t)
      | r # rs \<Rightarrow> (Some r, t\<lparr>ut_register_reply_queue := rs\<rparr>))"

datatype AddrError = InvalidIPv4 string

definition ipv4_to_host_order :: "(string \<Rightarrow> u32 option) \<Rightarrow> string \<Rightarrow> AddrError + u32" where
  "ipv4_to_host_order inet_pton dotted =
     (case inet_pton dotted of None \<Rightarrow> Inl (InvalidIPv4 dotted) | Some a \<Rightarrow> Inr a)"

section \<open>Sending: the scattered send equals the framed one\<close>

lemma scatter_iov_bytes: "concat (scatter_iov t s h d) = frame_bytes t s (h @ d)"
  by (simp add: scatter_iov_def frame_bytes_def frame_header_def Let_def)

lemma gather_iov_eq:
  "length buf + length (concat iov) \<le> cap \<Longrightarrow> gather_iov cap iov buf = Some (buf @ concat iov)"
  by (induction cap iov buf rule: gather_iov.induct) auto

lemma sendmsg_same:
  "length (concat iov) \<le> 1500 \<Longrightarrow> sendmsg_to_windows sendto iov dest = sendmsg_to_posix sendto iov dest"
  by (simp add: sendmsg_to_windows_def sendmsg_to_posix_def gather_iov_eq)

text \<open>
  C29: The scatter-gather send puts on the wire, on either platform, byte for byte the datagram that
  the copying send makes for the concatenation of header and data: same acceptance, same result,
  same frame, and both draw exactly one sequence number for an accepted message.
\<close>

theorem publish_scattered_eq_publish_raw:
  "(let (ok, out, t') = publish_scattered (sendmsg_to_posix sendto) topic_id extra_header data peer t;
        (ok2, out2, t2) = publish_raw sendto topic_id (extra_header @ data) peer t
    in ok = ok2 \<and> out = out2 \<and>
       ut_seq_counter t2 = ut_seq_counter t + 1 \<and>
       t' = (if length extra_header + length data > kMaxPayloadBytes then t else t2)) \<and>
   publish_scattered (sendmsg_to_windows sendto) topic_id extra_header data peer t =
   publish_scattered (sendmsg_to_posix sendto) topic_id extra_header data peer t"
proof -
  have "length (frame_bytes topic_id s (extra_header @ data)) \<le> 1500"
    if "\<not> length extra_header + length data > kMaxPayloadBytes" for s
    using that by (simp add: kMaxPayloadBytes_def)
  then have "publish_scattered (sendmsg_to_windows sendto) topic_id extra_header data peer t =
      publish_scattered (sendmsg_to_posix sendto) topic_id extra_header data peer t"
    by (simp add: publish_scattered_def Let_def sendmsg_same scatter_iov_bytes next_seq_def)
  then show ?thesis
    by (simp add: publish_scattered_def publish_raw_def publish_raw_seq_def next_seq_def Let_def
        sendmsg_to_posix_def scatter_iov_bytes encode_frame_eq frame_consts ac_simps)
qed

section \<open>The duplicate window\<close>

text \<open>
  The window is a ring buffer of the last eight recorded sequence numbers: \<open>ring_of\<close> reads it as one,
  so that the lemmas of \<open>RingBuffer\<close> apply, and \<open>sw_list\<close> is its content, oldest first.
\<close>

definition sw_full :: "SeqWindow \<Rightarrow> bool" where "sw_full w \<longleftrightarrow> sw_valid w ! sw_next w"

definition ring_of :: "SeqWindow \<Rightarrow> u16 RingBuffer" where
  "ring_of w = \<lparr>rb_data = sw_seen w, rb_head = (if sw_full w then sw_next w else 0),
     rb_tail = sw_next w, rb_count = (if sw_full w then 8 else sw_next w)\<rparr>"

definition sw_list :: "SeqWindow \<Rightarrow> u16 list" where "sw_list w = rb_list (ring_of w)"

definition sw_wf :: "SeqWindow \<Rightarrow> bool" where
  "sw_wf w \<longleftrightarrow> length (sw_seen w) = 8 \<and> sw_next w < 8 \<and>
     (sw_valid w = replicate 8 True \<or> sw_valid w = map (\<lambda>i. i < sw_next w) [0..<8])"

definition sw_push :: "u16 \<Rightarrow> SeqWindow \<Rightarrow> SeqWindow" where
  "sw_push seq w = w\<lparr>sw_seen := (sw_seen w)[sw_next w := seq],
     sw_valid := (sw_valid w)[sw_next w := True], sw_next := (sw_next w + 1) mod kSeqWindowSize\<rparr>"

lemma sw_init_wf [simp]: "sw_wf SeqWindow_init" "sw_list SeqWindow_init = []"
  by (simp_all add: sw_wf_def SeqWindow_init_def kSeqWindowSize_def sw_list_def ring_of_def sw_full_def
      rb_list_def list_eq_iff_nth_eq)

lemma ring_of_wf: "sw_wf w \<Longrightarrow> rb_wf (ring_of w)"
  by (auto simp: sw_wf_def rb_wf_def ring_of_def rb_capacity_def sw_full_def)

lemma sw_valid_nth: "sw_wf w \<Longrightarrow> i < 8 \<Longrightarrow> sw_valid w ! i \<longleftrightarrow> sw_full w \<or> i < sw_next w"
  by (auto simp: sw_wf_def sw_full_def)

lemma sw_push_ring:
  assumes "sw_wf w"
  shows "sw_wf (sw_push s w)" and "ring_of (sw_push s w) = snd (rb_push s (ring_of w))"
proof -
  have n: "sw_next w < 8" and len: "length (sw_valid w) = 8" using assms by (auto simp: sw_wf_def)
  show wf: "sw_wf (sw_push s w)"
  proof (cases "sw_valid w = replicate 8 True")
    case True
    then have "(sw_valid w)[sw_next w := True] = replicate 8 True"
      using n by (metis True list_update_id nth_replicate)
    then show ?thesis using assms by (simp add: sw_wf_def sw_push_def kSeqWindowSize_def)
  next
    case False
    then have v: "sw_valid w = map (\<lambda>i. i < sw_next w) [0..<8]" using assms by (simp add: sw_wf_def)
    have "(sw_valid w)[sw_next w := True] = map (\<lambda>i. i < Suc (sw_next w)) [0..<8]"
      using n by (auto simp: v list_eq_iff_nth_eq nth_list_update)
    then show ?thesis
      using assms n by (cases "sw_next w = 7")
        (auto simp: sw_wf_def sw_push_def kSeqWindowSize_def list_eq_iff_nth_eq)
  qed
  have full: "sw_full (sw_push s w) \<longleftrightarrow> sw_full w \<or> sw_next w = 7"
  proof (cases "sw_next w = 7")
    case True
    then have "sw_valid (sw_push s w) ! 0"
      using sw_valid_nth [OF assms, of 0] len by (simp add: sw_push_def)
    then show ?thesis using True by (simp add: sw_full_def sw_push_def kSeqWindowSize_def)
  next
    case False
    then show ?thesis
      using n sw_valid_nth [OF assms, of "Suc (sw_next w)"] len
      by (simp add: sw_full_def sw_push_def kSeqWindowSize_def)
  qed
  show "ring_of (sw_push s w) = snd (rb_push s (ring_of w))"
    using n assms
    by (auto simp: ring_of_def full rb_push_def rb_capacity_def Let_def sw_wf_def)
      (auto simp: sw_push_def kSeqWindowSize_def)
qed

lemma sw_push_list:
  assumes "sw_wf w"
  shows "sw_list (sw_push s w) = (if length (sw_list w) = 8 then tl (sw_list w) else sw_list w) @ [s]"
proof -
  have "rb_capacity (ring_of w) = 8" using assms by (simp add: sw_wf_def ring_of_def rb_capacity_def)
  then show ?thesis
    using rb_push_abs [OF ring_of_wf [OF assms]] by (simp add: sw_list_def sw_push_ring [OF assms])
qed

lemma window_scan_iff:
  "window_scan w s n i \<longleftrightarrow> (\<exists>j. i \<le> j \<and> j < i + n \<and> sw_valid w ! j \<and> sw_seen w ! j = s)"
proof (induction n arbitrary: i)
  case 0
  then show ?case by simp
next
  case (Suc n)
  show ?case
    by (simp add: Suc.IH) (metis Suc_leD Suc_le_eq le_eq_less_or_eq less_add_Suc1)
qed

lemma window_scan_list:
  assumes "sw_wf w"
  shows "window_scan w s 8 0 \<longleftrightarrow> s \<in> set (sw_list w)"
proof -
  have len: "length (sw_seen w) = 8" "sw_next w < 8" using assms by (simp_all add: sw_wf_def)
  have scan: "window_scan w s 8 0 \<longleftrightarrow> (\<exists>j < 8. (sw_full w \<or> j < sw_next w) \<and> sw_seen w ! j = s)"
    unfolding window_scan_iff using sw_valid_nth [OF assms] by auto
  show ?thesis
  proof (cases "sw_full w")
    case True
    have "(\<exists>i < 8. sw_seen w ! ((sw_next w + i) mod 8) = s) \<longleftrightarrow> (\<exists>j < 8. sw_seen w ! j = s)"
    proof
      assume "\<exists>j < 8. sw_seen w ! j = s"
      then obtain j where j: "j < 8" "sw_seen w ! j = s" by blast
      have "(sw_next w + (j + 8 - sw_next w) mod 8) mod 8 = j"
        using j len(2) by (simp add: mod_simps)
      with j show "\<exists>i < 8. sw_seen w ! ((sw_next w + i) mod 8) = s"
        by (intro exI [of _ "(j + 8 - sw_next w) mod 8"]) simp
    qed (metis mod_less_divisor zero_less_numeral)
    then show ?thesis
      unfolding scan using True len
      by (auto simp: sw_list_def rb_list_def ring_of_def rb_capacity_def image_iff Bex_def)
  next
    case False
    then show ?thesis
      unfolding scan using len
      by (auto simp: sw_list_def rb_list_def ring_of_def rb_capacity_def image_iff Bex_def
          intro: less_trans)
  qed
qed

text \<open>The recorded numbers of a topic, and what one arrival does to them.\<close>

definition window_of :: "u32 \<Rightarrow> 'h UdpTransport \<Rightarrow> SeqWindow" where
  "window_of topic t = (case ut_recent_seqs t topic of None \<Rightarrow> SeqWindow_init | Some w \<Rightarrow> w)"

definition windows_wf :: "'h UdpTransport \<Rightarrow> bool" where
  "windows_wf t \<longleftrightarrow> (\<forall>topic w. ut_recent_seqs t topic = Some w \<longrightarrow> sw_wf w)"

lemma window_of_wf: "windows_wf t \<Longrightarrow> sw_wf (window_of topic t)"
  by (auto simp: window_of_def windows_wf_def split: option.splits)

lemma is_recent_duplicate_eq:
  assumes "windows_wf t"
  shows "fst (is_recent_duplicate topic s t) \<longleftrightarrow> s \<in> set (sw_list (window_of topic t))"
    and "window_of topic (snd (is_recent_duplicate topic s t)) =
      (if s \<in> set (sw_list (window_of topic t)) then window_of topic t else sw_push s (window_of topic t))"
    and "windows_wf (snd (is_recent_duplicate topic s t))"
    and "ut_handlers (snd (is_recent_duplicate topic s t)) = ut_handlers t"
    and "ut_relay_dedup_enabled (snd (is_recent_duplicate topic s t)) = ut_relay_dedup_enabled t"
proof -
  let ?w = "window_of topic t"
  note wf = window_of_wf [OF assms, of topic]
  have eq: "is_recent_duplicate topic s t =
      (let t = t\<lparr>ut_recent_seqs := (ut_recent_seqs t)(topic \<mapsto> ?w)\<rparr>
       in if s \<in> set (sw_list ?w) then (True, t)
          else (False, t\<lparr>ut_recent_seqs := (ut_recent_seqs t)(topic \<mapsto> sw_push s ?w)\<rparr>))"
    by (simp add: is_recent_duplicate_def window_of_def [symmetric] kSeqWindowSize_def
        window_scan_list [OF wf, symmetric] sw_push_def Let_def)
  show "fst (is_recent_duplicate topic s t) \<longleftrightarrow> s \<in> set (sw_list ?w)"
    "window_of topic (snd (is_recent_duplicate topic s t)) =
      (if s \<in> set (sw_list ?w) then ?w else sw_push s ?w)"
    "ut_handlers (snd (is_recent_duplicate topic s t)) = ut_handlers t"
    "ut_relay_dedup_enabled (snd (is_recent_duplicate topic s t)) = ut_relay_dedup_enabled t"
    by (simp_all add: eq Let_def window_of_def)
  show "windows_wf (snd (is_recent_duplicate topic s t))"
    using assms wf sw_push_ring(1) [OF wf] by (auto simp: eq windows_wf_def Let_def)
qed

text \<open>
  The arrivals of a topic, in order, and the sequence numbers that are not suppressed.
\<close>

fun passed :: "u32 \<Rightarrow> u16 list \<Rightarrow> 'h UdpTransport \<Rightarrow> u16 list" where
  "passed topic [] t = []"
| "passed topic (s # ss) t =
     (let (dup, t) = is_recent_duplicate topic s t
      in if dup then passed topic ss t else s # passed topic ss t)"

definition spaced :: "u16 list \<Rightarrow> bool" where
  "spaced xs \<longleftrightarrow> (\<forall>i j. i < j \<and> j < length xs \<and> j - i \<le> 8 \<longrightarrow> xs ! i \<noteq> xs ! j)"

definition newest8 :: "u16 list \<Rightarrow> u16 list" where
  "newest8 xs = drop (length xs - 8) xs"

lemma newest8_snoc:
  "newest8 (xs @ [s]) = (if length (newest8 xs) = 8 then tl (newest8 xs) else newest8 xs) @ [s]"
proof (cases "length xs < 8")
  case False
  then have "tl (drop (length xs - 8) xs) = drop (Suc (length xs - 8)) xs" by (simp add: drop_Suc tl_drop)
  also have "Suc (length xs - 8) = Suc (length xs) - 8" using False by simp
  finally show ?thesis using False by (simp add: newest8_def)
qed (simp add: newest8_def)

lemma spaced_snoc:
  assumes "spaced xs" and "s \<notin> set (newest8 xs)"
  shows "spaced (xs @ [s])"
proof -
  have "xs ! i \<noteq> s" if "i < length xs" "length xs - i \<le> 8" for i
  proof -
    have "newest8 xs ! (i - (length xs - 8)) = xs ! i" "i - (length xs - 8) < length (newest8 xs)"
      using that by (simp_all add: newest8_def)
    then have "xs ! i \<in> set (newest8 xs)" by (metis nth_mem)
    then show ?thesis using assms(2) by blast
  qed
  then show ?thesis
    using assms(1) by (auto simp: spaced_def nth_append less_Suc_eq)
qed

lemma passed_spec:
  assumes "windows_wf t" and "sw_list (window_of topic t) = newest8 rec" and "spaced rec"
  shows "spaced (rec @ passed topic ss t) \<and> set (passed topic ss t) \<subseteq> set ss \<and>
    set ss \<subseteq> set rec \<union> set (passed topic ss t)"
  using assms
proof (induction ss arbitrary: t rec)
  case Nil
  then show ?case by simp
next
  case (Cons s ss)
  obtain dup t1 where d: "is_recent_duplicate topic s t = (dup, t1)" by fastforce
  note e = is_recent_duplicate_eq [OF Cons.prems(1), of topic s, unfolded d fst_conv snd_conv]
  show ?case
  proof (cases dup)
    case True
    then have "s \<in> set rec"
      using e(1) Cons.prems(2) by (auto simp: newest8_def dest: in_set_dropD)
    moreover have "sw_list (window_of topic t1) = newest8 rec"
      using e True Cons.prems(2) by simp
    ultimately show ?thesis
      using Cons.IH [OF e(3) _ Cons.prems(3)] True d by auto
  next
    case False
    have "sw_list (window_of topic t1) = newest8 (rec @ [s])"
      using e False Cons.prems(2) sw_push_list [OF window_of_wf [OF Cons.prems(1)]]
      by (simp add: newest8_snoc)
    moreover have "spaced (rec @ [s])"
      using e(1) False Cons.prems(2,3) by (intro spaced_snoc) auto
    ultimately have "spaced ((rec @ [s]) @ passed topic ss t1) \<and> set (passed topic ss t1) \<subseteq> set ss \<and>
        set ss \<subseteq> set (rec @ [s]) \<union> set (passed topic ss t1)"
      by (intro Cons.IH [OF e(3)])
    then show ?thesis using False d by auto
  qed
qed

text \<open>
  Duplicate suppression, on any sequence of arrivals for a topic not seen before: every sequence
  number that arrives gets through at least once, nothing else gets through, and among any nine
  consecutive deliveries no sequence number occurs twice.
\<close>

theorem dedup_passes_first_copies:
  assumes "ut_recent_seqs t topic = None" and "windows_wf t"
  shows "set (passed topic ss t) = set ss \<and> spaced (passed topic ss t)"
proof -
  have "sw_list (window_of topic t) = newest8 []"
    using assms(1) by (simp add: window_of_def newest8_def)
  from passed_spec [OF assms(2) this, of ss] show ?thesis by (auto simp: spaced_def)
qed

theorem dedup_passes_first_copies_witness:
  "set (passed 5 [1, 2, 1, 3, 2] (UdpTransport_init :: nat UdpTransport)) = set [1, 2, 1, 3, 2] \<and>
   spaced (passed 5 [1, 2, 1, 3, 2] (UdpTransport_init :: nat UdpTransport))"
  by (rule dedup_passes_first_copies) (simp_all add: UdpTransport_init_def windows_wf_def)

section \<open>Dispatch\<close>

lemma frame_bytes_nonempty: "frame_bytes t s p \<noteq> []"
  by (simp add: frame_bytes_def)

lemma recv_frame_eq:
  assumes "length p \<le> 1400"
  shows "recv_and_dispatch (Some (frame_bytes topic s p)) t =
    (let (dup, t) = (if ut_relay_dedup_enabled t then is_recent_duplicate topic s t else (False, t))
     in if dup then (True, None, t)
        else (case ut_handlers t topic of
                Some cb \<Rightarrow> (True, Some (cb, p), t)
              | None \<Rightarrow> (False, None, t)))"
proof -
  have "take kRecvBufBytes (frame_bytes topic s p) = frame_bytes topic s p"
    using assms by (simp add: kRecvBufBytes_def)
  then show ?thesis
    using decode_frame_bytes [of p topic s] assms
    by (simp add: recv_and_dispatch_def Let_def frame_bytes_nonempty split: option.splits prod.splits)
qed

text \<open>
  C39: Suppression looks at the topic and the sequence number only: once a frame has been accepted,
  the next frame on the topic with the same number never reaches the subscriber, whatever its
  payload. A second publisher whose counter has the same value, or a publisher that restarted,
  loses that message.
\<close>

theorem dedup_drops_other_publishers_message:
  assumes "ut_relay_dedup_enabled t" and "windows_wf t" and "length p \<le> 1400" and "length p' \<le> 1400"
  shows "let (_, _, t1) = recv_and_dispatch (Some (frame_bytes topic s p)) t;
             (_, out, _) = recv_and_dispatch (Some (frame_bytes topic s p')) t1
         in out = None"
proof -
  obtain dup t1 where d: "is_recent_duplicate topic s t = (dup, t1)" by fastforce
  note e = is_recent_duplicate_eq [OF assms(2), of topic s, unfolded d fst_conv snd_conv]
  have "s \<in> set (sw_list (window_of topic t1))"
    using e(1,2) sw_push_list [OF window_of_wf [OF assms(2)]] by (cases dup) auto
  then have dup2: "fst (is_recent_duplicate topic s t1)"
    using is_recent_duplicate_eq(1) [OF e(3)] by blast
  have "snd (snd (recv_and_dispatch (Some (frame_bytes topic s p)) t)) = t1"
    using assms(1,3) d by (simp add: recv_frame_eq split: option.splits)
  moreover have "fst (snd (recv_and_dispatch (Some (frame_bytes topic s p')) t1)) = None"
    using dup2 e(5) assms(1,4) by (cases "is_recent_duplicate topic s t1") (simp add: recv_frame_eq)
  ultimately show ?thesis
    by (cases "recv_and_dispatch (Some (frame_bytes topic s p)) t";
        cases "recv_and_dispatch (Some (frame_bytes topic s p')) t1") simp
qed

theorem dedup_drops_other_publishers_message_witness:
  "let (_, _, t1) = recv_and_dispatch (Some (frame_bytes 5 0 [1]))
         (enable_relay_dedup (set_topic_handler 5 (9 :: nat) UdpTransport_init));
       (_, out, _) = recv_and_dispatch (Some (frame_bytes 5 0 [2])) t1
   in out = None"
  by (rule dedup_drops_other_publishers_message)
    (simp_all add: UdpTransport_init_def enable_relay_dedup_def set_topic_handler_def windows_wf_def)

text \<open>
  Without duplicate suppression, a received datagram calls a handler exactly when it is a valid
  frame for a topic that has one, with exactly the frame's payload; anything that is not a frame is
  queued for the registration client, in arrival order and never more than sixteen deep, and frames
  never enter that queue.
\<close>

theorem recv_dispatch_cases:
  assumes "\<not> ut_relay_dedup_enabled t" and "length (ut_register_reply_queue t) \<le> 16"
    and "length d \<le> 65507"
  shows "case recv_and_dispatch (Some d) t of (r, out, t') \<Rightarrow>
    (\<forall>cb payload. out = Some (cb, payload) \<longleftrightarrow>
       (\<exists>f. decode_frame d = Inr f \<and> df_payload f = payload \<and>
            ut_handlers t (hdr_topic_id (df_header f)) = Some cb)) \<and>
    ut_register_reply_queue t' =
      (if d = [] \<or> (\<exists>f. decode_frame d = Inr f) \<or> length (ut_register_reply_queue t) = 16
       then ut_register_reply_queue t else ut_register_reply_queue t @ [d]) \<and>
    length (ut_register_reply_queue t') \<le> 16 \<and> (r \<longleftrightarrow> out \<noteq> None)"
proof -
  have take: "take kRecvBufBytes d = d" using assms(3) by (simp add: kRecvBufBytes_def)
  have nil: "decode_frame [] = Inl TooShort" by (simp add: decode_frame_def Let_def)
  show ?thesis
    using assms(1,2) nil
    by (cases "decode_frame d")
      (auto simp: recv_and_dispatch_def take Let_def kMaxQueuedRegisterReplies_def
        split: option.splits)
qed

theorem recv_dispatch_cases_witness:
  "case recv_and_dispatch (Some [1, 2]) (set_topic_handler 5 (9 :: nat) UdpTransport_init) of
     (r, out, t') \<Rightarrow> length (ut_register_reply_queue t') \<le> 16"
  using recv_dispatch_cases [of "set_topic_handler 5 (9 :: nat) UdpTransport_init" "[1, 2]"]
  by (simp add: UdpTransport_init_def set_topic_handler_def split: prod.splits)

end
