(* ===== verification/Multicast_Discovery.thy ===== *)
theory Multicast_Discovery
  imports Beacon Topic_Directory Udp_Transport
begin

text \<open>
  Mode B discovery, \<^verbatim>\<open>cpp/include/relink/multicast_discovery.hpp\<close>: the group and port of a network
  id, the beacons a node sends, and what its listener does with a packet. The unordered containers
  are kept as lists in insertion order, one of the orders the library may iterate them in. Sends and
  callbacks are returned. The random waits and the polls of the stop flag are parameters.
\<close>

definition kDefaultMulticastGroup :: string where "kDefaultMulticastGroup = ''239.255.0.1''"
definition kDefaultMulticastPort :: u16 where "kDefaultMulticastPort = 7400"

definition derive_multicast_group :: "u16 \<Rightarrow> string" where
  "derive_multicast_group network_id =
     (if network_id = 0 then kDefaultMulticastGroup
      else
        let computed = (ucast network_id :: u32) + 1;
            hi = drop_bit 8 computed AND 0xFF;
            lo = computed AND 0xFF
        in ''239.255.'' @ dec (unat hi) @ ''.'' @ dec (unat lo))"

definition derive_multicast_port :: "u16 \<Rightarrow> u16" where
  "derive_multicast_port network_id =
     (if network_id = 0 then kDefaultMulticastPort
      else
        let kRange = 65535 - unat kDefaultMulticastPort;
            offset = unat network_id mod kRange + 1
        in word_of_nat (unat kDefaultMulticastPort + offset))"

record PeerInfo =
  pi_ip :: u32
  pi_port :: u16
  pi_pid :: u32
  pi_shm_capable :: bool

record PortGroup =
  pg_port :: u16
  pg_topics :: "u32 list"

record MulticastDiscoveryConfig =
  md_group_ip :: string
  md_group_port :: u16
  md_self_ip :: u32
  md_self_pid :: u32
  md_shm_capable :: bool
  md_port_groups :: "PortGroup list"
  md_startup_burst_count :: int
  md_startup_jitter_max_ms :: int
  md_reannounce_min_ms :: int
  md_reannounce_max_ms :: int

definition MulticastDiscoveryConfig_default :: MulticastDiscoveryConfig where
  "MulticastDiscoveryConfig_default =
     \<lparr>md_group_ip = kDefaultMulticastGroup, md_group_port = kDefaultMulticastPort, md_self_ip = 0,
      md_self_pid = 0, md_shm_capable = False, md_port_groups = [], md_startup_burst_count = 3,
      md_startup_jitter_max_ms = 200, md_reannounce_min_ms = 30000, md_reannounce_max_ms = 60000\<rparr>"

record MulticastDiscovery =
  dc_cfg :: MulticastDiscoveryConfig
  dc_local_topics :: "u32 list"
  dc_self_ports :: "u16 list"
  dc_running :: bool
  dc_table :: "u32 \<rightharpoonup> (u32 \<times> u16) list"
  dc_network_topics :: "u32 list"

definition MulticastDiscovery_ctor :: "MulticastDiscoveryConfig \<Rightarrow> MulticastDiscovery" where
  "MulticastDiscovery_ctor cfg =
     \<lparr>dc_cfg = cfg,
      dc_local_topics = fold List.insert (concat (map pg_topics (md_port_groups cfg))) [],
      dc_self_ports = fold List.insert (map pg_port (md_port_groups cfg)) [],
      dc_running = False, dc_table = Map.empty, dc_network_topics = []\<rparr>"

definition dc_start :: "MulticastDiscovery \<Rightarrow> MulticastDiscovery" where
  "dc_start d = d\<lparr>dc_running := True\<rparr>"

definition dc_stop :: "MulticastDiscovery \<Rightarrow> MulticastDiscovery" where
  "dc_stop d = d\<lparr>dc_running := False\<rparr>"

definition dc_peers_for_topic :: "u32 \<Rightarrow> MulticastDiscovery \<Rightarrow> PeerInfo list" where
  "dc_peers_for_topic topic_id d =
     (case dc_table d topic_id of
        None \<Rightarrow> []
      | Some ps \<Rightarrow> map (\<lambda>(ip, port). \<lparr>pi_ip = ip, pi_port = port, pi_pid = 0, pi_shm_capable = False\<rparr>) ps)"

definition known_topic_count :: "MulticastDiscovery \<Rightarrow> nat" where
  "known_topic_count d = card (dom (dc_table d))"

definition all_known_topic_ids :: "MulticastDiscovery \<Rightarrow> u32 list" where
  "all_known_topic_ids d = dc_network_topics d"

section \<open>The sender\<close>

definition send_beacon_once :: "MulticastDiscovery \<Rightarrow> bytes list" where
  "send_beacon_once d =
     (let cfg = dc_cfg d
      in concat (map (\<lambda>g.
           case encode_beacon_packet (md_self_ip cfg) (pg_port g) (pg_topics g)
                  (word_of_nat (length (pg_topics g))) 512 (md_self_pid cfg) (md_shm_capable cfg) of
             Inl _ \<Rightarrow> []
           | Inr pkt \<Rightarrow> [pkt]) (md_port_groups cfg)))"

function sleep_loop :: "(nat \<Rightarrow> bool) \<Rightarrow> nat \<Rightarrow> int \<Rightarrow> int \<Rightarrow> int list" where
  "sleep_loop running poll slept total_ms =
     (if slept < total_ms \<and> running poll
      then
        let chunk = min 20 (total_ms - slept)
        in chunk # sleep_loop running (Suc poll) (slept + chunk) total_ms
      else [])"
  by pat_completeness auto
termination by (relation "measure (\<lambda>(running, poll, slept, total_ms). nat (total_ms - slept))") auto

definition sleep_ms_interruptible :: "(nat \<Rightarrow> bool) \<Rightarrow> int \<Rightarrow> int list" where
  "sleep_ms_interruptible running total_ms = sleep_loop running 0 0 total_ms"

datatype sender_action = Beacons "bytes list" | Sleep int

fun sender_burst :: "(nat \<Rightarrow> bool) \<Rightarrow> (nat \<Rightarrow> int) \<Rightarrow> nat \<Rightarrow> nat \<Rightarrow> MulticastDiscovery \<Rightarrow> sender_action list"
where
  "sender_burst running jitter 0 i d = []"
| "sender_burst running jitter (Suc left) i d =
     (if running i
      then Beacons (send_beacon_once d)
           # (if left > 0 then [Sleep (jitter i)] else []) @ sender_burst running jitter left (Suc i) d
      else [])"

definition sender_startup :: "(nat \<Rightarrow> bool) \<Rightarrow> (nat \<Rightarrow> int) \<Rightarrow> MulticastDiscovery \<Rightarrow> sender_action list" where
  "sender_startup running jitter d =
     sender_burst running jitter (nat (md_startup_burst_count (dc_cfg d))) 0 d"

definition sender_reannounce :: "bool \<Rightarrow> int \<Rightarrow> MulticastDiscovery \<Rightarrow> sender_action list" where
  "sender_reannounce still_running wait_ms d =
     Sleep wait_ms # (if still_running then [Beacons (send_beacon_once d)] else [])"

section \<open>The listener\<close>

fun listener_topics ::
  "DecodedBeacon \<Rightarrow> u32 list \<Rightarrow> MulticastDiscovery \<Rightarrow> (u32 \<times> PeerInfo) list \<times> MulticastDiscovery" where
  "listener_topics b [] d = ([], d)"
| "listener_topics b (topic # ts) d =
     (let d = d\<lparr>dc_network_topics := List.insert topic (dc_network_topics d)\<rparr> in
      if topic \<notin> set (dc_local_topics d) then listener_topics b ts d
      else
        let is_same_host = (db_node_ip b = md_self_ip (dc_cfg d));
            peer = \<lparr>pi_ip = db_node_ip b, pi_port = db_node_port b, pi_pid = db_node_pid b,
                    pi_shm_capable = (db_shm_capable b \<and> is_same_host)\<rparr>;
            peer_set = (case dc_table d topic of None \<Rightarrow> [] | Some ps \<Rightarrow> ps);
            key = (pi_ip peer, pi_port peer);
            is_new = (key \<notin> set peer_set);
            d = d\<lparr>dc_table := (dc_table d)(topic \<mapsto> (if is_new then peer_set @ [key] else peer_set))\<rparr>;
            (cbs, d) = listener_topics b ts d
        in (if is_new then (topic, peer) # cbs else cbs, d))"

text \<open>
  One received packet: the replies sent back to its source, the discovery callbacks, the new state.
  \<open>names\<close> is the name provider, if one was set.
\<close>

definition listener_packet ::
  "TopicDirEntry list option \<Rightarrow> bytes \<Rightarrow> MulticastDiscovery \<Rightarrow>
   bytes list \<times> (u32 \<times> PeerInfo) list \<times> MulticastDiscovery" where
  "listener_packet names datagram d =
     (let buf = take 512 datagram in
      if length buf = 0 then ([], [], d)
      else
        let dir_kind = topic_dir_packet_kind buf in
        if dir_kind = TdQuery then
          ((case names of
              None \<Rightarrow> []
            | Some entries \<Rightarrow> (case encode_topic_dir_reply entries kTopicDirMaxPacket of
                                 None \<Rightarrow> []
                               | Some reply \<Rightarrow> [reply])), [], d)
        else if dir_kind = TdAnnounce \<or> dir_kind = TdReply then ([], [], d)
        else
          (case decode_beacon_packet buf of
             Inl _ \<Rightarrow> ([], [], d)
           | Inr b \<Rightarrow>
               if db_node_ip b = md_self_ip (dc_cfg d) \<and> db_node_port b \<in> set (dc_self_ports d)
               then ([], [], d)
               else
                 let (cbs, d) = listener_topics b (beacon_topics b) d
                 in ([], cbs, d)))"

section \<open>Groups and ports of network ids\<close>

lemma port_value:
  "unat (derive_multicast_port n) =
     (if n = 0 then 7400 else 7400 + (unat n mod 58135 + 1))"
proof -
  have "unat n mod 58135 < 58135" by simp
  then have "7400 + (unat n mod 58135 + 1) < 65536" by linarith
  then have "unat (word_of_nat (7400 + (unat n mod 58135 + 1)) :: u16) = 7400 + (unat n mod 58135 + 1)"
    by (rule unat_u16_of_nat)
  then show ?thesis
    by (simp add: derive_multicast_port_def kDefaultMulticastPort_def Let_def)
qed

lemma group_bytes:
  assumes "n \<noteq> 0"
  shows "derive_multicast_group n =
    ''239.255.'' @ dec (((unat n + 1) div 256) mod 256) @ ''.'' @ dec ((unat n + 1) mod 256)"
proof -
  have c: "unat ((ucast n :: u32) + 1) = unat n + 1"
    using unat_u16_less [of n] by (simp add: unat_word_ariths unsigned_ucast_eq take_bit_eq_mod)
  have m: "unat (w AND 0xFF) = unat w mod 256" for w :: u32
  proof -
    have "w AND 0xFF = take_bit 8 w" by (simp add: take_bit_eq_mask mask_eq_exp_minus_1)
    then show ?thesis by (simp add: unsigned_take_bit_eq take_bit_eq_mod unat_mod_distrib)
  qed
  have "unat (drop_bit 8 w) = unat w div 256" for w :: u32
    by (simp add: drop_bit_eq_div unat_div_distrib)
  then show ?thesis
    using assms c m by (simp add: derive_multicast_group_def Let_def)
qed

text \<open>
  Network ids are separated: no two ids share a multicast group, and no two ids up to 58135 share
  a port; every derived port is at least 7400, with 7400 itself left to network 0.
\<close>

theorem network_ids_separated:
  "(derive_multicast_group m = derive_multicast_group n \<longleftrightarrow> m = n) \<and>
   (unat m \<le> 58135 \<and> unat n \<le> 58135 \<longrightarrow>
      (derive_multicast_port m = derive_multicast_port n \<longleftrightarrow> m = n)) \<and>
   7400 \<le> unat (derive_multicast_port m) \<and> (derive_multicast_port m = 7400 \<longleftrightarrow> m = 0)"
proof (intro conjI impI)
  have code: "m = n" if "((unat m + 1) div 256) mod 256 = ((unat n + 1) div 256) mod 256"
    "(unat m + 1) mod 256 = (unat n + 1) mod 256" for m n :: u16
  proof -
    have "(unat m + 1) mod (256 * 256) = (unat n + 1) mod (256 * 256)"
      by (simp only: mod_mult2_eq that)
    then have "unat m = unat n"
      using unat_u16_less [of m] unat_u16_less [of n] by (simp add: mod_Suc split: if_splits)
    then show ?thesis by (simp add: word_unat_eq_iff)
  qed
  have zero: "derive_multicast_group 0 = ''239.255.'' @ dec (((unat (0 :: u16) + 1) div 256) mod 256)
      @ ''.'' @ dec ((unat (0 :: u16) + 1) mod 256)"
    by code_simp
  have group: "derive_multicast_group k = ''239.255.'' @ dec (((unat k + 1) div 256) mod 256)
      @ CHR ''.'' # dec ((unat k + 1) mod 256)" for k
    using zero group_bytes [of k] by (cases "k = 0") simp_all
  show "derive_multicast_group m = derive_multicast_group n \<longleftrightarrow> m = n"
    using code [of m n] by (auto simp: group dotted_inj dec_no_dot dec_inj)
  show "7400 \<le> unat (derive_multicast_port m)" by (simp add: port_value)
  have "derive_multicast_port m = 7400 \<longleftrightarrow> unat (derive_multicast_port m) = 7400"
    by (simp add: word_unat_eq_iff)
  then show "derive_multicast_port m = 7400 \<longleftrightarrow> m = 0" by (simp add: port_value)
  assume le: "unat m \<le> 58135 \<and> unat n \<le> 58135"
  have "unat m mod 58135 = unat n mod 58135 \<Longrightarrow> m \<noteq> 0 \<Longrightarrow> n \<noteq> 0 \<Longrightarrow> unat m = unat n"
    using le unat_gt_0 [of m] unat_gt_0 [of n] by (cases "unat m = 58135"; cases "unat n = 58135") auto
  then have "unat (derive_multicast_port m) = unat (derive_multicast_port n) \<Longrightarrow> unat m = unat n"
    by (cases "m = 0"; cases "n = 0") (simp_all add: port_value)
  then show "derive_multicast_port m = derive_multicast_port n \<longleftrightarrow> m = n"
    by (metis word_unat_eq_iff)
qed

theorem network_ids_separated_witness:
  "derive_multicast_port 1 \<noteq> derive_multicast_port 58135"
  using network_ids_separated [of 1 58135] by simp

section \<open>Stop stays responsive\<close>

declare sleep_loop.simps [simp del]

lemma sleep_loop_bound:
  "slept \<le> tot \<Longrightarrow> sum_list (sleep_loop running p slept tot) \<le> tot - slept \<and>
     list_all (\<lambda>c. 0 < c \<and> c \<le> 20) (sleep_loop running p slept tot)"
proof (induction running p slept tot rule: sleep_loop.induct)
  case (1 running p slept tot)
  show ?case
  proof (cases "slept < tot \<and> running p")
    case True
    then show ?thesis using 1 by (subst (1 2) sleep_loop.simps) (auto simp: Let_def min_def)
  next
    case False
    then show ?thesis using 1(2) by (subst (1 2) sleep_loop.simps) auto
  qed
qed

lemma sleep_loop_full: "slept \<le> tot \<Longrightarrow> sum_list (sleep_loop (\<lambda>_. True) p slept tot) = tot - slept"
proof (induction "(\<lambda>_. True) :: nat \<Rightarrow> bool" p slept tot rule: sleep_loop.induct)
  case (1 p slept tot)
  then show ?case by (subst sleep_loop.simps) (auto simp: Let_def min_def)
qed

lemma sleep_loop_stops:
  "\<not> running (p + k) \<Longrightarrow> length (sleep_loop running p slept tot) \<le> k"
proof (induction k arbitrary: p slept)
  case 0
  then show ?case by (simp add: sleep_loop.simps)
next
  case (Suc k)
  then show ?case by (subst sleep_loop.simps) (simp add: Let_def)
qed

text \<open>
  The interruptible sleep never oversleeps, sleeps in naps of at most 20 ms, sleeps the whole
  interval while the node keeps running, and takes no further nap once the stop flag is seen.
\<close>

theorem sleep_interruptible:
  assumes "0 \<le> total_ms"
  shows "sum_list (sleep_ms_interruptible running total_ms) \<le> total_ms \<and>
    list_all (\<lambda>c. 0 < c \<and> c \<le> 20) (sleep_ms_interruptible running total_ms) \<and>
    ((\<forall>k. running k) \<longrightarrow> sum_list (sleep_ms_interruptible running total_ms) = total_ms) \<and>
    (\<forall>k. \<not> running k \<longrightarrow> length (sleep_ms_interruptible running total_ms) \<le> k)"
proof (intro conjI impI)
  assume "\<forall>k. running k"
  then have "running = (\<lambda>_. True)" by (intro ext) simp
  then show "sum_list (sleep_ms_interruptible running total_ms) = total_ms"
    using sleep_loop_full [of 0 total_ms 0] assms by (simp add: sleep_ms_interruptible_def)
qed (use sleep_loop_bound [of 0 total_ms running 0] sleep_loop_stops [of running 0 _ 0 total_ms] assms
    in \<open>simp_all add: sleep_ms_interruptible_def\<close>)

theorem sleep_interruptible_witness:
  "sum_list (sleep_ms_interruptible (\<lambda>_. True) 50) \<le> 50"
  using sleep_interruptible [of 50 "\<lambda>_. True"] by simp

section \<open>What the listener learns\<close>

definition peers_at :: "u32 \<Rightarrow> MulticastDiscovery \<Rightarrow> (u32 \<times> u16) list" where
  "peers_at topic d = (case dc_table d topic of None \<Rightarrow> [] | Some ps \<Rightarrow> ps)"

definition dc_wf :: "MulticastDiscovery \<Rightarrow> bool" where
  "dc_wf d \<longleftrightarrow> dom (dc_table d) \<subseteq> set (dc_local_topics d) \<and> distinct (dc_network_topics d) \<and>
     (\<forall>topic. distinct (peers_at topic d))"

definition beacon_peer :: "DecodedBeacon \<Rightarrow> MulticastDiscovery \<Rightarrow> PeerInfo" where
  "beacon_peer b d = \<lparr>pi_ip = db_node_ip b, pi_port = db_node_port b, pi_pid = db_node_pid b,
     pi_shm_capable = (db_shm_capable b \<and> db_node_ip b = md_self_ip (dc_cfg d))\<rparr>"

lemma ctor_wf_dc: "dc_wf (MulticastDiscovery_ctor cfg)"
  by (simp add: dc_wf_def MulticastDiscovery_ctor_def peers_at_def)

lemma listener_topics_spec:
  assumes "listener_topics b ts d = (cbs, d')"
  shows "dc_cfg d' = dc_cfg d \<and> dc_local_topics d' = dc_local_topics d \<and> dc_self_ports d' = dc_self_ports d \<and>
    set (dc_network_topics d') = set (dc_network_topics d) \<union> set ts \<and>
    (\<forall>t. set (peers_at t d') = set (peers_at t d) \<union>
       (if t \<in> set ts \<and> t \<in> set (dc_local_topics d) then {(db_node_ip b, db_node_port b)} else {})) \<and>
    set cbs = {(t, beacon_peer b d) | t. t \<in> set ts \<and> t \<in> set (dc_local_topics d) \<and>
       (db_node_ip b, db_node_port b) \<notin> set (peers_at t d)} \<and>
    distinct (map fst cbs) \<and> (dc_wf d \<longrightarrow> dc_wf d')"
  using assms
proof (induction ts arbitrary: d cbs)
  case Nil
  then show ?case by simp
next
  case (Cons t ts)
  let ?k = "(db_node_ip b, db_node_port b)"
  let ?d1 = "d\<lparr>dc_network_topics := List.insert t (dc_network_topics d)\<rparr>"
  show ?case
  proof (cases "t \<in> set (dc_local_topics d)")
    case False
    then have "listener_topics b ts ?d1 = (cbs, d')" using Cons.prems by simp
    from Cons.IH [OF this] False show ?thesis
      by (auto simp: peers_at_def dc_wf_def beacon_peer_def)
  next
    case True
    let ?ps = "if ?k \<notin> set (peers_at t d) then peers_at t d @ [?k] else peers_at t d"
    define d2 where "d2 = ?d1\<lparr>dc_table := (dc_table d)(t \<mapsto> ?ps)\<rparr>"
    obtain cbs1 where rest: "listener_topics b ts d2 = (cbs1, d')"
      and cbs: "cbs = (if ?k \<notin> set (peers_at t d) then (t, beacon_peer b d) # cbs1 else cbs1)"
      using Cons.prems True
      by (auto simp: d2_def peers_at_def [symmetric] beacon_peer_def Let_def split: prod.splits if_splits)
    have peers: "peers_at u d2 = (if u = t then ?ps else peers_at u d)" for u
      by (simp add: peers_at_def d2_def)
    have wf: "dc_wf d \<Longrightarrow> dc_wf d2"
      using True peers by (auto simp: dc_wf_def d2_def)
    have bp: "beacon_peer b d2 = beacon_peer b d" by (simp add: beacon_peer_def d2_def)
    have sp: "set (peers_at u d2) = (if u = t then insert ?k (set (peers_at t d)) else set (peers_at u d))" for u
      unfolding peers by auto
    have d2: "dc_cfg d2 = dc_cfg d" "dc_local_topics d2 = dc_local_topics d"
      "dc_self_ports d2 = dc_self_ports d" "set (dc_network_topics d2) = insert t (set (dc_network_topics d))"
      by (simp_all add: d2_def)
    have ih: "dc_cfg d' = dc_cfg d \<and> dc_local_topics d' = dc_local_topics d \<and> dc_self_ports d' = dc_self_ports d"
      "set (dc_network_topics d') = set (dc_network_topics d) \<union> set (t # ts)"
      "\<And>u. set (peers_at u d') = set (peers_at u d2) \<union>
        (if u \<in> set ts \<and> u \<in> set (dc_local_topics d) then {?k} else {})"
      "set cbs1 = {(u, beacon_peer b d) | u. u \<in> set ts \<and> u \<in> set (dc_local_topics d) \<and>
        ?k \<notin> set (peers_at u d2)}"
      "distinct (map fst cbs1)" "dc_wf d \<longrightarrow> dc_wf d'"
      using Cons.IH [OF rest] wf by (simp_all add: bp d2)
    have fst1: "t \<notin> fst ` set cbs1" unfolding ih(4) sp by auto
    show ?thesis
    proof (intro conjI allI)
      show "set cbs = {(u, beacon_peer b d) | u. u \<in> set (t # ts) \<and> u \<in> set (dc_local_topics d) \<and>
          ?k \<notin> set (peers_at u d)}"
        unfolding cbs using True by (cases "?k \<in> set (peers_at t d)") (auto simp: ih(4) sp)
      show "distinct (map fst cbs)" unfolding cbs using ih(5) fst1 by simp
      show "set (peers_at u d') = set (peers_at u d) \<union>
          (if u \<in> set (t # ts) \<and> u \<in> set (dc_local_topics d) then {?k} else {})" for u
        using True by (cases "u = t") (auto simp: ih(3) sp)
    qed (use ih in simp_all)
  qed
qed

section \<open>Beacons from sender to listener\<close>

lemma beacon_image_prefix: "take 4 (beacon_image ip port ts @ ext) = le32 ip"
  by (simp add: beacon_image_def enc_BeaconPacketHeader_def)

definition dir_magic_ip :: "u32 \<Rightarrow> bool" where
  "dir_magic_ip ip \<longleftrightarrow> ip \<in> {0x4D4E4C52, 0x514E4C52, 0x524E4C52}"

lemma le32_eq_iff: "length bs = 4 \<Longrightarrow> le32 w = bs \<longleftrightarrow> w = rd32 bs"
  by (metis le32_rd32 rd32_le32)

lemma magic_words:
  "rd32 kTopicDirAnnounceMagic = 0x4D4E4C52" "rd32 kTopicDirQueryMagic = 0x514E4C52"
  "rd32 kTopicDirReplyMagic = 0x524E4C52"
  by (simp_all add: dir_magics rd32_def)

lemma beacon_kind:
  "topic_dir_packet_kind (beacon_image ip port ts @ ext) =
     (if ip = 0x4D4E4C52 then TdAnnounce else if ip = 0x514E4C52 then TdQuery
      else if ip = 0x524E4C52 then TdReply else TdUnknown)"
proof -
  have "length kTopicDirAnnounceMagic = 4" "length kTopicDirQueryMagic = 4" "length kTopicDirReplyMagic = 4"
    by (simp_all add: dir_magics)
  note m = this [THEN le32_eq_iff, unfolded magic_words]
  have "\<not> length (beacon_image ip port ts @ ext) < 4" by simp
  then show ?thesis
    unfolding topic_dir_packet_kind_def kTopicDirMagicLen_def beacon_image_prefix m by simp
qed

definition group_beacon :: "MulticastDiscoveryConfig \<Rightarrow> PortGroup \<Rightarrow> bytes" where
  "group_beacon cfg g = beacon_image (md_self_ip cfg) (pg_port g) (pg_topics g)
     @ le32 (md_self_pid cfg) @ le32 (if md_shm_capable cfg then 1 else 0)"

lemma send_beacon_groups:
  assumes "\<forall>g \<in> set (md_port_groups (dc_cfg d)). length (pg_topics g) < 65536"
  shows "send_beacon_once d =
    map (group_beacon (dc_cfg d)) (filter (\<lambda>g. length (pg_topics g) \<le> 124) (md_port_groups (dc_cfg d)))"
proof -
  have "concat (map (\<lambda>g. case encode_beacon_packet (md_self_ip cfg) (pg_port g) (pg_topics g)
                  (word_of_nat (length (pg_topics g))) 512 (md_self_pid cfg) (md_shm_capable cfg) of
             Inl _ \<Rightarrow> [] | Inr pkt \<Rightarrow> [pkt]) gs) =
      map (group_beacon cfg) (filter (\<lambda>g. length (pg_topics g) \<le> 124) gs)"
    if "\<forall>g \<in> set gs. length (pg_topics g) < 65536" for cfg gs
    using that by (induction gs) (auto simp: encode_beacon_eq group_beacon_def)
  then show ?thesis using assms by (simp add: send_beacon_once_def Let_def)
qed

lemma listener_hears_group:
  assumes "length (pg_topics g) \<le> 124" and "\<not> dir_magic_ip (md_self_ip cfg)"
    and "\<not> (md_self_ip cfg = md_self_ip (dc_cfg d) \<and> pg_port g \<in> set (dc_self_ports d))"
  shows "\<exists>b cbs d'. listener_packet names (group_beacon cfg g) d = ([], cbs, d') \<and>
    listener_topics b (pg_topics g) d = (cbs, d') \<and> db_node_ip b = md_self_ip cfg \<and>
    db_node_port b = pg_port g \<and> db_node_pid b = md_self_pid cfg \<and> db_shm_capable b = md_shm_capable cfg"
proof -
  let ?ext = "le32 (md_self_pid cfg) @ le32 (if md_shm_capable cfg then 1 else 0)"
  have len: "length (pg_topics g) < 65536" using assms(1) by simp
  have buf: "take 512 (group_beacon cfg g) = group_beacon cfg g"
    using assms(1) by (simp add: group_beacon_def)
  have kind: "topic_dir_packet_kind (group_beacon cfg g) = TdUnknown"
    using assms(2) by (simp add: group_beacon_def beacon_kind dir_magic_ip_def)
  have "length (group_beacon cfg g) \<noteq> 0" by (simp add: group_beacon_def)
  then have ne: "group_beacon cfg g \<noteq> []" by simp
  obtain b where b: "decode_beacon_packet (group_beacon cfg g) = Inr b"
    by (simp add: group_beacon_def decode_beacon_image len)
  have "bslice 0 4 ?ext = le32 (md_self_pid cfg)" "bslice 4 4 ?ext = le32 (if md_shm_capable cfg then 1 else 0)"
    by (simp_all add: bslice_def)
  then have f: "db_node_ip b = md_self_ip cfg" "db_node_port b = pg_port g"
    "db_node_pid b = md_self_pid cfg" "db_shm_capable b = md_shm_capable cfg"
    using b by (cases "md_shm_capable cfg";
      auto simp: group_beacon_def decode_beacon_image len kCapFlagShmLocalIpc_def)+
  have ts: "beacon_topics b = pg_topics g"
    using beacon_topics_image [OF b [unfolded group_beacon_def] len] .
  obtain cbs d' where l: "listener_topics b (pg_topics g) d = (cbs, d')" by fastforce
  have "listener_packet names (group_beacon cfg g) d = ([], cbs, d')"
    using assms(3) ne by (auto simp: listener_packet_def buf kind b f ts l)
  with l f show ?thesis by blast
qed

text \<open>
  C25: Discovery by beacon works: a beacon another node sends for a port group of at most 124 topics
  makes the listener know the sender's address for exactly the topics both declare, report each of
  those topics once if the address was new for it, record every topic id of the beacon as seen on
  the network, and keep its tables well formed. The sender's address must not spell a directory
  magic.
\<close>

theorem beacon_discovery:
  assumes "g \<in> set (md_port_groups (dc_cfg a))" and "length (pg_topics g) \<le> 124"
    and "\<forall>h \<in> set (md_port_groups (dc_cfg a)). length (pg_topics h) < 65536"
    and "\<not> dir_magic_ip (md_self_ip (dc_cfg a))" and "dc_wf d"
    and "\<not> (md_self_ip (dc_cfg a) = md_self_ip (dc_cfg d) \<and> pg_port g \<in> set (dc_self_ports d))"
  shows "\<exists>pkt \<in> set (send_beacon_once a). \<exists>cbs d'. listener_packet names pkt d = ([], cbs, d') \<and> dc_wf d' \<and>
    set (all_known_topic_ids d') = set (all_known_topic_ids d) \<union> set (pg_topics g) \<and>
    (\<forall>t. set (peers_at t d') = set (peers_at t d) \<union>
       (if t \<in> set (pg_topics g) \<inter> set (dc_local_topics d)
        then {(md_self_ip (dc_cfg a), pg_port g)} else {})) \<and>
    distinct (map fst cbs) \<and>
    fst ` set cbs = {t \<in> set (pg_topics g) \<inter> set (dc_local_topics d).
       (md_self_ip (dc_cfg a), pg_port g) \<notin> set (peers_at t d)}"
proof -
  have sent: "group_beacon (dc_cfg a) g \<in> set (send_beacon_once a)"
    using assms(1,2,3) by (simp add: send_beacon_groups)
  obtain b cbs d' where l: "listener_packet names (group_beacon (dc_cfg a) g) d = ([], cbs, d')"
    "listener_topics b (pg_topics g) d = (cbs, d')" "db_node_ip b = md_self_ip (dc_cfg a)"
    "db_node_port b = pg_port g"
    using listener_hears_group [OF assms(2,4,6), of names] by blast
  note spec = listener_topics_spec [OF l(2), unfolded l(3,4)]
  have "fst ` set cbs = {t \<in> set (pg_topics g) \<inter> set (dc_local_topics d).
       (md_self_ip (dc_cfg a), pg_port g) \<notin> set (peers_at t d)}"
  proof -
    have "set cbs = {(t, beacon_peer b d) | t. t \<in> set (pg_topics g) \<and> t \<in> set (dc_local_topics d) \<and>
       (md_self_ip (dc_cfg a), pg_port g) \<notin> set (peers_at t d)}" using spec by simp
    then show ?thesis by force
  qed
  with spec assms(5) l(1) sent show ?thesis
    by (intro bexI [OF _ sent] exI [of _ cbs] exI [of _ d']) (simp add: all_known_topic_ids_def)
qed

theorem beacon_discovery_witness:
  "\<exists>pkt \<in> set (send_beacon_once (MulticastDiscovery_ctor (MulticastDiscoveryConfig_default
       \<lparr>md_self_ip := 1, md_port_groups := [\<lparr>pg_port = 9, pg_topics = [5, 6]\<rparr>]\<rparr>))).
     \<exists>cbs d'. listener_packet None pkt (MulticastDiscovery_ctor (MulticastDiscoveryConfig_default
       \<lparr>md_self_ip := 2, md_port_groups := [\<lparr>pg_port = 9, pg_topics = [6, 7]\<rparr>]\<rparr>)) = ([], cbs, d')"
proof -
  let ?g = "\<lparr>pg_port = 9, pg_topics = [5, 6]\<rparr>"
  let ?a = "MulticastDiscovery_ctor (MulticastDiscoveryConfig_default
       \<lparr>md_self_ip := 1, md_port_groups := [?g]\<rparr>)"
  let ?d = "MulticastDiscovery_ctor (MulticastDiscoveryConfig_default
       \<lparr>md_self_ip := 2, md_port_groups := [\<lparr>pg_port = 9, pg_topics = [6, 7]\<rparr>]\<rparr>)"
  have "?g \<in> set (md_port_groups (dc_cfg ?a))" "length (pg_topics ?g) \<le> 124"
    "\<forall>h \<in> set (md_port_groups (dc_cfg ?a)). length (pg_topics h) < 65536"
    "\<not> dir_magic_ip (md_self_ip (dc_cfg ?a))"
    by (simp_all add: MulticastDiscovery_ctor_def dir_magic_ip_def)
  note pre = this ctor_wf_dc
  have "\<not> (md_self_ip (dc_cfg ?a) = md_self_ip (dc_cfg ?d) \<and> pg_port ?g \<in> set (dc_self_ports ?d))"
    by (simp add: MulticastDiscovery_ctor_def)
  from beacon_discovery [OF pre this, of None] show ?thesis by blast
qed

text \<open>
  A port group with 125 to 65535 topics is never announced: its beacon would need more than the
  512-byte send buffer (or more than 128 topics), the encoder refuses it, and the refusal is ignored,
  so no packet on the network carries any of its topics.
\<close>

theorem large_group_never_beaconed:
  assumes "\<forall>g \<in> set (md_port_groups (dc_cfg d)). 124 < length (pg_topics g) \<and> length (pg_topics g) < 65536"
  shows "send_beacon_once d = []"
  using assms send_beacon_groups [of d] by (auto simp: filter_empty_conv not_le)

theorem large_group_never_beaconed_witness:
  "send_beacon_once (MulticastDiscovery_ctor (MulticastDiscoveryConfig_default
     \<lparr>md_port_groups := [\<lparr>pg_port = 9, pg_topics = map word_of_nat [0..<125]\<rparr>]\<rparr>)) = []"
  by (rule large_group_never_beaconed) (simp add: MulticastDiscovery_ctor_def)

text \<open>
  The directory magics are not distinct from every beacon: the beacons of a node whose address,
  in little-endian bytes, reads \<open>RLNQ\<close> (81.78.76.82) are taken for name queries, so no listener ever
  learns that node.
\<close>

theorem magic_address_never_discovered:
  assumes "md_self_ip cfg = 0x514E4C52" and "length (pg_topics g) \<le> 124"
  shows "topic_dir_packet_kind (group_beacon cfg g) = TdQuery \<and>
    snd (listener_packet names (group_beacon cfg g) d) = ([], d)"
proof -
  have "take 512 (group_beacon cfg g) = group_beacon cfg g"
    using assms(2) by (simp add: group_beacon_def)
  moreover have "topic_dir_packet_kind (group_beacon cfg g) = TdQuery"
    using assms(1) by (simp add: group_beacon_def beacon_kind)
  ultimately show ?thesis by (simp add: listener_packet_def Let_def)
qed

theorem magic_address_never_discovered_witness:
  "topic_dir_packet_kind (group_beacon (MulticastDiscoveryConfig_default\<lparr>md_self_ip := 0x514E4C52\<rparr>)
     \<lparr>pg_port = 9, pg_topics = [5]\<rparr>) = TdQuery"
  using magic_address_never_discovered [of "MulticastDiscoveryConfig_default\<lparr>md_self_ip := 0x514E4C52\<rparr>"
      "\<lparr>pg_port = 9, pg_topics = [5]\<rparr>"] by simp

end
