(* ===== verification/Rlcore_Client.thy ===== *)
theory Rlcore_Client
  imports Register Crypto Udp_Transport
begin

text \<open>
  Registration with rlcore, \<^verbatim>\<open>cpp/include/relink/rlcore_client.hpp\<close>. The environment of attempt \<open>i\<close> is
  \<open>env i\<close>: what \<^verbatim>\<open>sendto\<close> returns and the packet that arrives before the attempt's timeout, from the
  socket or from the transport's hand-off queue. The result carries the outcome, the datagrams sent
  and the receive timeouts set on the caller's socket, in order.
\<close>

record RegisterOutcome =
  ro_ok :: bool
  ro_peers :: "RegisterAckPeer list"

record register_run =
  rr_outcome :: RegisterOutcome
  rr_sent :: "bytes list"
  rr_timeouts :: "int list"

definition failed_outcome :: RegisterOutcome where
  "failed_outcome = \<lparr>ro_ok = False, ro_peers = []\<rparr>"

definition accept_reply :: "bytes option \<Rightarrow> bytes option \<Rightarrow> RegisterOutcome option" where
  "accept_reply encrypt_key reply =
     (let resp = (case reply of
                    None \<Rightarrow> None
                  | Some r \<Rightarrow> (case encrypt_key of
                                 None \<Rightarrow> Some r
                               | Some key \<Rightarrow> aes256gcm_open key r 65507))
      in case resp of
           None \<Rightarrow> None
         | Some r \<Rightarrow> (case decode_register_ack r of
                        Inl _ \<Rightarrow> None
                      | Inr ack \<Rightarrow> if da_status ack = 0
                                   then Some \<lparr>ro_ok = True, ro_peers = register_ack_peers ack\<rparr>
                                   else None))"

fun register_attempts ::
  "bytes option \<Rightarrow> bool \<Rightarrow> bytes \<Rightarrow> (nat \<Rightarrow> int \<times> bytes option) \<Rightarrow> nat \<Rightarrow> nat \<Rightarrow> int \<Rightarrow> register_run" where
  "register_attempts encrypt_key use_transport_queue wire_req env 0 attempt backoff_ms =
     \<lparr>rr_outcome = failed_outcome, rr_sent = [], rr_timeouts = []\<rparr>"
| "register_attempts encrypt_key use_transport_queue wire_req env (Suc left) attempt backoff_ms =
     (let timeouts = (if use_transport_queue then [] else [backoff_ms]);
          (sent, reply) = env attempt;
          rest = register_attempts encrypt_key use_transport_queue wire_req env left (Suc attempt)
                   (backoff_ms * 2);
          retry = \<lparr>rr_outcome = rr_outcome rest, rr_sent = wire_req # rr_sent rest,
                   rr_timeouts = timeouts @ rr_timeouts rest\<rparr>
      in if sent \<noteq> int (length wire_req) then retry
         else (case accept_reply encrypt_key (map_option (take 65507) reply) of
                 Some outcome \<Rightarrow> \<lparr>rr_outcome = outcome, rr_sent = [wire_req], rr_timeouts = timeouts\<rparr>
               | None \<Rightarrow> retry))"

definition wire_request :: "bytes option \<Rightarrow> bytes \<Rightarrow> u32 \<Rightarrow> u16 \<Rightarrow> u32 list \<Rightarrow> u16 \<Rightarrow> bytes option" where
  "wire_request encrypt_key nonce self_ip self_data_port topic_ids topic_count =
     (case encode_register_request self_ip self_data_port topic_ids topic_count 65507 of
        Inl _ \<Rightarrow> None
      | Inr req_buf \<Rightarrow> (case encrypt_key of
                          None \<Rightarrow> Some req_buf
                        | Some key \<Rightarrow> aes256gcm_seal key nonce req_buf 65507))"

definition register_with_rlcore_on_socket ::
  "bytes option \<Rightarrow> bytes \<Rightarrow> bool \<Rightarrow> u32 \<Rightarrow> u16 \<Rightarrow> u32 list \<Rightarrow> u16 \<Rightarrow> int \<Rightarrow> int \<Rightarrow>
   (nat \<Rightarrow> int \<times> bytes option) \<Rightarrow> register_run" where
  "register_with_rlcore_on_socket encrypt_key nonce use_transport_queue self_ip self_data_port
     topic_ids topic_count max_retries timeout_ms env =
     (case wire_request encrypt_key nonce self_ip self_data_port topic_ids topic_count of
        None \<Rightarrow> \<lparr>rr_outcome = failed_outcome, rr_sent = [], rr_timeouts = []\<rparr>
      | Some wire_req \<Rightarrow>
          register_attempts encrypt_key use_transport_queue wire_req env (nat max_retries) 0 timeout_ms)"

definition register_with_rlcore ::
  "int option \<Rightarrow> bytes option \<Rightarrow> bytes \<Rightarrow> u32 \<Rightarrow> u16 \<Rightarrow> u32 list \<Rightarrow> u16 \<Rightarrow> int \<Rightarrow> int \<Rightarrow>
   (nat \<Rightarrow> int \<times> bytes option) \<Rightarrow> TransportError + register_run" where
  "register_with_rlcore os_socket encrypt_key nonce self_ip self_data_port topic_ids topic_count
     max_retries timeout_ms env =
     (case os_socket of
        None \<Rightarrow> Inl SocketFailed
      | Some s \<Rightarrow> Inr (register_with_rlcore_on_socket encrypt_key nonce False self_ip self_data_port
                        topic_ids topic_count max_retries timeout_ms env))"

section \<open>The first acceptable reply decides\<close>

text \<open>What attempt \<open>i\<close> yields, if the request went out whole.\<close>

definition attempt_result ::
  "bytes option \<Rightarrow> bytes \<Rightarrow> (nat \<Rightarrow> int \<times> bytes option) \<Rightarrow> nat \<Rightarrow> RegisterOutcome option" where
  "attempt_result key req env i =
     (if fst (env i) \<noteq> int (length req) then None
      else accept_reply key (map_option (take 65507) (snd (env i))))"

lemma attempts_step:
  "register_attempts key q req env (Suc n) i b =
     (let t = (if q then [] else [b]); rest = register_attempts key q req env n (Suc i) (b * 2)
      in case attempt_result key req env i of
           Some out \<Rightarrow> \<lparr>rr_outcome = out, rr_sent = [req], rr_timeouts = t\<rparr>
         | None \<Rightarrow> \<lparr>rr_outcome = rr_outcome rest, rr_sent = req # rr_sent rest,
                    rr_timeouts = t @ rr_timeouts rest\<rparr>)"
  by (simp add: attempt_result_def Let_def split: prod.splits option.splits)

lemma attempts_spec:
  assumes "\<forall>j. i \<le> j \<and> j < i + k \<longrightarrow> attempt_result key req env j = None"
  shows "k \<le> n \<Longrightarrow> (k < n \<Longrightarrow> \<exists>out. attempt_result key req env (i + k) = Some out) \<Longrightarrow>
    register_attempts key q req env n i b =
      \<lparr>rr_outcome = (if k < n then the (attempt_result key req env (i + k)) else failed_outcome),
       rr_sent = replicate (min n (k + 1)) req,
       rr_timeouts = (if q then [] else map (\<lambda>e. b * 2 ^ e) [0..<min n (k + 1)])\<rparr>"
  using assms
proof (induction k arbitrary: n i b)
  case 0
  show ?case
  proof (cases n)
    case 0
    then show ?thesis by simp
  next
    case (Suc m)
    then obtain out where "attempt_result key req env i = Some out" using "0.prems" by auto
    then show ?thesis by (simp only: Suc attempts_step) simp
  qed
next
  case (Suc k)
  then obtain m where n: "n = Suc m" by (cases n) auto
  have none: "attempt_result key req env i = None" using Suc.prems(3) by simp
  have rest: "register_attempts key q req env m (Suc i) (b * 2) =
      \<lparr>rr_outcome = (if k < m then the (attempt_result key req env (Suc i + k)) else failed_outcome),
       rr_sent = replicate (min m (k + 1)) req,
       rr_timeouts = (if q then [] else map (\<lambda>e. b * 2 * 2 ^ e) [0..<min m (k + 1)])\<rparr>"
    using Suc.prems n by (intro Suc.IH) auto
  have "map (\<lambda>e. b * 2 ^ e) [0..<Suc l] = b # map (\<lambda>e. b * 2 * 2 ^ e) [0..<l]" for l
    by (simp add: upt_conv_Cons map_Suc_upt [symmetric] del: upt_Suc)
  then show ?case
    unfolding n attempts_step none rest by (simp add: Let_def del: upt_Suc)
qed

text \<open>
  Registration returns the peers of the first acceptable acknowledgement: if attempt \<open>k\<close> is the
  first, within the retry budget, whose request went out whole and whose reply is accepted, the
  outcome is that reply's peer list; the request is sent \<open>k + 1\<close> times, always the same bytes, and
  the timeout doubles at each attempt. If no attempt succeeds the outcome is failure after exactly
  the budgeted number of sends.
\<close>

theorem register_first_ack_wins:
  assumes "wire_request key nonce ip port ts n = Some req" and "0 \<le> max_retries"
    and "k \<le> nat max_retries"
    and "\<forall>j < k. attempt_result key req env j = None"
    and "k < nat max_retries \<Longrightarrow> \<exists>out. attempt_result key req env k = Some out"
  shows "register_with_rlcore_on_socket key nonce q ip port ts n max_retries timeout_ms env =
    \<lparr>rr_outcome = (if k < nat max_retries then the (attempt_result key req env k) else failed_outcome),
     rr_sent = replicate (min (nat max_retries) (k + 1)) req,
     rr_timeouts = (if q then [] else map (\<lambda>e. timeout_ms * 2 ^ e) [0..<min (nat max_retries) (k + 1)])\<rparr>"
  using attempts_spec [of 0 k key req env "nat max_retries" q timeout_ms] assms
  by (simp add: register_with_rlcore_on_socket_def)

lemma accept_ack_image:
  "length ps < 65536 \<Longrightarrow> accept_reply None (Some (ack_image 0 ps)) = Some \<lparr>ro_ok = True, ro_peers = ps\<rparr>"
  using decode_ack_image [of ps 0] by (auto simp: accept_reply_def)

text \<open>
  What counts as acceptable: without a key, exactly the image of an acknowledgement with status
  0; with a key, exactly a packet that is the sealing, under that key, of such an image. The peers
  returned are those of the image.
\<close>

theorem accept_reply_iff:
  "(accept_reply None (Some r) = Some \<lparr>ro_ok = True, ro_peers = ps\<rparr> \<longleftrightarrow>
     length ps < 65536 \<and> r = ack_image 0 ps) \<and>
   (accept_reply (Some key) (Some r) = Some \<lparr>ro_ok = True, ro_peers = ps\<rparr> \<longleftrightarrow>
     length ps < 65536 \<and> 3 + length ps * 16 \<le> 65507 \<and> 28 \<le> length r \<and>
     aes256gcm_seal key (take 12 r) (ack_image 0 ps) (length r) = Some r)" (is "?plain \<and> ?sealed")
proof -
  have dec: "(\<exists>a. decode_register_ack b = Inr a \<and> da_status a = 0 \<and> register_ack_peers a = ps) \<longleftrightarrow>
      length ps < 65536 \<and> b = ack_image 0 ps" for b
    using decode_ack_image [of ps 0] decode_ack_sound [of b]
    by (auto simp: register_ack_peers_def unat_u16_less)
  have ?plain
    unfolding dec [symmetric] by (auto simp: accept_reply_def split: sum.splits)
  have "accept_reply (Some key) (Some r) = Some \<lparr>ro_ok = True, ro_peers = ps\<rparr> \<longleftrightarrow>
      (\<exists>b. aes256gcm_open key r 65507 = Some b \<and> (\<exists>a. decode_register_ack b = Inr a \<and>
         da_status a = 0 \<and> register_ack_peers a = ps))"
    by (auto simp: accept_reply_def split: sum.splits option.splits)
  then have ?sealed
    unfolding dec open_iff_seal by auto
  with \<open>?plain\<close> show ?thesis by blast
qed

lemma first_success: "\<exists>k \<le> m. (\<forall>j < k. f j = None) \<and> (k < m \<longrightarrow> (\<exists>y. f k = Some y))" for m :: nat
proof (induction m)
  case 0
  then show ?case by simp
next
  case (Suc m)
  then obtain k where k: "k \<le> m" "\<forall>j < k. f j = None" "k < m \<longrightarrow> (\<exists>y. f k = Some y)" by blast
  show ?case
  proof (cases "f k")
    case None
    then have "k = m" using k by (cases "k < m") auto
    then show ?thesis using k None by (intro exI [of _ "Suc k"]) (auto simp: less_Suc_eq)
  next
    case (Some y)
    then show ?thesis using k by (intro exI [of _ k]) auto
  qed
qed

text \<open>
  The caller's receive timeout is not restored: after any registration over the caller's own
  socket that sent at least one request, the last timeout set on that socket is the back-off of
  the last attempt, never the caller's.
\<close>

theorem register_leaves_backoff_timeout:
  assumes "wire_request key nonce ip port ts n = Some req" and "0 < max_retries"
  shows "let r = register_with_rlcore_on_socket key nonce False ip port ts n max_retries timeout_ms env
    in rr_sent r \<noteq> [] \<and> last (rr_timeouts r) = timeout_ms * 2 ^ (length (rr_sent r) - 1)"
proof -
  let ?m = "nat max_retries"
  obtain k where k: "k \<le> ?m" "\<forall>j < k. attempt_result key req env j = None"
    "k < ?m \<Longrightarrow> \<exists>out. attempt_result key req env k = Some out"
    using first_success [of ?m "attempt_result key req env"] by blast
  obtain l where l: "min ?m (k + 1) = Suc l" using assms(2) by (cases "min ?m (k + 1)") auto
  show ?thesis
    using attempts_spec [of 0 k key req env ?m False timeout_ms] k assms(1) l
    by (simp add: register_with_rlcore_on_socket_def Let_def)
qed

theorem register_first_ack_wins_witness:
  "register_with_rlcore_on_socket None [] False 1 2 [7] 1 3 500
     (\<lambda>i. (12, if i = 1 then Some (ack_image 0 []) else None)) =
   \<lparr>rr_outcome = (if 1 < nat 3 then the (attempt_result None (request_image 1 2 [7])
        (\<lambda>i. (12, if i = 1 then Some (ack_image 0 []) else None)) 1) else failed_outcome),
    rr_sent = replicate (min (nat 3) (1 + 1)) (request_image 1 2 [7]),
    rr_timeouts = (if False then [] else map (\<lambda>e. 500 * 2 ^ e) [0..<min (nat 3) (1 + 1)])\<rparr>"
proof (rule register_first_ack_wins)
  show "wire_request None [] 1 2 [7] 1 = Some (request_image 1 2 [7])"
    using encode_request_eq [of "[7]" 1 2 65507] by (simp add: wire_request_def)
  show "\<forall>j < 1. attempt_result None (request_image 1 2 [7])
      (\<lambda>i. (12, if i = 1 then Some (ack_image 0 []) else None)) j = None"
    by (simp add: attempt_result_def accept_reply_def)
  have "accept_reply None (Some (ack_image 0 [])) = Some \<lparr>ro_ok = True, ro_peers = []\<rparr>"
    using accept_ack_image [of "[]"] by simp
  then show "\<exists>out. attempt_result None (request_image 1 2 [7])
      (\<lambda>i. (12, if i = 1 then Some (ack_image 0 []) else None)) 1 = Some out"
    by (simp add: attempt_result_def)
qed simp_all

theorem register_leaves_backoff_timeout_witness:
  "let r = register_with_rlcore_on_socket None [] False 1 2 [7] 1 3 500 (\<lambda>i. (12, None))
   in rr_sent r \<noteq> [] \<and> last (rr_timeouts r) = 500 * 2 ^ (length (rr_sent r) - 1)"
proof (rule register_leaves_backoff_timeout)
  show "wire_request None [] 1 2 [7] 1 = Some (request_image 1 2 [7])"
    using encode_request_eq [of "[7]" 1 2 65507] by (simp add: wire_request_def)
qed simp

end
