(* ===== verification/Ordered_Map.thy ===== *)
theory Ordered_Map
  imports Relink_Prelude "HOL-Library.Product_Lexorder"
begin

text \<open>
  \<^verbatim>\<open>std::map\<close> and \<^verbatim>\<open>std::set\<close> as the daemons use them: association lists and lists in strictly
  increasing key order, so that iterating one is walking the list. The contract of a map is a
  locale; the ordered list is its interpretation.
\<close>

fun om_put :: "'k :: linorder \<Rightarrow> 'v \<Rightarrow> ('k \<times> 'v) list \<Rightarrow> ('k \<times> 'v) list" where
  "om_put k v [] = [(k, v)]"
| "om_put k v ((k', v') # m) =
     (if k < k' then (k, v) # (k', v') # m
      else if k = k' then (k, v) # m
      else (k', v') # om_put k v m)"

definition om_del :: "'k \<Rightarrow> ('k \<times> 'v) list \<Rightarrow> ('k \<times> 'v) list" where
  "om_del k m = filter (\<lambda>p. fst p \<noteq> k) m"

definition om_wf :: "('k :: linorder \<times> 'v) list \<Rightarrow> bool" where
  "om_wf m \<longleftrightarrow> sorted_wrt (<) (map fst m)"

definition os_put :: "'k :: linorder \<Rightarrow> 'k list \<Rightarrow> 'k list" where
  "os_put k s = insort_insert k s"

definition os_wf :: "'k :: linorder list \<Rightarrow> bool" where
  "os_wf s \<longleftrightarrow> sorted_wrt (<) s"

section \<open>The contract of a map\<close>

locale std_map =
  fixes wf :: "'m \<Rightarrow> bool" and get :: "'m \<Rightarrow> 'k \<Rightarrow> 'v option"
    and put :: "'k \<Rightarrow> 'v \<Rightarrow> 'm \<Rightarrow> 'm" and del :: "'k \<Rightarrow> 'm \<Rightarrow> 'm"
  assumes put_wf: "wf m \<Longrightarrow> wf (put k v m)" and get_put: "get (put k v m) = (get m)(k \<mapsto> v)"
    and del_wf: "wf m \<Longrightarrow> wf (del k m)" and get_del: "get (del k m) = (get m)(k := None)"
begin

text \<open>A loop of assignments \<^verbatim>\<open>m[k] = v\<close>: the last one for a key wins.\<close>

definition put_all :: "('k \<times> 'v) list \<Rightarrow> 'm \<Rightarrow> 'm" where
  "put_all kvs m = fold (\<lambda>(k, v). put k v) kvs m"

lemma put_all_wf: "wf m \<Longrightarrow> wf (put_all kvs m)"
  unfolding put_all_def by (induction kvs arbitrary: m) (auto simp: put_wf)

lemma get_put_all: "get (put_all kvs m) = get m ++ map_of (rev kvs)"
proof (induction kvs arbitrary: m)
  case Nil
  then show ?case by (simp add: put_all_def)
next
  case (Cons p kvs)
  obtain k v where p: "p = (k, v)" by (cases p)
  have "get (put_all (p # kvs) m) = get (put_all kvs (put k v m))"
    by (simp add: put_all_def p)
  also have "\<dots> = (get m)(k \<mapsto> v) ++ map_of (rev kvs)"
    by (simp only: Cons.IH get_put)
  also have "\<dots> = get m ++ map_of (rev (p # kvs))"
    by (rule ext) (simp add: p map_add_def split: option.splits)
  finally show ?case .
qed

text \<open>The keys a loop of assignments can touch, and the ones it sets to a common value.\<close>

lemma get_put_all_const:
  "get (put_all (map (\<lambda>k. (k, v)) ks) m) k = (if k \<in> set ks then Some v else get m k)"
  by (induction ks arbitrary: m) (auto simp: put_all_def get_put)

end

section \<open>Ordered lists meet it\<close>

lemma om_put_keys: "fst ` set (om_put k v m) = insert k (fst ` set m)"
  by (induction k v m rule: om_put.induct) auto

lemma om_put_wf: "om_wf m \<Longrightarrow> om_wf (om_put k v m)"
proof (induction k v m rule: om_put.induct)
  case (1 k v)
  then show ?case by (simp add: om_wf_def)
next
  case (2 k v k' v' m)
  have "\<forall>x \<in> set (map fst m). k' < x" and "om_wf m" using "2.prems" by (auto simp: om_wf_def)
  then show ?case
    using 2 om_put_keys [of k v m] by (auto simp: om_wf_def)
qed

lemma om_put_get: "map_of (om_put k v m) = (map_of m)(k \<mapsto> v)"
  by (induction k v m rule: om_put.induct) (auto simp: fun_eq_iff)

lemma om_filter_wf: "om_wf m \<Longrightarrow> om_wf (filter P m)"
  by (induction m) (auto simp: om_wf_def)

lemma om_del_get: "map_of (om_del k m) = (map_of m)(k := None)"
  by (induction m) (auto simp: om_del_def fun_eq_iff)

lemma om_wf_distinct: "om_wf m \<Longrightarrow> distinct (map fst m)"
  by (simp add: om_wf_def strict_sorted_iff)

lemma om_in_set: "om_wf m \<Longrightarrow> (k, v) \<in> set m \<longleftrightarrow> map_of m k = Some v"
  by (simp add: om_wf_distinct)

lemma om_filter_get:
  "om_wf m \<Longrightarrow> map_of (filter P m) k =
     (case map_of m k of Some v \<Rightarrow> if P (k, v) then Some v else None | None \<Rightarrow> None)"
proof (induction m)
  case Nil
  then show ?case by simp
next
  case (Cons p m)
  obtain k' v' where p: "p = (k', v')" by (cases p)
  have "om_wf m" and "k' \<notin> fst ` set m" using Cons.prems p by (auto simp: om_wf_def)
  then have none: "map_of m k' = None" and ih: "map_of (filter P m) k =
      (case map_of m k of Some v \<Rightarrow> if P (k, v) then Some v else None | None \<Rightarrow> None)"
    using Cons.IH by (simp_all add: map_of_eq_None_iff)
  show ?case
  proof (cases "k = k'")
    case True
    then show ?thesis using none ih by (simp add: p)
  next
    case False
    then show ?thesis using ih by (simp add: p)
  qed
qed

lemma om_map_get: "map_of (map (\<lambda>(k, v). (k, f k v)) m) k = map_option (f k) (map_of m k)"
  by (induction m) auto

lemma om_map_wf: "om_wf (map (\<lambda>(k, v). (k, f k v)) m) = om_wf m"
proof -
  have "map fst (map (\<lambda>(k, v). (k, f k v)) m) = map fst m" by (induction m) auto
  then show ?thesis by (simp only: om_wf_def)
qed

interpretation om: std_map om_wf map_of om_put om_del
proof unfold_locales
  show "om_wf m \<Longrightarrow> om_wf (om_del k m)" for m :: "('a \<times> 'b) list" and k
    by (simp add: om_del_def om_filter_wf)
qed (simp_all add: om_put_wf om_put_get om_del_get)

lemma os_put_set [simp]: "set (os_put k s) = insert k (set s)"
  by (simp add: os_put_def set_insort_insert)

lemma os_put_wf: "os_wf s \<Longrightarrow> os_wf (os_put k s)"
  by (simp add: os_wf_def os_put_def strict_sorted_iff sorted_insort_insert distinct_insort_insert)

lemma os_filter_wf: "os_wf s \<Longrightarrow> os_wf (filter P s)"
  by (simp add: os_wf_def sorted_wrt_filter)

end
