(* ===== verification/Rlcore_Daemon.thy ===== *)
theory Rlcore_Daemon
  imports Ordered_Map Register Relay_Wire Topic_Directory Crypto Udp_Transport Complex_Main
begin

text \<open>
  The discovery server, \<^verbatim>\<open>cpp/rlcore/relink_rlcore.cpp\<close>: its command line, its tables, the pruning
  of stale entries and the handling of one datagram. The clock readings are parameters (\<open>now\<close> at
  pruning, \<open>reg_now\<close> later in the same pass), in seconds; the differences of two readings are exact.
  The nonce of a sealed acknowledgement is a parameter. The datagrams sent are returned.
\<close>

section \<open>Peers\<close>

datatype PeerEntry = PeerEntry (pe_ip: u32) (pe_port: u16)

instantiation PeerEntry :: linorder
begin

definition less_PeerEntry :: "PeerEntry \<Rightarrow> PeerEntry \<Rightarrow> bool" where
  "less_PeerEntry a b \<longleftrightarrow> pe_ip a < pe_ip b \<or> pe_ip a = pe_ip b \<and> pe_port a < pe_port b"

definition less_eq_PeerEntry :: "PeerEntry \<Rightarrow> PeerEntry \<Rightarrow> bool" where
  "less_eq_PeerEntry a b \<longleftrightarrow> pe_ip a < pe_ip b \<or> pe_ip a = pe_ip b \<and> pe_port a \<le> pe_port b"

instance
  by standard (auto simp: less_PeerEntry_def less_eq_PeerEntry_def intro: PeerEntry.expand)

end

definition addr_of :: "PeerEntry \<Rightarrow> PeerAddr" where
  "addr_of p = \<lparr>pa_ip = pe_ip p, pa_port = pe_port p\<rparr>"

definition kRegistrationTtlSec :: real where "kRegistrationTtlSec = 3"
definition kRelayMemberTtlSec :: real where "kRelayMemberTtlSec = 30"

section \<open>The command line\<close>

record rlcore_config =
  rc_port :: u16
  rc_bind_ip :: "string option"
  rc_nat_mode :: bool
  rc_relay_mode :: bool
  rc_encrypt_key :: "bytes option"

datatype rlcore_exit = ExitHelp | ExitKeyPrinted | ExitBadKey | ExitUnrecognized string

definition str_bytes :: "string \<Rightarrow> bytes" where
  "str_bytes s = map (\<lambda>c. of_char c) s"

fun rlcore_args ::
  "(string \<Rightarrow> int) \<Rightarrow> string list \<Rightarrow> rlcore_config \<Rightarrow> rlcore_exit + rlcore_config" where
  "rlcore_args atoi [] c = Inr c"
| "rlcore_args atoi (a # as) c =
     (if a = ''-h'' \<or> a = ''--help'' then Inl ExitHelp
      else if a = ''--generate-key'' then Inl ExitKeyPrinted
      else if a = ''--port'' \<and> as \<noteq> [] then
        rlcore_args atoi (tl as) (c\<lparr>rc_port := word_of_int (atoi (hd as))\<rparr>)
      else if a = ''--ip'' \<and> as \<noteq> [] then rlcore_args atoi (tl as) (c\<lparr>rc_bind_ip := Some (hd as)\<rparr>)
      else if a = ''--nat'' then rlcore_args atoi as (c\<lparr>rc_nat_mode := True\<rparr>)
      else if a = ''--relay'' then rlcore_args atoi as (c\<lparr>rc_relay_mode := True\<rparr>)
      else if a = ''--encrypt-key'' \<and> as \<noteq> [] then
        (case hex_to_key32 (str_bytes (hd as)) of
           None \<Rightarrow> Inl ExitBadKey
         | Some key \<Rightarrow> rlcore_args atoi (tl as) (c\<lparr>rc_encrypt_key := Some key\<rparr>))
      else Inl (ExitUnrecognized a))"

definition rlcore_parse_args :: "(string \<Rightarrow> int) \<Rightarrow> string list \<Rightarrow> rlcore_exit + rlcore_config" where
  "rlcore_parse_args atoi args =
     (case rlcore_args atoi args \<lparr>rc_port = kRlCoreDefaultPort, rc_bind_ip = None, rc_nat_mode = False,
                                  rc_relay_mode = False, rc_encrypt_key = None\<rparr> of
        Inl e \<Rightarrow> Inl e
      | Inr c \<Rightarrow> Inr (if rc_nat_mode c then c\<lparr>rc_relay_mode := True\<rparr> else c))"

section \<open>The tables\<close>

record rlcore =
  rl_table :: "(u32 \<times> PeerEntry list) list"
  rl_lan_of :: "(PeerEntry \<times> PeerEntry) list"
  rl_last_seen :: "((u32 \<times> PeerEntry) \<times> real) list"
  rl_role_table :: "((u32 \<times> PeerEntry) \<times> u8) list"
  rl_role_last_seen :: "((u32 \<times> PeerEntry) \<times> real) list"
  rl_relay_groups :: "(u32 \<times> (PeerEntry \<times> real) list) list"
  rl_topic_names :: "(u32 \<times> bytes) list"

definition rlcore_init :: rlcore where
  "rlcore_init = \<lparr>rl_table = [], rl_lan_of = [], rl_last_seen = [], rl_role_table = [],
     rl_role_last_seen = [], rl_relay_groups = [], rl_topic_names = []\<rparr>"

definition registration_stale :: "real \<Rightarrow> rlcore \<Rightarrow> u32 \<Rightarrow> PeerEntry \<Rightarrow> bool" where
  "registration_stale now d topic p =
     (let age = (case map_of (rl_last_seen d) (topic, p) of
                   Some t \<Rightarrow> now - t
                 | None \<Rightarrow> kRegistrationTtlSec + 1)
      in age > kRegistrationTtlSec)"

definition table_peers :: "rlcore \<Rightarrow> u32 \<Rightarrow> PeerEntry list" where
  "table_peers d topic = (case map_of (rl_table d) topic of None \<Rightarrow> [] | Some ps \<Rightarrow> ps)"

definition prune_stale :: "bool \<Rightarrow> real \<Rightarrow> rlcore \<Rightarrow> rlcore" where
  "prune_stale relay_mode now d =
     (let table = filter (\<lambda>(topic, peers). peers \<noteq> [])
            (map (\<lambda>(topic, peers). (topic, filter (\<lambda>p. \<not> registration_stale now d topic p) peers))
              (rl_table d));
          last_seen = filter (\<lambda>((topic, p), t). \<not> (p \<in> set (table_peers d topic) \<and>
            registration_stale now d topic p)) (rl_last_seen d);
          expired = map fst (filter (\<lambda>(k, t). now - t > kRegistrationTtlSec) (rl_role_last_seen d));
          role_table = filter (\<lambda>(k, r). k \<notin> set expired) (rl_role_table d);
          role_last_seen = filter (\<lambda>(k, t). \<not> (now - t > kRegistrationTtlSec)) (rl_role_last_seen d);
          relay_groups = (if relay_mode
            then filter (\<lambda>(topic, members). members \<noteq> [])
                   (map (\<lambda>(topic, members).
                      (topic, filter (\<lambda>(m, t). \<not> (now - t > kRelayMemberTtlSec)) members))
                     (rl_relay_groups d))
            else rl_relay_groups d)
      in d\<lparr>rl_table := table, rl_last_seen := last_seen, rl_role_table := role_table,
           rl_role_last_seen := role_last_seen, rl_relay_groups := relay_groups\<rparr>)"

section \<open>One datagram\<close>

definition rlcore_announce :: "bytes \<Rightarrow> rlcore \<Rightarrow> rlcore" where
  "rlcore_announce buf d =
     (case decode_topic_dir_entries buf of
        None \<Rightarrow> d
      | Some entries \<Rightarrow>
          d\<lparr>rl_topic_names := om.put_all (map (\<lambda>e. (td_topic_id e, td_name e)) entries) (rl_topic_names d)\<rparr>)"

definition rlcore_query :: "PeerEntry \<Rightarrow> rlcore \<Rightarrow> datagram list" where
  "rlcore_query src d =
     (let entries = map (\<lambda>(topic, peers).
            \<lparr>td_topic_id = topic,
             td_name = (case map_of (rl_topic_names d) topic of Some n \<Rightarrow> n | None \<Rightarrow> [])\<rparr>) (rl_table d);
          chunks = chunk_topic_dir_entries entries;
          chunks = (if chunks = [] then [[]] else chunks)
      in concat (map (\<lambda>chunk. case encode_topic_dir_reply chunk 65507 of
                                None \<Rightarrow> []
                              | Some reply \<Rightarrow> [(addr_of src, reply)]) chunks))"

definition rlcore_role_announce :: "real \<Rightarrow> PeerEntry \<Rightarrow> bytes \<Rightarrow> rlcore \<Rightarrow> rlcore" where
  "rlcore_role_announce reg_now observed buf d =
     (case decode_role_announce buf of
        None \<Rightarrow> d
      | Some entries \<Rightarrow>
          d\<lparr>rl_role_table :=
               om.put_all (map (\<lambda>e. ((ra_topic_id e, observed), ra_role e)) entries) (rl_role_table d),
            rl_role_last_seen :=
               om.put_all (map (\<lambda>e. ((ra_topic_id e, observed), reg_now)) entries) (rl_role_last_seen d)\<rparr>)"

definition rlcore_role_query :: "PeerEntry \<Rightarrow> rlcore \<Rightarrow> datagram list" where
  "rlcore_role_query src d =
     (let entries = map (\<lambda>((topic, p), role).
            \<lparr>rp_topic_id = topic, rp_role = role, rp_ip = pe_ip p, rp_port = pe_port p\<rparr>) (rl_role_table d);
          chunks = chunk_role_peer_entries entries;
          chunks = (if chunks = [] then [[]] else chunks)
      in concat (map (\<lambda>chunk. case encode_role_reply chunk 65507 of
                                None \<Rightarrow> []
                              | Some reply \<Rightarrow> [(addr_of src, reply)]) chunks))"

definition relay_group :: "rlcore \<Rightarrow> u32 \<Rightarrow> (PeerEntry \<times> real) list" where
  "relay_group d topic = (case map_of (rl_relay_groups d) topic of None \<Rightarrow> [] | Some ms \<Rightarrow> ms)"

text \<open>The merged relay: \<open>None\<close> when the datagram is neither a REGISTER packet nor a frame.\<close>

definition rlcore_relay ::
  "real \<Rightarrow> PeerEntry \<Rightarrow> bytes \<Rightarrow> rlcore \<Rightarrow> (datagram list \<times> rlcore) option" where
  "rlcore_relay reg_now src buf d =
     (case decode_relay_register buf of
        Some topic \<Rightarrow>
          Some ([], d\<lparr>rl_relay_groups :=
                       om_put topic (om_put src reg_now (relay_group d topic)) (rl_relay_groups d)\<rparr>)
      | None \<Rightarrow>
          (case peek_frame_topic_id buf of
             Some topic \<Rightarrow>
               Some ((case map_of (rl_relay_groups d) topic of
                        None \<Rightarrow> []
                      | Some members \<Rightarrow>
                          map (\<lambda>(m, t). (addr_of m, buf))
                            (filter (\<lambda>(m, t). \<not> (pe_ip m = pe_ip src \<and> pe_port m = pe_port src)) members)),
                     d)
           | None \<Rightarrow> None))"

definition register_self :: "real \<Rightarrow> PeerEntry \<Rightarrow> DecodedRegisterRequest \<Rightarrow> rlcore \<Rightarrow> rlcore" where
  "register_self reg_now self req d =
     (let d = d\<lparr>rl_lan_of := om_put self (PeerEntry (dr_node_ip req) (dr_node_port req)) (rl_lan_of d)\<rparr>
      in fold (\<lambda>topic d. d\<lparr>rl_table := om_put topic (os_put self (table_peers d topic)) (rl_table d),
                           rl_last_seen := om_put (topic, self) reg_now (rl_last_seen d)\<rparr>)
           (register_request_topics req) d)"

definition ack_peers :: "PeerEntry \<Rightarrow> u32 list \<Rightarrow> rlcore \<Rightarrow> RegisterAckPeer list" where
  "ack_peers self topics d =
     concat (map (\<lambda>topic.
       map (\<lambda>peer.
         let lan = (case map_of (rl_lan_of d) peer of Some l \<Rightarrow> l | None \<Rightarrow> PeerEntry 0 0)
         in \<lparr>ap_ip = pe_ip peer, ap_port = pe_port peer, ap_topic_id = topic,
             ap_lan_ip = pe_ip lan, ap_lan_port = pe_port lan\<rparr>)
         (filter (\<lambda>peer. \<not> (pe_ip peer = pe_ip self \<and> pe_port peer = pe_port self))
           (table_peers d topic))) topics)"

definition seal_ack :: "bytes option \<Rightarrow> bytes \<Rightarrow> bytes \<Rightarrow> bytes option" where
  "seal_ack encrypt_key nonce ack =
     (case encrypt_key of None \<Rightarrow> Some ack | Some key \<Rightarrow> aes256gcm_seal key nonce ack 65507)"

definition rlcore_register ::
  "rlcore_config \<Rightarrow> real \<Rightarrow> bytes \<Rightarrow> PeerEntry \<Rightarrow> bytes \<Rightarrow> rlcore \<Rightarrow> datagram list \<times> rlcore" where
  "rlcore_register c reg_now nonce src buf d =
     (case (case rc_encrypt_key c of None \<Rightarrow> Some buf | Some key \<Rightarrow> aes256gcm_open key buf 65507) of
        None \<Rightarrow> ([], d)
      | Some req_data \<Rightarrow>
          (case decode_register_request req_data of
             Inl _ \<Rightarrow> ([], d)
           | Inr req \<Rightarrow>
               let self = (if rc_nat_mode c then src else PeerEntry (dr_node_ip req) (dr_node_port req));
                   d = register_self reg_now self req d;
                   peers = ack_peers self (register_request_topics req) d
               in (case encode_register_ack 0 peers (word_of_nat (length peers)) 65507 of
                     Inl _ \<Rightarrow> ([], d)
                   | Inr ack \<Rightarrow> (case seal_ack (rc_encrypt_key c) nonce ack of
                                   None \<Rightarrow> ([], d)
                                 | Some wire_ack \<Rightarrow> ([(addr_of src, wire_ack)], d)))))"

definition rlcore_datagram ::
  "rlcore_config \<Rightarrow> real \<Rightarrow> real \<Rightarrow> bytes \<Rightarrow> PeerEntry \<Rightarrow> bytes option \<Rightarrow> rlcore \<Rightarrow>
   datagram list \<times> rlcore" where
  "rlcore_datagram c now reg_now nonce src os_recv d =
     (let d = prune_stale (rc_relay_mode c) now d in
      case os_recv of
        None \<Rightarrow> ([], d)
      | Some datagram \<Rightarrow>
          let buf = take 65507 datagram in
          if length buf = 0 then ([], d)
          else (case topic_dir_packet_kind buf of
                  TdAnnounce \<Rightarrow> ([], rlcore_announce buf d)
                | TdQuery \<Rightarrow> (rlcore_query src d, d)
                | TdReply \<Rightarrow> ([], d)
                | TdUnknown \<Rightarrow>
                    (case role_packet_kind buf of
                       RdAnnounce \<Rightarrow> ([], rlcore_role_announce reg_now src buf d)
                     | RdQuery \<Rightarrow> (rlcore_role_query src d, d)
                     | RdReply \<Rightarrow> ([], d)
                     | RdUnknown \<Rightarrow>
                         (case (if rc_relay_mode c then rlcore_relay reg_now src buf d else None) of
                            Some r \<Rightarrow> r
                          | None \<Rightarrow> rlcore_register c reg_now nonce src buf d))))"

section \<open>The invariant of the tables\<close>

definition registered :: "rlcore \<Rightarrow> u32 \<Rightarrow> PeerEntry \<Rightarrow> bool" where
  "registered d topic p \<longleftrightarrow> p \<in> set (table_peers d topic)"

definition table_ok :: "rlcore \<Rightarrow> bool" where
  "table_ok d \<longleftrightarrow> om_wf (rl_table d) \<and> list_all (\<lambda>(t, ps). ps \<noteq> [] \<and> os_wf ps) (rl_table d) \<and>
     om_wf (rl_last_seen d) \<and>
     (\<forall>t p. registered d t p \<longleftrightarrow> map_of (rl_last_seen d) (t, p) \<noteq> None)"

definition roles_ok :: "rlcore \<Rightarrow> bool" where
  "roles_ok d \<longleftrightarrow> om_wf (rl_role_table d) \<and> om_wf (rl_role_last_seen d) \<and>
     dom (map_of (rl_role_table d)) = dom (map_of (rl_role_last_seen d))"

definition relay_ok :: "rlcore \<Rightarrow> bool" where
  "relay_ok d \<longleftrightarrow> om_wf (rl_relay_groups d) \<and>
     list_all (\<lambda>(t, ms). ms \<noteq> [] \<and> om_wf ms) (rl_relay_groups d)"

definition rlcore_wf :: "rlcore \<Rightarrow> bool" where
  "rlcore_wf d \<longleftrightarrow> table_ok d \<and> roles_ok d \<and> relay_ok d \<and> om_wf (rl_lan_of d) \<and> om_wf (rl_topic_names d)"

lemma rlcore_init_wf: "rlcore_wf rlcore_init"
  by (simp add: rlcore_wf_def table_ok_def roles_ok_def relay_ok_def rlcore_init_def om_wf_def
      registered_def table_peers_def)

lemma filter_map_get:
  assumes "om_wf m"
  shows "map_of (filter P (map (\<lambda>(k, v). (k, f k v)) m)) k =
    (case map_of m k of Some v \<Rightarrow> if P (k, f k v) then Some (f k v) else None | None \<Rightarrow> None)"
  using assms by (simp add: om_filter_get om_map_wf om_map_get split: option.splits)

lemma pruned_table_peers:
  assumes "table_ok d"
  shows "table_peers (prune_stale r now d) t = filter (\<lambda>p. \<not> registration_stale now d t p) (table_peers d t)"
  using assms
  by (simp add: table_peers_def prune_stale_def Let_def table_ok_def filter_map_get split: option.splits)

lemma pruned_last_seen:
  assumes "table_ok d"
  shows "map_of (rl_last_seen (prune_stale r now d)) (t, p) =
    (if registered d t p \<and> registration_stale now d t p then None else map_of (rl_last_seen d) (t, p))"
  using assms
  by (simp add: prune_stale_def Let_def table_ok_def om_filter_get registered_def split: option.splits)

lemma prune_table_ok:
  assumes "table_ok d"
  shows "table_ok (prune_stale r now d)"
proof -
  let ?d = "prune_stale r now d"
  have "registered ?d t p \<longleftrightarrow> map_of (rl_last_seen ?d) (t, p) \<noteq> None" for t p
    using assms by (simp add: registered_def pruned_table_peers pruned_last_seen) 
      (auto simp: registered_def table_ok_def)
  moreover have "om_wf (rl_table ?d)" "om_wf (rl_last_seen ?d)"
    using assms by (simp_all add: prune_stale_def Let_def table_ok_def om_filter_wf om_map_wf)
  moreover have "list_all (\<lambda>(t, ps). ps \<noteq> [] \<and> os_wf ps) (rl_table ?d)"
    using assms by (auto simp: prune_stale_def Let_def table_ok_def list_all_iff os_filter_wf)
  ultimately show ?thesis by (simp add: table_ok_def)
qed

lemma prune_roles_ok:
  assumes "roles_ok d"
  shows "roles_ok (prune_stale r now d)"
proof -
  let ?d = "prune_stale r now d"
  let ?ex = "set (map fst (filter (\<lambda>(k, t). now - t > kRegistrationTtlSec) (rl_role_last_seen d)))"
  have wf: "om_wf (rl_role_table d)" "om_wf (rl_role_last_seen d)" using assms by (simp_all add: roles_ok_def)
  have ex: "k \<in> ?ex \<longleftrightarrow> (\<exists>t. map_of (rl_role_last_seen d) k = Some t \<and> now - t > kRegistrationTtlSec)" for k
    by (cases k) (auto simp: om_in_set [OF wf(2), symmetric] image_iff Bex_def)
  have "map_of (rl_role_table ?d) k = None \<longleftrightarrow> map_of (rl_role_last_seen ?d) k = None" for k
  proof -
    have "map_of (rl_role_table d) k = None \<longleftrightarrow> map_of (rl_role_last_seen d) k = None"
      using assms unfolding roles_ok_def by (metis domIff)
    then show ?thesis
      using ex [of k] wf unfolding prune_stale_def Let_def
      by (auto simp: om_filter_get split: option.splits)
  qed
  then have "dom (map_of (rl_role_table ?d)) = dom (map_of (rl_role_last_seen ?d))"
    by (auto simp: dom_def)
  moreover have "om_wf (rl_role_table ?d)" "om_wf (rl_role_last_seen ?d)"
    using wf by (simp_all add: prune_stale_def Let_def om_filter_wf)
  ultimately show ?thesis by (simp add: roles_ok_def)
qed

lemma prune_relay_ok:
  assumes "relay_ok d"
  shows "relay_ok (prune_stale r now d)"
  using assms
  by (auto simp: prune_stale_def Let_def relay_ok_def om_filter_wf om_map_wf list_all_iff)

lemma prune_wf: "rlcore_wf d \<Longrightarrow> rlcore_wf (prune_stale r now d)"
proof -
  have "rl_lan_of (prune_stale r now d) = rl_lan_of d" "rl_topic_names (prune_stale r now d) = rl_topic_names d"
    by (simp_all add: prune_stale_def Let_def)
  then show "rlcore_wf d \<Longrightarrow> ?thesis"
    by (simp add: rlcore_wf_def prune_table_ok prune_roles_ok prune_relay_ok)
qed

section \<open>Registration\<close>

definition reg_step :: "real \<Rightarrow> PeerEntry \<Rightarrow> u32 \<Rightarrow> rlcore \<Rightarrow> rlcore" where
  "reg_step reg_now self topic d =
     d\<lparr>rl_table := om_put topic (os_put self (table_peers d topic)) (rl_table d),
       rl_last_seen := om_put (topic, self) reg_now (rl_last_seen d)\<rparr>"

lemma register_self_fold:
  "register_self reg_now self req d =
     fold (reg_step reg_now self) (register_request_topics req)
       (d\<lparr>rl_lan_of := om_put self (PeerEntry (dr_node_ip req) (dr_node_port req)) (rl_lan_of d)\<rparr>)"
  by (simp add: register_self_def reg_step_def [abs_def] Let_def)

lemma reg_step_peers:
  "table_peers (reg_step n self t d) u = (if u = t then os_put self (table_peers d t) else table_peers d u)"
  by (simp add: table_peers_def reg_step_def om_put_get)

lemma reg_step_ok:
  assumes "table_ok d"
  shows "table_ok (reg_step n self t d)"
proof -
  let ?d = "reg_step n self t d"
  have "registered ?d u p \<longleftrightarrow> map_of (rl_last_seen ?d) (u, p) \<noteq> None" for u p
    using assms unfolding registered_def reg_step_peers
    by (auto simp: reg_step_def om_put_get table_ok_def registered_def)
  moreover have "om_wf (rl_table ?d)" "om_wf (rl_last_seen ?d)"
    using assms by (simp_all add: reg_step_def table_ok_def om_put_wf)
  moreover have "list_all (\<lambda>(t, ps). ps \<noteq> [] \<and> os_wf ps) (rl_table ?d)"
  proof -
    have old: "os_wf (table_peers d t)"
      using assms by (auto simp: table_ok_def table_peers_def list_all_iff os_wf_def
          dest!: map_of_SomeD split: option.splits)
    have "ps \<noteq> [] \<and> os_wf ps" if "map_of (rl_table ?d) u = Some ps" for u ps
    proof (cases "u = t")
      case True
      then have "ps = os_put self (table_peers d t)" using that by (simp add: reg_step_def om_put_get)
      then show ?thesis using old os_put_wf os_put_set [of self "table_peers d t"]
        by (metis empty_iff insertI1 list.set(1))
    next
      case False
      then have "map_of (rl_table d) u = Some ps" using that by (simp add: reg_step_def om_put_get)
      then show ?thesis using assms by (auto simp: table_ok_def list_all_iff dest!: map_of_SomeD)
    qed
    then show ?thesis using om_in_set [OF \<open>om_wf (rl_table ?d)\<close>] by (auto simp: list_all_iff)
  qed
  ultimately show ?thesis by (simp add: table_ok_def)
qed

lemma reg_fold_ok: "table_ok d \<Longrightarrow> table_ok (fold (reg_step n self) ts d)"
  by (induction ts arbitrary: d) (simp_all add: reg_step_ok)

lemma reg_fold_peers:
  "registered (fold (reg_step n self) ts d) u p \<longleftrightarrow> registered d u p \<or> u \<in> set ts \<and> p = self"
  by (induction ts arbitrary: d) (auto simp: registered_def reg_step_peers)

lemma reg_fold_seen:
  "map_of (rl_last_seen (fold (reg_step n self) ts d)) (u, p) =
     (if u \<in> set ts \<and> p = self then Some n else map_of (rl_last_seen d) (u, p))"
  by (induction ts arbitrary: d) (auto simp: reg_step_def om_put_get)

lemma reg_fold_frame:
  "rl_lan_of (fold (reg_step n self) ts d) = rl_lan_of d"
  "rl_role_table (fold (reg_step n self) ts d) = rl_role_table d"
  "rl_role_last_seen (fold (reg_step n self) ts d) = rl_role_last_seen d"
  "rl_relay_groups (fold (reg_step n self) ts d) = rl_relay_groups d"
  "rl_topic_names (fold (reg_step n self) ts d) = rl_topic_names d"
  by (induction ts arbitrary: d) (simp_all add: reg_step_def)

lemma register_self_wf:
  assumes "rlcore_wf d"
  shows "rlcore_wf (register_self n self req d)"
proof -
  let ?l = "om_put self (PeerEntry (dr_node_ip req) (dr_node_port req)) (rl_lan_of d)"
  have "table_ok (d\<lparr>rl_lan_of := ?l\<rparr>)"
    using assms by (simp add: rlcore_wf_def table_ok_def registered_def table_peers_def)
  from reg_fold_ok [OF this] show ?thesis
    using assms unfolding register_self_fold rlcore_wf_def roles_ok_def relay_ok_def reg_fold_frame
    by (simp add: om_put_wf)
qed

lemma registered_register_self:
  "registered (register_self n self req d) u p \<longleftrightarrow>
     registered d u p \<or> u \<in> set (register_request_topics req) \<and> p = self"
  unfolding register_self_fold reg_fold_peers by (simp add: registered_def table_peers_def)

section \<open>The other handlers keep the invariant\<close>

lemma announce_wf: "rlcore_wf d \<Longrightarrow> rlcore_wf (rlcore_announce buf d)"
  by (simp add: rlcore_announce_def rlcore_wf_def table_ok_def roles_ok_def relay_ok_def registered_def
      table_peers_def om.put_all_wf split: option.splits)

lemma dom_put_all: "dom (map_of (om.put_all kvs m)) = dom (map_of m) \<union> fst ` set kvs"
  by (auto simp: om.get_put_all dom_map_of_conv_image_fst)

lemma role_announce_wf: "rlcore_wf d \<Longrightarrow> rlcore_wf (rlcore_role_announce n src buf d)"
  by (simp add: rlcore_role_announce_def rlcore_wf_def table_ok_def roles_ok_def relay_ok_def
      registered_def table_peers_def om.put_all_wf dom_put_all image_image split: option.splits)

lemma om_put_nonempty: "om_put k v m \<noteq> []"
  by (cases m) (auto split: if_splits)

lemma relay_wf:
  assumes "rlcore_wf d" and "rlcore_relay n src buf d = Some (out, d')"
  shows "rlcore_wf d'"
proof (cases "decode_relay_register buf")
  case None
  then have "d' = d" using assms(2) by (auto simp: rlcore_relay_def split: option.splits)
  then show ?thesis using assms(1) by simp
next
  case (Some t)
  let ?g = "om_put src n (relay_group d t)"
  have d': "d' = d\<lparr>rl_relay_groups := om_put t ?g (rl_relay_groups d)\<rparr>"
    using assms(2) Some by (simp add: rlcore_relay_def)
  have r: "relay_ok d" using assms(1) by (simp add: rlcore_wf_def)
  have "om_wf (relay_group d t)"
    using r by (auto simp: relay_group_def relay_ok_def list_all_iff om_wf_def
        dest!: map_of_SomeD split: option.splits)
  then have g: "?g \<noteq> [] \<and> om_wf ?g" by (simp add: om_put_wf om_put_nonempty)
  have wf: "om_wf (om_put t ?g (rl_relay_groups d))" using r by (simp add: relay_ok_def om_put_wf)
  have "ms \<noteq> [] \<and> om_wf ms" if "map_of (om_put t ?g (rl_relay_groups d)) u = Some ms" for u ms
    using that g r by (auto simp: om_put_get relay_ok_def list_all_iff dest!: map_of_SomeD split: if_splits)
  then have "relay_ok d'" using om_in_set [OF wf] wf by (auto simp: relay_ok_def d' list_all_iff)
  then show ?thesis
    using assms(1) by (simp add: rlcore_wf_def d' table_ok_def roles_ok_def registered_def table_peers_def)
qed

lemma register_wf: "rlcore_wf d \<Longrightarrow> rlcore_wf (snd (rlcore_register c n nonce src buf d))"
  by (auto simp: rlcore_register_def Let_def register_self_wf split: option.splits sum.splits)

text \<open>One pass of the main loop, whatever arrives, keeps the invariant.\<close>

lemma datagram_wf:
  assumes "rlcore_wf d"
  shows "rlcore_wf (snd (rlcore_datagram c now n nonce src r d))"
proof -
  note p = prune_wf [OF assms, of "rc_relay_mode c" now]
  show ?thesis
    using p announce_wf [OF p] role_announce_wf [OF p] register_wf [OF p] relay_wf [OF p]
    unfolding rlcore_datagram_def Let_def
    by (auto split: option.splits TopicDirKind.splits RoleDirKind.splits if_splits)
qed

text \<open>
  The daemon as a transition system: a pass may find any datagram, from any source, or none, at any
  clock readings.
\<close>

inductive rlcore_reachable :: "rlcore_config \<Rightarrow> rlcore \<Rightarrow> bool" for c where
  rlcore_start: "rlcore_reachable c rlcore_init"
| rlcore_pass: "rlcore_reachable c d \<Longrightarrow>
    rlcore_reachable c (snd (rlcore_datagram c now reg_now nonce src os_recv d))"

text \<open>
  C11: In every state the daemon can reach, whatever packets it was sent: the tables are in key order
  without duplicates, no topic has an empty peer set and no relay group is empty, a peer is listed
  under a topic exactly when it has a time stamp there, and roles and their time stamps go together.
\<close>

theorem rlcore_invariant:
  assumes "rlcore_reachable c d"
  shows "rlcore_wf d"
  using assms by induction (simp_all add: rlcore_init_wf datagram_wf)

theorem rlcore_invariant_witness: "rlcore_wf rlcore_init"
  by (rule rlcore_invariant [of "\<lparr>rc_port = 8445, rc_bind_ip = None, rc_nat_mode = False,
    rc_relay_mode = False, rc_encrypt_key = None\<rparr>"]) (rule rlcore_start)

text \<open>
  A registration is forgotten exactly when it is older than three seconds: pruning keeps the
  registrations of age at most the limit, and no others, and a peer survives in the role table on
  the same terms.
\<close>

theorem prune_keeps_exactly_fresh:
  assumes "rlcore_wf d"
  shows "(registered (prune_stale r now d) t p \<longleftrightarrow>
      (\<exists>s. map_of (rl_last_seen d) (t, p) = Some s \<and> now - s \<le> 3)) \<and>
    (map_of (rl_role_table (prune_stale r now d)) (t, p) \<noteq> None \<longleftrightarrow>
      (\<exists>s. map_of (rl_role_last_seen d) (t, p) = Some s \<and> now - s \<le> 3))"
proof
  have ok: "table_ok d" "roles_ok d" using assms by (simp_all add: rlcore_wf_def)
  have "registered d t p \<longleftrightarrow> map_of (rl_last_seen d) (t, p) \<noteq> None" using ok(1) by (simp add: table_ok_def)
  then show "registered (prune_stale r now d) t p \<longleftrightarrow>
      (\<exists>s. map_of (rl_last_seen d) (t, p) = Some s \<and> now - s \<le> 3)"
    using ok(1) by (auto simp: registered_def pruned_table_peers registration_stale_def
        kRegistrationTtlSec_def not_less split: option.splits)
  have "dom (map_of (rl_role_table (prune_stale r now d))) = dom (map_of (rl_role_last_seen (prune_stale r now d)))"
    using prune_roles_ok [OF ok(2)] by (simp add: roles_ok_def)
  then have "map_of (rl_role_table (prune_stale r now d)) (t, p) \<noteq> None \<longleftrightarrow>
      map_of (rl_role_last_seen (prune_stale r now d)) (t, p) \<noteq> None" by (simp add: dom_def set_eq_iff)
  also have "\<dots> \<longleftrightarrow> (\<exists>s. map_of (rl_role_last_seen d) (t, p) = Some s \<and> now - s \<le> 3)"
    using ok(2) by (auto simp: prune_stale_def Let_def roles_ok_def om_filter_get kRegistrationTtlSec_def
        not_less split: option.splits)
  finally show "map_of (rl_role_table (prune_stale r now d)) (t, p) \<noteq> None \<longleftrightarrow>
      (\<exists>s. map_of (rl_role_last_seen d) (t, p) = Some s \<and> now - s \<le> 3)" .
qed

theorem prune_keeps_exactly_fresh_witness:
  "registered (prune_stale False 5 rlcore_init) 7 (PeerEntry 1 2) \<longleftrightarrow>
     (\<exists>s. map_of (rl_last_seen rlcore_init) (7, PeerEntry 1 2) = Some s \<and> 5 - s \<le> 3)"
  using prune_keeps_exactly_fresh [OF rlcore_init_wf, of False 5 7 "PeerEntry 1 2"] by blast

section \<open>The acknowledgement\<close>

lemma ack_peers_iff:
  "(\<exists>x \<in> set (ack_peers self ts d). ap_ip x = pe_ip p \<and> ap_port x = pe_port p \<and> ap_topic_id x = t) \<longleftrightarrow>
   t \<in> set ts \<and> p \<noteq> self \<and> registered d t p"
proof -
  have "pe_ip p = pe_ip q \<and> pe_port p = pe_port q \<longleftrightarrow> p = q" for p q :: PeerEntry
    by (cases p; cases q) simp
  then show ?thesis
    by (auto simp: ack_peers_def registered_def Let_def) (metis)+
qed


text \<open>What the daemon reads as a request, and under which identity it files the sender.\<close>

definition opened :: "rlcore_config \<Rightarrow> bytes \<Rightarrow> bytes option" where
  "opened c buf = (case rc_encrypt_key c of None \<Rightarrow> Some buf | Some key \<Rightarrow> aes256gcm_open key buf 65507)"

definition identity :: "rlcore_config \<Rightarrow> PeerEntry \<Rightarrow> u32 \<Rightarrow> u16 \<Rightarrow> PeerEntry" where
  "identity c src ip port = (if rc_nat_mode c then src else PeerEntry ip port)"

text \<open>The number of peers an acknowledgement has to list.\<close>

definition others :: "PeerEntry \<Rightarrow> u32 list \<Rightarrow> rlcore \<Rightarrow> nat" where
  "others self ts d = sum_list (map (\<lambda>t. length (filter (\<lambda>p. p \<noteq> self) (table_peers d t))) ts)"

lemma os_put_others: "filter (\<lambda>p. p \<noteq> k) (os_put k s) = filter (\<lambda>p. p \<noteq> k) s"
  by (simp add: os_put_def insort_insert_key_def filter_insort_triv)

lemma reg_fold_others:
  "filter (\<lambda>p. p \<noteq> self) (table_peers (fold (reg_step n self) us d) t) =
   filter (\<lambda>p. p \<noteq> self) (table_peers d t)"
  by (induction us arbitrary: d) (simp_all add: reg_step_peers os_put_others)

lemma length_ack_peers: "length (ack_peers self ts d) = others self ts d"
proof -
  have "pe_ip p = pe_ip self \<and> pe_port p = pe_port self \<longleftrightarrow> p = self" for p
    by (cases p; cases self) simp
  then show ?thesis by (simp add: ack_peers_def others_def length_concat comp_def)
qed

lemma others_register_self: "others self ts (register_self n self req d) = others self ts d"
  by (simp add: others_def register_self_fold reg_fold_others) (simp add: table_peers_def)

lemma register_eq:
  assumes "opened c buf = Some (request_image ip port ts)" and "length ts < 65536"
  shows "\<exists>d'. rlcore_register c n nonce src buf d =
       ((case encode_register_ack 0 (ack_peers (identity c src ip port) ts d')
               (word_of_nat (length (ack_peers (identity c src ip port) ts d'))) 65507 of
           Inl _ \<Rightarrow> []
         | Inr ack \<Rightarrow> (case seal_ack (rc_encrypt_key c) nonce ack of
                         None \<Rightarrow> [] | Some w \<Rightarrow> [(addr_of src, w)])), d') \<and>
    (\<forall>t p. registered d' t p \<longleftrightarrow> registered d t p \<or> t \<in> set ts \<and> p = identity c src ip port) \<and>
    (rlcore_wf d \<longrightarrow> rlcore_wf d') \<and>
    (\<forall>t p. map_of (rl_last_seen d') (t, p) =
       (if t \<in> set ts \<and> p = identity c src ip port then Some n else map_of (rl_last_seen d) (t, p))) \<and>
    length (ack_peers (identity c src ip port) ts d') = others (identity c src ip port) ts d"
proof -
  obtain req where req: "decode_register_request (request_image ip port ts) = Inr req"
    "dr_node_ip req = ip" "dr_node_port req = port" "register_request_topics req = ts"
    using decode_request_image [OF assms(2), of ip port] by blast
  let ?self = "identity c src ip port"
  let ?d = "register_self n ?self req d"
  have "rlcore_register c n nonce src buf d =
       ((case encode_register_ack 0 (ack_peers ?self ts ?d) (word_of_nat (length (ack_peers ?self ts ?d))) 65507 of
           Inl _ \<Rightarrow> []
         | Inr ack \<Rightarrow> (case seal_ack (rc_encrypt_key c) nonce ack of
                         None \<Rightarrow> [] | Some w \<Rightarrow> [(addr_of src, w)])), ?d)"
    using assms(1) unfolding rlcore_register_def opened_def [symmetric]
    by (simp add: req identity_def Let_def split: sum.splits option.splits)
  moreover have "registered ?d t p \<longleftrightarrow> registered d t p \<or> t \<in> set ts \<and> p = ?self" for t p
    by (simp add: registered_register_self req(4))
  moreover have "map_of (rl_last_seen ?d) (t, p) =
       (if t \<in> set ts \<and> p = ?self then Some n else map_of (rl_last_seen d) (t, p))" for t p
    by (simp add: register_self_fold reg_fold_seen req(4))
  moreover have "length (ack_peers ?self ts ?d) = others ?self ts d"
    by (simp add: length_ack_peers others_register_self)
  ultimately show ?thesis using register_self_wf [of d n ?self req] by blast
qed

definition plain_traffic :: "rlcore_config \<Rightarrow> bytes \<Rightarrow> bool" where
  "plain_traffic c buf \<longleftrightarrow> buf \<noteq> [] \<and> length buf \<le> 65507 \<and> topic_dir_packet_kind buf = TdUnknown \<and>
     role_packet_kind buf = RdUnknown \<and>
     (rc_relay_mode c \<longrightarrow> decode_relay_register buf = None \<and> peek_frame_topic_id buf = None)"

lemma first_byte_kinds:
  assumes "buf \<noteq> []" and "buf ! 0 \<noteq> 0x52"
  shows "topic_dir_packet_kind buf = TdUnknown" "role_packet_kind buf = RdUnknown"
    "decode_relay_register buf = None"
proof -
  have "take 4 buf \<noteq> 0x52 # xs" for xs using assms by (cases buf) auto
  then show "topic_dir_packet_kind buf = TdUnknown" "role_packet_kind buf = RdUnknown"
    by (auto simp: topic_dir_packet_kind_def role_packet_kind_def dir_magics kTopicDirMagicLen_def)
  show "decode_relay_register buf = None"
    using assms(2) by (simp add: decode_relay_register_def relay_consts)
qed

lemma le32_first: "nat_le 4 v ! 0 = word_of_nat v"
proof -
  have "4 = Suc 3" by simp
  then show ?thesis by (simp only: nat_le.simps nth_Cons_0)
qed

lemma request_first_byte: "request_image ip port ts ! 0 = ucast ip"
proof -
  have "request_image ip port ts ! 0 = le32 ip ! 0"
    by (simp add: request_image_def enc_RegisterRequestHeader_def nth_append)
  also have "\<dots> = word_of_nat (unat ip)" by (simp only: le32_def le32_first)
  finally show ?thesis by (simp only: of_nat_unat)
qed

lemma request_plain:
  assumes "length ts \<le> 16374" and "ucast ip \<noteq> (0x52 :: u8)"
    and "rc_relay_mode c \<Longrightarrow> ucast ip \<noteq> (0x23 :: u8)"
  shows "plain_traffic c (request_image ip port ts)"
proof -
  have "request_image ip port ts \<noteq> []" using length_request_image [of ip port ts] by force
  then show ?thesis
    using first_byte_kinds [of "request_image ip port ts"] assms
    by (auto simp: plain_traffic_def request_first_byte peek_frame_topic_id_def kStartByte_def)
qed

lemma datagram_registers:
  assumes "plain_traffic c buf"
  shows "rlcore_datagram c now n nonce src (Some buf) d =
    rlcore_register c n nonce src buf (prune_stale (rc_relay_mode c) now d)"
  using assms by (simp add: rlcore_datagram_def plain_traffic_def rlcore_relay_def Let_def)

lemma prune_registered:
  "rlcore_wf d \<Longrightarrow> registered (prune_stale r now d) t p \<longleftrightarrow>
     (\<exists>s. map_of (rl_last_seen d) (t, p) = Some s \<and> now - s \<le> 3)"
  by (auto simp: rlcore_wf_def table_ok_def registered_def pruned_table_peers registration_stale_def
      kRegistrationTtlSec_def not_less split: option.splits)

lemma seal_ack_opened:
  assumes "length nonce = 12" and "length ack + 28 \<le> 65507"
  shows "\<exists>w. seal_ack (rc_encrypt_key c) nonce ack = Some w \<and> opened c w = Some ack"
  using gcm_seal_opens [of nonce ack 65507 65507] assms
  by (cases "rc_encrypt_key c") (auto simp: seal_ack_def opened_def)

text \<open>
  C1: A registration is answered completely: a request that is not taken for other traffic, plain or
  sealed under the daemon's key, is answered with one acknowledgement to its source, sealed under the
  key if there is one, as long as at most 4092 peers are to be listed; its peers are, for each
  requested topic, exactly the others whose registration there is at most three seconds old; and the
  requester itself is on file for each of its topics from then on.
\<close>

theorem rlcore_ack_lists_live_peers:
  assumes "rlcore_wf d" and "plain_traffic c buf"
    and "opened c buf = Some (request_image ip port ts)" and "length ts < 65536"
    and "length nonce = 12"
    and "others (identity c src ip port) ts (prune_stale (rc_relay_mode c) now d) \<le> 4092"
  shows "\<exists>wire ack a d'. rlcore_datagram c now n nonce src (Some buf) d = ([(addr_of src, wire)], d') \<and>
    opened c wire = Some ack \<and> decode_register_ack ack = Inr a \<and> da_status a = 0 \<and>
    (\<forall>t p. (\<exists>x \<in> set (register_ack_peers a). ap_ip x = pe_ip p \<and> ap_port x = pe_port p \<and> ap_topic_id x = t) \<longleftrightarrow>
       t \<in> set ts \<and> p \<noteq> identity c src ip port \<and>
       (\<exists>s. map_of (rl_last_seen d) (t, p) = Some s \<and> now - s \<le> 3)) \<and>
    (\<forall>t \<in> set ts. registered d' t (identity c src ip port))"
proof -
  let ?self = "identity c src ip port" and ?d = "prune_stale (rc_relay_mode c) now d"
  obtain d' where reg: "rlcore_register c n nonce src buf ?d =
       ((case encode_register_ack 0 (ack_peers ?self ts d') (word_of_nat (length (ack_peers ?self ts d'))) 65507 of
           Inl _ \<Rightarrow> []
         | Inr ack \<Rightarrow> (case seal_ack (rc_encrypt_key c) nonce ack of
                         None \<Rightarrow> [] | Some w \<Rightarrow> [(addr_of src, w)])), d')"
    and live: "\<forall>t p. registered d' t p \<longleftrightarrow> registered ?d t p \<or> t \<in> set ts \<and> p = ?self"
    and count: "length (ack_peers ?self ts d') = others ?self ts ?d"
    using register_eq [OF assms(3,4), of n nonce src ?d] by blast
  let ?ps = "ack_peers ?self ts d'"
  have len: "length ?ps \<le> 4092" using count assms(6) by simp
  then have enc: "encode_register_ack 0 ?ps (word_of_nat (length ?ps)) 65507 = Inr (ack_image 0 ?ps)"
    by (simp add: encode_ack_eq)
  obtain a where a: "decode_register_ack (ack_image 0 ?ps) = Inr a" "da_status a = 0" "register_ack_peers a = ?ps"
    using decode_ack_image [of ?ps 0] len by auto
  obtain wire where wire: "seal_ack (rc_encrypt_key c) nonce (ack_image 0 ?ps) = Some wire"
    "opened c wire = Some (ack_image 0 ?ps)"
    using seal_ack_opened [OF assms(5), of "ack_image 0 ?ps" c] len by auto
  have "rlcore_datagram c now n nonce src (Some buf) d = ([(addr_of src, wire)], d')"
    by (simp add: datagram_registers [OF assms(2)] reg enc wire)
  moreover have "\<forall>t p. (\<exists>x \<in> set ?ps. ap_ip x = pe_ip p \<and> ap_port x = pe_port p \<and> ap_topic_id x = t) \<longleftrightarrow>
       t \<in> set ts \<and> p \<noteq> ?self \<and> (\<exists>s. map_of (rl_last_seen d) (t, p) = Some s \<and> now - s \<le> 3)"
    unfolding ack_peers_iff live [rule_format] prune_registered [OF assms(1)] by blast
  ultimately show ?thesis using a wire(2) live by auto
qed

text \<open>A daemon that knows one peer of topic 7, registered at time 0, also a member of its relay group.\<close>

definition one_peer :: rlcore where
  "one_peer = rlcore_init\<lparr>rl_table := [(7, [PeerEntry 1 2])], rl_last_seen := [((7, PeerEntry 1 2), 0)],
     rl_relay_groups := [(7, [(PeerEntry 1 2, 0)])]\<rparr>"

definition demo_config :: "bool \<Rightarrow> bytes option \<Rightarrow> rlcore_config" where
  "demo_config relay key = \<lparr>rc_port = 8445, rc_bind_ip = None, rc_nat_mode = False,
     rc_relay_mode = relay, rc_encrypt_key = key\<rparr>"

lemma one_peer_wf: "rlcore_wf one_peer"
  by (auto simp: one_peer_def rlcore_wf_def table_ok_def roles_ok_def relay_ok_def rlcore_init_def
      om_wf_def os_wf_def registered_def table_peers_def)

lemma one_peer_ok: "table_ok one_peer"
  using one_peer_wf by (simp add: rlcore_wf_def)

theorem rlcore_ack_lists_live_peers_witness:
  "\<exists>wire ack a d'. rlcore_datagram (demo_config False None) 1 1 (replicate 12 0) (PeerEntry 3 4)
       (Some (request_image 3 4 [7])) one_peer = ([(addr_of (PeerEntry 3 4), wire)], d') \<and>
    opened (demo_config False None) wire = Some ack \<and> decode_register_ack ack = Inr a \<and> da_status a = 0 \<and>
    (\<forall>t p. (\<exists>x \<in> set (register_ack_peers a). ap_ip x = pe_ip p \<and> ap_port x = pe_port p \<and> ap_topic_id x = t) \<longleftrightarrow>
       t \<in> set [7] \<and> p \<noteq> identity (demo_config False None) (PeerEntry 3 4) 3 4 \<and>
       (\<exists>s. map_of (rl_last_seen one_peer) (t, p) = Some s \<and> 1 - s \<le> 3)) \<and>
    (\<forall>t \<in> set [7]. registered d' t (identity (demo_config False None) (PeerEntry 3 4) 3 4))"
proof (rule rlcore_ack_lists_live_peers [OF one_peer_wf])
  show "plain_traffic (demo_config False None) (request_image 3 4 [7])"
    by (rule request_plain) (simp_all add: demo_config_def)
  show "opened (demo_config False None) (request_image 3 4 [7]) = Some (request_image 3 4 [7])"
    by (simp add: opened_def demo_config_def)
  show "others (identity (demo_config False None) (PeerEntry 3 4) 3 4) [7]
      (prune_stale (rc_relay_mode (demo_config False None)) 1 one_peer) \<le> 4092"
    by (simp add: others_def pruned_table_peers one_peer_ok)
      (simp add: one_peer_def rlcore_init_def table_peers_def registration_stale_def kRegistrationTtlSec_def)
qed simp_all

text \<open>
  C28: With a key, only sealed requests have an effect: a datagram that is not directory, role or
  relay traffic and does not open under the key changes nothing beyond pruning and gets no answer.
\<close>

theorem rlcore_key_required:
  assumes "plain_traffic c buf" and "rc_encrypt_key c = Some key"
    and "\<not> (\<exists>pt. aes256gcm_seal key (take 12 buf) pt (length buf) = Some buf)"
  shows "rlcore_datagram c now n nonce src (Some buf) d = ([], prune_stale (rc_relay_mode c) now d)"
proof -
  have "aes256gcm_open key buf 65507 = None"
    using assms(3) open_iff_seal [of key buf 65507] by (cases "aes256gcm_open key buf 65507") auto
  then show ?thesis
    by (simp add: datagram_registers [OF assms(1)] rlcore_register_def assms(2))
qed

theorem rlcore_key_required_witness:
  "rlcore_datagram (demo_config False (Some (replicate 32 1))) 1 1 [] (PeerEntry 3 4)
     (Some (request_image 3 4 [7])) one_peer = ([], prune_stale (rc_relay_mode (demo_config False (Some (replicate 32 1)))) 1 one_peer)"
proof (rule rlcore_key_required)
  show "plain_traffic (demo_config False (Some (replicate 32 1))) (request_image 3 4 [7])"
    by (rule request_plain) (simp_all add: demo_config_def)
  show "\<not> (\<exists>pt. aes256gcm_seal (replicate 32 1) (take 12 (request_image 3 4 [7])) pt
      (length (request_image 3 4 [7])) = Some (request_image 3 4 [7]))"
    by (simp add: aes256gcm_seal_def gcm_consts)
qed (simp add: demo_config_def)

lemma map_fst_filter_distinct: "distinct (map fst xs) \<Longrightarrow> distinct (map fst (filter P xs))"
  by (induction xs) auto

lemma same_addr_iff:
  "pe_ip m = pe_ip src \<and> pe_port m = pe_port src \<longleftrightarrow> m = src" "addr_of m = addr_of src \<longleftrightarrow> m = src"
  by (cases m; cases src; simp add: addr_of_def)+

text \<open>What relay mode does with anything that starts like a frame.\<close>

lemma datagram_relays:
  assumes "rc_relay_mode c" and "buf ! 0 = kStartByte" and "11 \<le> length buf" and "length buf \<le> 65507"
  shows "rlcore_datagram c now n nonce src (Some buf) d =
    (map (\<lambda>(m, t). (addr_of m, buf)) (filter (\<lambda>(m, t). m \<noteq> src)
       (relay_group (prune_stale True now d) (rd32 (bslice 1 4 buf)))), prune_stale True now d)"
proof -
  have "buf \<noteq> []" "buf ! 0 \<noteq> 0x52" using assms(2,3) by (auto simp: kStartByte_def)
  note kinds = first_byte_kinds [OF this]
  have "take 65507 buf = buf" using assms(4) by simp
  moreover have "peek_frame_topic_id buf = Some (rd32 (bslice 1 4 buf))"
    using assms(2,3) by (simp add: peek_frame_topic_id_def sizeof_RelinkHeader_def)
  ultimately show ?thesis
    using \<open>buf \<noteq> []\<close> by (simp add: rlcore_datagram_def Let_def assms(1) kinds rlcore_relay_def same_addr_iff
        relay_group_def split: option.split)
qed

lemma relay_group_wf: "rlcore_wf d \<Longrightarrow> om_wf (relay_group d t)"
  by (auto simp: rlcore_wf_def relay_group_def relay_ok_def list_all_iff om_wf_def
      dest!: map_of_SomeD split: option.splits)

lemma pruned_relay_group:
  "rlcore_wf d \<Longrightarrow> relay_group (prune_stale True now d) t =
     filter (\<lambda>(m, s). \<not> (now - s > kRelayMemberTtlSec)) (relay_group d t)"
  by (simp add: prune_stale_def Let_def rlcore_wf_def relay_ok_def filter_map_get relay_group_def
      split: option.splits)

text \<open>
  C27: In relay mode a data frame is forwarded unchanged, once, to every member of its topic's group
  whose registration is at most thirty seconds old, never back to its sender, and changes nothing.
\<close>

theorem rlcore_relay_forwards:
  assumes "rlcore_wf d" and "rc_relay_mode c" and "decode_frame buf = Inr f" and "length buf \<le> 65507"
  shows "let (out, d') = rlcore_datagram c now n nonce src (Some buf) d;
             topic = hdr_topic_id (df_header f)
    in d' = prune_stale True now d \<and> distinct out \<and>
       set out = {(addr_of m, buf) | m. m \<noteq> src \<and>
         (\<exists>s. map_of (relay_group d topic) m = Some s \<and> now - s \<le> 30)}"
proof -
  let ?t = "hdr_topic_id (df_header f)"
  have start: "buf ! 0 = kStartByte" "11 \<le> length buf"
    using assms(3) by (auto simp: decode_frame_def Let_def sizeof_RelinkHeader_def split: if_splits)
  have "peek_frame_topic_id buf = Some ?t"
    using assms(3) by (auto simp: decode_frame_iff peek_frame_bytes)
  then have topic: "rd32 (bslice 1 4 buf) = ?t"
    using start by (simp add: peek_frame_topic_id_def sizeof_RelinkHeader_def)
  note gwf = relay_group_wf [OF assms(1), of ?t]
  let ?ms = "filter (\<lambda>(m, t). m \<noteq> src) (filter (\<lambda>(m, s). \<not> (now - s > kRelayMemberTtlSec)) (relay_group d ?t))"
  let ?out = "map (\<lambda>(m, t). (addr_of m, buf)) ?ms"
  have "distinct (map fst ?ms)" by (intro map_fst_filter_distinct om_wf_distinct gwf)
  then have "distinct ?out"
    by (auto simp: distinct_map inj_on_def same_addr_iff split: prod.splits)
  moreover have "set ?out = {(addr_of m, buf) | m. m \<noteq> src \<and>
         (\<exists>s. map_of (relay_group d ?t) m = Some s \<and> now - s \<le> 30)}"
    unfolding om_in_set [OF gwf, symmetric] by (force simp: kRelayMemberTtlSec_def not_less)
  ultimately show ?thesis
    unfolding datagram_relays [OF assms(2) start assms(4)] topic pruned_relay_group [OF assms(1)] by simp
qed

theorem rlcore_relay_forwards_witness:
  "let (out, d') = rlcore_datagram (demo_config True None) 1 1 [] (PeerEntry 3 4)
         (Some (frame_bytes 7 1 [])) one_peer;
       topic = hdr_topic_id (df_header (frame_value 7 1 []))
   in d' = prune_stale True 1 one_peer \<and> distinct out \<and>
      set out = {(addr_of m, frame_bytes 7 1 []) | m. m \<noteq> PeerEntry 3 4 \<and>
        (\<exists>s. map_of (relay_group one_peer topic) m = Some s \<and> 1 - s \<le> 30)}"
  by (rule rlcore_relay_forwards [OF one_peer_wf])
    (simp_all add: demo_config_def decode_frame_bytes)

text \<open>
  C38: In relay mode a registration can be lost for good: a plain request for at least one topic from
  a node whose address ends in .35 (0x23, the start byte of a data frame) is taken for a frame. The
  node is not registered and is never answered, however often it retries.
\<close>

theorem relay_mode_steals_registration:
  assumes "rc_relay_mode c" and "ucast ip = (0x23 :: u8)" and "ts \<noteq> []" and "length ts \<le> 16374"
  shows "let (out, d') = rlcore_datagram c now n nonce src (Some (request_image ip port ts)) d
    in d' = prune_stale True now d \<and> addr_of src \<notin> fst ` set out"
proof -
  let ?buf = "request_image ip port ts"
  have "1 \<le> length ts" using assms(3) by (cases ts) simp_all
  then have len: "11 \<le> length ?buf" "length ?buf \<le> 65507" using assms(4) by simp_all
  have "?buf ! 0 = kStartByte" by (simp add: request_first_byte assms(2) kStartByte_def)
  from datagram_relays [OF assms(1) this len] show ?thesis
    by (auto simp: same_addr_iff)
qed

theorem relay_mode_steals_registration_witness:
  "let (out, d') = rlcore_datagram (demo_config True None) 1 1 [] (PeerEntry 0x0A000023 9000)
       (Some (request_image 0x0A000023 9000 [7])) rlcore_init
   in d' = prune_stale True 1 rlcore_init \<and> addr_of (PeerEntry 0x0A000023 9000) \<notin> fst ` set out"
  by (rule relay_mode_steals_registration) (simp_all add: demo_config_def)

text \<open>
  A fleet can outgrow the acknowledgement: when between 4095 and 65535 peers are to be listed the
  daemon registers the node but sends no answer at all.
\<close>

theorem rlcore_large_fleet_unanswered:
  assumes "plain_traffic c buf" and "opened c buf = Some (request_image ip port ts)"
    and "length ts < 65536"
    and "4095 \<le> others (identity c src ip port) ts (prune_stale (rc_relay_mode c) now d)"
    and "others (identity c src ip port) ts (prune_stale (rc_relay_mode c) now d) < 65536"
  shows "\<exists>d'. rlcore_datagram c now n nonce src (Some buf) d = ([], d') \<and>
    (\<forall>t \<in> set ts. registered d' t (identity c src ip port))"
proof -
  let ?self = "identity c src ip port" and ?d = "prune_stale (rc_relay_mode c) now d"
  obtain d' where reg: "rlcore_register c n nonce src buf ?d =
       ((case encode_register_ack 0 (ack_peers ?self ts d') (word_of_nat (length (ack_peers ?self ts d'))) 65507 of
           Inl _ \<Rightarrow> []
         | Inr ack \<Rightarrow> (case seal_ack (rc_encrypt_key c) nonce ack of
                         None \<Rightarrow> [] | Some w \<Rightarrow> [(addr_of src, w)])), d')"
    and live: "\<forall>t p. registered d' t p \<longleftrightarrow> registered ?d t p \<or> t \<in> set ts \<and> p = ?self"
    and count: "length (ack_peers ?self ts d') = others ?self ts ?d"
    using register_eq [OF assms(2,3), of n nonce src ?d] by blast
  have "encode_register_ack 0 (ack_peers ?self ts d') (word_of_nat (length (ack_peers ?self ts d'))) 65507
      = Inl RegBufferTooSmall"
    using encode_ack_eq [of "ack_peers ?self ts d'" 0 65507] assms(4,5) count by simp
  then show ?thesis using live by (simp add: datagram_registers [OF assms(1)] reg)
qed

theorem rlcore_large_fleet_unanswered_witness:
  "\<exists>d'. rlcore_datagram (demo_config False None) 1 1 [] (PeerEntry 3 4)
       (Some (request_image 3 4 (replicate 4095 7))) one_peer = ([], d') \<and>
    (\<forall>t \<in> set (replicate 4095 7). registered d' t (identity (demo_config False None) (PeerEntry 3 4) 3 4))"
proof (rule rlcore_large_fleet_unanswered)
  let ?c = "demo_config False None"
  show "plain_traffic ?c (request_image 3 4 (replicate 4095 7))"
    by (rule request_plain) (simp_all add: demo_config_def)
  show "opened ?c (request_image 3 4 (replicate 4095 7)) = Some (request_image 3 4 (replicate 4095 7))"
    by (simp add: opened_def demo_config_def)
  have "others (identity ?c (PeerEntry 3 4) 3 4) (replicate 4095 7) (prune_stale (rc_relay_mode ?c) 1 one_peer)
      = 4095"
    unfolding others_def map_replicate sum_list_replicate pruned_table_peers [OF one_peer_ok]
    by (simp add: one_peer_def rlcore_init_def table_peers_def registration_stale_def
        kRegistrationTtlSec_def identity_def demo_config_def)
  then show "4095 \<le> others (identity ?c (PeerEntry 3 4) 3 4) (replicate 4095 7)
       (prune_stale (rc_relay_mode ?c) 1 one_peer)"
    and "others (identity ?c (PeerEntry 3 4) 3 4) (replicate 4095 7)
       (prune_stale (rc_relay_mode ?c) 1 one_peer) < 65536" by simp_all
qed simp

end
