(* ===== verification/Relay_Daemon.thy ===== *)
theory Relay_Daemon
  imports Relay_Wire Udp_Transport
begin

text \<open>
  The standalone relay, \<^verbatim>\<open>cpp/rlcore/relink_relay.cpp\<close>, with its AF_XDP receive path and the filter
  program \<^verbatim>\<open>cpp/rlcore/xdp/relay_xdp_kern.c\<close> that feeds it. The hash map of groups is a map, since the
  code only looks groups up and sweeps each one separately. The clock is a parameter; the datagrams
  sent are returned.
\<close>

record Member =
  mb_addr :: PeerAddr
  mb_last_seen :: int

record relay_state =
  rs_groups :: "u32 \<rightharpoonup> Member list"
  rs_last_sweep :: int

definition kMemberTtlSeconds :: int where "kMemberTtlSeconds = 30"

definition same_addr :: "PeerAddr \<Rightarrow> PeerAddr \<Rightarrow> bool" where
  "same_addr a b \<longleftrightarrow> pa_ip a = pa_ip b \<and> pa_port a = pa_port b"

text \<open>The search loop of a registration: refresh the sender's entry, or append one.\<close>

fun refresh_member :: "PeerAddr \<Rightarrow> int \<Rightarrow> Member list \<Rightarrow> Member list" where
  "refresh_member src now [] = [\<lparr>mb_addr = src, mb_last_seen = now\<rparr>]"
| "refresh_member src now (m # ms) =
     (if same_addr (mb_addr m) src then m\<lparr>mb_last_seen := now\<rparr> # ms
      else m # refresh_member src now ms)"

definition sweep_members :: "int \<Rightarrow> (u32 \<rightharpoonup> Member list) \<Rightarrow> (u32 \<rightharpoonup> Member list)" where
  "sweep_members now groups =
     (\<lambda>t. map_option (filter (\<lambda>m. \<not> (now - mb_last_seen m > kMemberTtlSeconds))) (groups t))"

definition handle_packet :: "int \<Rightarrow> bytes \<Rightarrow> PeerAddr \<Rightarrow> relay_state \<Rightarrow> datagram list \<times> relay_state" where
  "handle_packet now buf src st =
     (let (out, groups) =
        (case decode_relay_register buf of
           Some topic_id \<Rightarrow>
             let members = (case rs_groups st topic_id of None \<Rightarrow> [] | Some ms \<Rightarrow> ms)
             in ([], (rs_groups st)(topic_id \<mapsto> refresh_member src now members))
         | None \<Rightarrow>
             (case peek_frame_topic_id buf of
                Some topic_id \<Rightarrow>
                  ((case rs_groups st topic_id of
                      None \<Rightarrow> []
                    | Some ms \<Rightarrow> map (\<lambda>m. (mb_addr m, buf)) (filter (\<lambda>m. \<not> same_addr (mb_addr m) src) ms)),
                   rs_groups st)
              | None \<Rightarrow> ([], rs_groups st)))
      in if now \<noteq> rs_last_sweep st
         then (out, \<lparr>rs_groups = sweep_members now groups, rs_last_sweep = now\<rparr>)
         else (out, st\<lparr>rs_groups := groups\<rparr>))"

definition relay_start :: "int \<Rightarrow> relay_state" where
  "relay_start now = \<lparr>rs_groups = Map.empty, rs_last_sweep = now\<rparr>"

definition relay_port :: "(string \<Rightarrow> int) \<Rightarrow> string list \<Rightarrow> u16" where
  "relay_port atoi args = (case args of [] \<Rightarrow> kRelayDefaultPort | a # _ \<Rightarrow> word_of_int (atoi a))"

text \<open>One turn of the plain socket loop; a receive buffer of \<open>kMaxFrameBytes\<close> truncates.\<close>

definition relay_turn ::
  "int \<Rightarrow> (PeerAddr \<times> bytes) option \<Rightarrow> relay_state \<Rightarrow> datagram list \<times> relay_state" where
  "relay_turn now os_recv st =
     (case os_recv of
        None \<Rightarrow> ([], st)
      | Some (src, dg) \<Rightarrow>
          let buf = take kMaxFrameBytes dg
          in if length buf = 0 then ([], st) else handle_packet now buf src st)"

section \<open>The AF_XDP path\<close>

definition rd_be16 :: "bytes \<Rightarrow> u16" where "rd_be16 bs = rd16 (rev bs)"
definition rd_be32 :: "bytes \<Rightarrow> u32" where "rd_be32 bs = rd32 (rev bs)"

text \<open>The filter in the driver: which frames are handed to the relay.\<close>

definition relay_xdp_prog :: "u16 option \<Rightarrow> bool \<Rightarrow> bytes \<Rightarrow> bool" where
  "relay_xdp_prog relay_port_map xsk_bound data =
     (if 14 > length data then False
      else if bslice 12 2 data \<noteq> [0x08, 0x00] then False
      else if 14 + 20 > length data then False
      else if data ! (14 + 9) \<noteq> 17 then False
      else let udp = 14 + unat (data ! 14 AND 0x0F) * 4 in
           if udp + 8 > length data then False
           else (case relay_port_map of
                   None \<Rightarrow> False
                 | Some port \<Rightarrow> rd_be16 (bslice (udp + 2) 2 data) = port \<and> xsk_bound))"

text \<open>
  What the relay does with a frame of the AF_XDP ring. \<open>None\<close>: the code would look beyond the end of
  the frame.
\<close>

definition xdp_frame :: "int \<Rightarrow> bytes \<Rightarrow> relay_state \<Rightarrow> (datagram list \<times> relay_state) option" where
  "xdp_frame now data st =
     (if length data > 42 then
        let ip = 14;
            ihl = unat (data ! ip AND 0x0F) * 4;
            udp = ip + ihl;
            payload = udp + 8
        in if payload > length data then None
           else Some (handle_packet now (drop payload data)
                       \<lparr>pa_ip = rd_be32 (bslice (ip + 12) 4 data), pa_port = rd_be16 (bslice udp 2 data)\<rparr> st)
      else Some ([], st))"

section \<open>Who is in a group\<close>

definition members_of :: "relay_state \<Rightarrow> u32 \<Rightarrow> Member list" where
  "members_of st t = (case rs_groups st t of None \<Rightarrow> [] | Some ms \<Rightarrow> ms)"

definition seen :: "Member list \<Rightarrow> PeerAddr \<Rightarrow> int \<Rightarrow> bool" where
  "seen ms a s \<longleftrightarrow> \<lparr>mb_addr = a, mb_last_seen = s\<rparr> \<in> set ms"

lemma seen_addr: "(\<exists>s. seen ms a s) \<longleftrightarrow> a \<in> mb_addr ` set ms"
proof
  assume "a \<in> mb_addr ` set ms"
  then obtain m where "m \<in> set ms" "a = mb_addr m" by blast
  moreover have "m = \<lparr>mb_addr = mb_addr m, mb_last_seen = mb_last_seen m\<rparr>" by (cases m) simp
  ultimately have "seen ms a (mb_last_seen m)" unfolding seen_def by metis
  then show "\<exists>s. seen ms a s" by blast
qed (force simp: seen_def)

lemma same_addr_eq [simp]: "same_addr a b \<longleftrightarrow> a = (b :: PeerAddr)"
  by (cases a; cases b) (simp add: same_addr_def)

lemma refresh_addrs:
  "mb_addr ` set (refresh_member src now ms) = insert src (mb_addr ` set ms)"
  by (induction ms) auto

lemma refresh_distinct: "distinct (map mb_addr ms) \<Longrightarrow> distinct (map mb_addr (refresh_member src now ms))"
proof (induction ms)
  case (Cons m ms)
  then show ?case using refresh_addrs [of src now ms] by (auto simp: image_iff)
qed simp

lemma refresh_seen:
  "distinct (map mb_addr ms) \<Longrightarrow>
   seen (refresh_member src now ms) a s \<longleftrightarrow> (if a = src then s = now else seen ms a s)"
proof (induction ms)
  case (Cons m ms)
  then show ?case by (cases m) (auto simp: seen_def image_iff)
qed (auto simp: seen_def)

text \<open>A packet's effect on one group, without the sweep and with it.\<close>

definition step_group :: "int \<Rightarrow> bytes \<Rightarrow> PeerAddr \<Rightarrow> u32 \<Rightarrow> Member list \<Rightarrow> Member list" where
  "step_group now buf src t ms = (if decode_relay_register buf = Some t then refresh_member src now ms else ms)"

lemma handle_packet_group:
  "members_of (snd (handle_packet now buf src st)) t =
     (if now \<noteq> rs_last_sweep st
      then filter (\<lambda>m. \<not> (now - mb_last_seen m > kMemberTtlSeconds)) (step_group now buf src t (members_of st t))
      else step_group now buf src t (members_of st t))"
  by (auto simp: handle_packet_def Let_def step_group_def sweep_members_def members_of_def split: option.splits)

lemma handle_packet_sweep: "rs_last_sweep (snd (handle_packet now buf src st)) = now"
  by (simp add: handle_packet_def Let_def split: option.split prod.split)

section \<open>Runs\<close>

text \<open>A history of packets, in order of arrival, and the last time an address joined a topic in it.\<close>

type_synonym event = "int \<times> PeerAddr \<times> bytes"

definition relay_run :: "event list \<Rightarrow> relay_state \<Rightarrow> relay_state" where
  "relay_run evs st = fold (\<lambda>(now, src, buf) st. snd (handle_packet now buf src st)) evs st"

definition last_reg :: "u32 \<Rightarrow> PeerAddr \<Rightarrow> event list \<Rightarrow> int option" where
  "last_reg t a evs =
     (case filter (\<lambda>(now, src, buf). decode_relay_register buf = Some t \<and> src = a) (rev evs) of
        [] \<Rightarrow> None | e # _ \<Rightarrow> Some (fst e))"

lemma last_reg_snoc:
  "last_reg t a (evs @ [(now, src, buf)]) =
     (if decode_relay_register buf = Some t \<and> src = a then Some now else last_reg t a evs)"
  by (simp add: last_reg_def)

lemma relay_run_snoc:
  "relay_run (evs @ [(now, src, buf)]) st = snd (handle_packet now buf src (relay_run evs st))"
  by (simp add: relay_run_def)

lemma relay_run_members:
  assumes "sorted (t0 # map fst evs)"
  shows "rs_last_sweep (relay_run evs (relay_start t0)) = last (t0 # map fst evs) \<and>
    distinct (map mb_addr (members_of (relay_run evs (relay_start t0)) t)) \<and>
    (\<forall>a s. seen (members_of (relay_run evs (relay_start t0)) t) a s \<longleftrightarrow>
       last_reg t a evs = Some s \<and> last (t0 # map fst evs) - s \<le> 30)"
  using assms
proof (induction evs rule: rev_induct)
  case Nil
  then show ?case by (simp add: relay_run_def relay_start_def last_reg_def seen_def members_of_def)
next
  case (snoc e evs)
  obtain now src buf where e: "e = (now, src, buf)" by (cases e)
  let ?st = "relay_run evs (relay_start t0)" and ?last = "last (t0 # map fst evs)"
  have "sorted ((t0 # map fst evs) @ [now])" using snoc.prems by (simp add: e)
  then have le: "?last \<le> now" and "sorted (t0 # map fst evs)"
    using last_in_set [of "t0 # map fst evs"] unfolding sorted_append
    by (auto split: if_splits)
  then have ih: "rs_last_sweep ?st = ?last" "distinct (map mb_addr (members_of ?st t))"
    "\<And>a s. seen (members_of ?st t) a s \<longleftrightarrow> last_reg t a evs = Some s \<and> ?last - s \<le> 30"
    using snoc.IH by auto
  let ?g = "step_group now buf src t (members_of ?st t)"
  have d: "distinct (map mb_addr ?g)" using ih(2) by (simp add: step_group_def refresh_distinct)
  have g: "seen ?g a s \<longleftrightarrow> last_reg t a (evs @ [e]) = Some s \<and> ?last - s \<le> 30" for a s
    using le ih(3) [of a s] refresh_seen [OF ih(2), of src now a s]
    by (auto simp: e last_reg_snoc step_group_def)
  have "distinct (map mb_addr (filter P ?g))" for P
    using d by (induction ?g) (auto simp: distinct_map inj_on_def)
  then show ?case
    using d g le ih(1)
    by (auto simp: e relay_run_snoc handle_packet_sweep handle_packet_group seen_def kMemberTtlSeconds_def)
qed

lemma frame_forwarded:
  assumes "decode_frame buf = Inr f"
  shows "fst (handle_packet now buf src st) =
    map (\<lambda>m. (mb_addr m, buf)) (filter (\<lambda>m. mb_addr m \<noteq> src) (members_of st (hdr_topic_id (df_header f))))"
proof -
  have peek: "peek_frame_topic_id buf = Some (hdr_topic_id (df_header f))"
    using assms by (auto simp: decode_frame_iff peek_frame_bytes)
  then have "decode_relay_register buf = None"
    by (auto simp: peek_frame_topic_id_def decode_relay_register_def relay_consts)
  with peek show ?thesis
    by (simp add: handle_packet_def Let_def members_of_def split: option.split)
qed

text \<open>A REGISTER in an ordered history is not newer than the last one.\<close>

lemma last_reg_after:
  assumes "(s, a, buf) \<in> set evs" and "decode_relay_register buf = Some t" and "sorted (map fst evs)"
  shows "\<exists>s'. last_reg t a evs = Some s' \<and> s \<le> s' \<and> s' \<in> set (map fst evs)"
  using assms
proof (induction evs rule: rev_induct)
  case (snoc e evs)
  obtain now src b where e: "e = (now, src, b)" by (cases e)
  have le: "s \<le> now" if "(s, a, buf) \<in> set evs" using snoc.prems(3) that by (force simp: e sorted_append)
  show ?case
    using snoc le by (auto simp: e last_reg_snoc sorted_append)
qed simp

text \<open>
  C19: Over any history of packets with a clock that does not run backwards, the relay forwards a data
  frame unchanged, exactly once, to each address other than the sender's whose most recent REGISTER
  for the frame's topic was at most thirty seconds old when the packet before the frame arrived; to
  nobody else.
\<close>

theorem relay_forwards_to_registered:
  assumes "sorted (t0 # map fst evs)" and "decode_frame buf = Inr f"
  shows "let out = fst (handle_packet now buf src (relay_run evs (relay_start t0)))
    in distinct out \<and> set out = {(a, buf) | a. a \<noteq> src \<and>
         (\<exists>s. last_reg (hdr_topic_id (df_header f)) a evs = Some s \<and> last (t0 # map fst evs) - s \<le> 30)}"
proof -
  let ?t = "hdr_topic_id (df_header f)" and ?st = "relay_run evs (relay_start t0)"
  note out = frame_forwarded [OF assms(2), of now src ?st]
  from relay_run_members [OF assms(1), of ?t]
  have d: "distinct (map mb_addr (members_of ?st ?t))"
    and g: "\<And>a s. seen (members_of ?st ?t) a s \<longleftrightarrow> last_reg ?t a evs = Some s \<and> last (t0 # map fst evs) - s \<le> 30"
    by blast+
  have "set (fst (handle_packet now buf src ?st)) = {(a, buf) | a. a \<noteq> src \<and>
      (\<exists>s. last_reg ?t a evs = Some s \<and> last (t0 # map fst evs) - s \<le> 30)}"
    unfolding out g [symmetric] seen_addr by auto
  moreover have "distinct (fst (handle_packet now buf src ?st))"
    using d unfolding out by (auto simp: distinct_map inj_on_def)
  ultimately show ?thesis by (simp add: Let_def)
qed

theorem relay_forwards_to_registered_witness:
  "let evs = [(10, \<lparr>pa_ip = 1, pa_port = 2\<rparr>, encode_relay_register 7 6)];
       out = fst (handle_packet 12 (frame_bytes 7 1 []) \<lparr>pa_ip = 3, pa_port = 4\<rparr> (relay_run evs (relay_start 9)))
   in distinct out \<and> set out = {(a, frame_bytes 7 1 []) | a. a \<noteq> \<lparr>pa_ip = 3, pa_port = 4\<rparr> \<and>
        (\<exists>s. last_reg (hdr_topic_id (df_header (frame_value 7 1 []))) a evs = Some s \<and>
           last (9 # map fst evs) - s \<le> 30)}"
  unfolding Let_def
  using relay_forwards_to_registered [of 9 "[(10, \<lparr>pa_ip = 1, pa_port = 2\<rparr>, encode_relay_register 7 6)]"
      "frame_bytes 7 1 []" "frame_value 7 1 []" 12 "\<lparr>pa_ip = 3, pa_port = 4\<rparr>"]
  by (simp add: decode_frame_bytes Let_def)

text \<open>
  C33: The relay never looks beyond a frame that the filter program hands to it: every redirected
  frame has its whole UDP header inside it, IP options included, and the relay processes the bytes
  after that header, from the address in the headers.
\<close>

theorem xdp_redirected_in_bounds:
  assumes "relay_xdp_prog port bound data"
  shows "case xdp_frame now data st of
      None \<Rightarrow> False
    | Some r \<Rightarrow> r = ([], st) \<and> length data \<le> 42 \<or>
        (\<exists>ihl \<le> 60. 22 + ihl \<le> length data \<and>
           r = handle_packet now (drop (22 + ihl) data)
             \<lparr>pa_ip = rd_be32 (bslice 26 4 data), pa_port = rd_be16 (bslice (14 + ihl) 2 data)\<rparr> st)"
proof -
  let ?ihl = "unat (data ! 14 AND 0x0F) * 4"
  have "data ! 14 AND 0x0F \<le> 0x0F" by (rule word_and_le1)
  then have le: "?ihl \<le> 60" by (simp add: word_le_nat_alt)
  have "22 + ?ihl \<le> length data"
    using assms by (auto simp: relay_xdp_prog_def Let_def split: if_splits)
  then show ?thesis
    using le by (auto simp: xdp_frame_def Let_def add.commute intro!: exI [of _ ?ihl])
qed

theorem xdp_redirected_in_bounds_witness:
  "let data = replicate 12 0 @ [0x08, 0, 0x45] @ replicate 8 0 @ [17] @ replicate 10 0 @
         [0, 9, 0x20, 0xFE, 0, 14, 0, 0] @ encode_relay_register 7 6
   in case xdp_frame 1 data (relay_start 0) of
      None \<Rightarrow> False
    | Some r \<Rightarrow> r = ([], relay_start 0) \<and> length data \<le> 42 \<or>
        (\<exists>ihl \<le> 60. 22 + ihl \<le> length data \<and>
           r = handle_packet 1 (drop (22 + ihl) data)
             \<lparr>pa_ip = rd_be32 (bslice 26 4 data), pa_port = rd_be16 (bslice (14 + ihl) 2 data)\<rparr> (relay_start 0))"
  unfolding Let_def
  by (rule xdp_redirected_in_bounds [of "Some 8446" True]) code_simp

text \<open>
  A REGISTER packet that Ethernet padded is lost on this path: the relay takes everything after
  the UDP header for the packet, so with any padding the 6-byte REGISTER is not recognised; nothing is
  sent and no group gains a member.
\<close>

theorem xdp_padding_drops_register:
  assumes "length hdr = 42" and "hdr ! 14 AND 0x0F = 5" and "pad \<noteq> []"
  shows "\<exists>st'. xdp_frame now (hdr @ encode_relay_register t 6 @ pad) st = Some ([], st') \<and>
    (\<forall>u. set (members_of st' u) \<subseteq> set (members_of st u))"
proof -
  let ?buf = "encode_relay_register t 6 @ pad"
  let ?src = "\<lparr>pa_ip = rd_be32 (bslice 26 4 (hdr @ ?buf)), pa_port = rd_be16 (bslice 34 2 (hdr @ ?buf))\<rparr>"
  have run: "xdp_frame now (hdr @ ?buf) st = Some (handle_packet now ?buf ?src st)"
    using assms(1,2) by (simp add: xdp_frame_def nth_append encode_relay_register_def)
  have none: "decode_relay_register ?buf = None" "peek_frame_topic_id ?buf = None"
    using assms(3) by (simp_all add: decode_relay_register_def peek_frame_topic_id_def
        encode_relay_register_def relay_consts)
  then have out: "fst (handle_packet now ?buf ?src st) = []"
    by (simp add: handle_packet_def Let_def)
  have "set (members_of (snd (handle_packet now ?buf ?src st)) u) \<subseteq> set (members_of st u)" for u
    by (auto simp: handle_packet_group step_group_def none)
  then show ?thesis using run out by (metis prod.collapse)
qed

theorem xdp_padding_drops_register_witness:
  "\<exists>st'. xdp_frame 1 ((replicate 12 0 @ [0x08, 0, 0x45] @ replicate 27 0) @ encode_relay_register 7 6 @ replicate 12 0)
      (relay_start 0) = Some ([], st') \<and>
    (\<forall>u. set (members_of st' u) \<subseteq> set (members_of (relay_start 0) u))"
  by (rule xdp_padding_drops_register) (simp_all add: nth_append)

end
