(* ===== verification/Shm_Transport.thy ===== *)
theory Shm_Transport
  imports Wire
begin

text \<open>
  The same-host transport, \<^verbatim>\<open>cpp/include/relink/shm_transport.hpp\<close>: a single-producer single-consumer
  ring in shared memory. A segment is its header and its slots, each slot the bytes the code addresses
  as \<^verbatim>\<open>slots_ + i * slot_size_\<close>. Each operation is given twice: as a function, for a caller that runs
  alone, and as the sequence of its loads and stores on the segment, for the two processes side by
  side. The shared-memory calls of the operating system are parameters.
\<close>

definition kShmRingMagic :: u32 where "kShmRingMagic = 0x524C4B31"
definition kShmRingVersion :: u32 where "kShmRingVersion = 1"
definition kShmMaxPayload :: u32 where "kShmMaxPayload = 1400"
definition kShmDefaultCapacity :: u32 where "kShmDefaultCapacity = 1024"

record ShmRingHeader =
  sh_magic :: u32
  sh_version :: u32
  sh_slot_size :: u32
  sh_capacity :: u32
  sh_head :: u32
  sh_tail :: u32
  sh_creator_pid :: u32

record shm_segment =
  sg_hdr :: ShmRingHeader
  sg_slots :: "bytes list"

text \<open>A process's handle on a ring.\<close>

record ShmRing =
  sr_name :: string
  sr_mapped :: bool
  sr_creator :: bool
  sr_max_payload :: u32
  sr_slot_size :: u32

definition ShmRing_init :: ShmRing where
  "ShmRing_init = \<lparr>sr_name = '''', sr_mapped = False, sr_creator = False,
     sr_max_payload = kShmMaxPayload, sr_slot_size = kShmMaxPayload + 8\<rparr>"

section \<open>Push and pop\<close>

definition slot_write :: "nat \<Rightarrow> bytes \<Rightarrow> bytes \<Rightarrow> bytes" where
  "slot_write off data slot = take off slot @ data @ drop (off + length data) slot"

definition try_push :: "ShmRing \<Rightarrow> bytes \<Rightarrow> u32 \<Rightarrow> u32 \<Rightarrow> shm_segment \<Rightarrow> bool \<times> shm_segment" where
  "try_push r payload len seq_num seg =
     (if len > sr_max_payload r then (False, seg)
      else
        let tail = sh_tail (sg_hdr seg);
            head = sh_head (sg_hdr seg);
            next = (tail + 1) mod sh_capacity (sg_hdr seg)
        in if next = head then (False, seg)
           else
             let slot = sg_slots seg ! unat tail;
                 slot = slot_write 0 (le32 seq_num) slot;
                 slot = slot_write 4 (le32 len) slot;
                 slot = slot_write 8 (take (unat len) payload) slot
             in (True, seg\<lparr>sg_slots := (sg_slots seg)[unat tail := slot],
                           sg_hdr := (sg_hdr seg)\<lparr>sh_tail := next\<rparr>\<rparr>))"

definition try_pop :: "shm_segment \<Rightarrow> (u32 \<times> bytes) option \<times> shm_segment" where
  "try_pop seg =
     (let head = sh_head (sg_hdr seg);
          tail = sh_tail (sg_hdr seg)
      in if head = tail then (None, seg)
         else
           let slot = sg_slots seg ! unat head;
               out_seq_num = rd32 (bslice 0 4 slot);
               out_len = rd32 (bslice 4 4 slot);
               out_payload = bslice 8 (unat out_len) slot
           in (Some (out_seq_num, out_payload),
               seg\<lparr>sg_hdr := (sg_hdr seg)\<lparr>sh_head := (head + 1) mod sh_capacity (sg_hdr seg)\<rparr>\<rparr>))"

text \<open>The variant without a copy calls \<open>fn\<close> on the slot before it advances \<^verbatim>\<open>head\<close>.\<close>

definition try_pop_zero_copy ::
  "(bytes \<Rightarrow> u32 \<Rightarrow> u32 \<Rightarrow> 's \<Rightarrow> 's) \<Rightarrow> 's \<Rightarrow> shm_segment \<Rightarrow> bool \<times> 's \<times> shm_segment" where
  "try_pop_zero_copy fn s seg =
     (let head = sh_head (sg_hdr seg);
          tail = sh_tail (sg_hdr seg)
      in if head = tail then (False, s, seg)
         else
           let slot = sg_slots seg ! unat head;
               seq_num = rd32 (bslice 0 4 slot);
               len = rd32 (bslice 4 4 slot);
               s = fn (bslice 8 (unat len) slot) len seq_num s
           in (True, s,
               seg\<lparr>sg_hdr := (sg_hdr seg)\<lparr>sh_head := (head + 1) mod sh_capacity (sg_hdr seg)\<rparr>\<rparr>))"

section \<open>Opening a ring\<close>

definition init_as_creator :: "u32 \<Rightarrow> u32 \<Rightarrow> ShmRing \<Rightarrow> ShmRingHeader" where
  "init_as_creator pid capacity r =
     \<lparr>sh_magic = kShmRingMagic, sh_version = kShmRingVersion, sh_slot_size = sr_slot_size r,
      sh_capacity = capacity, sh_head = 0, sh_tail = 0, sh_creator_pid = pid\<rparr>"

text \<open>
  One turn of the attacher's polling loop sees the header, whether the recorded owner is another
  process that is dead, whether the compare-and-swap of the magic wins, and whether the deadline has
  passed. The loop over a finite list of such turns: \<open>None\<close> when they do not decide.
\<close>

record poll_turn =
  pt_hdr :: ShmRingHeader
  pt_owner_dead :: bool
  pt_cas_wins :: bool
  pt_past_deadline :: bool

datatype open_result = OpenFailed | Attached | Stolen

fun attach_poll :: "u32 \<Rightarrow> u32 \<Rightarrow> poll_turn list \<Rightarrow> open_result option" where
  "attach_poll slot_size capacity [] = None"
| "attach_poll slot_size capacity (p # ps) =
     (if sh_magic (pt_hdr p) = kShmRingMagic then
        (if sh_version (pt_hdr p) \<noteq> kShmRingVersion \<or> sh_slot_size (pt_hdr p) \<noteq> slot_size
             \<or> sh_capacity (pt_hdr p) \<noteq> capacity then Some OpenFailed
         else if pt_owner_dead p then
           (if pt_cas_wins p then Some Stolen else attach_poll slot_size capacity ps)
         else Some Attached)
      else if pt_past_deadline p then Some OpenFailed
      else attach_poll slot_size capacity ps)"

datatype shm_open_excl = ExclCreated bool | ExclExists bool | ExclError

text \<open>
  \<^verbatim>\<open>open\<close>: \<open>ExclCreated\<close> carries whether \<^verbatim>\<open>ftruncate\<close> succeeds, \<open>ExclExists\<close> whether the second
  \<^verbatim>\<open>shm_open\<close> does. The result is the new handle, whether it is usable, and the header this process
  writes, if it becomes the creator. \<open>None\<close>: the polls given do not decide.
\<close>

definition shm_open ::
  "shm_open_excl \<Rightarrow> bool \<Rightarrow> u32 \<Rightarrow> poll_turn list \<Rightarrow> string \<Rightarrow> u32 \<Rightarrow> u32 \<Rightarrow> ShmRing \<Rightarrow>
   (bool \<times> ShmRing \<times> ShmRingHeader option) option" where
  "shm_open excl mmap_ok pid polls name capacity max_payload r =
     (let r = r\<lparr>sr_name := name, sr_max_payload := max_payload, sr_slot_size := 8 + max_payload\<rparr> in
      case excl of
        ExclError \<Rightarrow> Some (False, r, None)
      | ExclCreated trunc_ok \<Rightarrow>
          let r = r\<lparr>sr_creator := True\<rparr> in
          if \<not> trunc_ok \<or> \<not> mmap_ok then Some (False, r, None)
          else Some (True, r\<lparr>sr_mapped := True\<rparr>, Some (init_as_creator pid capacity r))
      | ExclExists reopened \<Rightarrow>
          if \<not> reopened then Some (False, r, None)
          else
            let r = r\<lparr>sr_creator := False\<rparr> in
            if \<not> mmap_ok then Some (False, r, None)
            else
              let r = r\<lparr>sr_mapped := True\<rparr> in
              (case attach_poll (sr_slot_size r) capacity polls of
                 None \<Rightarrow> None
               | Some OpenFailed \<Rightarrow> Some (False, r, None)
               | Some Attached \<Rightarrow> Some (True, r, None)
               | Some Stolen \<Rightarrow>
                   let r = r\<lparr>sr_creator := True\<rparr>
                   in Some (True, r, Some (init_as_creator pid capacity r))))"

definition shm_unlink_name :: "ShmRing \<Rightarrow> string option" where
  "shm_unlink_name r = (if sr_name r \<noteq> '''' then Some (sr_name r) else None)"

definition close_mapping :: "ShmRing \<Rightarrow> ShmRing" where
  "close_mapping r = (if sr_mapped r then r\<lparr>sr_mapped := False\<rparr> else r)"

section \<open>The two processes side by side\<close>

text \<open>
  The registers of a push in progress, and where each process stands: about to write the sequence
  number, the length, the payload, the tail; about to read the sequence number, the length, the
  payload, to store the head.
\<close>

record push_regs =
  pr_payload :: bytes
  pr_len :: u32
  pr_seq :: u32
  pr_tail :: u32
  pr_next :: u32

datatype producer = PIdle | PSeq push_regs | PLen push_regs | PPay push_regs | PTail push_regs

datatype consumer = CIdle | CSeq u32 | CLen u32 u32 | CPay u32 u32 u32 | CHead u32 u32 bytes

text \<open>\<open>pushed\<close> and \<open>popped\<close> record the messages of the calls that returned true, in order.\<close>

record spsc =
  sp_seg :: shm_segment
  sp_prod :: producer
  sp_cons :: consumer
  sp_pushed :: "(u32 \<times> bytes) list"
  sp_popped :: "(u32 \<times> bytes) list"

definition store_slot :: "u32 \<Rightarrow> nat \<Rightarrow> bytes \<Rightarrow> shm_segment \<Rightarrow> shm_segment" where
  "store_slot i off data seg =
     seg\<lparr>sg_slots := (sg_slots seg)[unat i := slot_write off data (sg_slots seg ! unat i)]\<rparr>"

definition producer_step :: "ShmRing \<Rightarrow> bytes \<Rightarrow> u32 \<Rightarrow> u32 \<Rightarrow> spsc \<Rightarrow> spsc" where
  "producer_step r payload len seq_num st =
     (case sp_prod st of
        PIdle \<Rightarrow>
          (if len > sr_max_payload r then st
           else
             let tail = sh_tail (sg_hdr (sp_seg st)); head = sh_head (sg_hdr (sp_seg st));
                 next = (tail + 1) mod sh_capacity (sg_hdr (sp_seg st))
             in if next = head then st
                else st\<lparr>sp_prod := PSeq \<lparr>pr_payload = payload, pr_len = len, pr_seq = seq_num,
                                        pr_tail = tail, pr_next = next\<rparr>\<rparr>)
      | PSeq p \<Rightarrow> st\<lparr>sp_seg := store_slot (pr_tail p) 0 (le32 (pr_seq p)) (sp_seg st), sp_prod := PLen p\<rparr>
      | PLen p \<Rightarrow> st\<lparr>sp_seg := store_slot (pr_tail p) 4 (le32 (pr_len p)) (sp_seg st), sp_prod := PPay p\<rparr>
      | PPay p \<Rightarrow> st\<lparr>sp_seg := store_slot (pr_tail p) 8 (take (unat (pr_len p)) (pr_payload p)) (sp_seg st),
                     sp_prod := PTail p\<rparr>
      | PTail p \<Rightarrow> st\<lparr>sp_seg := (sp_seg st)\<lparr>sg_hdr := (sg_hdr (sp_seg st))\<lparr>sh_tail := pr_next p\<rparr>\<rparr>,
                      sp_prod := PIdle,
                      sp_pushed := sp_pushed st @ [(pr_seq p, take (unat (pr_len p)) (pr_payload p))]\<rparr>)"

definition consumer_step :: "spsc \<Rightarrow> spsc" where
  "consumer_step st =
     (let hdr = sg_hdr (sp_seg st); slot = (\<lambda>h. sg_slots (sp_seg st) ! unat h) in
      case sp_cons st of
        CIdle \<Rightarrow> (if sh_head hdr = sh_tail hdr then st else st\<lparr>sp_cons := CSeq (sh_head hdr)\<rparr>)
      | CSeq h \<Rightarrow> st\<lparr>sp_cons := CLen h (rd32 (bslice 0 4 (slot h)))\<rparr>
      | CLen h s \<Rightarrow> st\<lparr>sp_cons := CPay h s (rd32 (bslice 4 4 (slot h)))\<rparr>
      | CPay h s l \<Rightarrow> st\<lparr>sp_cons := CHead h s (bslice 8 (unat l) (slot h))\<rparr>
      | CHead h s p \<Rightarrow> st\<lparr>sp_seg := (sp_seg st)\<lparr>sg_hdr := hdr\<lparr>sh_head := (h + 1) mod sh_capacity hdr\<rparr>\<rparr>,
                          sp_cons := CIdle, sp_popped := sp_popped st @ [(s, p)]\<rparr>)"

text \<open>Any interleaving of the two, with any messages to push, from a freshly initialised ring.\<close>

definition spsc_start :: "u32 \<Rightarrow> u32 \<Rightarrow> ShmRing \<Rightarrow> bytes list \<Rightarrow> spsc" where
  "spsc_start pid capacity r slots =
     \<lparr>sp_seg = \<lparr>sg_hdr = init_as_creator pid capacity r, sg_slots = slots\<rparr>, sp_prod = PIdle,
      sp_cons = CIdle, sp_pushed = [], sp_popped = []\<rparr>"

inductive spsc_reachable :: "ShmRing \<Rightarrow> spsc \<Rightarrow> spsc \<Rightarrow> bool" for r st0 where
  spsc_refl: "spsc_reachable r st0 st0"
| spsc_produce: "spsc_reachable r st0 st \<Longrightarrow> unat len \<le> length payload \<Longrightarrow>
    spsc_reachable r st0 (producer_step r payload len seq_num st)"
| spsc_consume: "spsc_reachable r st0 st \<Longrightarrow> spsc_reachable r st0 (consumer_step st)"

section \<open>Slots\<close>

lemma length_slot_write:
  "off + length d \<le> length s \<Longrightarrow> length (slot_write off d s) = length s"
  by (simp add: slot_write_def)

lemma slot_write_same:
  "off + length d \<le> length s \<Longrightarrow> n = length d \<Longrightarrow> bslice off n (slot_write off d s) = d"
  by (simp add: slot_write_def bslice_def)

lemma slot_write_before:
  "o1 + n \<le> off \<Longrightarrow> off \<le> length s \<Longrightarrow> bslice o1 n (slot_write off d s) = bslice o1 n s"
  by (simp add: slot_write_def bslice_def take_drop min_def)

definition slot_holds :: "bytes \<Rightarrow> u32 \<times> bytes \<Rightarrow> bool" where
  "slot_holds slot m \<longleftrightarrow> bslice 0 4 slot = le32 (fst m) \<and>
     (\<exists>len. bslice 4 4 slot = le32 len \<and> unat len = length (snd m)) \<and>
     bslice 8 (length (snd m)) slot = snd m"

section \<open>Indices\<close>

lemma mod_apart: "i < t \<Longrightarrow> t < i + c \<Longrightarrow> i mod c \<noteq> t mod c" for i t c :: nat
proof
  assume "i < t" "t < i + c" "i mod c = t mod c"
  then have "c dvd t - i" using mod_eq_dvd_iff_nat [of i t c] by simp
  then show False using \<open>i < t\<close> \<open>t < i + c\<close> by (auto dest: dvd_imp_le)
qed

lemma unat_next:
  fixes x c :: u32
  assumes "unat x = n mod unat c" and "0 < unat c"
  shows "unat ((x + 1) mod c) = Suc n mod unat c"
proof -
  have "unat x < unat c" using assms by simp
  then have "unat x + 1 < 2 ^ 32" using unsigned_less [of c, where ?'a = nat] by simp
  then have "unat (x + 1) = unat x + 1" by (simp add: unat_word_ariths)
  then show ?thesis using assms by (simp add: unat_mod_distrib mod_Suc_eq)
qed

section \<open>The invariant\<close>

definition ring_ok :: "ShmRing \<Rightarrow> shm_segment \<Rightarrow> (u32 \<times> bytes) list \<Rightarrow> nat \<Rightarrow> bool" where
  "ring_ok r seg pushed h \<longleftrightarrow>
     (let cap = unat (sh_capacity (sg_hdr seg)); t = length pushed in
      0 < cap \<and> length (sg_slots seg) = cap \<and>
      (\<forall>s \<in> set (sg_slots seg). length s = 8 + unat (sr_max_payload r)) \<and>
      unat (sh_head (sg_hdr seg)) = h mod cap \<and> unat (sh_tail (sg_hdr seg)) = t mod cap \<and>
      h \<le> t \<and> t < h + cap \<and>
      (\<forall>i. h \<le> i \<and> i < t \<longrightarrow> slot_holds (sg_slots seg ! (i mod cap)) (pushed ! i)))"

definition prod_ok :: "ShmRing \<Rightarrow> shm_segment \<Rightarrow> nat \<Rightarrow> nat \<Rightarrow> producer \<Rightarrow> bool" where
  "prod_ok r seg t h pc \<longleftrightarrow>
     (let hdr = sg_hdr seg;
          claim = (\<lambda>p. pr_tail p = sh_tail hdr \<and> pr_next p = (sh_tail hdr + 1) mod sh_capacity hdr \<and>
            Suc t < h + unat (sh_capacity hdr) \<and> pr_len p \<le> sr_max_payload r \<and>
            unat (pr_len p) \<le> length (pr_payload p));
          slot = sg_slots seg ! unat (sh_tail hdr);
          seqd = (\<lambda>p. bslice 0 4 slot = le32 (pr_seq p));
          lend = (\<lambda>p. bslice 4 4 slot = le32 (pr_len p))
      in case pc of
           PIdle \<Rightarrow> True
         | PSeq p \<Rightarrow> claim p
         | PLen p \<Rightarrow> claim p \<and> seqd p
         | PPay p \<Rightarrow> claim p \<and> seqd p \<and> lend p
         | PTail p \<Rightarrow> claim p \<and> slot_holds slot (pr_seq p, take (unat (pr_len p)) (pr_payload p)))"

definition cons_ok :: "shm_segment \<Rightarrow> (u32 \<times> bytes) list \<Rightarrow> nat \<Rightarrow> consumer \<Rightarrow> bool" where
  "cons_ok seg pushed h pc \<longleftrightarrow>
     (let avail = (\<lambda>x. x = sh_head (sg_hdr seg) \<and> h < length pushed) in
      case pc of
        CIdle \<Rightarrow> True
      | CSeq x \<Rightarrow> avail x
      | CLen x s \<Rightarrow> avail x \<and> s = fst (pushed ! h)
      | CPay x s l \<Rightarrow> avail x \<and> s = fst (pushed ! h) \<and> unat l = length (snd (pushed ! h))
      | CHead x s p \<Rightarrow> avail x \<and> (s, p) = pushed ! h)"

definition spsc_ok :: "ShmRing \<Rightarrow> spsc \<Rightarrow> bool" where
  "spsc_ok r st \<longleftrightarrow>
     (let h = length (sp_popped st) in
      ring_ok r (sp_seg st) (sp_pushed st) h \<and> sp_popped st = take h (sp_pushed st) \<and>
      prod_ok r (sp_seg st) (length (sp_pushed st)) h (sp_prod st) \<and>
      cons_ok (sp_seg st) (sp_pushed st) h (sp_cons st))"

text \<open>Storing into the producer's slot leaves the ring's content alone.\<close>

lemma store_ring_ok:
  assumes "ring_ok r seg pushed h" and "Suc (length pushed) < h + unat (sh_capacity (sg_hdr seg))"
    and "off + length d \<le> 8 + unat (sr_max_payload r)"
  shows "ring_ok r (store_slot (sh_tail (sg_hdr seg)) off d seg) pushed h"
proof -
  let ?c = "unat (sh_capacity (sg_hdr seg))" and ?t = "length pushed"
  have tail: "unat (sh_tail (sg_hdr seg)) = ?t mod ?c" "0 < ?c" "length (sg_slots seg) = ?c"
    using assms(1) by (simp_all add: ring_ok_def Let_def)
  have len: "length (sg_slots seg ! (?t mod ?c)) = 8 + unat (sr_max_payload r)"
    using assms(1) tail by (simp add: ring_ok_def Let_def)
  have "\<forall>s \<in> set (sg_slots (store_slot (sh_tail (sg_hdr seg)) off d seg)).
      length s = 8 + unat (sr_max_payload r)"
    using assms(1,3) len tail by (auto simp: store_slot_def ring_ok_def Let_def length_slot_write
        dest!: set_update_subset_insert [THEN subsetD])
  moreover have "?t mod ?c \<noteq> i mod ?c" if "h \<le> i" "i < ?t" for i
    using mod_apart [of i ?t ?c] that assms(2) by auto
  ultimately show ?thesis
    using assms(1) tail by (auto simp: ring_ok_def Let_def store_slot_def)
qed

lemma store_cons_ok: "cons_ok (store_slot i off d seg) pushed h pc = cons_ok seg pushed h pc"
  by (simp add: cons_ok_def store_slot_def)

lemma store_slot_tail:
  assumes "ring_ok r seg pushed h"
  shows "sg_slots (store_slot (sh_tail (sg_hdr seg)) off d seg) ! unat (sh_tail (sg_hdr seg)) =
    slot_write off d (sg_slots seg ! unat (sh_tail (sg_hdr seg)))"
    and "length (sg_slots seg ! unat (sh_tail (sg_hdr seg))) = 8 + unat (sr_max_payload r)"
proof -
  have "unat (sh_tail (sg_hdr seg)) < length (sg_slots seg)"
    using assms by (simp add: ring_ok_def Let_def)
  then show "sg_slots (store_slot (sh_tail (sg_hdr seg)) off d seg) ! unat (sh_tail (sg_hdr seg)) =
    slot_write off d (sg_slots seg ! unat (sh_tail (sg_hdr seg)))"
    and "length (sg_slots seg ! unat (sh_tail (sg_hdr seg))) = 8 + unat (sr_max_payload r)"
    using assms by (simp_all add: store_slot_def ring_ok_def Let_def)
qed

lemma store_hdr [simp]: "sg_hdr (store_slot i off d seg) = sg_hdr seg"
  by (simp add: store_slot_def)

text \<open>Publishing the written slot, and releasing the read one.\<close>

lemma tail_ring_ok:
  assumes "ring_ok r seg pushed h" and "Suc (length pushed) < h + unat (sh_capacity (sg_hdr seg))"
    and "slot_holds (sg_slots seg ! unat (sh_tail (sg_hdr seg))) m"
  shows "ring_ok r (seg\<lparr>sg_hdr := (sg_hdr seg)\<lparr>sh_tail := (sh_tail (sg_hdr seg) + 1) mod sh_capacity (sg_hdr seg)\<rparr>\<rparr>)
    (pushed @ [m]) h"
proof -
  let ?c = "unat (sh_capacity (sg_hdr seg))"
  have tail: "unat (sh_tail (sg_hdr seg)) = length pushed mod ?c" "0 < ?c"
    using assms(1) by (simp_all add: ring_ok_def Let_def)
  have "slot_holds (sg_slots seg ! (i mod ?c)) ((pushed @ [m]) ! i)"
    if "h \<le> i" "i < Suc (length pushed)" for i
    using that assms(1,3) tail by (cases "i = length pushed") (auto simp: ring_ok_def Let_def nth_append)
  then show ?thesis
    using assms(1,2) unat_next [OF tail] by (simp add: ring_ok_def Let_def)
qed

lemma head_ring_ok:
  assumes "ring_ok r seg pushed h" and "h < length pushed"
  shows "ring_ok r (seg\<lparr>sg_hdr := (sg_hdr seg)\<lparr>sh_head := (sh_head (sg_hdr seg) + 1) mod sh_capacity (sg_hdr seg)\<rparr>\<rparr>)
    pushed (Suc h)"
proof -
  let ?c = "unat (sh_capacity (sg_hdr seg))"
  have head: "unat (sh_head (sg_hdr seg)) = h mod ?c" "0 < ?c"
    using assms(1) by (simp_all add: ring_ok_def Let_def)
  show ?thesis
    using assms unat_next [OF head] by (auto simp: ring_ok_def Let_def)
qed

lemma full_test:
  assumes "ring_ok r seg pushed h"
  shows "(sh_tail (sg_hdr seg) + 1) mod sh_capacity (sg_hdr seg) = sh_head (sg_hdr seg) \<longleftrightarrow>
    Suc (length pushed) = h + unat (sh_capacity (sg_hdr seg))"
proof -
  let ?c = "unat (sh_capacity (sg_hdr seg))" and ?t = "length pushed"
  have i: "unat (sh_tail (sg_hdr seg)) = ?t mod ?c" "unat (sh_head (sg_hdr seg)) = h mod ?c" "0 < ?c"
    "h \<le> ?t" "?t < h + ?c"
    using assms by (simp_all add: ring_ok_def Let_def)
  have "(sh_tail (sg_hdr seg) + 1) mod sh_capacity (sg_hdr seg) = sh_head (sg_hdr seg) \<longleftrightarrow>
      Suc ?t mod ?c = h mod ?c"
    unfolding word_unat_eq_iff using unat_next [OF i(1,3)] i(2) by simp
  also have "\<dots> \<longleftrightarrow> Suc ?t = h + ?c"
    using mod_apart [of h "Suc ?t" ?c] i by (cases "Suc ?t = h + ?c") auto
  finally show ?thesis .
qed

lemma empty_test:
  assumes "ring_ok r seg pushed h"
  shows "sh_head (sg_hdr seg) = sh_tail (sg_hdr seg) \<longleftrightarrow> h = length pushed"
proof -
  let ?c = "unat (sh_capacity (sg_hdr seg))" and ?t = "length pushed"
  have i: "unat (sh_tail (sg_hdr seg)) = ?t mod ?c" "unat (sh_head (sg_hdr seg)) = h mod ?c"
    "h \<le> ?t" "?t < h + ?c"
    using assms by (simp_all add: ring_ok_def Let_def)
  then show ?thesis
    unfolding word_unat_eq_iff using mod_apart [of h ?t ?c] by (cases "h = ?t") auto
qed

lemma slot_of_head:
  assumes "ring_ok r seg pushed h" and "h < length pushed"
  shows "slot_holds (sg_slots seg ! unat (sh_head (sg_hdr seg))) (pushed ! h)"
  using assms by (simp add: ring_ok_def Let_def)

lemma spsc_producer_ok:
  assumes "spsc_ok r st" and "unat len \<le> length payload"
  shows "spsc_ok r (producer_step r payload len seq_num st)"
proof -
  let ?seg = "sp_seg st" and ?h = "length (sp_popped st)"
  have ok: "ring_ok r ?seg (sp_pushed st) ?h" "sp_popped st = take ?h (sp_pushed st)"
    "prod_ok r ?seg (length (sp_pushed st)) ?h (sp_prod st)" "cons_ok ?seg (sp_pushed st) ?h (sp_cons st)"
    using assms(1) by (simp_all add: spsc_ok_def Let_def)
  have room: "Suc (length (sp_pushed st)) \<noteq> ?h + unat (sh_capacity (sg_hdr ?seg)) \<Longrightarrow>
      Suc (length (sp_pushed st)) < ?h + unat (sh_capacity (sg_hdr ?seg))"
    using ok(1) by (simp add: ring_ok_def Let_def)
  note store = store_ring_ok [OF ok(1)] store_slot_tail [OF ok(1)]
  show ?thesis
  proof (cases "sp_prod st")
    case PIdle
    then show ?thesis
      using assms ok room full_test [OF ok(1)]
      by (auto simp: producer_step_def spsc_ok_def Let_def prod_ok_def not_less)
  next
    case (PSeq p)
    then show ?thesis
      using ok store by (simp add: producer_step_def spsc_ok_def Let_def prod_ok_def store_cons_ok slot_write_same)
  next
    case (PLen p)
    then show ?thesis
      using ok store by (simp add: producer_step_def spsc_ok_def Let_def prod_ok_def store_cons_ok
          slot_write_same slot_write_before)
  next
    case (PPay p)
    then have c: "pr_tail p = sh_tail (sg_hdr ?seg)" "unat (pr_len p) \<le> length (pr_payload p)"
      "unat (pr_len p) \<le> unat (sr_max_payload r)"
      using ok(3) by (simp_all add: prod_ok_def Let_def word_le_nat_alt)
    then have "slot_holds (slot_write 8 (take (unat (pr_len p)) (pr_payload p)) (sg_slots ?seg ! unat (pr_tail p)))
        (pr_seq p, take (unat (pr_len p)) (pr_payload p))"
      using ok(3) PPay store(3) by (auto simp: prod_ok_def Let_def slot_holds_def slot_write_same slot_write_before min_def)
    then show ?thesis
      using ok store PPay c by (simp add: producer_step_def spsc_ok_def Let_def prod_ok_def store_cons_ok)
  next
    case (PTail p)
    then show ?thesis
      using ok tail_ring_ok [OF ok(1)]
      by (auto simp: producer_step_def spsc_ok_def Let_def prod_ok_def cons_ok_def nth_append
          split: consumer.splits)
  qed
qed

lemma spsc_consumer_ok:
  assumes "spsc_ok r st"
  shows "spsc_ok r (consumer_step st)"
proof -
  let ?seg = "sp_seg st" and ?h = "length (sp_popped st)"
  have ok: "ring_ok r ?seg (sp_pushed st) ?h" "sp_popped st = take ?h (sp_pushed st)"
    "prod_ok r ?seg (length (sp_pushed st)) ?h (sp_prod st)" "cons_ok ?seg (sp_pushed st) ?h (sp_cons st)"
    using assms by (simp_all add: spsc_ok_def Let_def)
  have le: "?h \<le> length (sp_pushed st)" using ok(1) by (simp add: ring_ok_def Let_def)
  note slot = slot_of_head [OF ok(1)]
  show ?thesis
  proof (cases "sp_cons st")
    case CIdle
    then show ?thesis
      using assms ok le empty_test [OF ok(1)]
      by (auto simp: consumer_step_def spsc_ok_def Let_def cons_ok_def)
  next
    case (CSeq x)
    then show ?thesis
      using ok slot by (simp add: consumer_step_def spsc_ok_def Let_def cons_ok_def slot_holds_def)
  next
    case (CLen x s)
    then show ?thesis
      using ok slot by (auto simp: consumer_step_def spsc_ok_def Let_def cons_ok_def slot_holds_def)
  next
    case (CPay x s l)
    then show ?thesis
      using ok slot by (auto simp: consumer_step_def spsc_ok_def Let_def cons_ok_def slot_holds_def)
  next
    case (CHead x s p)
    then have c: "x = sh_head (sg_hdr ?seg)" "?h < length (sp_pushed st)" "(s, p) = sp_pushed st ! ?h"
      using ok(4) by (simp_all add: cons_ok_def Let_def)
    have "take (Suc ?h) (sp_pushed st) = sp_popped st @ [(s, p)]"
      using c ok(2) by (metis take_Suc_conv_app_nth)
    then show ?thesis
      using CHead c ok head_ring_ok [OF ok(1) c(2)]
      by (auto simp: consumer_step_def spsc_ok_def Let_def cons_ok_def prod_ok_def split: producer.splits)
  qed
qed

lemma spsc_start_ok:
  assumes "0 < capacity" and "length slots = unat capacity"
    and "\<forall>s \<in> set slots. length s = 8 + unat (sr_max_payload r)"
  shows "spsc_ok r (spsc_start pid capacity r slots)"
proof -
  have "0 < unat capacity" using assms(1) by (simp add: word_less_nat_alt)
  then show ?thesis
    using assms(2,3) by (simp add: spsc_ok_def spsc_start_def ring_ok_def init_as_creator_def Let_def
        prod_ok_def cons_ok_def)
qed

lemma spsc_reachable_ok:
  "spsc_reachable r st0 st \<Longrightarrow> spsc_ok r st0 \<Longrightarrow> spsc_ok r st"
  by (induction rule: spsc_reachable.induct) (simp_all add: spsc_producer_ok spsc_consumer_ok)

text \<open>
  C5: The shared-memory ring is a correct queue between two processes: in every interleaving of the
  loads and stores of a producer and a consumer, starting from an initialised ring, what has been
  popped is a prefix of what has been pushed, so no message is lost, duplicated, reordered or torn,
  and fewer than \<^verbatim>\<open>capacity\<close> messages are in flight.
\<close>

theorem spsc_popped_is_prefix:
  assumes "spsc_reachable r (spsc_start pid capacity r slots) st"
    and "0 < capacity" and "length slots = unat capacity"
    and "\<forall>s \<in> set slots. length s = 8 + unat (sr_max_payload r)"
  shows "\<exists>in_flight. sp_pushed st = sp_popped st @ in_flight \<and> length in_flight < unat (sh_capacity (sg_hdr (sp_seg st)))"
proof -
  have "spsc_ok r st" by (rule spsc_reachable_ok [OF assms(1) spsc_start_ok [OF assms(2-)]])
  then have pre: "sp_popped st = take (length (sp_popped st)) (sp_pushed st)"
    and len: "length (sp_popped st) \<le> length (sp_pushed st)"
      "length (sp_pushed st) < length (sp_popped st) + unat (sh_capacity (sg_hdr (sp_seg st)))"
    by (simp_all add: spsc_ok_def ring_ok_def Let_def)
  let ?q = "drop (length (sp_popped st)) (sp_pushed st)"
  have "sp_pushed st = sp_popped st @ ?q" using pre by (metis append_take_drop_id)
  moreover have "length ?q < unat (sh_capacity (sg_hdr (sp_seg st)))" using len by simp
  ultimately show ?thesis by blast
qed

text \<open>A process that runs alone performs the whole operation.\<close>

lemma five_steps: "(f ^^ 5) x = f (f (f (f (f x))))"
proof -
  have "(5 :: nat) = Suc (Suc (Suc (Suc (Suc 0))))" by simp
  then show ?thesis by (simp only: funpow.simps comp_def id_def)
qed

lemma push_alone:
  assumes "sp_prod st = PIdle" and "unat (sh_tail (sg_hdr (sp_seg st))) < length (sg_slots (sp_seg st))"
  shows "(producer_step r payload len seq_num ^^ 5) st =
    (let (ok, seg) = try_push r payload len seq_num (sp_seg st)
     in if ok then st\<lparr>sp_seg := seg, sp_pushed := sp_pushed st @ [(seq_num, take (unat len) payload)]\<rparr> else st)"
proof -
  let ?hdr = "sg_hdr (sp_seg st)" and ?step = "producer_step r payload len seq_num"
  let ?next = "(sh_tail ?hdr + 1) mod sh_capacity ?hdr"
  let ?p = "\<lparr>pr_payload = payload, pr_len = len, pr_seq = seq_num, pr_tail = sh_tail ?hdr, pr_next = ?next\<rparr>"
  let ?full = "sr_max_payload r < len \<or> ?next = sh_head ?hdr"
  show ?thesis
  proof (cases ?full)
    case True
    then have "?step st = st" using assms(1) by (auto simp: producer_step_def Let_def)
    moreover have "try_push r payload len seq_num (sp_seg st) = (False, sp_seg st)"
      using True by (auto simp: try_push_def Let_def)
    ultimately show ?thesis by (simp add: five_steps)
  next
    case False
    have "?step st = st\<lparr>sp_prod := PSeq ?p\<rparr>"
      using assms(1) False by (simp add: producer_step_def Let_def)
    moreover have "?step (s\<lparr>sp_prod := PSeq ?p\<rparr>) =
        s\<lparr>sp_seg := store_slot (sh_tail ?hdr) 0 (le32 seq_num) (sp_seg s), sp_prod := PLen ?p\<rparr>" for s
      by (simp add: producer_step_def)
    moreover have "?step (s\<lparr>sp_prod := PLen ?p\<rparr>) =
        s\<lparr>sp_seg := store_slot (sh_tail ?hdr) 4 (le32 len) (sp_seg s), sp_prod := PPay ?p\<rparr>" for s
      by (simp add: producer_step_def)
    moreover have "?step (s\<lparr>sp_prod := PPay ?p\<rparr>) =
        s\<lparr>sp_seg := store_slot (sh_tail ?hdr) 8 (take (unat len) payload) (sp_seg s), sp_prod := PTail ?p\<rparr>" for s
      by (simp add: producer_step_def)
    moreover have "?step (s\<lparr>sp_prod := PTail ?p\<rparr>) =
        s\<lparr>sp_seg := (sp_seg s)\<lparr>sg_hdr := (sg_hdr (sp_seg s))\<lparr>sh_tail := ?next\<rparr>\<rparr>, sp_prod := PIdle,
          sp_pushed := sp_pushed s @ [(seq_num, take (unat len) payload)]\<rparr>" for s
      by (simp add: producer_step_def)
    ultimately have run: "(?step ^^ 5) st = st\<lparr>sp_seg :=
          (let seg = store_slot (sh_tail ?hdr) 8 (take (unat len) payload)
               (store_slot (sh_tail ?hdr) 4 (le32 len) (store_slot (sh_tail ?hdr) 0 (le32 seq_num) (sp_seg st)))
           in seg\<lparr>sg_hdr := ?hdr\<lparr>sh_tail := ?next\<rparr>\<rparr>),
        sp_pushed := sp_pushed st @ [(seq_num, take (unat len) payload)]\<rparr>"
      using assms(1) by (simp add: five_steps Let_def)
    have "try_push r payload len seq_num (sp_seg st) = (True,
        (let seg = store_slot (sh_tail ?hdr) 8 (take (unat len) payload)
               (store_slot (sh_tail ?hdr) 4 (le32 len) (store_slot (sh_tail ?hdr) 0 (le32 seq_num) (sp_seg st)))
         in seg\<lparr>sg_hdr := ?hdr\<lparr>sh_tail := ?next\<rparr>\<rparr>))"
      using False assms(2) by (simp add: try_push_def Let_def store_slot_def)
    with run show ?thesis by (simp only: Let_def case_prod_conv if_True)
  qed
qed

lemma pop_alone:
  assumes "sp_cons st = CIdle"
  shows "(consumer_step ^^ 5) st =
    (case try_pop (sp_seg st) of
       (None, seg) \<Rightarrow> st
     | (Some m, seg) \<Rightarrow> st\<lparr>sp_seg := seg, sp_popped := sp_popped st @ [m]\<rparr>)"
proof (cases "sh_head (sg_hdr (sp_seg st)) = sh_tail (sg_hdr (sp_seg st))")
  case True
  then have "consumer_step st = st" using assms by (simp add: consumer_step_def Let_def)
  then show ?thesis using True by (simp add: five_steps try_pop_def)
next
  case False
  let ?hdr = "sg_hdr (sp_seg st)"
  let ?slot = "sg_slots (sp_seg st) ! unat (sh_head ?hdr)"
  let ?l = "rd32 (bslice 4 4 ?slot)" and ?s = "rd32 (bslice 0 4 ?slot)"
  have "consumer_step st = st\<lparr>sp_cons := CSeq (sh_head ?hdr)\<rparr>"
    using assms False by (simp add: consumer_step_def Let_def)
  moreover have "consumer_step (st\<lparr>sp_cons := CSeq (sh_head ?hdr)\<rparr>) = st\<lparr>sp_cons := CLen (sh_head ?hdr) ?s\<rparr>"
    by (simp add: consumer_step_def Let_def)
  moreover have "consumer_step (st\<lparr>sp_cons := CLen (sh_head ?hdr) ?s\<rparr>) =
      st\<lparr>sp_cons := CPay (sh_head ?hdr) ?s ?l\<rparr>"
    by (simp add: consumer_step_def Let_def)
  moreover have "consumer_step (st\<lparr>sp_cons := CPay (sh_head ?hdr) ?s ?l\<rparr>) =
      st\<lparr>sp_cons := CHead (sh_head ?hdr) ?s (bslice 8 (unat ?l) ?slot)\<rparr>"
    by (simp add: consumer_step_def Let_def)
  ultimately show ?thesis
    using False assms by (simp add: five_steps try_pop_def Let_def consumer_step_def)
qed

section \<open>The contract of a bounded queue\<close>

locale bounded_queue =
  fixes holds :: "'s \<Rightarrow> 'm list \<Rightarrow> bool" and fits :: "'m \<Rightarrow> bool" and room :: "'s \<Rightarrow> nat"
    and push :: "'m \<Rightarrow> 's \<Rightarrow> bool \<times> 's" and pop :: "'s \<Rightarrow> 'm option \<times> 's"
  assumes push_fits: "holds s q \<Longrightarrow> fits m \<Longrightarrow> length q < room s \<Longrightarrow>
      \<exists>s'. push m s = (True, s') \<and> holds s' (q @ [m]) \<and> room s' = room s"
    and push_full: "holds s q \<Longrightarrow> \<not> (fits m \<and> length q < room s) \<Longrightarrow> push m s = (False, s)"
    and pop_empty: "holds s [] \<Longrightarrow> pop s = (None, s)"
    and pop_first: "holds s (m # q) \<Longrightarrow> \<exists>s'. pop s = (Some m, s') \<and> holds s' q \<and> room s' = room s"
begin

fun push_burst :: "'m list \<Rightarrow> 's \<Rightarrow> bool list \<times> 's" where
  "push_burst [] s = ([], s)"
| "push_burst (m # ms) s = (let (ok, s) = push m s; (oks, s) = push_burst ms s in (ok # oks, s))"

fun pop_burst :: "nat \<Rightarrow> 's \<Rightarrow> 'm option list \<times> 's" where
  "pop_burst 0 s = ([], s)"
| "pop_burst (Suc n) s = (let (out, s) = pop s; (outs, s) = pop_burst n s in (out # outs, s))"

text \<open>A burst is accepted until the room is used up; the rest of it is refused.\<close>

lemma push_burst_spec:
  "holds s q \<Longrightarrow> list_all fits ms \<Longrightarrow> length q \<le> room s \<Longrightarrow>
   \<exists>s'. push_burst ms s = (map (\<lambda>i. length q + i < room s) [0..<length ms], s') \<and>
     holds s' (q @ take (room s - length q) ms)"
proof (induction ms arbitrary: s q)
  case Nil
  then show ?case by simp
next
  case (Cons m ms)
  have shift: "map (\<lambda>i. length q + i < room s) [0..<length (m # ms)] =
      (length q < room s) # map (\<lambda>i. Suc (length q) + i < room s) [0..<length ms]"
    by (simp add: upt_conv_Cons map_Suc_upt [symmetric] del: upt_Suc)
  show ?case
  proof (cases "length q < room s")
    case True
    then obtain s1 where s1: "push m s = (True, s1)" "holds s1 (q @ [m])" "room s1 = room s"
      using push_fits Cons.prems by fastforce
    from Cons.IH [OF s1(2)] obtain s' where
      "push_burst ms s1 = (map (\<lambda>i. Suc (length q) + i < room s) [0..<length ms], s')"
      "holds s' ((q @ [m]) @ take (room s - Suc (length q)) ms)"
      using Cons.prems True by (auto simp: s1(3))
    moreover have "room s - length q = Suc (room s - Suc (length q))" using True by simp
    ultimately show ?thesis unfolding shift using s1(1) True by simp
  next
    case False
    then have s1: "push m s = (False, s)" using push_full Cons.prems(1) by blast
    from Cons.IH [OF Cons.prems(1)] obtain s' where
      "push_burst ms s = (map (\<lambda>i. length q + i < room s) [0..<length ms], s')"
      "holds s' (q @ take (room s - length q) ms)"
      using Cons.prems by auto
    then show ?thesis unfolding shift using s1 False by simp
  qed
qed

lemma pop_burst_spec:
  "holds s q \<Longrightarrow> fst (pop_burst n s) = map Some (take n q) @ replicate (n - length q) None"
proof (induction n arbitrary: s q)
  case 0
  then show ?case by simp
next
  case (Suc n)
  show ?case
  proof (cases q)
    case Nil
    then show ?thesis
      using Suc pop_empty [of s] by (auto simp: split: prod.splits dest: Suc.IH)
  next
    case (Cons m q')
    then obtain s' where "pop s = (Some m, s')" "holds s' q'" using pop_first Suc.prems by blast
    then show ?thesis using Suc.IH [of s' q'] Cons by (auto split: prod.splits)
  qed
qed

end

text \<open>The ring meets it, for one process that pushes and pops.\<close>

definition ring_holds :: "ShmRing \<Rightarrow> shm_segment \<Rightarrow> (u32 \<times> bytes) list \<Rightarrow> bool" where
  "ring_holds r seg q \<longleftrightarrow> (\<exists>pushed h. ring_ok r seg pushed h \<and> q = drop h pushed)"

definition push_message :: "ShmRing \<Rightarrow> u32 \<times> bytes \<Rightarrow> shm_segment \<Rightarrow> bool \<times> shm_segment" where
  "push_message r m seg =
     (if length (snd m) < 2 ^ 32 then try_push r (snd m) (word_of_nat (length (snd m))) (fst m) seg
      else (False, seg))"

definition message_fits :: "ShmRing \<Rightarrow> u32 \<times> bytes \<Rightarrow> bool" where
  "message_fits r m \<longleftrightarrow> length (snd m) \<le> unat (sr_max_payload r)"

definition ring_room :: "shm_segment \<Rightarrow> nat" where
  "ring_room seg = unat (sh_capacity (sg_hdr seg)) - 1"

definition solo :: "shm_segment \<Rightarrow> (u32 \<times> bytes) list \<Rightarrow> nat \<Rightarrow> spsc" where
  "solo seg pushed h = \<lparr>sp_seg = seg, sp_prod = PIdle, sp_cons = CIdle, sp_pushed = pushed,
     sp_popped = take h pushed\<rparr>"

lemma solo_ok: "ring_ok r seg pushed h \<Longrightarrow> spsc_ok r (solo seg pushed h)"
  by (simp add: solo_def spsc_ok_def prod_ok_def cons_ok_def Let_def) (simp add: ring_ok_def Let_def)

lemma producer_steps_ok:
  "spsc_ok r st \<Longrightarrow> unat len \<le> length payload \<Longrightarrow> spsc_ok r ((producer_step r payload len s ^^ n) st)"
  by (induction n) (simp_all add: spsc_producer_ok)

lemma consumer_steps_ok: "spsc_ok r st \<Longrightarrow> spsc_ok r ((consumer_step ^^ n) st)"
  by (induction n) (simp_all add: spsc_consumer_ok)

lemma ring_push:
  assumes "ring_ok r seg pushed h" and "unat len \<le> length payload"
  shows "if len \<le> sr_max_payload r \<and> Suc (length pushed) \<noteq> h + unat (sh_capacity (sg_hdr seg))
    then \<exists>seg'. try_push r payload len s seg = (True, seg') \<and> sh_capacity (sg_hdr seg') = sh_capacity (sg_hdr seg) \<and>
      ring_ok r seg' (pushed @ [(s, take (unat len) payload)]) h
    else try_push r payload len s seg = (False, seg)"
proof -
  obtain ok seg' where p: "try_push r payload len s seg = (ok, seg')" by fastforce
  have ok: "ok \<longleftrightarrow> len \<le> sr_max_payload r \<and> Suc (length pushed) \<noteq> h + unat (sh_capacity (sg_hdr seg))"
    "\<not> ok \<Longrightarrow> seg' = seg" "sh_capacity (sg_hdr seg') = sh_capacity (sg_hdr seg)"
    using p full_test [OF assms(1)] by (auto simp: try_push_def Let_def not_less split: if_splits)
  have "h \<le> length pushed" "unat (sh_tail (sg_hdr seg)) < length (sg_slots seg)"
    using assms(1) by (simp_all add: ring_ok_def Let_def)
  then have "ring_ok r seg' (pushed @ [(s, take (unat len) payload)]) h" if ok
  proof -
    have "(producer_step r payload len s ^^ 5) (solo seg pushed h) =
        (solo seg pushed h)\<lparr>sp_seg := seg', sp_pushed := pushed @ [(s, take (unat len) payload)]\<rparr>"
      using p that \<open>unat (sh_tail (sg_hdr seg)) < length (sg_slots seg)\<close>
      by (subst push_alone) (simp_all add: solo_def)
    with producer_steps_ok [OF solo_ok [OF assms(1)] assms(2), where s = s and n = 5] \<open>h \<le> length pushed\<close>
    show ?thesis by (simp add: solo_def spsc_ok_def Let_def)
  qed
  then show ?thesis using p ok by auto
qed

lemma ring_pop:
  assumes "ring_ok r seg pushed h"
  shows "if h < length pushed
    then \<exists>seg'. try_pop seg = (Some (pushed ! h), seg') \<and> sh_capacity (sg_hdr seg') = sh_capacity (sg_hdr seg) \<and>
      ring_ok r seg' pushed (Suc h)
    else try_pop seg = (None, seg)"
proof (cases "h < length pushed")
  case True
  let ?st = "(consumer_step ^^ 5) (solo seg pushed h)"
  obtain m seg' where p: "try_pop seg = (Some m, seg')" "sh_capacity (sg_hdr seg') = sh_capacity (sg_hdr seg)"
    using True empty_test [OF assms] by (simp add: try_pop_def Let_def)
  have len: "length (take h pushed) = h" using True by simp
  have "spsc_ok r ?st" by (rule consumer_steps_ok [OF solo_ok [OF assms]])
  moreover have "?st = (solo seg pushed h)\<lparr>sp_seg := seg', sp_popped := take h pushed @ [m]\<rparr>"
    using p(1) by (subst pop_alone) (simp_all add: solo_def)
  ultimately have "ring_ok r seg' pushed (Suc h)" "take h pushed @ [m] = take (Suc h) pushed"
    using len by (simp_all add: solo_def spsc_ok_def Let_def)
  then show ?thesis using True p by (simp add: take_Suc_conv_app_nth)
next
  case False
  then have "h = length pushed" using assms by (simp add: ring_ok_def Let_def)
  then show ?thesis using False empty_test [OF assms] by (simp add: try_pop_def Let_def)
qed

interpretation shm: bounded_queue "ring_holds r" "message_fits r" ring_room "push_message r" try_pop
  for r :: ShmRing
proof unfold_locales
  fix s q and m :: "u32 \<times> bytes"
  assume "ring_holds r s q"
  then obtain pushed h where ok: "ring_ok r s pushed h" and q: "q = drop h pushed"
    by (auto simp: ring_holds_def)
  have c: "h \<le> length pushed" "0 < unat (sh_capacity (sg_hdr s))"
    using ok by (simp_all add: ring_ok_def Let_def)
  have big: "unat (sr_max_payload r) < 2 ^ 32" using unsigned_less [of "sr_max_payload r", where ?'a = nat] by simp
  have len: "unat (word_of_nat (length (snd m)) :: u32) = length (snd m)" if "length (snd m) < 2 ^ 32"
    using that by (simp add: unat_of_nat)
  have room: "length q < ring_room s \<longleftrightarrow> Suc (length pushed) \<noteq> h + unat (sh_capacity (sg_hdr s))"
    using c ok by (auto simp: q ring_room_def ring_ok_def Let_def)
  show "\<exists>s'. push_message r m s = (True, s') \<and> ring_holds r s' (q @ [m]) \<and> ring_room s' = ring_room s"
    if "message_fits r m" "length q < ring_room s"
  proof -
    have "length (snd m) < 2 ^ 32" using that(1) big by (simp add: message_fits_def)
    note l = len [OF this]
    from ring_push [OF ok, of "word_of_nat (length (snd m))" "snd m" "fst m"] that room l
    obtain s' where "push_message r m s = (True, s')" "sh_capacity (sg_hdr s') = sh_capacity (sg_hdr s)"
      "ring_ok r s' (pushed @ [m]) h"
      using \<open>length (snd m) < 2 ^ 32\<close> by (auto simp: push_message_def message_fits_def word_le_nat_alt)
    then show ?thesis
      using c unfolding ring_holds_def ring_room_def q by (metis drop_append diff_is_0_eq drop0)
  qed
  show "push_message r m s = (False, s)" if "\<not> (message_fits r m \<and> length q < ring_room s)"
    using ring_push [OF ok, of "word_of_nat (length (snd m))" "snd m" "fst m"] that room len
    by (auto simp: push_message_def message_fits_def word_le_nat_alt split: if_splits)
next
  fix s assume "ring_holds r s []"
  then show "try_pop s = (None, s)" using ring_pop [of r s] by (fastforce simp: ring_holds_def)
next
  fix s m and q :: "(u32 \<times> bytes) list"
  assume "ring_holds r s (m # q)"
  then obtain pushed h where ok: "ring_ok r s pushed h" and q: "m # q = drop h pushed"
    by (auto simp: ring_holds_def)
  then have "h < length pushed" by (metis drop_eq_Nil list.distinct(1) not_le)
  moreover from this q have "pushed ! h = m" "drop (Suc h) pushed = q"
    by (metis Cons_nth_drop_Suc list.inject)+
  ultimately obtain s' where "try_pop s = (Some m, s')" "sh_capacity (sg_hdr s') = sh_capacity (sg_hdr s)"
    "ring_ok r s' pushed (Suc h)" "q = drop (Suc h) pushed"
    using ring_pop [OF ok] by auto
  then show "\<exists>s'. try_pop s = (Some m, s') \<and> ring_holds r s' q \<and> ring_room s' = ring_room s"
    unfolding ring_holds_def ring_room_def by metis
qed

lemma fresh_ring_holds:
  assumes "0 < capacity" and "length slots = unat capacity"
    and "\<forall>s \<in> set slots. length s = 8 + unat (sr_max_payload r)"
  shows "ring_holds r \<lparr>sg_hdr = init_as_creator pid capacity r, sg_slots = slots\<rparr> []"
  using spsc_start_ok [OF assms, of pid] unfolding ring_holds_def
  by (intro exI [of _ "[]"] exI [of _ 0]) (simp add: spsc_ok_def spsc_start_def Let_def)

text \<open>
  On a fresh ring a burst of messages is accepted up to one less than the capacity and refused
  from there on, explicitly; and popping then returns exactly the accepted messages, with their
  sequence numbers, in order, and after them nothing.
\<close>

theorem shm_burst_delivered:
  assumes "0 < capacity" and "length slots = unat capacity"
    and "\<forall>s \<in> set slots. length s = 8 + unat (sr_max_payload r)"
    and "list_all (message_fits r) ms"
  shows "\<exists>seg. shm.push_burst r ms \<lparr>sg_hdr = init_as_creator pid capacity r, sg_slots = slots\<rparr> =
      (map (\<lambda>i. i < unat capacity - 1) [0..<length ms], seg) \<and>
    fst (shm.pop_burst n seg) =
      map Some (take n (take (unat capacity - 1) ms)) @
      replicate (n - length (take (unat capacity - 1) ms)) None"
proof -
  let ?seg = "\<lparr>sg_hdr = init_as_creator pid capacity r, sg_slots = slots\<rparr>"
  have room: "ring_room ?seg = unat capacity - 1" by (simp add: ring_room_def init_as_creator_def)
  from shm.push_burst_spec [OF fresh_ring_holds [OF assms(1-3)] assms(4), of pid] obtain seg where
    "shm.push_burst r ms ?seg = (map (\<lambda>i. i < unat capacity - 1) [0..<length ms], seg)"
    "ring_holds r seg (take (unat capacity - 1) ms)"
    unfolding room by auto
  then show ?thesis using shm.pop_burst_spec [of r seg _ n] by blast
qed

theorem shm_burst_delivered_witness:
  "\<exists>seg. shm.push_burst ShmRing_init [(1, [10]), (2, [20, 21]), (3, [])]
      \<lparr>sg_hdr = init_as_creator 77 3 ShmRing_init, sg_slots = replicate 3 (replicate 1408 0)\<rparr> =
      (map (\<lambda>i. i < unat (3 :: u32) - 1) [0..<length [(1 :: u32, [10 :: u8]), (2, [20, 21]), (3, [])]], seg) \<and>
    fst (shm.pop_burst 2 seg) =
      map Some (take 2 (take (unat (3 :: u32) - 1) [(1, [10]), (2, [20, 21]), (3, [])])) @
      replicate (2 - length (take (unat (3 :: u32) - 1) [(1 :: u32, [10 :: u8]), (2, [20, 21]), (3, [])])) None"
  by (rule shm_burst_delivered) (simp_all add: ShmRing_init_def kShmMaxPayload_def message_fits_def)

theorem spsc_popped_is_prefix_witness:
  "\<exists>in_flight. sp_pushed (consumer_step (spsc_start 77 3 ShmRing_init (replicate 3 (replicate 1408 0)))) =
     sp_popped (consumer_step (spsc_start 77 3 ShmRing_init (replicate 3 (replicate 1408 0)))) @ in_flight \<and>
     length in_flight < unat (sh_capacity (sg_hdr (sp_seg
       (consumer_step (spsc_start 77 3 ShmRing_init (replicate 3 (replicate 1408 0)))))))"
  by (rule spsc_popped_is_prefix, rule spsc_consume, rule spsc_refl)
    (simp_all add: ShmRing_init_def kShmMaxPayload_def)

section \<open>Attaching\<close>

lemma attach_sound:
  "attach_poll slot_size capacity polls = Some res \<Longrightarrow> res \<noteq> OpenFailed \<Longrightarrow>
   \<exists>p \<in> set polls. sh_magic (pt_hdr p) = kShmRingMagic \<and> sh_version (pt_hdr p) = kShmRingVersion \<and>
     sh_slot_size (pt_hdr p) = slot_size \<and> sh_capacity (pt_hdr p) = capacity \<and>
     (if res = Stolen then pt_owner_dead p \<and> pt_cas_wins p else \<not> pt_owner_dead p)"
proof (induction polls)
  case (Cons p ps)
  show ?case
  proof (cases "attach_poll slot_size capacity (p # ps) = attach_poll slot_size capacity ps")
    case True
    then show ?thesis using Cons by auto
  next
    case False
    then show ?thesis using Cons.prems by (simp split: if_splits)
  qed
qed simp

text \<open>
  A look that decides nothing: the magic is not there and the deadline not past, or the ring is the
  wanted one of a dead owner and another process won the exchange of the magic.
\<close>

definition undecided :: "u32 \<Rightarrow> u32 \<Rightarrow> poll_turn \<Rightarrow> bool" where
  "undecided slot_size capacity p \<longleftrightarrow>
     (if sh_magic (pt_hdr p) = kShmRingMagic
      then sh_version (pt_hdr p) = kShmRingVersion \<and> sh_slot_size (pt_hdr p) = slot_size \<and>
        sh_capacity (pt_hdr p) = capacity \<and> pt_owner_dead p \<and> \<not> pt_cas_wins p
      else \<not> pt_past_deadline p)"

lemma attach_undecided:
  "list_all (undecided slot_size capacity) ps \<Longrightarrow>
   attach_poll slot_size capacity (ps @ qs) = attach_poll slot_size capacity qs"
  by (induction ps) (auto simp: undecided_def split: if_splits)

lemma attach_decided:
  "\<not> undecided slot_size capacity p \<Longrightarrow>
   attach_poll slot_size capacity (p # ps) = attach_poll slot_size capacity [p] \<and>
   attach_poll slot_size capacity [p] \<noteq> None"
  by (auto simp: undecided_def split: if_splits)

lemma attach_None: "attach_poll slot_size capacity polls = None \<longleftrightarrow> list_all (undecided slot_size capacity) polls"
proof (induction polls)
  case (Cons p ps)
  then show ?case using attach_undecided [of slot_size capacity "[p]" ps] attach_decided [of slot_size capacity p ps]
    by (cases "undecided slot_size capacity p") simp_all
qed simp

lemma attach_first_decided:
  "list_all (undecided slot_size capacity) ps \<Longrightarrow> \<not> undecided slot_size capacity p \<Longrightarrow>
   attach_poll slot_size capacity (ps @ p # qs) = attach_poll slot_size capacity [p]"
  using attach_undecided [of slot_size capacity ps "p # qs"] attach_decided [of slot_size capacity p qs] by simp

lemma attach_no_magic:
  "list_all (\<lambda>p. sh_magic (pt_hdr p) \<noteq> kShmRingMagic) polls \<Longrightarrow>
   attach_poll slot_size capacity polls = (if \<exists>p \<in> set polls. pt_past_deadline p then Some OpenFailed else None)"
  by (induction polls) auto

text \<open>
  C34: When an attacher answers, and what. It attaches only to a segment with the magic, version, slot
  size and capacity it asked for and an owner that is alive or itself, and takes a segment over only if
  the owner is dead and the exchange of the magic was won. It answers at its first deciding look, whatever
  comes after, and goes on for ever exactly if no look decides: each finds no magic before the
  deadline, or the wanted ring of a dead owner whose exchange another process wins. So the deadline bounds
  the wait only while the magic is absent: an attacher that loses every exchange never answers, even past it.
  A segment whose magic never appears, as the one left by a creator that died while initialising it, is
  given up at the first look past the deadline, by this and every later attacher. A header that another
  handle has initialised, with its owner alive, is attached to if and only if slot size and capacity are equal.
\<close>

theorem attach_poll_decides:
  "(attach_poll slot_size capacity polls = Some res \<and> res \<noteq> OpenFailed \<longrightarrow>
     (\<exists>p \<in> set polls. sh_magic (pt_hdr p) = kShmRingMagic \<and> sh_version (pt_hdr p) = kShmRingVersion \<and>
        sh_slot_size (pt_hdr p) = slot_size \<and> sh_capacity (pt_hdr p) = capacity \<and>
        (if res = Stolen then pt_owner_dead p \<and> pt_cas_wins p else \<not> pt_owner_dead p))) \<and>
   (attach_poll slot_size capacity polls = None \<longleftrightarrow> list_all (undecided slot_size capacity) polls) \<and>
   (list_all (undecided slot_size capacity) polls \<and> \<not> undecided slot_size capacity p \<longrightarrow>
     attach_poll slot_size capacity (polls @ p # later) = attach_poll slot_size capacity [p]) \<and>
   (list_all (\<lambda>p. sh_magic (pt_hdr p) \<noteq> kShmRingMagic) polls \<longrightarrow> attach_poll slot_size capacity polls =
     (if \<exists>p \<in> set polls. pt_past_deadline p then Some OpenFailed else None)) \<and>
   (pt_hdr p = init_as_creator pid cap r \<and> \<not> pt_owner_dead p \<longrightarrow> attach_poll slot_size capacity (p # later) =
     Some (if sr_slot_size r = slot_size \<and> cap = capacity then Attached else OpenFailed))"
proof -
  have "attach_poll slot_size capacity (p # later) =
      Some (if sr_slot_size r = slot_size \<and> cap = capacity then Attached else OpenFailed)"
    if "pt_hdr p = init_as_creator pid cap r" "\<not> pt_owner_dead p"
    using that by (simp add: init_as_creator_def)
  then show ?thesis
    using attach_sound [of slot_size capacity polls res] attach_None [of slot_size capacity polls]
      attach_first_decided [of slot_size capacity polls p later] attach_no_magic [of polls slot_size capacity] by argo
qed

theorem attach_poll_decides_witness:
  "let lost = \<lparr>pt_hdr = init_as_creator 1 4 ShmRing_init, pt_owner_dead = True, pt_cas_wins = False, pt_past_deadline = True\<rparr>;
       alive = \<lparr>pt_hdr = init_as_creator 2 4 ShmRing_init, pt_owner_dead = False, pt_cas_wins = False, pt_past_deadline = True\<rparr>
   in attach_poll 1408 4 (replicate 100 lost) = None \<and>
      attach_poll 1408 4 (replicate 100 lost @ [alive]) = attach_poll 1408 4 [alive] \<and>
      attach_poll 1408 4 [alive] = Some Attached"
  using attach_poll_decides [of 1408 4 "replicate 100
      \<lparr>pt_hdr = init_as_creator 1 4 ShmRing_init, pt_owner_dead = True, pt_cas_wins = False, pt_past_deadline = True\<rparr>" Stolen
      "\<lparr>pt_hdr = init_as_creator 2 4 ShmRing_init, pt_owner_dead = False, pt_cas_wins = False, pt_past_deadline = True\<rparr>" "[]" 2 4 ShmRing_init]
  by (simp only: Let_def append.simps if_False if_True)
    (simp add: undecided_def list_all_iff init_as_creator_def ShmRing_init_def kShmMaxPayload_def)

end
