(* ===== verification/Relink_Node.thy ===== *)
theory Relink_Node
  imports Ordered_Map Topic_Hash Topic_Directory Relay_Wire Image Multicast_Discovery Rlcore_Client
    Shm_Transport Complex_Main "HOL-Library.Sublist"
begin

text \<open>
  The public API, \<^verbatim>\<open>cpp/include/relink/relink.hpp\<close>. A node is one record; its hash tables are ordered
  maps and its hash sets lists in insertion order, one of the orders the library may iterate them in.
  A transport is named by \<open>Shared\<close> or by its group key. Exceptions are \<open>Inl\<close>. The operating system,
  the replies of rlcore and the clock are parameters; datagrams sent, peers to punch and callbacks
  invoked are returned. A callback is an identifier of type \<open>'c\<close>.
\<close>

datatype DiscoveryMode = ModeNone | ModeRlCore | ModeMulticast

datatype NodeError =
    ModeConflict | BadAddress AddrError | BadEncryptKey | NoDiscovery | RlCoreIpNotSet
  | RelayNeedsRlCore | TopicReserved bytes | TopicCollision bytes bytes | AlreadyPaired u32 u32
  | TransportFailed TransportError | DetectFailed

record RlCoreConfig =
  cf_ip_set :: bool
  cf_ip :: u32
  cf_port :: u16
  cf_key :: "bytes option"
  cf_relay_requested :: bool

datatype tref = Shared | Dedicated u64

datatype 'c Handler = Typed nat 'c | RawHandler 'c | ImageHandler nat 'c | CompressedHandler nat 'c

record 'c RelinkNode =
  nd_rlcore :: RlCoreConfig
  nd_mode :: DiscoveryMode
  nd_declared_topics :: "u32 list"
  nd_advertised_topics :: "u32 list"
  nd_subscribed_topics :: "u32 list"
  nd_peers :: "(u32 \<times> PeerAddr list) list"
  nd_next_image_frame_id :: "(u32 \<times> u32) list"
  nd_next_compressed_image_frame_id :: "(u32 \<times> u32) list"
  nd_topic_names :: "(u32 \<times> bytes) list"
  nd_image_reassemblers :: "ImageReassembler list"
  nd_compressed_image_reassemblers :: "CompressedImageReassembler list"
  nd_started :: bool
  nd_stop_requested :: bool
  nd_transport :: "'c Handler UdpTransport"
  nd_mcast :: "MulticastDiscovery option"
  nd_network_id :: u16
  nd_multiplex :: bool
  nd_topic_pair_id :: "(u32 \<times> u32) list"
  nd_topic_transports :: "(u64 \<times> 'c Handler UdpTransport) list"
  nd_topic_route :: "(u32 \<times> tref) list"
  nd_repunch_enabled :: bool
  nd_repunch_interval :: real
  nd_rlcore_groups :: "(tref \<times> u32 list) list"
  nd_rlcore_self_ip :: u32
  nd_relay_enabled :: bool
  nd_relay_ip :: u32
  nd_relay_port :: u16
  nd_data_thread_core :: int
  nd_use_realtime :: bool
  nd_rt_priority :: int
  nd_shm_rings :: "(u32 \<times> ShmRing) list"
  nd_shm_handlers :: "(u32 \<times> 'c) list"
  nd_shm_seq :: "(u32 \<times> u32) list"
  nd_local_ipc_candidates :: "(u32 \<times> u32 list) list"
  nd_shm_poll_started :: bool

definition RelinkNode_init :: "'c RelinkNode" where
  "RelinkNode_init =
     \<lparr>nd_rlcore = \<lparr>cf_ip_set = False, cf_ip = 0, cf_port = kRlCoreDefaultPort, cf_key = None,
                   cf_relay_requested = False\<rparr>,
      nd_mode = ModeNone, nd_declared_topics = [], nd_advertised_topics = [], nd_subscribed_topics = [],
      nd_peers = [], nd_next_image_frame_id = [], nd_next_compressed_image_frame_id = [],
      nd_topic_names = [], nd_image_reassemblers = [], nd_compressed_image_reassemblers = [],
      nd_started = False, nd_stop_requested = False, nd_transport = UdpTransport_init, nd_mcast = None,
      nd_network_id = 0, nd_multiplex = True, nd_topic_pair_id = [], nd_topic_transports = [],
      nd_topic_route = [], nd_repunch_enabled = False, nd_repunch_interval = 5, nd_rlcore_groups = [],
      nd_rlcore_self_ip = 0, nd_relay_enabled = False, nd_relay_ip = 0,
      nd_relay_port = kRelayDefaultPort, nd_data_thread_core = -2, nd_use_realtime = False,
      nd_rt_priority = 10, nd_shm_rings = [], nd_shm_handlers = [], nd_shm_seq = [],
      nd_local_ipc_candidates = [], nd_shm_poll_started = False\<rparr>"

definition kAutoFrameId :: u32 where "kAutoFrameId = 0xFFFFFFFF"
definition kAutoPinCore :: int where "kAutoPinCore = -2"
definition kPairKeyTag :: u64 where "kPairKeyTag = push_bit 32 1"

fun ebind :: "'e + 'a \<Rightarrow> ('a \<Rightarrow> 'e + 'b) \<Rightarrow> 'e + 'b" where
  "ebind (Inl e) f = Inl e"
| "ebind (Inr x) f = f x"

lemma ebind_Inr: "ebind x f = Inr y \<longleftrightarrow> (\<exists>z. x = Inr z \<and> f z = Inr y)"
  by (cases x) auto

definition set_add :: "'a \<Rightarrow> 'a list \<Rightarrow> 'a list" where
  "set_add x xs = (if x \<in> set xs then xs else xs @ [x])"

section \<open>Configuration\<close>

definition select_mode :: "DiscoveryMode \<Rightarrow> 'c RelinkNode \<Rightarrow> NodeError + 'c RelinkNode" where
  "select_mode requested n =
     (if nd_mode n \<noteq> ModeNone \<and> nd_mode n \<noteq> requested then Inl ModeConflict
      else Inr (n\<lparr>nd_mode := requested\<rparr>))"

text \<open>
  The two setters that parse an address have already changed the node when the parse throws, so they
  return the exception and the node.
\<close>

definition rlcore_ip ::
  "(string \<Rightarrow> u32 option) \<Rightarrow> string \<Rightarrow> 'c RelinkNode \<Rightarrow> NodeError option \<times> 'c RelinkNode" where
  "rlcore_ip inet_pton addr n =
     (case select_mode ModeRlCore n of
        Inl e \<Rightarrow> (Some e, n)
      | Inr n \<Rightarrow>
          (case ipv4_to_host_order inet_pton addr of
             Inl e \<Rightarrow> (Some (BadAddress e), n)
           | Inr ip \<Rightarrow> (None, n\<lparr>nd_rlcore := (nd_rlcore n)\<lparr>cf_ip := ip, cf_ip_set := True\<rparr>\<rparr>)))"

definition rlcore_port :: "u16 \<Rightarrow> 'c RelinkNode \<Rightarrow> 'c RelinkNode" where
  "rlcore_port p n = n\<lparr>nd_rlcore := (nd_rlcore n)\<lparr>cf_port := p\<rparr>\<rparr>"

definition setEncryptKey :: "bytes \<Rightarrow> 'c RelinkNode \<Rightarrow> NodeError + 'c RelinkNode" where
  "setEncryptKey hex_key n =
     (case hex_to_key32 hex_key of
        None \<Rightarrow> Inl BadEncryptKey
      | Some key \<Rightarrow> Inr (n\<lparr>nd_rlcore := (nd_rlcore n)\<lparr>cf_key := Some key\<rparr>\<rparr>))"

definition setRelay :: "bool \<Rightarrow> 'c RelinkNode \<Rightarrow> 'c RelinkNode" where
  "setRelay enabled n = n\<lparr>nd_rlcore := (nd_rlcore n)\<lparr>cf_relay_requested := enabled\<rparr>\<rparr>"

definition use_multicast_discovery :: "'c RelinkNode \<Rightarrow> NodeError + 'c RelinkNode" where
  "use_multicast_discovery n = select_mode ModeMulticast n"

definition set_network_id :: "u16 \<Rightarrow> 'c RelinkNode \<Rightarrow> 'c RelinkNode" where
  "set_network_id network_id n = n\<lparr>nd_network_id := network_id\<rparr>"

definition set_multiplex :: "bool \<Rightarrow> 'c RelinkNode \<Rightarrow> 'c RelinkNode" where
  "set_multiplex enabled n = n\<lparr>nd_multiplex := enabled\<rparr>"

definition enable_nat_repunch :: "real \<Rightarrow> 'c RelinkNode \<Rightarrow> 'c RelinkNode" where
  "enable_nat_repunch interval_seconds n =
     n\<lparr>nd_repunch_enabled := True, nd_repunch_interval := interval_seconds\<rparr>"

definition set_relay ::
  "(string \<Rightarrow> u32 option) \<Rightarrow> string \<Rightarrow> u16 \<Rightarrow> 'c RelinkNode \<Rightarrow> NodeError option \<times> 'c RelinkNode" where
  "set_relay inet_pton ip port n =
     (let n = n\<lparr>nd_relay_enabled := True\<rparr> in
      case ipv4_to_host_order inet_pton ip of
        Inl e \<Rightarrow> (Some (BadAddress e), n)
      | Inr a \<Rightarrow> (None, n\<lparr>nd_relay_ip := a, nd_relay_port := port\<rparr>))"

definition set_data_thread_core :: "int \<Rightarrow> 'c RelinkNode \<Rightarrow> 'c RelinkNode" where
  "set_data_thread_core core n = n\<lparr>nd_data_thread_core := core\<rparr>"

definition set_data_thread_realtime :: "bool \<Rightarrow> int \<Rightarrow> 'c RelinkNode \<Rightarrow> 'c RelinkNode" where
  "set_data_thread_realtime enabled priority n =
     n\<lparr>nd_use_realtime := enabled, nd_rt_priority := priority\<rparr>"

definition relay_active :: "'c RelinkNode \<Rightarrow> bool" where "relay_active n = nd_relay_enabled n"

definition relay_peer :: "'c RelinkNode \<Rightarrow> PeerAddr" where
  "relay_peer n = \<lparr>pa_ip = nd_relay_ip n, pa_port = nd_relay_port n\<rparr>"

definition rlcore_addr :: "'c RelinkNode \<Rightarrow> PeerAddr" where
  "rlcore_addr n = \<lparr>pa_ip = cf_ip (nd_rlcore n), pa_port = cf_port (nd_rlcore n)\<rparr>"

section \<open>Topic names\<close>

definition topic_id_for :: "bytes \<Rightarrow> 'c RelinkNode \<Rightarrow> NodeError + u32 \<times> 'c RelinkNode" where
  "topic_id_for name n =
     (let id = fnv1a32 name in
      if id = kNatPunchTopicId then Inl (TopicReserved name)
      else (case map_of (nd_topic_names n) id of
              Some known \<Rightarrow> if known \<noteq> name then Inl (TopicCollision known name) else Inr (id, n)
            | None \<Rightarrow> Inr (id, n\<lparr>nd_topic_names := om_put id name (nd_topic_names n)\<rparr>)))"

text \<open>The overloads that take a name resolve it first and go on with the id.\<close>

definition by_name ::
  "(u32 \<Rightarrow> 'c RelinkNode \<Rightarrow> NodeError + 'a) \<Rightarrow> bytes \<Rightarrow> 'c RelinkNode \<Rightarrow> NodeError + 'a" where
  "by_name f name n = ebind (topic_id_for name n) (\<lambda>(topic_id, n). f topic_id n)"

definition topic_name_for :: "u32 \<Rightarrow> 'c RelinkNode \<Rightarrow> bytes" where
  "topic_name_for topic_id n = (case map_of (nd_topic_names n) topic_id of Some s \<Rightarrow> s | None \<Rightarrow> [])"

definition rltopic_list :: "'c RelinkNode \<Rightarrow> (u32 \<times> bytes) list" where
  "rltopic_list n =
     (let ids = fold set_add (case nd_mcast n of None \<Rightarrow> [] | Some d \<Rightarrow> all_known_topic_ids d)
                  (fold set_add (nd_declared_topics n) [])
      in map (\<lambda>id. (id, topic_name_for id n)) ids)"

section \<open>Transports\<close>

definition register_pair :: "u32 \<Rightarrow> bool \<Rightarrow> u32 \<Rightarrow> 'c RelinkNode \<Rightarrow> NodeError + 'c RelinkNode" where
  "register_pair topic_id pair pair_id n =
     (case map_of (nd_topic_pair_id n) topic_id of
        Some p \<Rightarrow>
          if \<not> pair \<or> p \<noteq> pair_id then Inl (AlreadyPaired topic_id p)
          else Inr (n\<lparr>nd_topic_pair_id := om_put topic_id pair_id (nd_topic_pair_id n)\<rparr>)
      | None \<Rightarrow>
          if \<not> pair then Inr n
          else Inr (n\<lparr>nd_topic_pair_id := om_put topic_id pair_id (nd_topic_pair_id n)\<rparr>))"

definition group_key_locked :: "'c RelinkNode \<Rightarrow> u32 \<Rightarrow> u64" where
  "group_key_locked n topic_id =
     (case map_of (nd_topic_pair_id n) topic_id of
        Some p \<Rightarrow> kPairKeyTag OR ucast p
      | None \<Rightarrow> ucast topic_id)"

text \<open>The results of the system calls behind \<^verbatim>\<open>bind(0)\<close>.\<close>

type_synonym os_bind = "int option \<times> bool \<times> u16 option"

definition bind_new :: "os_bind \<Rightarrow> 'h UdpTransport \<Rightarrow> NodeError + 'h UdpTransport" where
  "bind_new os t =
     (case os of (sock, ok, name) \<Rightarrow>
        (case transport_bind sock ok name t of
           (Some e, t) \<Rightarrow> Inl (TransportFailed e)
         | (None, t) \<Rightarrow> Inr t))"

definition transport_for :: "os_bind \<Rightarrow> u32 \<Rightarrow> 'c RelinkNode \<Rightarrow> NodeError + tref \<times> 'c RelinkNode" where
  "transport_for os topic_id n =
     (if nd_multiplex n then Inr (Shared, n)
      else
        let key = group_key_locked n topic_id in
        (case map_of (nd_topic_transports n) key of
           Some t \<Rightarrow> Inr (Dedicated key, n)
         | None \<Rightarrow>
             ebind (bind_new os UdpTransport_init) (\<lambda>t.
               Inr (Dedicated key, n\<lparr>nd_topic_transports := om_put key t (nd_topic_transports n)\<rparr>))))"

definition get_transport :: "tref \<Rightarrow> 'c RelinkNode \<Rightarrow> 'c Handler UdpTransport" where
  "get_transport r n =
     (case r of
        Shared \<Rightarrow> nd_transport n
      | Dedicated key \<Rightarrow> (case map_of (nd_topic_transports n) key of Some t \<Rightarrow> t | None \<Rightarrow> nd_transport n))"

definition set_transport :: "tref \<Rightarrow> 'c Handler UdpTransport \<Rightarrow> 'c RelinkNode \<Rightarrow> 'c RelinkNode" where
  "set_transport r t n =
     (case r of
        Shared \<Rightarrow> n\<lparr>nd_transport := t\<rparr>
      | Dedicated key \<Rightarrow> n\<lparr>nd_topic_transports := om_put key t (nd_topic_transports n)\<rparr>)"

section \<open>Declaring topics\<close>

definition declare_advertised :: "u32 \<Rightarrow> 'c RelinkNode \<Rightarrow> 'c RelinkNode" where
  "declare_advertised topic_id n =
     n\<lparr>nd_declared_topics := set_add topic_id (nd_declared_topics n),
       nd_advertised_topics := set_add topic_id (nd_advertised_topics n)\<rparr>"

definition declare_subscribed :: "u32 \<Rightarrow> 'c RelinkNode \<Rightarrow> 'c RelinkNode" where
  "declare_subscribed topic_id n =
     n\<lparr>nd_declared_topics := set_add topic_id (nd_declared_topics n),
       nd_subscribed_topics := set_add topic_id (nd_subscribed_topics n)\<rparr>"

definition advertise :: "os_bind \<Rightarrow> bool \<Rightarrow> u32 \<Rightarrow> bool \<Rightarrow> u32 \<Rightarrow> 'c RelinkNode \<Rightarrow> NodeError + 'c RelinkNode" where
  "advertise os large_blob topic_id pair pair_id n =
     (if large_blob then
        Inr (declare_advertised topic_id (n\<lparr>nd_transport := enable_large_buffers (nd_transport n)\<rparr>))
      else
        ebind (register_pair topic_id pair pair_id n) (\<lambda>n.
        ebind (transport_for os topic_id n) (\<lambda>(r, n).
        Inr (declare_advertised topic_id n))))"

definition subscribe ::
  "os_bind \<Rightarrow> bool \<Rightarrow> nat \<Rightarrow> u32 \<Rightarrow> 'c \<Rightarrow> bool \<Rightarrow> u32 \<Rightarrow> 'c RelinkNode \<Rightarrow> NodeError + 'c RelinkNode" where
  "subscribe os large_blob sizeof_T topic_id callback pair pair_id n =
     ebind (if large_blob then Inr n else register_pair topic_id pair pair_id n) (\<lambda>n.
     ebind (if large_blob then Inr (Shared, n) else transport_for os topic_id n) (\<lambda>(r, n).
       let n = (if large_blob then n\<lparr>nd_transport := enable_large_buffers (nd_transport n)\<rparr> else n);
           n = declare_subscribed topic_id n
       in Inr (set_transport r (set_topic_handler topic_id (Typed sizeof_T callback) (get_transport r n)) n)))"

definition advertise_raw :: "os_bind \<Rightarrow> u32 \<Rightarrow> bool \<Rightarrow> u32 \<Rightarrow> 'c RelinkNode \<Rightarrow> NodeError + 'c RelinkNode" where
  "advertise_raw os topic_id pair pair_id n =
     ebind (register_pair topic_id pair pair_id n) (\<lambda>n.
     ebind (transport_for os topic_id n) (\<lambda>(r, n).
     Inr (declare_advertised topic_id n)))"

definition subscribe_raw ::
  "os_bind \<Rightarrow> u32 \<Rightarrow> 'c \<Rightarrow> bool \<Rightarrow> u32 \<Rightarrow> 'c RelinkNode \<Rightarrow> NodeError + 'c RelinkNode" where
  "subscribe_raw os topic_id callback pair pair_id n =
     ebind (register_pair topic_id pair pair_id n) (\<lambda>n.
     ebind (transport_for os topic_id n) (\<lambda>(r, n).
       let n = declare_subscribed topic_id n
       in Inr (set_transport r (set_topic_handler topic_id (RawHandler callback) (get_transport r n)) n)))"

definition advertise_image :: "os_bind \<Rightarrow> u32 \<Rightarrow> 'c RelinkNode \<Rightarrow> NodeError + 'c RelinkNode" where
  "advertise_image os topic_id n = advertise os True topic_id False 0 n"

definition advertise_compressed_image :: "os_bind \<Rightarrow> u32 \<Rightarrow> 'c RelinkNode \<Rightarrow> NodeError + 'c RelinkNode" where
  "advertise_compressed_image os topic_id n = advertise os True topic_id False 0 n"

definition subscribe_image :: "u32 \<Rightarrow> 'c \<Rightarrow> 'c RelinkNode \<Rightarrow> 'c RelinkNode" where
  "subscribe_image topic_id callback n =
     (let n = n\<lparr>nd_transport := enable_large_buffers (nd_transport n)\<rparr>;
          i = length (nd_image_reassemblers n);
          n = declare_subscribed topic_id
                (n\<lparr>nd_image_reassemblers := nd_image_reassemblers n @ [image_reassembler]\<rparr>)
      in n\<lparr>nd_transport := set_topic_handler topic_id (ImageHandler i callback) (nd_transport n)\<rparr>)"

definition subscribe_compressed_image :: "u32 \<Rightarrow> 'c \<Rightarrow> 'c RelinkNode \<Rightarrow> 'c RelinkNode" where
  "subscribe_compressed_image topic_id callback n =
     (let n = n\<lparr>nd_transport := enable_large_buffers (nd_transport n)\<rparr>;
          i = length (nd_compressed_image_reassemblers n);
          n = declare_subscribed topic_id
                (n\<lparr>nd_compressed_image_reassemblers :=
                     nd_compressed_image_reassemblers n @ [compressed_image_reassembler]\<rparr>)
      in n\<lparr>nd_transport := set_topic_handler topic_id (CompressedHandler i callback) (nd_transport n)\<rparr>)"

definition peers_for_topic :: "u32 \<Rightarrow> 'c RelinkNode \<Rightarrow> PeerAddr list" where
  "peers_for_topic topic_id n = (case map_of (nd_peers n) topic_id of Some ps \<Rightarrow> ps | None \<Rightarrow> [])"

section \<open>Start-up\<close>

text \<open>
  The groups of topics that share a transport, in the order in which start-up registers them: one
  group per dedicated transport and a last one for the topics left on the shared one.
\<close>

definition add_to_bucket :: "u64 \<Rightarrow> u32 \<Rightarrow> (u64 \<times> u32 list) list \<Rightarrow> (u64 \<times> u32 list) list" where
  "add_to_bucket key topic m =
     om_put key ((case map_of m key of Some ids \<Rightarrow> ids | None \<Rightarrow> []) @ [topic]) m"

definition topic_groups :: "'c RelinkNode \<Rightarrow> (tref \<times> u32 list) list" where
  "topic_groups n =
     (if \<not> nd_multiplex n \<and> nd_topic_transports n \<noteq> [] then
        let has = (\<lambda>id. map_of (nd_topic_transports n) (group_key_locked n id) \<noteq> None);
            demuxed = filter has (nd_declared_topics n);
            by_transport = fold (\<lambda>id. add_to_bucket (group_key_locked n id) id) demuxed [];
            leftover = filter (\<lambda>id. \<not> has id) (nd_declared_topics n)
        in map (\<lambda>(key, ids). (Dedicated key, ids)) by_transport
           @ (if leftover \<noteq> [] then [(Shared, leftover)] else [])
      else if nd_declared_topics n \<noteq> [] then [(Shared, nd_declared_topics n)]
      else [])"

definition peers_push :: "u32 \<Rightarrow> PeerAddr \<Rightarrow> (u32 \<times> PeerAddr list) list \<Rightarrow> (u32 \<times> PeerAddr list) list" where
  "peers_push topic addr peers =
     om_put topic ((case map_of peers topic of Some ps \<Rightarrow> ps | None \<Rightarrow> []) @ [addr]) peers"

text \<open>The addresses an acknowledged peer stands for: its own, then its LAN address if it differs.\<close>

definition candidates :: "RegisterAckPeer \<Rightarrow> PeerAddr list" where
  "candidates p =
     \<lparr>pa_ip = ap_ip p, pa_port = ap_port p\<rparr>
     # (if ap_lan_ip p \<noteq> 0 \<and> \<not> (ap_lan_ip p = ap_ip p \<and> ap_lan_port p = ap_port p)
        then [\<lparr>pa_ip = ap_lan_ip p, pa_port = ap_lan_port p\<rparr>] else [])"

definition learn_initial :: "RegisterAckPeer list \<Rightarrow> 'c RelinkNode \<Rightarrow> 'c RelinkNode" where
  "learn_initial ps n =
     n\<lparr>nd_peers := fold (\<lambda>p peers. fold (peers_push (ap_topic_id p)) (candidates p) peers) ps (nd_peers n)\<rparr>"

text \<open>
  \<^verbatim>\<open>detect_local_ip_for_peer\<close>, from what \<^verbatim>\<open>socket\<close>, \<^verbatim>\<open>connect\<close> and \<^verbatim>\<open>getsockname\<close> return: \<open>None\<close> is the
  exception, and the address 0 stands for a failure of the other two calls.
\<close>

definition detect_local_ip_for_peer :: "bool \<Rightarrow> bool \<Rightarrow> u32 option \<Rightarrow> u32 option" where
  "detect_local_ip_for_peer os_socket os_connect os_sockname =
     (if \<not> os_socket then None
      else Some (if os_connect then (case os_sockname of Some local_ip \<Rightarrow> local_ip | None \<Rightarrow> 0) else 0))"

text \<open>
  What start-up and the background threads see of the world; \<open>ne_register\<close> gives, for the registration
  of a list of topics over a transport and each attempt, the result of \<^verbatim>\<open>sendto\<close> and the reply, and
  \<open>ne_self_ip\<close> is what \<open>detect_local_ip_for_peer\<close> yields.
\<close>

record node_env =
  ne_bind :: os_bind
  ne_self_ip :: "u32 option"
  ne_pid :: u32
  ne_nonce :: bytes
  ne_register :: "tref \<Rightarrow> u32 list \<Rightarrow> nat \<Rightarrow> int \<times> bytes option"

definition register_group ::
  "node_env \<Rightarrow> u32 \<Rightarrow> tref \<Rightarrow> u32 list \<Rightarrow> int \<Rightarrow> int \<Rightarrow> 'c RelinkNode \<Rightarrow> RegisterOutcome \<times> datagram list" where
  "register_group env self_ip r topics max_retries timeout_ms n =
     (let t = get_transport r n;
          run = register_with_rlcore_on_socket (cf_key (nd_rlcore n)) (ne_nonce env) (ut_running t) self_ip
                  (ut_local_port t) topics (word_of_nat (length topics)) max_retries timeout_ms
                  (ne_register env r topics)
      in (rr_outcome run, map (\<lambda>req. (rlcore_addr n, req)) (rr_sent run)))"

fun register_groups ::
  "node_env \<Rightarrow> u32 \<Rightarrow> (tref \<times> u32 list) list \<Rightarrow> 'c RelinkNode \<Rightarrow>
   datagram list \<times> (tref \<times> PeerAddr) list \<times> 'c RelinkNode" where
  "register_groups env self_ip [] n = ([], [], n)"
| "register_groups env self_ip ((r, topics) # gs) n =
     (let (outcome, sent) = register_group env self_ip r topics 1 300 n;
          learned = (if ro_ok outcome then ro_peers outcome else []);
          n = learn_initial learned n;
          (sent', punch', n) = register_groups env self_ip gs n
      in (sent @ sent', map (Pair r) (concat (map candidates learned)) @ punch', n))"

definition announce_topic_names_to_rlcore :: "'c RelinkNode \<Rightarrow> datagram list" where
  "announce_topic_names_to_rlcore n =
     (let entries = map (\<lambda>(id, name). \<lparr>td_topic_id = id, td_name = name\<rparr>) (nd_topic_names n)
      in if entries = [] then []
         else concat (map (\<lambda>chunk. case encode_topic_dir_announce chunk kTopicDirMaxPacket of
                                     None \<Rightarrow> []
                                   | Some pkt \<Rightarrow> [(rlcore_addr n, pkt)]) (chunk_topic_dir_entries entries)))"

definition register_all_topics_with_relay :: "(tref \<times> u32 list) list \<Rightarrow> 'c RelinkNode \<Rightarrow> datagram list" where
  "register_all_topics_with_relay groups n =
     concat (map (\<lambda>(r, topics). map (\<lambda>topic. (relay_peer n, encode_relay_register topic 8)) topics) groups)"

definition multicast_config :: "u32 \<Rightarrow> u32 \<Rightarrow> (tref \<times> u32 list) list \<Rightarrow> 'c RelinkNode \<Rightarrow> MulticastDiscoveryConfig" where
  "multicast_config self_ip pid groups n =
     MulticastDiscoveryConfig_default
       \<lparr>md_group_ip := derive_multicast_group (nd_network_id n),
        md_group_port := derive_multicast_port (nd_network_id n),
        md_self_ip := self_ip, md_self_pid := pid, md_shm_capable := True,
        md_port_groups := map (\<lambda>(r, topics). \<lparr>pg_port = ut_local_port (get_transport r n), pg_topics = topics\<rparr>) groups\<rparr>"

definition resolve_relay :: "'c RelinkNode \<Rightarrow> NodeError + 'c RelinkNode" where
  "resolve_relay n =
     (if cf_relay_requested (nd_rlcore n) \<and> \<not> nd_relay_enabled n then
        if nd_mode n \<noteq> ModeRlCore then Inl RelayNeedsRlCore
        else Inr (n\<lparr>nd_relay_enabled := True, nd_relay_ip := cf_ip (nd_rlcore n),
                    nd_relay_port := cf_port (nd_rlcore n)\<rparr>)
      else Inr n)"

definition route_groups :: "(tref \<times> u32 list) list \<Rightarrow> 'c RelinkNode \<Rightarrow> 'c RelinkNode" where
  "route_groups groups n =
     (let n = n\<lparr>nd_topic_route :=
                  om.put_all (concat (map (\<lambda>(r, topics). map (\<lambda>t. (t, r)) topics) groups)) (nd_topic_route n)\<rparr>
      in if nd_relay_enabled n \<or> nd_mode n = ModeRlCore
         then fold (\<lambda>(r, topics) n. set_transport r (enable_relay_dedup (get_transport r n)) n) groups n
         else n)"

definition start_transports :: "'c RelinkNode \<Rightarrow> 'c RelinkNode" where
  "start_transports n =
     (let pin_core = (if nd_data_thread_core n = kAutoPinCore then -1 else nd_data_thread_core n);
          go = transport_start pin_core (nd_use_realtime n) (nd_rt_priority n)
      in n\<lparr>nd_transport := go (nd_transport n),
           nd_topic_transports := map (\<lambda>(key, t). (key, go t)) (nd_topic_transports n)\<rparr>)"

text \<open>\<^verbatim>\<open>ensure_started\<close>: the node, the datagrams sent and the peers the initial burst punches.\<close>

definition ensure_started ::
  "node_env \<Rightarrow> 'c RelinkNode \<Rightarrow> NodeError + 'c RelinkNode \<times> datagram list \<times> (tref \<times> PeerAddr) list" where
  "ensure_started env n =
     (if nd_started n then Inr (n, [], [])
      else if nd_mode n = ModeNone then Inl NoDiscovery
      else if nd_mode n = ModeRlCore \<and> \<not> cf_ip_set (nd_rlcore n) then Inl RlCoreIpNotSet
      else
        ebind (resolve_relay n) (\<lambda>n.
        ebind (bind_new (ne_bind env) (nd_transport n)) (\<lambda>t.
          let n = n\<lparr>nd_transport := t\<rparr>;
              groups = topic_groups n;
              n = route_groups groups n
          in case ne_self_ip env of
               None \<Rightarrow> Inl DetectFailed
             | Some self_ip \<Rightarrow>
                 let (sent, punch, n) =
                       (if nd_mode n = ModeRlCore then
                          let (sent, punch, n) = register_groups env self_ip groups n;
                              n = n\<lparr>nd_rlcore_self_ip := self_ip, nd_rlcore_groups := groups\<rparr>
                          in (sent @ announce_topic_names_to_rlcore n, punch, n)
                        else
                          ([], [], n\<lparr>nd_mcast := Some (dc_start (MulticastDiscovery_ctor
                             (multicast_config self_ip (ne_pid env) groups n)))\<rparr>));
                     n = start_transports n;
                     n = (if nd_mode n = ModeRlCore \<and> \<not> nd_repunch_enabled n
                          then n\<lparr>nd_repunch_enabled := True, nd_repunch_interval := 1\<rparr> else n);
                     relay = (if nd_relay_enabled n then register_all_topics_with_relay groups n else [])
                 in Inr (n\<lparr>nd_started := True\<rparr>, sent @ relay, punch))))"

definition spin_once ::
  "node_env \<Rightarrow> 'c RelinkNode \<Rightarrow> NodeError + 'c RelinkNode \<times> datagram list \<times> (tref \<times> PeerAddr) list" where
  "spin_once env n = ensure_started env n"

definition local_data_port ::
  "node_env \<Rightarrow> 'c RelinkNode \<Rightarrow> NodeError + u16 \<times> 'c RelinkNode \<times> datagram list \<times> (tref \<times> PeerAddr) list" where
  "local_data_port env n =
     ebind (ensure_started env n) (\<lambda>(n, sent, punch). Inr (ut_local_port (nd_transport n), n, sent, punch))"

section \<open>Publishing\<close>

fun publish_to ::
  "(datagram \<Rightarrow> int) \<Rightarrow> u32 \<Rightarrow> bytes \<Rightarrow> u16 \<Rightarrow> PeerAddr list \<Rightarrow> bool \<times> datagram list" where
  "publish_to sendto topic_id payload seq [] = (True, [])"
| "publish_to sendto topic_id payload seq (p # ps) =
     (let (ok, out) = publish_raw_seq sendto topic_id payload p seq;
          (all_ok, outs) = publish_to sendto topic_id payload seq ps
      in (ok \<and> all_ok, out @ outs))"

text \<open>
  \<^verbatim>\<open>publish_raw\<close> and \<^verbatim>\<open>publish<T>\<close>, which differ for the chunk types only: those stay on the shared
  transport and are not relayed.
\<close>

definition node_publish ::
  "(datagram \<Rightarrow> int) \<Rightarrow> node_env \<Rightarrow> bool \<Rightarrow> u32 \<Rightarrow> bytes \<Rightarrow> 'c RelinkNode \<Rightarrow>
   NodeError + bool \<times> datagram list \<times> 'c RelinkNode" where
  "node_publish sendto env large_blob topic_id payload n =
     ebind (ensure_started env n) (\<lambda>(n, startup, punch).
       let n = declare_advertised topic_id n;
           peers = peers_for_topic topic_id n
       in ebind (if large_blob then Inr (Shared, n) else transport_for (ne_bind env) topic_id n) (\<lambda>(r, n).
            let (seq, t) = next_seq (get_transport r n);
                n = set_transport r t n;
                (all_ok, out) = publish_to sendto topic_id payload seq peers;
                (relay_ok, relayed) =
                  (if nd_relay_enabled n \<and> \<not> large_blob
                   then publish_raw_seq sendto topic_id payload (relay_peer n) seq else (False, []))
            in Inr (all_ok \<and> peers \<noteq> [] \<or> relay_ok, startup @ out @ relayed, n)))"

fun publish_chunk ::
  "(bytes list \<Rightarrow> PeerAddr \<Rightarrow> int \<times> datagram list) \<Rightarrow> u32 \<Rightarrow> bytes \<times> bytes \<Rightarrow> PeerAddr list \<Rightarrow>
   'h UdpTransport \<Rightarrow> bool \<times> datagram list \<times> 'h UdpTransport" where
  "publish_chunk sendmsg_to topic_id c [] t = (True, [], t)"
| "publish_chunk sendmsg_to topic_id c (p # ps) t =
     (let (ok, out, t) = publish_scattered sendmsg_to topic_id (fst c) (snd c) p t;
          (all_ok, outs, t) = publish_chunk sendmsg_to topic_id c ps t
      in (ok \<and> all_ok, out @ outs, t))"

fun publish_chunks ::
  "(bytes list \<Rightarrow> PeerAddr \<Rightarrow> int \<times> datagram list) \<Rightarrow> u32 \<Rightarrow> (bytes \<times> bytes) list \<Rightarrow> PeerAddr list \<Rightarrow>
   'h UdpTransport \<Rightarrow> bool \<times> datagram list \<times> 'h UdpTransport" where
  "publish_chunks sendmsg_to topic_id [] peers t = (True, [], t)"
| "publish_chunks sendmsg_to topic_id (c # cs) peers t =
     (let (ok, out, t) = publish_chunk sendmsg_to topic_id c peers t;
          (all_ok, outs, t) = publish_chunks sendmsg_to topic_id cs peers t
      in (ok \<and> all_ok, out @ outs, t))"

definition publish_image ::
  "(bytes list \<Rightarrow> PeerAddr \<Rightarrow> int \<times> datagram list) \<Rightarrow> node_env \<Rightarrow> u32 \<Rightarrow> bytes \<Rightarrow> u32 \<Rightarrow> 'c RelinkNode \<Rightarrow>
   NodeError + bool \<times> datagram list \<times> 'c RelinkNode" where
  "publish_image sendmsg_to env topic_id data frame_id n =
     (if length data > kMaxImageBytes then Inr (False, [], n)
      else
        let next = (case map_of (nd_next_image_frame_id n) topic_id of Some f \<Rightarrow> f | None \<Rightarrow> 0);
            (frame_id, n) =
              (if frame_id = kAutoFrameId
               then (next, n\<lparr>nd_next_image_frame_id := om_put topic_id (next + 1) (nd_next_image_frame_id n)\<rparr>)
               else (frame_id, n))
        in ebind (ensure_started env n) (\<lambda>(n, startup, punch).
             let (ok, out, t) = publish_chunks sendmsg_to topic_id
                   (map (image_payload frame_id data) [0..<unat (image_chunk_count (length data))])
                   (peers_for_topic topic_id n) (nd_transport n)
             in Inr (ok, startup @ out, n\<lparr>nd_transport := t\<rparr>)))"

definition publish_compressed_image ::
  "(bytes list \<Rightarrow> PeerAddr \<Rightarrow> int \<times> datagram list) \<Rightarrow> node_env \<Rightarrow> u64 \<Rightarrow> u32 \<Rightarrow> bytes \<Rightarrow> u8 \<Rightarrow> u32 \<Rightarrow> u64 \<Rightarrow>
   'c RelinkNode \<Rightarrow> NodeError + bool \<times> datagram list \<times> 'c RelinkNode" where
  "publish_compressed_image sendmsg_to env now_ns topic_id data quality frame_id capture_timestamp_ns n =
     (if length data > kMaxCompressedImageBytes then Inr (False, [], n)
      else
        let next = (case map_of (nd_next_compressed_image_frame_id n) topic_id of Some f \<Rightarrow> f | None \<Rightarrow> 0);
            (frame_id, n) =
              (if frame_id = kAutoFrameId
               then (next, n\<lparr>nd_next_compressed_image_frame_id :=
                               om_put topic_id (next + 1) (nd_next_compressed_image_frame_id n)\<rparr>)
               else (frame_id, n));
            ts = (if capture_timestamp_ns = 0 then now_ns else capture_timestamp_ns)
        in ebind (ensure_started env n) (\<lambda>(n, startup, punch).
             let (ok, out, t) = publish_chunks sendmsg_to topic_id
                   (map (compressed_image_payload frame_id ts quality data)
                     [0..<unat (compressed_image_chunk_count (length data))])
                   (peers_for_topic topic_id n) (nd_transport n)
             in Inr (ok, startup @ out, n\<lparr>nd_transport := t\<rparr>)))"

section \<open>Receiving\<close>

datatype 'c delivery =
    DeliverBytes 'c bytes
  | DeliverImage 'c u32 bytes
  | DeliverCompressed 'c u32 bytes u64 u8

text \<open>What the lambda registered for a topic does with a payload.\<close>

definition run_handler ::
  "'c Handler \<Rightarrow> bytes \<Rightarrow> 'c RelinkNode \<Rightarrow> MemFault + 'c delivery option \<times> 'c RelinkNode" where
  "run_handler h payload n =
     (case h of
        Typed sizeof_T cb \<Rightarrow>
          (if length payload \<noteq> sizeof_T then Inr (None, n) else Inr (Some (DeliverBytes cb payload), n))
      | RawHandler cb \<Rightarrow> Inr (Some (DeliverBytes cb payload), n)
      | ImageHandler i cb \<Rightarrow>
          ebind (image_topic_handler payload (nd_image_reassemblers n ! i)) (\<lambda>(st, out).
            Inr (map_option (\<lambda>(f, im). DeliverImage cb f im) out,
                 n\<lparr>nd_image_reassemblers := (nd_image_reassemblers n)[i := st]\<rparr>))
      | CompressedHandler i cb \<Rightarrow>
          ebind (compressed_image_topic_handler payload (nd_compressed_image_reassemblers n ! i)) (\<lambda>(st, out).
            Inr (map_option (\<lambda>(f, im, ts, q). DeliverCompressed cb f im ts q) out,
                 n\<lparr>nd_compressed_image_reassemblers := (nd_compressed_image_reassemblers n)[i := st]\<rparr>)))"

text \<open>One datagram on the data thread of a transport.\<close>

definition node_receive ::
  "tref \<Rightarrow> bytes option \<Rightarrow> 'c RelinkNode \<Rightarrow> MemFault + 'c delivery option \<times> 'c RelinkNode" where
  "node_receive r os_recv n =
     (let (taken, out, t) = recv_and_dispatch os_recv (get_transport r n);
          n = set_transport r t n
      in case out of
           None \<Rightarrow> Inr (None, n)
         | Some (h, payload) \<Rightarrow> run_handler h payload n)"

section \<open>The background threads\<close>

fun nat_punch_times :: "nat \<Rightarrow> (datagram \<Rightarrow> int) \<Rightarrow> PeerAddr \<Rightarrow> 'h UdpTransport \<Rightarrow> datagram list \<times> 'h UdpTransport" where
  "nat_punch_times 0 sendto peer t = ([], t)"
| "nat_punch_times (Suc k) sendto peer t =
     (let (ok, out, t) = publish_raw sendto kNatPunchTopicId [] peer t;
          (outs, t) = nat_punch_times k sendto peer t
      in (out @ outs, t))"

definition nat_punch :: "(datagram \<Rightarrow> int) \<Rightarrow> PeerAddr \<Rightarrow> tref \<Rightarrow> 'c RelinkNode \<Rightarrow> datagram list \<times> 'c RelinkNode" where
  "nat_punch sendto peer via n =
     (let (out, t) = nat_punch_times 3 sendto peer (get_transport via n) in (out, set_transport via t n))"

definition repunch_targets :: "'c RelinkNode \<Rightarrow> (tref \<times> PeerAddr) list" where
  "repunch_targets n =
     concat (map (\<lambda>(topic, ps).
       let via = (case map_of (nd_topic_route n) topic of Some r \<Rightarrow> r | None \<Rightarrow> Shared)
       in map (Pair via) ps) (nd_peers n))"

text \<open>
  A turn of the re-punch thread; \<open>stop i\<close> is the stop flag as it is read before target \<open>i\<close>. The keep-alive
  thread reads its flag twice per turn, around the wait.
\<close>

fun repunch_loop ::
  "(datagram \<Rightarrow> int) \<Rightarrow> (nat \<Rightarrow> bool) \<Rightarrow> nat \<Rightarrow> (tref \<times> PeerAddr) list \<Rightarrow> 'c RelinkNode \<Rightarrow>
   datagram list \<times> 'c RelinkNode" where
  "repunch_loop sendto stop i [] n = ([], n)"
| "repunch_loop sendto stop i ((via, peer) # targets) n =
     (if stop i then ([], n)
      else
        let (out, n) = nat_punch sendto peer via n;
            (outs, n) = repunch_loop sendto stop (Suc i) targets n
        in (out @ outs, n))"

definition repunch_turn ::
  "(datagram \<Rightarrow> int) \<Rightarrow> (nat \<Rightarrow> bool) \<Rightarrow> 'c RelinkNode \<Rightarrow> datagram list \<times> 'c RelinkNode" where
  "repunch_turn sendto stop n = repunch_loop sendto stop 0 (repunch_targets n) n"

fun relay_keepalive ::
  "(bool \<times> bool) list \<Rightarrow> (tref \<times> u32 list) list \<Rightarrow> 'c RelinkNode \<Rightarrow> datagram list" where
  "relay_keepalive [] groups n = []"
| "relay_keepalive ((before, after) # turns) groups n =
     (if before \<or> after then [] else register_all_topics_with_relay groups n @ relay_keepalive turns groups n)"

text \<open>The peer-discovered callback of multicast discovery.\<close>

definition on_peer_discovered :: "(datagram \<Rightarrow> int) \<Rightarrow> u32 \<Rightarrow> PeerInfo \<Rightarrow> 'c RelinkNode \<Rightarrow> datagram list \<times> 'c RelinkNode" where
  "on_peer_discovered sendto topic p n =
     (let addr = \<lparr>pa_ip = pi_ip p, pa_port = pi_port p\<rparr>;
          n = n\<lparr>nd_peers := peers_push topic addr (nd_peers n)\<rparr>;
          via = (case map_of (nd_topic_route n) topic of Some r \<Rightarrow> r | None \<Rightarrow> Shared);
          known = (case map_of (nd_local_ipc_candidates n) topic of Some pids \<Rightarrow> pids | None \<Rightarrow> []);
          n = (if pi_shm_capable p
               then n\<lparr>nd_local_ipc_candidates :=
                        om_put topic (set_add (pi_pid p) known) (nd_local_ipc_candidates n)\<rparr> else n)
      in nat_punch sendto addr via n)"

definition topic_name_provider :: "'c RelinkNode \<Rightarrow> TopicDirEntry list" where
  "topic_name_provider n = map (\<lambda>(id, name). \<lparr>td_topic_id = id, td_name = name\<rparr>) (nd_topic_names n)"

definition role_entries :: "u32 list \<Rightarrow> 'c RelinkNode \<Rightarrow> RoleAnnounceEntry list" where
  "role_entries topics n =
     concat (map (\<lambda>topic.
       let role = (0 :: u8);
           role = (if topic \<in> set (nd_advertised_topics n) then role OR kRolePublisher else role);
           role = (if topic \<in> set (nd_subscribed_topics n) then role OR kRoleSubscriber else role)
       in if role \<noteq> 0 then [\<lparr>ra_topic_id = topic, ra_role = role\<rparr>] else []) topics)"

definition announce_roles :: "u32 list \<Rightarrow> 'c RelinkNode \<Rightarrow> datagram list" where
  "announce_roles topics n =
     concat (map (\<lambda>chunk. case encode_role_announce chunk kRoleMaxPacket of
                            None \<Rightarrow> []
                          | Some pkt \<Rightarrow> [(rlcore_addr n, pkt)]) (chunk_role_announce_entries (role_entries topics n)))"

definition pending_topics :: "bool \<Rightarrow> u32 list \<Rightarrow> 'c RelinkNode \<Rightarrow> u32 list" where
  "pending_topics full_sweep topics n =
     (if full_sweep then topics else filter (\<lambda>topic. peers_for_topic topic n = []) topics)"

definition add_if_new :: "u32 \<Rightarrow> PeerAddr \<Rightarrow> 'c RelinkNode \<Rightarrow> bool \<times> 'c RelinkNode" where
  "add_if_new topic_id addr n =
     (let known = peers_for_topic topic_id n;
          n = n\<lparr>nd_peers := om_put topic_id known (nd_peers n)\<rparr>
      in if list_ex (\<lambda>e. pa_ip e = pa_ip addr \<and> pa_port e = pa_port addr) known then (False, n)
         else (True, n\<lparr>nd_peers := om_put topic_id (known @ [addr]) (nd_peers n)\<rparr>))"

fun add_all_new :: "(u32 \<times> PeerAddr) list \<Rightarrow> 'c RelinkNode \<Rightarrow> PeerAddr list \<times> 'c RelinkNode" where
  "add_all_new [] n = ([], n)"
| "add_all_new ((topic, a) # as) n =
     (let (fresh, n) = add_if_new topic a n; (found, n) = add_all_new as n
      in (if fresh then a # found else found, n))"

text \<open>
  One tick of the re-registration thread. The stop flag is looked at before each group.
\<close>

definition rereg_group ::
  "node_env \<Rightarrow> bool \<Rightarrow> tref \<Rightarrow> u32 list \<Rightarrow> 'c RelinkNode \<Rightarrow>
   datagram list \<times> (tref \<times> PeerAddr) list \<times> 'c RelinkNode" where
  "rereg_group env full_sweep r topics n =
     (let roles = announce_roles topics n;
          pending = pending_topics full_sweep topics n
      in if \<not> full_sweep \<and> pending = [] then (roles, [], n)
         else
           let (outcome, sent) = register_group env (nd_rlcore_self_ip n) r pending 5 100 n
           in if \<not> ro_ok outcome then (roles @ sent, [], n)
              else
                let (found, n) = add_all_new
                      (concat (map (\<lambda>p. map (Pair (ap_topic_id p)) (candidates p)) (ro_peers outcome))) n
                in (roles @ sent, map (Pair r) found, n))"

fun rereg_groups ::
  "node_env \<Rightarrow> (nat \<Rightarrow> bool) \<Rightarrow> nat \<Rightarrow> bool \<Rightarrow> (tref \<times> u32 list) list \<Rightarrow> 'c RelinkNode \<Rightarrow>
   datagram list \<times> (tref \<times> PeerAddr) list \<times> 'c RelinkNode" where
  "rereg_groups env stop i full_sweep [] n = ([], [], n)"
| "rereg_groups env stop i full_sweep ((r, topics) # gs) n =
     (if stop i then ([], [], n)
      else
        let (sent, punch, n) = rereg_group env full_sweep r topics n;
            (sent', punch', n) = rereg_groups env stop (Suc i) full_sweep gs n
        in (sent @ sent', punch @ punch', n))"

definition rereg_tick ::
  "node_env \<Rightarrow> (nat \<Rightarrow> bool) \<Rightarrow> nat \<Rightarrow> 'c RelinkNode \<Rightarrow>
   datagram list \<times> (tref \<times> PeerAddr) list \<times> 'c RelinkNode" where
  "rereg_tick env stop tick n =
     (let names = announce_topic_names_to_rlcore n;
          (sent, punch, n) = rereg_groups env stop 0 (tick mod 10 = 0) (nd_rlcore_groups n) n
      in (names @ sent, punch, n))"

section \<open>Names\<close>

definition names_ok :: "'c RelinkNode \<Rightarrow> bool" where
  "names_ok n \<longleftrightarrow> om_wf (nd_topic_names n) \<and>
     (\<forall>i s. map_of (nd_topic_names n) i = Some s \<longrightarrow> fnv1a32 s = i \<and> i \<noteq> kNatPunchTopicId)"

text \<open>
  Resolving a name either registers it for good or refuses it for a stated reason: on success the id
  is the hash of the name, never the reserved one, and the reverse lookup gives the name back, here and
  for every name resolved before; a refusal means the hash is the reserved id, or that a different name
  resolved earlier has the same hash. Two names of a node never share an id.
\<close>

theorem topic_id_for_registers:
  assumes "names_ok n"
  shows "case topic_id_for name n of
      Inr (i, n') \<Rightarrow> names_ok n' \<and> i = fnv1a32 name \<and> i \<noteq> kNatPunchTopicId \<and> topic_name_for i n' = name \<and>
        (\<forall>j s. map_of (nd_topic_names n) j = Some s \<longrightarrow> topic_name_for j n' = s)
    | Inl e \<Rightarrow> e = TopicReserved name \<and> fnv1a32 name = kNatPunchTopicId \<or>
        (\<exists>known. e = TopicCollision known name \<and> known \<noteq> name \<and> fnv1a32 known = fnv1a32 name \<and>
           topic_name_for (fnv1a32 name) n = known)"
proof (cases "fnv1a32 name = kNatPunchTopicId")
  case True
  then show ?thesis by (simp add: topic_id_for_def)
next
  case False
  show ?thesis
  proof (cases "map_of (nd_topic_names n) (fnv1a32 name)")
    case None
    then show ?thesis
      using False assms
      by (auto simp: topic_id_for_def Let_def names_ok_def om_put_wf om_put_get topic_name_for_def)
  next
    case (Some known)
    then have "fnv1a32 known = fnv1a32 name" using assms by (auto simp: names_ok_def)
    then show ?thesis
      using False Some assms by (cases "known = name") (auto simp: topic_id_for_def topic_name_for_def Let_def)
  qed
qed

theorem topic_id_for_registers_witness:
  "case topic_id_for [0x61] (RelinkNode_init :: nat RelinkNode) of
      Inr (i, n') \<Rightarrow> names_ok n' \<and> i = fnv1a32 [0x61] \<and> i \<noteq> kNatPunchTopicId \<and> topic_name_for i n' = [0x61] \<and>
        (\<forall>j s. map_of (nd_topic_names (RelinkNode_init :: nat RelinkNode)) j = Some s \<longrightarrow> topic_name_for j n' = s)
    | Inl e \<Rightarrow> e = TopicReserved [0x61] \<and> fnv1a32 [0x61] = kNatPunchTopicId \<or>
        (\<exists>known. e = TopicCollision known [0x61] \<and> known \<noteq> [0x61] \<and> fnv1a32 known = fnv1a32 [0x61] \<and>
           topic_name_for (fnv1a32 [0x61]) (RelinkNode_init :: nat RelinkNode) = known)"
  by (rule topic_id_for_registers) (simp add: names_ok_def RelinkNode_init_def om_wf_def)

section \<open>Transports of topics\<close>

lemma unat_ucast_u64: "unat (ucast (p :: u32) :: u64) = unat p"
proof -
  have "unat p < 2 ^ 64" using unsigned_less [of p, where ?'a = nat] by simp
  then show ?thesis by (simp add: unsigned_ucast_eq take_bit_nat_eq_self)
qed

lemma pair_key: "unat (kPairKeyTag OR ucast (p :: u32)) = 2 ^ 32 + unat p"
proof -
  have "\<not> bit kPairKeyTag i \<or> \<not> bit (ucast p :: u64) i" for i
    unfolding kPairKeyTag_def bit_push_bit_iff bit_1_iff
    by (auto simp: bit_ucast_iff dest: bit_imp_le_length)
  then have "kPairKeyTag OR ucast p = kPairKeyTag + (ucast p :: u64)"
    by (simp add: disjunctive_add)
  moreover have "unat p < 2 ^ 32" using unsigned_less [of p, where ?'a = nat] by simp
  ultimately show ?thesis
    by (simp add: kPairKeyTag_def unat_word_ariths unat_ucast_u64)
qed

lemma group_key_cases:
  "unat (group_key_locked n t) =
     (case map_of (nd_topic_pair_id n) t of Some p \<Rightarrow> 2 ^ 32 + unat p | None \<Rightarrow> unat t)"
  by (simp add: group_key_locked_def pair_key unat_ucast_u64 split: option.split)

text \<open>
  Topics share a dedicated transport exactly when they are paired under one pair id: the key of a
  pair never equals the key of an unpaired topic, whatever the numbers, and keys of different pairs or
  of different unpaired topics differ.
\<close>

theorem group_keys_separate:
  "group_key_locked n a = group_key_locked n b \<longleftrightarrow>
   a = b \<or> (\<exists>p. map_of (nd_topic_pair_id n) a = Some p \<and> map_of (nd_topic_pair_id n) b = Some p)"
proof -
  have less: "unat x < 2 ^ 32" for x :: u32 using unsigned_less [of x, where ?'a = nat] by simp
  show ?thesis
  proof (cases "a = b")
    case False
    then have "unat a \<noteq> unat b" by (simp add: word_unat_eq_iff)
    then show ?thesis
      unfolding word_unat_eq_iff [of "group_key_locked n a"] group_key_cases
      using less [of a] less [of b] False by (auto simp: word_unat_eq_iff split: option.splits)
  qed simp
qed

section \<open>Groups\<close>

lemma bucket_get:
  "map_of (fold (\<lambda>t. add_to_bucket (f t) t) ts m) key =
     (if filter (\<lambda>t. f t = key) ts = [] then map_of m key
      else Some ((case map_of m key of Some ids \<Rightarrow> ids | None \<Rightarrow> []) @ filter (\<lambda>t. f t = key) ts))"
proof (induction ts arbitrary: m)
  case Nil
  then show ?case by simp
next
  case (Cons t ts)
  show ?case unfolding fold.simps comp_def Cons.IH
    by (auto simp: add_to_bucket_def om_put_get)
qed

lemma bucket_wf: "om_wf m \<Longrightarrow> om_wf (fold (\<lambda>t. add_to_bucket (f t) t) ts m)"
  by (induction ts arbitrary: m) (simp_all add: add_to_bucket_def om_put_wf)

lemma distinct_buckets:
  assumes "distinct (map fst m)" and "\<forall>(key, ids) \<in> set m. distinct ids \<and> (\<forall>t \<in> set ids. f t = key)"
  shows "distinct (concat (map snd m))"
  using assms
proof (induction m)
  case Nil
  then show ?case by simp
next
  case (Cons e m)
  obtain key ids where e: "e = (key, ids)" by (cases e)
  have "\<forall>t \<in> set ids. f t = key" "key \<notin> fst ` set m" using Cons.prems by (auto simp: e)
  then have "set ids \<inter> set (concat (map snd m)) = {}" using Cons.prems(2) by (force simp: e)
  then show ?case using Cons by (simp add: e)
qed

lemma bucket_in:
  "(key, ids) \<in> set (fold (\<lambda>t. add_to_bucket (f t) t) ts []) \<longleftrightarrow>
     ids = filter (\<lambda>t. f t = key) ts \<and> ids \<noteq> []"
proof -
  have "om_wf (fold (\<lambda>t. add_to_bucket (f t) t) ts [])" by (rule bucket_wf) (simp add: om_wf_def)
  from om_in_set [OF this] show ?thesis by (auto simp: bucket_get)
qed

text \<open>
  C26: Discovery announces every declared topic exactly once, under the transport that carries it: the
  groups split the declared topics, no transport has two groups, and a topic's group is that of its
  dedicated transport if it has one and of the shared transport otherwise.
\<close>

theorem topic_groups_partition:
  assumes "distinct (nd_declared_topics n)"
  shows "distinct (concat (map snd (topic_groups n))) \<and>
    set (concat (map snd (topic_groups n))) = set (nd_declared_topics n) \<and>
    distinct (map fst (topic_groups n)) \<and>
    (\<forall>r ts t. (r, ts) \<in> set (topic_groups n) \<and> t \<in> set ts \<longrightarrow>
       r = (if \<not> nd_multiplex n \<and> map_of (nd_topic_transports n) (group_key_locked n t) \<noteq> None
            then Dedicated (group_key_locked n t) else Shared))"
proof (cases "\<not> nd_multiplex n \<and> nd_topic_transports n \<noteq> []")
  case False
  then show ?thesis using assms by (auto simp: topic_groups_def)
next
  case True
  let ?f = "group_key_locked n"
  let ?has = "\<lambda>t. map_of (nd_topic_transports n) (?f t) \<noteq> None"
  let ?ts = "filter ?has (nd_declared_topics n)" and ?rest = "filter (\<lambda>t. \<not> ?has t) (nd_declared_topics n)"
  let ?m = "fold (\<lambda>t. add_to_bucket (?f t) t) ?ts []"
  have groups: "topic_groups n = map (\<lambda>(key, ids). (Dedicated key, ids)) ?m @
      (if ?rest \<noteq> [] then [(Shared, ?rest)] else [])"
    using True by (simp add: topic_groups_def Let_def)
  have snds: "map snd (topic_groups n) = map snd ?m @ (if ?rest \<noteq> [] then [?rest] else [])"
    and fsts: "map fst (topic_groups n) = map Dedicated (map fst ?m) @ (if ?rest \<noteq> [] then [Shared] else [])"
    unfolding groups by (auto simp: case_prod_beta comp_def)
  have keys: "distinct (map fst ?m)" by (intro om_wf_distinct bucket_wf) (simp add: om_wf_def)
  have b: "\<forall>(key, ids) \<in> set ?m. distinct ids \<and> (\<forall>t \<in> set ids. ?f t = key)"
    using assms by (auto simp: bucket_in)
  have in_m: "set (concat (map snd ?m)) = set ?ts"
  proof -
    have "t \<in> set (concat (map snd ?m)) \<longleftrightarrow> (\<exists>key ids. (key, ids) \<in> set ?m \<and> t \<in> set ids)" for t by force
    then show ?thesis by (auto simp: bucket_in filter_empty_conv)
  qed
  have "distinct (concat (map snd (topic_groups n)))"
    unfolding snds using distinct_buckets [OF keys b] in_m assms by auto
  moreover have "set (concat (map snd (topic_groups n))) = set (nd_declared_topics n)"
    unfolding snds concat_append set_append in_m by (auto simp: filter_empty_conv)
  moreover have "distinct (map fst (topic_groups n))"
    unfolding fsts using keys by (auto simp: distinct_map inj_on_def)
  moreover have "r = (if \<not> nd_multiplex n \<and> ?has t then Dedicated (?f t) else Shared)"
    if "(r, ts) \<in> set (topic_groups n)" "t \<in> set ts" for r ts t
    using that True unfolding groups by (auto simp: bucket_in split: if_splits)
  ultimately show ?thesis by blast
qed

theorem topic_groups_partition_witness:
  "let n = (RelinkNode_init :: nat RelinkNode)\<lparr>nd_declared_topics := [5, 6, 7], nd_multiplex := False,
         nd_topic_pair_id := [(5, 1), (6, 1)], nd_topic_transports := [(kPairKeyTag OR ucast (1 :: u32), UdpTransport_init)]\<rparr>
   in distinct (concat (map snd (topic_groups n)))"
  using topic_groups_partition [of "(RelinkNode_init :: nat RelinkNode)\<lparr>nd_declared_topics := [5, 6, 7],
         nd_multiplex := False, nd_topic_pair_id := [(5, 1), (6, 1)],
         nd_topic_transports := [(kPairKeyTag OR ucast (1 :: u32), UdpTransport_init)]\<rparr>"]
  by (simp add: Let_def)

section \<open>Publishing\<close>

lemma publish_to_eq:
  "length payload \<le> 1400 \<Longrightarrow>
   publish_to sendto topic payload seq ps =
     (list_all (\<lambda>p. sendto (p, frame_bytes topic seq payload) = int (length payload + 11)) ps,
      map (\<lambda>p. (p, frame_bytes topic seq payload)) ps)"
  by (induction ps) (simp_all add: publish_raw_seq_def encode_frame_eq kMaxFrameBytes_def
      kMaxPayloadBytes_def sizeof_RelinkHeader_def)

lemma set_transport_frame [simp]:
  "nd_relay_enabled (set_transport r t n) = nd_relay_enabled n"
  "nd_peers (set_transport r t n) = nd_peers n"
  "nd_relay_ip (set_transport r t n) = nd_relay_ip n"
  "nd_relay_port (set_transport r t n) = nd_relay_port n"
  "nd_multiplex (set_transport r t n) = nd_multiplex n"
  by (simp_all add: set_transport_def split: tref.splits)

lemma get_set_transport [simp]: "get_transport r (set_transport r t n) = t"
  by (cases r) (simp_all add: get_transport_def set_transport_def om_put_get)

text \<open>
  On a started node that shares one transport, publishing a message of up to 1400 bytes sends the
  same frame, under one sequence number, to every known peer of the topic and to the relay if there is
  one, and to nobody else; it reports success exactly when it reached all of at least one known peer,
  or the relay; and the next message gets the next number.
\<close>

theorem node_publish_sends:
  assumes "nd_started n" and "nd_multiplex n" and "length payload \<le> 1400"
  shows "\<exists>n'. let frame = frame_bytes topic (ut_seq_counter (nd_transport n)) payload;
               dests = peers_for_topic topic n;
               arrived = (\<lambda>p. sendto (p, frame) = int (length frame))
    in node_publish sendto env False topic payload n =
         Inr (dests \<noteq> [] \<and> list_all arrived dests \<or> nd_relay_enabled n \<and> arrived (relay_peer n),
              map (\<lambda>p. (p, frame)) (dests @ (if nd_relay_enabled n then [relay_peer n] else [])), n') \<and>
       ut_seq_counter (nd_transport n') = ut_seq_counter (nd_transport n) + 1 \<and> nd_peers n' = nd_peers n"
proof -
  let ?n = "declare_advertised topic n"
  let ?t = "snd (next_seq (nd_transport n))"
  have keep: "nd_transport ?n = nd_transport n" "nd_peers ?n = nd_peers n" "nd_multiplex ?n = nd_multiplex n"
    "nd_relay_enabled ?n = nd_relay_enabled n" "nd_relay_ip ?n = nd_relay_ip n" "nd_relay_port ?n = nd_relay_port n"
    by (simp_all add: declare_advertised_def)
  have relay: "publish_raw_seq sendto topic payload p seq =
      (sendto (p, frame_bytes topic seq payload) = int (length payload + 11), [(p, frame_bytes topic seq payload)])"
    for p seq
    using publish_to_eq [OF assms(3), of sendto topic seq "[p]"] by (simp split: prod.splits)
  show ?thesis
    using assms keep
    by (auto simp: Let_def node_publish_def ensure_started_def transport_for_def publish_to_eq relay next_seq_def
        get_transport_def set_transport_def peers_for_topic_def relay_peer_def
        intro!: exI [of _ "set_transport Shared ?t ?n"])
qed

theorem node_publish_sends_witness:
  "\<exists>n'. let n = (RelinkNode_init :: nat RelinkNode)\<lparr>nd_started := True, nd_peers := [(7, [\<lparr>pa_ip = 1, pa_port = 2\<rparr>])]\<rparr>;
           frame = frame_bytes 7 (ut_seq_counter (nd_transport n)) [1, 2];
           dests = peers_for_topic 7 n;
           arrived = (\<lambda>p. (\<lambda>d. int (length (snd d))) (p, frame) = int (length frame))
    in node_publish (\<lambda>d. int (length (snd d))) \<lparr>ne_bind = (Some 3, True, Some 9000), ne_self_ip = Some 1, ne_pid = 1, ne_nonce = [], ne_register = \<lambda>_ _ _. (0, None)\<rparr> False 7 [1, 2] n =
         Inr (dests \<noteq> [] \<and> list_all arrived dests \<or> nd_relay_enabled n \<and> arrived (relay_peer n),
              map (\<lambda>p. (p, frame)) (dests @ (if nd_relay_enabled n then [relay_peer n] else [])), n') \<and>
       ut_seq_counter (nd_transport n') = ut_seq_counter (nd_transport n) + 1 \<and> nd_peers n' = nd_peers n"
  using node_publish_sends [of "(RelinkNode_init :: nat RelinkNode)\<lparr>nd_started := True, nd_peers := [(7, [\<lparr>pa_ip = 1, pa_port = 2\<rparr>])]\<rparr>"
      "[1, 2]" 7 "\<lambda>d. int (length (snd d))"
      "\<lparr>ne_bind = (Some 3, True, Some 9000), ne_self_ip = Some 1, ne_pid = 1, ne_nonce = [], ne_register = \<lambda>_ _ _. (0, None)\<rparr>"]
  by (simp add: RelinkNode_init_def Let_def)

section \<open>Delivery\<close>

text \<open>
  A frame that reaches a subscriber is delivered once and intact: the first copy with a number not
  among the last eight calls the typed callback with exactly the published bytes if they have the size
  of the type, and calls nothing otherwise. Another copy of the frame, such as the relayed one, calls
  nothing if suppression is on, and has the effect of the first if it is off.
\<close>

theorem frame_delivered_once:
  assumes "ut_handlers (get_transport r m) topic = Some (Typed sz cb)" and "windows_wf (get_transport r m)"
    and "length payload \<le> 1400" and "s \<notin> set (sw_list (window_of topic (get_transport r m)))"
  shows "\<exists>m1. node_receive r (Some (frame_bytes topic s payload)) m =
      Inr (if length payload = sz then Some (DeliverBytes cb payload) else None, m1) \<and>
    (\<exists>m2. node_receive r (Some (frame_bytes topic s payload)) m1 =
       Inr (if length payload = sz \<and> \<not> ut_relay_dedup_enabled (get_transport r m) then Some (DeliverBytes cb payload)
            else None, m2))"
proof -
  let ?t = "get_transport r m" and ?f = "frame_bytes topic s payload"
  note e = is_recent_duplicate_eq [OF assms(2), of topic s]
  define t1 where "t1 = (if ut_relay_dedup_enabled ?t then snd (is_recent_duplicate topic s ?t) else ?t)"
  have d1: "is_recent_duplicate topic s ?t = (False, snd (is_recent_duplicate topic s ?t))"
    using e(1) assms(4) by (cases "is_recent_duplicate topic s ?t") simp
  have first: "recv_and_dispatch (Some ?f) ?t = (True, Some (Typed sz cb, payload), t1)"
  proof (cases "ut_relay_dedup_enabled ?t")
    case True
    then show ?thesis
      unfolding recv_frame_eq [OF assms(3)] using d1 e(4) assms(1) by (cases "is_recent_duplicate topic s ?t") (auto simp: t1_def)
  next
    case False
    then show ?thesis unfolding recv_frame_eq [OF assms(3)] using assms(1) by (simp add: t1_def)
  qed
  let ?m1 = "set_transport r t1 m"
  have "node_receive r (Some ?f) m =
      Inr (if length payload = sz then Some (DeliverBytes cb payload) else None, ?m1)"
    by (simp add: node_receive_def first run_handler_def)
  moreover have "\<exists>m2. node_receive r (Some ?f) ?m1 = Inr (None, m2)" if on: "ut_relay_dedup_enabled ?t"
  proof -
    have "s \<in> set (sw_list (window_of topic t1))"
      using e(2) on assms(4) sw_push_list [OF window_of_wf [OF assms(2)]] by (simp add: t1_def)
    moreover have wf: "windows_wf t1" and "ut_relay_dedup_enabled t1" using e(3,5) on by (simp_all add: t1_def)
    ultimately have "fst (snd (recv_and_dispatch (Some ?f) t1)) = None"
      using is_recent_duplicate_eq(1) [OF wf, of topic s] assms(3)
      by (cases "is_recent_duplicate topic s t1") (simp add: recv_frame_eq)
    then show ?thesis by (cases "recv_and_dispatch (Some ?f) t1") (auto simp: node_receive_def)
  qed
  moreover have "\<exists>m2. node_receive r (Some ?f) ?m1 =
      Inr (if length payload = sz then Some (DeliverBytes cb payload) else None, m2)" if off: "\<not> ut_relay_dedup_enabled ?t"
    using off first by (simp add: t1_def node_receive_def run_handler_def)
  ultimately show ?thesis by (cases "ut_relay_dedup_enabled ?t") auto
qed

theorem frame_delivered_once_witness:
  "let m = (RelinkNode_init :: nat RelinkNode)\<lparr>nd_transport :=
        enable_relay_dedup (set_topic_handler 7 (Typed 2 9) UdpTransport_init)\<rparr>
   in \<exists>m1. node_receive Shared (Some (frame_bytes 7 3 [1, 2])) m = Inr (Some (DeliverBytes 9 [1, 2]), m1)"
  using frame_delivered_once [of Shared "(RelinkNode_init :: nat RelinkNode)\<lparr>nd_transport :=
        enable_relay_dedup (set_topic_handler 7 (Typed 2 9) UdpTransport_init)\<rparr>" 7 2 9 "[1, 2]" 3]
  by (auto simp: Let_def get_transport_def UdpTransport_init_def enable_relay_dedup_def set_topic_handler_def
      windows_wf_def window_of_def)

section \<open>Re-registration\<close>

lemma add_if_new_eq:
  "add_if_new t a n =
     (a \<notin> set (peers_for_topic t n),
      n\<lparr>nd_peers := om_put t (if a \<in> set (peers_for_topic t n) then peers_for_topic t n
                             else peers_for_topic t n @ [a]) (nd_peers n)\<rparr>)"
proof -
  have "list_ex (\<lambda>e. pa_ip e = pa_ip a \<and> pa_port e = pa_port a) ps \<longleftrightarrow> a \<in> set ps" for ps :: "PeerAddr list"
  proof -
    have "pa_ip e = pa_ip a \<and> pa_port e = pa_port a \<longleftrightarrow> e = a" for e by (cases e; cases a) simp
    then show ?thesis by (auto simp: list_ex_iff)
  qed
  moreover have "om_put t y (om_put t x m) = om_put t y m" for x y :: "PeerAddr list" and m
    by (induction m) auto
  ultimately show ?thesis by (simp add: add_if_new_def Let_def)
qed

lemma peers_put: "peers_for_topic t (n\<lparr>nd_peers := om_put t' ps (nd_peers n)\<rparr>) =
    (if t = t' then ps else peers_for_topic t n)"
  by (simp add: peers_for_topic_def om_put_get)

lemma add_all_new_frame: "\<exists>ps. snd (add_all_new as n) = n\<lparr>nd_peers := ps\<rparr>"
proof (induction as arbitrary: n)
  case Nil
  then show ?case by (auto intro!: exI [of _ "nd_peers n"])
next
  case (Cons e as)
  obtain t a where e: "e = (t, a)" by (cases e)
  have eq: "(n\<lparr>nd_peers := p\<rparr>)\<lparr>nd_peers := q\<rparr> = n\<lparr>nd_peers := q\<rparr>" for p q by simp
  obtain ps where "snd (add_all_new as (snd (add_if_new t a n))) = (snd (add_if_new t a n))\<lparr>nd_peers := ps\<rparr>"
    using Cons by blast
  then show ?case
    by (auto simp: e add_if_new_eq eq Let_def split: prod.splits)
qed

lemma add_all_new_peers:
  "\<exists>new. peers_for_topic t (snd (add_all_new as n)) = peers_for_topic t n @ new \<and>
     set new = {a. (t, a) \<in> set as} - set (peers_for_topic t n) \<and> distinct new"
proof (induction as arbitrary: n)
  case Nil
  then show ?case by simp
next
  case (Cons e as)
  obtain u a where e: "e = (u, a)" by (cases e)
  define n1 where "n1 = snd (add_if_new u a n)"
  have step: "snd (add_all_new (e # as) n) = snd (add_all_new as n1)"
    by (simp add: e n1_def split: prod.splits)
  have n1: "peers_for_topic t n1 =
      (if t = u \<and> a \<notin> set (peers_for_topic t n) then peers_for_topic t n @ [a] else peers_for_topic t n)"
    by (simp add: n1_def add_if_new_eq peers_put)
  obtain new where new: "peers_for_topic t (snd (add_all_new as n1)) = peers_for_topic t n1 @ new"
    "set new = {a. (t, a) \<in> set as} - set (peers_for_topic t n1)" "distinct new"
    using Cons by blast
  show ?case
  proof (cases "t = u \<and> a \<notin> set (peers_for_topic t n)")
    case True
    then have "peers_for_topic t n1 = peers_for_topic t n @ [a]" unfolding n1 by (rule if_P)
    then show ?thesis using new True unfolding step by (intro exI [of _ "a # new"]) (auto simp: e)
  next
    case False
    then have "peers_for_topic t n1 = peers_for_topic t n" unfolding n1 by (rule if_not_P)
    then show ?thesis using new False unfolding step by (intro exI [of _ new]) (auto simp: e)
  qed
qed

lemma add_all_new_found:
  "set (fst (add_all_new as n)) = {a. \<exists>t. (t, a) \<in> set as \<and> a \<notin> set (peers_for_topic t n)}"
proof (induction as arbitrary: n)
  case Nil
  then show ?case by simp
next
  case (Cons e as)
  obtain u b where e: "e = (u, b)" by (cases e)
  have "set (fst (add_all_new (e # as) n)) =
      (if b \<notin> set (peers_for_topic u n) then {b} else {}) \<union> set (fst (add_all_new as (snd (add_if_new u b n))))"
    by (auto simp: e add_if_new_eq split: prod.splits)
  then show ?case by (auto simp: Cons e add_if_new_eq peers_put)
qed

text \<open>The addresses an outcome offers for a topic.\<close>

definition offered :: "RegisterOutcome \<Rightarrow> u32 \<Rightarrow> PeerAddr set" where
  "offered out t = {a. \<exists>p \<in> set (ro_peers out). ap_topic_id p = t \<and> a \<in> set (candidates p)}"

definition offers :: "RegisterOutcome \<Rightarrow> (u32 \<times> PeerAddr) list" where
  "offers out = concat (map (\<lambda>p. map (Pair (ap_topic_id p)) (candidates p)) (ro_peers out))"

lemma offered_pairs: "{a. (t, a) \<in> set (offers out)} = offered out t"
  by (auto simp: offered_def offers_def)

lemma rereg_group_asked:
  assumes "(full \<or> pending_topics full topics n \<noteq> []) \<and>
    ro_ok (fst (register_group env (nd_rlcore_self_ip n) r (pending_topics full topics n) 5 100 n))"
  defines "out \<equiv> fst (register_group env (nd_rlcore_self_ip n) r (pending_topics full topics n) 5 100 n)"
  shows "snd (rereg_group env full r topics n) =
    (map (Pair r) (fst (add_all_new (offers out) n)), snd (add_all_new (offers out) n))"
  using assms by (auto simp: rereg_group_def offers_def Let_def split: prod.splits)

lemma rereg_group_not_asked:
  assumes "\<not> ((full \<or> pending_topics full topics n \<noteq> []) \<and>
    ro_ok (fst (register_group env (nd_rlcore_self_ip n) r (pending_topics full topics n) 5 100 n)))"
  shows "snd (rereg_group env full r topics n) = ([], n)"
  using assms by (auto simp: rereg_group_def Let_def split: prod.splits)

text \<open>
  A registration tick only adds peers, and only what rlcore vouched for: when the registration of
  a group succeeds, each topic's list is the old list followed by the acknowledged addresses, public
  and LAN, that were not in it, each once; the new addresses, and no others, are punched through the
  group's transport; when it fails, or no topic of the group lacks a peer outside a full sweep, no
  list changes. Nothing else of the node changes.
\<close>

theorem rereg_group_merges:
  "let pending = pending_topics full topics n;
       out = fst (register_group env (nd_rlcore_self_ip n) r pending 5 100 n);
       asked = (full \<or> pending \<noteq> []) \<and> ro_ok out;
       (sent, punch, n') = rereg_group env full r topics n
   in (\<exists>ps. n' = n\<lparr>nd_peers := ps\<rparr>) \<and>
      (\<forall>t. \<exists>new. peers_for_topic t n' = peers_for_topic t n @ new \<and> distinct new \<and>
         set new = (if asked then offered out t - set (peers_for_topic t n) else {})) \<and>
      set punch = (if asked then {(r, a) | a t. a \<in> offered out t \<and> a \<notin> set (peers_for_topic t n)} else {})"
proof -
  let ?out = "fst (register_group env (nd_rlcore_self_ip n) r (pending_topics full topics n) 5 100 n)"
  let ?as = "offers ?out"
  show ?thesis
  proof (cases "(full \<or> pending_topics full topics n \<noteq> []) \<and> ro_ok ?out")
    case True
    note eq = rereg_group_asked [OF True]
    have "Pair r ` set (fst (add_all_new ?as n)) =
        {(r, a) | a t. a \<in> offered ?out t \<and> a \<notin> set (peers_for_topic t n)}"
      unfolding add_all_new_found offered_pairs [symmetric] by blast
    moreover have "\<exists>new. peers_for_topic t (snd (add_all_new ?as n)) = peers_for_topic t n @ new \<and>
        distinct new \<and> set new = offered ?out t - set (peers_for_topic t n)" for t
      using add_all_new_peers [of t ?as n] unfolding offered_pairs by blast
    ultimately show ?thesis
      using True add_all_new_frame [of ?as n] eq
      by (cases "rereg_group env full r topics n") (simp add: Let_def)
  next
    case False
    then show ?thesis using rereg_group_not_asked [OF False]
      by (auto simp: Let_def split: prod.splits intro!: exI [of _ "nd_peers n"])
  qed
qed

text \<open>The ticks \<open>k\<close>, \<open>k + 1\<close>, ... of the re-registration thread of a node that is not told to stop.\<close>

fun rereg_run :: "(nat \<Rightarrow> node_env) \<Rightarrow> nat \<Rightarrow> nat \<Rightarrow> 'c RelinkNode \<Rightarrow> 'c RelinkNode" where
  "rereg_run env k 0 n = n"
| "rereg_run env k (Suc m) n =
     (let (sent, punch, n) = rereg_tick (env k) (\<lambda>_. False) k n in rereg_run env (Suc k) m n)"

definition grown :: "'c RelinkNode \<Rightarrow> 'c RelinkNode \<Rightarrow> bool" where
  "grown n n' \<longleftrightarrow> (\<exists>ps. n' = n\<lparr>nd_peers := ps\<rparr>) \<and>
     (\<forall>t. set (peers_for_topic t n) \<subseteq> set (peers_for_topic t n'))"

lemma grown_refl: "grown n n"
  by (auto simp: grown_def intro!: exI [of _ "nd_peers n"])

lemma grown_trans: "grown a b \<Longrightarrow> grown b c \<Longrightarrow> grown a c"
proof -
  assume "grown a b" "grown b c"
  then obtain p q where "b = a\<lparr>nd_peers := p\<rparr>" "c = b\<lparr>nd_peers := q\<rparr>" by (auto simp: grown_def)
  then have "c = a\<lparr>nd_peers := q\<rparr>" by simp
  moreover have "set (peers_for_topic t a) \<subseteq> set (peers_for_topic t c)" for t
    using \<open>grown a b\<close> \<open>grown b c\<close> unfolding grown_def by (meson subset_trans)
  ultimately show ?thesis unfolding grown_def by blast
qed

lemma grown_mem: "grown n n' \<Longrightarrow> a \<in> set (peers_for_topic t n) \<Longrightarrow> a \<in> set (peers_for_topic t n')"
  unfolding grown_def by blast

lemma get_transport_peers [simp]: "get_transport r (n\<lparr>nd_peers := ps\<rparr>) = get_transport r n"
  by (cases r) (simp_all add: get_transport_def split: option.split)

lemma grown_frame:
  assumes "grown n n'"
  shows "nd_rlcore_groups n' = nd_rlcore_groups n" "nd_rlcore_self_ip n' = nd_rlcore_self_ip n"
    "register_group env ip r ts k ms n' = register_group env ip r ts k ms n"
  using assms by (auto simp: grown_def register_group_def rlcore_addr_def)

lemma rereg_group_grown: "grown n (snd (snd (rereg_group env full r topics n)))"
proof (cases "(full \<or> pending_topics full topics n \<noteq> []) \<and>
    ro_ok (fst (register_group env (nd_rlcore_self_ip n) r (pending_topics full topics n) 5 100 n))")
  case True
  let ?as = "offers (fst (register_group env (nd_rlcore_self_ip n) r (pending_topics full topics n) 5 100 n))"
  have old: "set (peers_for_topic t n) \<subseteq> set (peers_for_topic t (snd (add_all_new ?as n)))" for t
  proof -
    obtain new where "peers_for_topic t (snd (add_all_new ?as n)) = peers_for_topic t n @ new"
      using add_all_new_peers by blast
    then show ?thesis by simp
  qed
  have "grown n (snd (add_all_new ?as n))"
    unfolding grown_def using add_all_new_frame old by (intro conjI allI)
  then show ?thesis using rereg_group_asked [OF True] by simp
next
  case False
  then show ?thesis by (simp add: rereg_group_not_asked grown_refl)
qed

lemma rereg_groups_grown: "grown n (snd (snd (rereg_groups env stop i full gs n)))"
proof (induction gs arbitrary: i n)
  case Nil
  then show ?case by (simp add: grown_refl)
next
  case (Cons g gs)
  obtain r topics where g: "g = (r, topics)" by (cases g)
  let ?n1 = "snd (snd (rereg_group env full r topics n))"
  show ?case
    using grown_trans [OF rereg_group_grown Cons [of "?n1" "Suc i"]]
    by (auto simp: g grown_refl split: prod.splits)
qed

lemma rereg_groups_learns:
  assumes "(r, topics) \<in> set gs"
    and "\<And>n'. grown n n' \<Longrightarrow> a \<in> set (peers_for_topic t (snd (snd (rereg_group env full r topics n'))))"
  shows "a \<in> set (peers_for_topic t (snd (snd (rereg_groups env (\<lambda>_. False) i full gs n))))"
  using assms
proof (induction gs arbitrary: i n)
  case Nil
  then show ?case by simp
next
  case (Cons g gs)
  let ?n1 = "snd (snd (rereg_group env full (fst g) (snd g) n))"
  have step: "snd (snd (rereg_groups env (\<lambda>_. False) i full (g # gs) n)) =
      snd (snd (rereg_groups env (\<lambda>_. False) (Suc i) full gs ?n1))"
    by (cases g) (simp split: prod.splits)
  have n1: "grown n ?n1" by (rule rereg_group_grown)
  show ?case
  proof (cases "(r, topics) = g")
    case True
    then have "a \<in> set (peers_for_topic t ?n1)" using Cons.prems(2) [OF grown_refl] by auto
    then show ?thesis unfolding step by (rule grown_mem [OF rereg_groups_grown])
  next
    case False
    then show ?thesis
      unfolding step using Cons.prems grown_trans [OF n1] by (intro Cons.IH) auto
  qed
qed

text \<open>
  rlcore answers for a peer: whenever a registration over transport \<open>r\<close> names the peer's topic, the
  first request goes out whole and the reply is an acceptable acknowledgement that lists the peer.
\<close>

definition rlcore_answers :: "node_env \<Rightarrow> 'c RelinkNode \<Rightarrow> tref \<Rightarrow> u32 list \<Rightarrow> RegisterAckPeer \<Rightarrow> bool" where
  "rlcore_answers env n r topics p \<longleftrightarrow>
     (\<forall>pend. subseq pend topics \<and> ap_topic_id p \<in> set pend \<longrightarrow>
        (\<exists>req reply ps.
           wire_request (cf_key (nd_rlcore n)) (ne_nonce env) (nd_rlcore_self_ip n)
             (ut_local_port (get_transport r n)) pend (word_of_nat (length pend)) = Some req \<and>
           ne_register env r pend 0 = (int (length req), Some reply) \<and> length reply \<le> 65507 \<and>
           accept_reply (cf_key (nd_rlcore n)) (Some reply) = Some \<lparr>ro_ok = True, ro_peers = ps\<rparr> \<and>
           p \<in> set ps))"

lemma answers_register:
  assumes "rlcore_answers env n r topics p" and "subseq pend topics" and "ap_topic_id p \<in> set pend"
  shows "let out = fst (register_group env (nd_rlcore_self_ip n) r pend 5 100 n)
    in ro_ok out \<and> p \<in> set (ro_peers out)"
proof -
  obtain req reply ps where o: "wire_request (cf_key (nd_rlcore n)) (ne_nonce env) (nd_rlcore_self_ip n)
        (ut_local_port (get_transport r n)) pend (word_of_nat (length pend)) = Some req"
    "ne_register env r pend 0 = (int (length req), Some reply)" "length reply \<le> 65507"
    "accept_reply (cf_key (nd_rlcore n)) (Some reply) = Some \<lparr>ro_ok = True, ro_peers = ps\<rparr>" "p \<in> set ps"
    using assms unfolding rlcore_answers_def by metis
  show ?thesis
    using o attempts_step [of "cf_key (nd_rlcore n)" "ut_running (get_transport r n)" req "ne_register env r pend" 4 0 100]
    by (simp add: register_group_def register_with_rlcore_on_socket_def attempt_result_def Let_def)
qed

lemma grown_answers: "grown n n' \<Longrightarrow> rlcore_answers env n' r topics p = rlcore_answers env n r topics p"
  by (auto simp: grown_def rlcore_answers_def)

lemma rereg_group_learns:
  assumes "rlcore_answers env n r topics p" and "ap_topic_id p \<in> set topics" and "a \<in> set (candidates p)"
    and "full \<or> peers_for_topic (ap_topic_id p) n = []"
  shows "a \<in> set (peers_for_topic (ap_topic_id p) (snd (snd (rereg_group env full r topics n))))"
proof -
  let ?pend = "pending_topics full topics n"
  have pend: "subseq ?pend topics" "ap_topic_id p \<in> set ?pend"
    using assms(2,4) by (auto simp: pending_topics_def)
  let ?out = "fst (register_group env (nd_rlcore_self_ip n) r ?pend 5 100 n)"
  have out: "ro_ok ?out" "p \<in> set (ro_peers ?out)"
    using answers_register [OF assms(1) pend] by (simp_all add: Let_def)
  then have asked: "(full \<or> ?pend \<noteq> []) \<and> ro_ok ?out" using pend by auto
  have "a \<in> offered ?out (ap_topic_id p)" using out assms(3) by (auto simp: offered_def)
  then show ?thesis
    using add_all_new_peers [of "ap_topic_id p" "offers ?out" n]
    unfolding rereg_group_asked [OF asked] offered_pairs by auto
qed

lemma tick_node: "snd (snd (rereg_tick env stop k n)) =
    snd (snd (rereg_groups env stop 0 (k mod 10 = 0) (nd_rlcore_groups n) n))"
  by (simp add: rereg_tick_def Let_def split: prod.splits)

lemma tick_learns:
  assumes "(r, topics) \<in> set (nd_rlcore_groups n)" and "rlcore_answers env n r topics p"
    and "ap_topic_id p \<in> set topics" and "a \<in> set (candidates p)"
    and "k mod 10 = 0"
  shows "a \<in> set (peers_for_topic (ap_topic_id p) (snd (snd (rereg_tick env (\<lambda>_. False) k n))))"
  unfolding tick_node
proof (rule rereg_groups_learns [OF assms(1)])
  fix n' assume "grown n n'"
  then show "a \<in> set (peers_for_topic (ap_topic_id p) (snd (snd (rereg_group env (k mod 10 = 0) r topics n'))))"
    using assms by (intro rereg_group_learns) (simp_all add: grown_answers)
qed

lemma run_node: "rereg_run env k (Suc m) n =
    rereg_run env (Suc k) m (snd (snd (rereg_tick (env k) (\<lambda>_. False) k n)))"
  by (simp split: prod.splits)

lemma run_grown: "grown n (rereg_run env k m n)"
proof (induction m arbitrary: k n)
  case 0
  then show ?case by (simp add: grown_refl)
next
  case (Suc m)
  show ?case unfolding run_node tick_node by (rule grown_trans [OF rereg_groups_grown Suc])
qed

lemma run_add: "rereg_run env k (i + m) n = rereg_run env (k + i) m (rereg_run env k i n)"
  by (induction i arbitrary: k n) (simp_all add: run_node del: rereg_run.simps(2))

text \<open>
  C15: A late peer is always learned: while rlcore answers, ten consecutive ticks of the re-registration
  thread, whichever tick they start at, put every address of a peer that rlcore lists for one of the
  node's registered topics into that topic's list, even when the topic already had other peers and is
  left out of the ordinary ticks.
\<close>

theorem late_peer_learned:
  assumes "(r, topics) \<in> set (nd_rlcore_groups n)" and "ap_topic_id p \<in> set topics"
    and "\<forall>j. k \<le> j \<and> j < k + 10 \<longrightarrow> rlcore_answers (env j) n r topics p"
    and "a \<in> set (candidates p)"
  shows "a \<in> set (peers_for_topic (ap_topic_id p) (rereg_run env k 10 n))"
proof -
  obtain i where i: "i < 10" "(k + i) mod 10 = 0"
  proof
    show "9 * k mod 10 < (10 :: nat)" by simp
    show "(k + 9 * k mod 10) mod 10 = 0" by (simp add: mod_add_right_eq)
  qed
  then obtain m where m: "10 = i + Suc m" using less_iff_Suc_add by auto
  let ?n = "rereg_run env k i n" and ?j = "k + i"
  have g: "grown n ?n" by (rule run_grown)
  have "a \<in> set (peers_for_topic (ap_topic_id p) (snd (snd (rereg_tick (env ?j) (\<lambda>_. False) ?j ?n))))"
    using assms i g by (intro tick_learns) (auto simp: grown_answers grown_frame)
  then have "a \<in> set (peers_for_topic (ap_topic_id p) (rereg_run env ?j (Suc m) ?n))"
    unfolding run_node by (rule grown_mem [OF run_grown])
  then show ?thesis unfolding m run_add .
qed

text \<open>A world in which rlcore answers every registration of topic 7 with one peer.\<close>

definition sample_peer :: RegisterAckPeer where
  "sample_peer = \<lparr>ap_ip = 0x0A000001, ap_port = 9, ap_topic_id = 7, ap_lan_ip = 0, ap_lan_port = 0\<rparr>"

definition sample_world :: node_env where
  "sample_world =
     \<lparr>ne_bind = (Some 3, True, Some 9000), ne_self_ip = Some 1, ne_pid = 1, ne_nonce = [],
      ne_register = \<lambda>r ts i. (int (length (request_image 0 0 ts)), Some (ack_image 0 [sample_peer]))\<rparr>"

definition sample_node :: "nat RelinkNode" where
  "sample_node = RelinkNode_init\<lparr>nd_rlcore_groups := [(Shared, [7])]\<rparr>"

lemma sample_answers: "rlcore_answers sample_world sample_node Shared [7] sample_peer"
proof -
  have "pend = [7]" if "subseq pend [7 :: u32]" "7 \<in> set pend" for pend
    using that by (cases pend) (auto split: if_splits)
  moreover have "wire_request None [] 0 0 [7] 1 = Some (request_image 0 0 [7])"
    using encode_request_eq [of "[7]" 0 0 65507] by (simp add: wire_request_def)
  moreover have "accept_reply None (Some (ack_image 0 [sample_peer])) =
      Some \<lparr>ro_ok = True, ro_peers = [sample_peer]\<rparr>"
    using accept_ack_image [of "[sample_peer]"] by simp
  moreover have "word_of_nat (length [7 :: u32]) = (1 :: u16)" by simp
  ultimately show ?thesis
    by (fastforce simp: rlcore_answers_def sample_world_def sample_node_def RelinkNode_init_def get_transport_def
        UdpTransport_init_def sample_peer_def [THEN arg_cong [of _ _ ap_topic_id]])
qed

theorem late_peer_learned_witness:
  "\<lparr>pa_ip = 0x0A000001, pa_port = 9\<rparr> \<in>
     set (peers_for_topic (ap_topic_id sample_peer) (rereg_run (\<lambda>_. sample_world) 4 10 sample_node))"
proof (rule late_peer_learned)
  show "\<forall>j. 4 \<le> j \<and> j < 4 + 10 \<longrightarrow> rlcore_answers sample_world sample_node Shared [7] sample_peer"
    by (simp add: sample_answers)
qed (simp_all add: sample_node_def sample_peer_def candidates_def)

theorem rereg_group_merges_witness:
  "\<exists>new. peers_for_topic 7 (snd (snd (rereg_group sample_world True Shared [7] sample_node))) =
      peers_for_topic 7 sample_node @ new \<and> distinct new \<and> \<lparr>pa_ip = 0x0A000001, pa_port = 9\<rparr> \<in> set new"
proof -
  let ?a = "\<lparr>pa_ip = 0x0A000001, pa_port = 9\<rparr> :: PeerAddr"
  let ?out = "fst (register_group sample_world (nd_rlcore_self_ip sample_node) Shared [7] 5 100 sample_node)"
  have out: "ro_ok ?out" "sample_peer \<in> set (ro_peers ?out)"
    using answers_register [OF sample_answers, of "[7]"] by (simp_all add: Let_def sample_peer_def)
  have "?a \<in> set (candidates sample_peer)" "ap_topic_id sample_peer = 7"
    by (simp_all add: candidates_def sample_peer_def)
  with out have "?a \<in> offered ?out 7" by (auto simp: offered_def)
  moreover have "peers_for_topic 7 sample_node = []"
    by (simp add: peers_for_topic_def sample_node_def RelinkNode_init_def)
  moreover have "pending_topics True [7] sample_node = [7]" by (simp add: pending_topics_def)
  moreover have "\<forall>t. \<exists>new. peers_for_topic t (snd (snd (rereg_group sample_world True Shared [7] sample_node))) =
      peers_for_topic t sample_node @ new \<and> distinct new \<and> set new = offered ?out t - set (peers_for_topic t sample_node)"
    using rereg_group_merges [of True "[7]" sample_node sample_world Shared] out(1) calculation(3)
    by (simp add: Let_def split: prod.splits)
  ultimately show ?thesis by (metis Diff_empty set_empty)
qed

section \<open>Hole punching\<close>

lemma nat_punch_times_out:
  "\<exists>seqs t'. nat_punch_times k sendto peer t = (map (\<lambda>s. (peer, frame_bytes kNatPunchTopicId s [])) seqs, t') \<and>
     length seqs = k"
proof (induction k arbitrary: t)
  case (Suc k)
  have "publish_raw sendto kNatPunchTopicId [] peer t =
      (sendto (peer, frame_bytes kNatPunchTopicId (ut_seq_counter t) []) = 11,
       [(peer, frame_bytes kNatPunchTopicId (ut_seq_counter t) [])], snd (next_seq t))"
    using publish_to_eq [of "[]" sendto kNatPunchTopicId "ut_seq_counter t" "[peer]"]
    by (simp add: publish_raw_def next_seq_def split: prod.splits)
  moreover obtain seqs t' where "nat_punch_times k sendto peer (snd (next_seq t)) =
      (map (\<lambda>s. (peer, frame_bytes kNatPunchTopicId s [])) seqs, t')" "length seqs = k" using Suc by blast
  ultimately show ?case by (intro exI [of _ "ut_seq_counter t # seqs"]) simp
qed simp

lemma nat_punch_out:
  "\<exists>seqs t. nat_punch sendto peer via n =
     (map (\<lambda>s. (peer, frame_bytes kNatPunchTopicId s [])) seqs, set_transport via t n) \<and> length seqs = 3"
  using nat_punch_times_out [of 3 sendto peer "get_transport via n"]
  by (auto simp: nat_punch_def split: prod.splits)

lemma repunch_loop_out:
  "\<exists>seqs n'. repunch_loop sendto (\<lambda>_. False) i targets n =
     (map2 (\<lambda>p s. (p, frame_bytes kNatPunchTopicId s [])) (concat (map (\<lambda>(r, p). replicate 3 p) targets)) seqs, n') \<and>
     length seqs = 3 * length targets \<and> nd_peers n' = nd_peers n"
proof (induction targets arbitrary: i n)
  case (Cons a targets)
  obtain r p where a: "a = (r, p)" by (cases a)
  obtain s1 t where 1: "nat_punch sendto p r n =
      (map (\<lambda>s. (p, frame_bytes kNatPunchTopicId s [])) s1, set_transport r t n)" "length s1 = 3"
    using nat_punch_out by blast
  from Cons [of "Suc i" "set_transport r t n"] obtain s2 n' where 2:
    "repunch_loop sendto (\<lambda>_. False) (Suc i) targets (set_transport r t n) =
     (map2 (\<lambda>p s. (p, frame_bytes kNatPunchTopicId s [])) (concat (map (\<lambda>(r, p). replicate 3 p) targets)) s2, n')"
    "length s2 = 3 * length targets" "nd_peers n' = nd_peers n" by auto
  have "map (\<lambda>s. (p, f s)) s1 = map2 (\<lambda>p s. (p, f s)) (replicate 3 p) s1" for f :: "u16 \<Rightarrow> bytes"
    using 1(2) by (simp add: zip_replicate1 comp_def)
  then show ?case
    using 1 2 by (intro exI [of _ "s1 @ s2"] exI [of _ n']) (simp add: a)
qed simp

text \<open>
  A turn of the re-punch thread refreshes the hole to every known peer, three datagrams each, and sends
  nothing but empty frames on the reserved topic; it learns and forgets nobody.
\<close>

theorem repunch_refreshes_all:
  "let (out, n') = repunch_turn sendto (\<lambda>_. False) n
   in map fst out = concat (map (\<lambda>(r, p). replicate 3 p) (repunch_targets n)) \<and>
      (\<forall>p. p \<in> fst ` set out \<longleftrightarrow> (\<exists>ps. ps \<in> snd ` set (nd_peers n) \<and> p \<in> set ps)) \<and>
      list_all (\<lambda>d. \<exists>s. decode_frame (snd d) = Inr (frame_value kNatPunchTopicId s [])) out \<and> nd_peers n' = nd_peers n"
proof -
  let ?ps = "concat (map (\<lambda>(r, p). replicate 3 p) (repunch_targets n))"
  obtain seqs n' where o: "repunch_turn sendto (\<lambda>_. False) n =
      (map2 (\<lambda>p s. (p, frame_bytes kNatPunchTopicId s [])) ?ps seqs, n')"
    "length seqs = 3 * length (repunch_targets n)" "nd_peers n' = nd_peers n"
    using repunch_loop_out unfolding repunch_turn_def by blast
  have "length (concat (map (\<lambda>(r, p). replicate 3 p) ts)) = 3 * length ts" for ts :: "(tref \<times> PeerAddr) list"
    by (induction ts) auto
  then have dests: "map fst (map2 (\<lambda>p s. (p, frame_bytes kNatPunchTopicId s [])) ?ps seqs) = ?ps"
    using o(2) by (simp add: comp_def case_prod_beta map_fst_zip)
  have "set ?ps = {p. \<exists>ps. ps \<in> snd ` set (nd_peers n) \<and> p \<in> set ps}"
    by (force simp: repunch_targets_def Let_def)
  with arg_cong [OF dests, of set] have "fst ` set (map2 (\<lambda>p s. (p, frame_bytes kNatPunchTopicId s [])) ?ps seqs) =
      {p. \<exists>ps. ps \<in> snd ` set (nd_peers n) \<and> p \<in> set ps}"
    unfolding set_map by (rule trans)
  then have "p \<in> fst ` set (map2 (\<lambda>p s. (p, frame_bytes kNatPunchTopicId s [])) ?ps seqs) \<longleftrightarrow>
      (\<exists>ps. ps \<in> snd ` set (nd_peers n) \<and> p \<in> set ps)" for p
    by (simp only: mem_Collect_eq)
  moreover have "list_all (\<lambda>d. \<exists>s. decode_frame (snd d) = Inr (frame_value kNatPunchTopicId s []))
      (map2 (\<lambda>p s. (p, frame_bytes kNatPunchTopicId s [])) ps seqs)" for ps :: "PeerAddr list"
    by (auto simp: list_all_iff decode_frame_bytes)
  ultimately show ?thesis using o(1,3) dests by (simp add: Let_def)
qed

end
