(* ===== verification/Local_Ipc.thy ===== *)
theory Local_Ipc
  imports Relink_Node
begin

text \<open>
  The same-host path of the public API, the \<^verbatim>\<open>local_ipc\<close> functions of
  \<^verbatim>\<open>cpp/include/relink/relink.hpp\<close>: rings of \<open>Shm_Transport\<close> named after topics. The shared memory of
  the host maps the name of a segment to its contents, so that two nodes that open the same topic
  meet in one segment. What the operating system answers when a ring is opened is a parameter.
\<close>

type_synonym shm_memory = "string \<Rightarrow> shm_segment"

record shm_os =
  so_excl :: shm_open_excl
  so_mmap_ok :: bool
  so_pid :: u32
  so_polls :: "poll_turn list"

definition kShmImageDefaultMaxPayload :: u32 where "kShmImageDefaultMaxPayload = 1920 * 1080 * 3"

definition ipc_name :: "u32 \<Rightarrow> string" where
  "ipc_name topic_id = ''/relink_topic_'' @ to_digits (unat topic_id)"

text \<open>
  What opening a ring leaves in memory: a creator finds zeroed slots, a process that takes over a dead
  owner's segment the slots that are there.
\<close>

definition opened_segment :: "shm_os \<Rightarrow> u32 \<Rightarrow> ShmRing \<Rightarrow> ShmRingHeader option \<Rightarrow> shm_memory \<Rightarrow> shm_memory" where
  "opened_segment os capacity r hdr mem =
     (case hdr of
        None \<Rightarrow> mem
      | Some h \<Rightarrow>
          mem(sr_name r := \<lparr>sg_hdr = h,
            sg_slots = (case so_excl os of
                          ExclCreated _ \<Rightarrow> replicate (unat capacity) (replicate (unat (sr_slot_size r)) 0)
                        | _ \<Rightarrow> sg_slots (mem (sr_name r)))\<rparr>))"

text \<open>\<open>None\<close>: the polls given do not decide whether the ring opens.\<close>

definition advertise_local_ipc ::
  "shm_os \<Rightarrow> u32 \<Rightarrow> u32 \<Rightarrow> u32 \<Rightarrow> 'c RelinkNode \<times> shm_memory \<Rightarrow> (bool \<times> 'c RelinkNode \<times> shm_memory) option" where
  "advertise_local_ipc os topic_id capacity max_payload st =
     (case st of (n, mem) \<Rightarrow>
        if map_of (nd_shm_rings n) topic_id \<noteq> None then Some (True, n, mem)
        else (case shm_open (so_excl os) (so_mmap_ok os) (so_pid os) (so_polls os) (ipc_name topic_id)
                     capacity max_payload ShmRing_init of
                None \<Rightarrow> None
              | Some (ok, ring, hdr) \<Rightarrow>
                  let mem = opened_segment os capacity ring hdr mem in
                  if \<not> ok then Some (False, n, mem)
                  else Some (True, n\<lparr>nd_shm_rings := om_put topic_id ring (nd_shm_rings n),
                                     nd_declared_topics := set_add topic_id (nd_declared_topics n)\<rparr>, mem)))"

definition ensure_shm_poll_thread :: "'c RelinkNode \<Rightarrow> 'c RelinkNode" where
  "ensure_shm_poll_thread n = n\<lparr>nd_shm_poll_started := True\<rparr>"

definition subscribe_local_ipc ::
  "shm_os \<Rightarrow> u32 \<Rightarrow> 'c \<Rightarrow> u32 \<Rightarrow> u32 \<Rightarrow> 'c RelinkNode \<times> shm_memory \<Rightarrow> (bool \<times> 'c RelinkNode \<times> shm_memory) option" where
  "subscribe_local_ipc os topic_id callback capacity max_payload st =
     (case advertise_local_ipc os topic_id capacity max_payload st of
        None \<Rightarrow> None
      | Some (False, n, mem) \<Rightarrow> Some (False, n, mem)
      | Some (True, n, mem) \<Rightarrow>
          Some (True, ensure_shm_poll_thread
                        (n\<lparr>nd_shm_handlers := om_put topic_id callback (nd_shm_handlers n)\<rparr>), mem))"

definition advertise_local_ipc_image ::
  "shm_os \<Rightarrow> u32 \<Rightarrow> u32 \<Rightarrow> u32 \<Rightarrow> 'c RelinkNode \<times> shm_memory \<Rightarrow> (bool \<times> 'c RelinkNode \<times> shm_memory) option" where
  "advertise_local_ipc_image os topic_id max_payload capacity st =
     advertise_local_ipc os topic_id capacity max_payload st"

definition subscribe_local_ipc_image ::
  "shm_os \<Rightarrow> u32 \<Rightarrow> 'c \<Rightarrow> u32 \<Rightarrow> u32 \<Rightarrow> 'c RelinkNode \<times> shm_memory \<Rightarrow> (bool \<times> 'c RelinkNode \<times> shm_memory) option" where
  "subscribe_local_ipc_image os topic_id callback max_payload capacity st =
     subscribe_local_ipc os topic_id callback capacity max_payload st"

definition publish_local_ipc ::
  "u32 \<Rightarrow> bytes \<Rightarrow> 'c RelinkNode \<times> shm_memory \<Rightarrow> bool \<times> 'c RelinkNode \<times> shm_memory" where
  "publish_local_ipc topic_id payload st =
     (case st of (n, mem) \<Rightarrow>
        case map_of (nd_shm_rings n) topic_id of
          None \<Rightarrow> (False, n, mem)
        | Some ring \<Rightarrow>
            let seq = (case map_of (nd_shm_seq n) topic_id of Some s \<Rightarrow> s | None \<Rightarrow> 0);
                n = n\<lparr>nd_shm_seq := om_put topic_id (seq + 1) (nd_shm_seq n)\<rparr>;
                (ok, seg) = try_push ring payload (word_of_nat (length payload)) seq (mem (sr_name ring))
            in (ok, n, mem(sr_name ring := seg)))"

text \<open>
  One pass of the poll thread: it takes at most one message of every topic with a handler and hands it
  to the topic's callback. The result says whether anything was delivered.
\<close>

fun poll_rings :: "(u32 \<times> ShmRing) list \<Rightarrow> 'c RelinkNode \<times> shm_memory \<Rightarrow> ('c \<times> bytes) list \<times> shm_memory" where
  "poll_rings [] (n, mem) = ([], mem)"
| "poll_rings ((topic_id, ring) # rings) (n, mem) =
     (case map_of (nd_shm_handlers n) topic_id of
        None \<Rightarrow> poll_rings rings (n, mem)
      | Some cb \<Rightarrow>
          let (popped, out, seg) =
                try_pop_zero_copy (\<lambda>payload len seq out. out @ [(cb, payload)]) [] (mem (sr_name ring));
              (outs, mem) = poll_rings rings (n, mem(sr_name ring := seg))
          in (out @ outs, mem))"

definition poll_pass :: "'c RelinkNode \<times> shm_memory \<Rightarrow> ('c \<times> bytes) list \<times> 'c RelinkNode \<times> shm_memory" where
  "poll_pass st =
     (case st of (n, mem) \<Rightarrow>
        let rings = concat (map (\<lambda>(topic_id, cb). case map_of (nd_shm_rings n) topic_id of
                                    Some ring \<Rightarrow> [(topic_id, ring)] | None \<Rightarrow> []) (nd_shm_handlers n));
            (out, mem) = poll_rings rings (n, mem)
        in (out, n, mem))"

definition local_ipc_peers :: "u32 \<Rightarrow> 'c RelinkNode \<Rightarrow> u32 list" where
  "local_ipc_peers topic_id n =
     (case map_of (nd_local_ipc_candidates n) topic_id of None \<Rightarrow> [] | Some pids \<Rightarrow> pids)"

text \<open>\<^verbatim>\<open>request_stop\<close>: the node and the names it unlinks.\<close>

definition request_stop :: "'c RelinkNode \<Rightarrow> 'c RelinkNode \<times> string list" where
  "request_stop n =
     (n\<lparr>nd_stop_requested := True\<rparr>,
      concat (map (\<lambda>(topic_id, ring). if sr_creator ring
                                      then (case shm_unlink_name ring of Some s \<Rightarrow> [s] | None \<Rightarrow> []) else [])
        (nd_shm_rings n)))"

section \<open>Names of segments\<close>

lemma ipc_name_inj: "ipc_name a = ipc_name b \<longleftrightarrow> a = b"
  by (auto simp: ipc_name_def word_unat_eq_iff dest: to_digits_inj)

section \<open>One publication, one pass\<close>

lemma zero_copy_pop:
  "try_pop_zero_copy (\<lambda>payload len seq out. out @ [(cb, payload)]) [] seg =
     (case try_pop seg of
        (None, seg') \<Rightarrow> (False, [], seg')
      | (Some m, seg') \<Rightarrow> (True, [(cb, snd m)], seg'))"
  by (simp add: try_pop_zero_copy_def try_pop_def Let_def)

lemma push_word: "length payload < 2 ^ 32 \<Longrightarrow>
    try_push r payload (word_of_nat (length payload)) seq seg = push_message r (seq, payload) seg"
  by (simp add: push_message_def)

lemma ring_holds_payload:
  "sr_max_payload r = sr_max_payload r' \<Longrightarrow> ring_holds r seg q = ring_holds r' seg q"
  by (simp add: ring_holds_def ring_ok_def)

lemma pop_seg: "ring_holds r seg q \<Longrightarrow>
    \<exists>seg'. try_pop_zero_copy (\<lambda>payload len seq out. out @ [(cb, payload)]) [] seg =
      (q \<noteq> [], map (\<lambda>m. (cb, snd m)) (take 1 q), seg') \<and> ring_holds r seg' (tl q)"
  using shm.pop_empty [of r seg] shm.pop_first [of r seg]
  by (cases q) (fastforce simp: zero_copy_pop)+

text \<open>Every ring of a node sits in the segment of its topic.\<close>

definition rings_named :: "'c RelinkNode \<Rightarrow> bool" where
  "rings_named n \<longleftrightarrow> (\<forall>t r. map_of (nd_shm_rings n) t = Some r \<longrightarrow> sr_name r = ipc_name t)"

definition first_of :: "(u32 \<Rightarrow> (u32 \<times> bytes) list) \<Rightarrow> 'c RelinkNode \<Rightarrow> u32 \<Rightarrow> ('c \<times> bytes) list" where
  "first_of q n t =
     (case map_of (nd_shm_handlers n) t of
        Some cb \<Rightarrow> map (\<lambda>m. (cb, snd m)) (take 1 (q t))
      | None \<Rightarrow> [])"

lemma poll_rings_spec:
  assumes "distinct (map fst rs)" and "\<forall>(t, r) \<in> set rs. sr_name r = ipc_name t \<and> ring_holds r (mem (ipc_name t)) (q t)"
    and "\<forall>(t, r) \<in> set rs. map_of (nd_shm_handlers n) t \<noteq> None"
  shows "\<exists>mem'. poll_rings rs (n, mem) = (concat (map (first_of q n \<circ> fst) rs), mem') \<and>
    (\<forall>(t, r) \<in> set rs. ring_holds r (mem' (ipc_name t)) (tl (q t))) \<and>
    (\<forall>s. s \<notin> ipc_name ` fst ` set rs \<longrightarrow> mem' s = mem s)"
  using assms
proof (induction rs arbitrary: mem)
  case Nil
  then show ?case by simp
next
  case (Cons e rs)
  obtain t r where e: "e = (t, r)" by (cases e)
  obtain cb where cb: "map_of (nd_shm_handlers n) t = Some cb" using Cons.prems(3) by (auto simp: e)
  have name: "sr_name r = ipc_name t" and "ring_holds r (mem (ipc_name t)) (q t)"
    using Cons.prems(2) by (auto simp: e)
  from pop_seg [OF this(2), of cb] obtain seg where
    pop: "try_pop_zero_copy (\<lambda>payload len seq out. out @ [(cb, payload)]) [] (mem (ipc_name t)) =
      (q t \<noteq> [], map (\<lambda>m. (cb, snd m)) (take 1 (q t)), seg)" and seg: "ring_holds r seg (tl (q t))"
    by blast
  let ?mem = "mem(ipc_name t := seg)"
  have other: "t \<notin> fst ` set rs" using Cons.prems(1) by (simp add: e)
  then have "\<forall>(u, r) \<in> set rs. sr_name r = ipc_name u \<and> ring_holds r (?mem (ipc_name u)) (q u)"
    using Cons.prems(2) by (force simp: ipc_name_inj)
  then obtain mem' where IH: "poll_rings rs (n, ?mem) = (concat (map (first_of q n \<circ> fst) rs), mem')"
    "\<forall>(t, r) \<in> set rs. ring_holds r (mem' (ipc_name t)) (tl (q t))"
    "\<forall>s. s \<notin> ipc_name ` fst ` set rs \<longrightarrow> mem' s = ?mem s"
    using Cons.IH [of ?mem] Cons.prems(1,3) unfolding e list.set(2) by (simp only: list.map distinct.simps) blast
  have "ipc_name t \<notin> ipc_name ` fst ` set rs" using other by (force simp: ipc_name_inj)
  then have "mem' (ipc_name t) = seg" using IH(3) by simp
  moreover have "first_of q n t = map (\<lambda>m. (cb, snd m)) (take 1 (q t))" by (simp add: first_of_def cb)
  ultimately show ?case
    using IH seg by (intro exI [of _ mem']) (auto simp: e cb name pop comp_def)
qed

text \<open>The rings a pass visits, in the order of the handlers: their topics and what they yield.\<close>

lemma ring_topics:
  "map fst (concat (map (\<lambda>(t, cb). case map_of rings t of Some ring \<Rightarrow> [(t, ring)] | None \<Rightarrow> []) hs)) =
   filter (\<lambda>t. map_of rings t \<noteq> None) (map fst hs)"
  by (induction hs) (auto split: option.splits)

lemma ring_messages:
  "concat (map (f \<circ> fst) (concat (map (\<lambda>(t, cb). case map_of rings t of Some ring \<Rightarrow> [(t, ring)] | None \<Rightarrow> []) hs))) =
   concat (map (\<lambda>(t, cb). if map_of rings t = None then [] else f t) hs)"
  by (induction hs) (auto split: option.splits)

text \<open>
  One pass of the poll thread serves every subscribed topic and starves none: it calls each topic's
  callback once, with the oldest message of its ring, for the topics whose ring is not empty, and only
  for those; it takes that message out of the ring, and the segments of all other topics are left alone.
\<close>

theorem poll_pass_serves_all:
  assumes "distinct (map fst (nd_shm_handlers n))" and "rings_named n"
    and "\<forall>(t, cb) \<in> set (nd_shm_handlers n). \<forall>r. map_of (nd_shm_rings n) t = Some r \<longrightarrow>
      ring_holds r (mem (ipc_name t)) (q t)"
  shows "\<exists>mem'. poll_pass (n, mem) =
      (concat (map (\<lambda>(t, cb). if map_of (nd_shm_rings n) t = None then []
                             else map (\<lambda>m. (cb, snd m)) (take 1 (q t))) (nd_shm_handlers n)), n, mem') \<and>
    (\<forall>(t, cb) \<in> set (nd_shm_handlers n). \<forall>r. map_of (nd_shm_rings n) t = Some r \<longrightarrow>
      ring_holds r (mem' (ipc_name t)) (tl (q t))) \<and>
    (\<forall>s. s \<notin> ipc_name ` fst ` set (nd_shm_handlers n) \<longrightarrow> mem' s = mem s)"
proof -
  let ?hs = "nd_shm_handlers n"
  define rs where "rs = concat (map (\<lambda>(t, cb). case map_of (nd_shm_rings n) t of
      Some ring \<Rightarrow> [(t, ring)] | None \<Rightarrow> []) ?hs)"
  have in_rs: "(t, r) \<in> set rs \<longleftrightarrow> t \<in> fst ` set ?hs \<and> map_of (nd_shm_rings n) t = Some r" for t r
    by (force simp: rs_def split: option.splits)
  have d: "distinct (map fst rs)" unfolding rs_def ring_topics using assms(1) by simp
  have h: "map_of ?hs t = Some cb" if "(t, cb) \<in> set ?hs" for t cb using assms(1) that by simp
  have "concat (map (first_of q n \<circ> fst) rs) =
      concat (map (\<lambda>(t, cb). if map_of (nd_shm_rings n) t = None then [] else first_of q n t) ?hs)"
    unfolding rs_def by (rule ring_messages)
  also have "\<dots> = concat (map (\<lambda>(t, cb). if map_of (nd_shm_rings n) t = None then []
      else map (\<lambda>m. (cb, snd m)) (take 1 (q t))) ?hs)"
    by (intro arg_cong [of _ _ concat] map_cong refl) (auto simp: first_of_def h)
  finally have out: "concat (map (first_of q n \<circ> fst) rs) = \<dots>" .
  have "\<forall>(t, r) \<in> set rs. sr_name r = ipc_name t \<and> ring_holds r (mem (ipc_name t)) (q t)"
    using assms(2,3) by (fastforce simp: in_rs rings_named_def)
  moreover have "\<forall>(t, r) \<in> set rs. map_of ?hs t \<noteq> None" by (auto simp: in_rs map_of_eq_None_iff)
  ultimately obtain mem' where m: "poll_rings rs (n, mem) = (concat (map (first_of q n \<circ> fst) rs), mem')"
    "\<forall>(t, r) \<in> set rs. ring_holds r (mem' (ipc_name t)) (tl (q t))"
    "\<forall>s. s \<notin> ipc_name ` fst ` set rs \<longrightarrow> mem' s = mem s"
    using poll_rings_spec [OF d] by blast
  have a: "ring_holds r (mem' (ipc_name t)) (tl (q t))"
    if "(t, cb) \<in> set ?hs" "map_of (nd_shm_rings n) t = Some r" for t cb r
  proof -
    have "(t, r) \<in> set rs" unfolding in_rs using that by force
    then show ?thesis using m(2) by blast
  qed
  have "fst ` set rs \<subseteq> fst ` set ?hs" using in_rs by auto
  then have sub: "ipc_name ` fst ` set rs \<subseteq> ipc_name ` fst ` set ?hs" by (rule image_mono)
  have b: "mem' s = mem s" if "s \<notin> ipc_name ` fst ` set ?hs" for s
    using m(3) contra_subsetD [OF sub that] by simp
  have "poll_pass (n, mem) = (concat (map (first_of q n \<circ> fst) rs), n, mem')"
    by (simp add: poll_pass_def rs_def [symmetric] m(1))
  moreover have "\<forall>(t, cb) \<in> set ?hs. \<forall>r. map_of (nd_shm_rings n) t = Some r \<longrightarrow>
      ring_holds r (mem' (ipc_name t)) (tl (q t))"
    using a by fast
  ultimately show ?thesis using b unfolding out by (intro exI [of _ mem'] conjI allI impI) assumption+
qed

theorem poll_pass_serves_all_witness:
  "\<exists>mem'. poll_pass ((RelinkNode_init :: nat RelinkNode)\<lparr>nd_shm_handlers := [(7, 1)],
        nd_shm_rings := [(7, ShmRing_init\<lparr>sr_name := ipc_name 7\<rparr>)]\<rparr>,
      \<lambda>_. \<lparr>sg_hdr = init_as_creator 77 3 ShmRing_init, sg_slots = replicate 3 (replicate 1408 0)\<rparr>) =
    ([], RelinkNode_init\<lparr>nd_shm_handlers := [(7, 1)],
        nd_shm_rings := [(7, ShmRing_init\<lparr>sr_name := ipc_name 7\<rparr>)]\<rparr>, mem')"
proof -
  let ?r = "ShmRing_init\<lparr>sr_name := ipc_name 7\<rparr>"
  let ?seg = "\<lparr>sg_hdr = init_as_creator 77 3 ShmRing_init, sg_slots = replicate 3 (replicate 1408 0)\<rparr>"
  let ?n = "(RelinkNode_init :: nat RelinkNode)\<lparr>nd_shm_handlers := [(7, 1)], nd_shm_rings := [(7, ?r)]\<rparr>"
  have "ring_holds ShmRing_init ?seg []"
    by (rule fresh_ring_holds) (simp_all add: ShmRing_init_def kShmMaxPayload_def)
  then have "ring_holds ?r ?seg []" using ring_holds_payload [of ShmRing_init ?r] by simp
  moreover have "rings_named ?n" by (auto simp: rings_named_def split: if_splits)
  ultimately show ?thesis
    using poll_pass_serves_all [of ?n "\<lambda>_. ?seg" "\<lambda>_. []"] by auto
qed

section \<open>From publisher to subscriber\<close>

fun publish_all :: "u32 \<Rightarrow> bytes list \<Rightarrow> 'c RelinkNode \<times> shm_memory \<Rightarrow> bool list \<times> 'c RelinkNode \<times> shm_memory" where
  "publish_all t [] st = ([], st)"
| "publish_all t (p # ps) st =
     (let (ok, st) = publish_local_ipc t p st; (oks, st) = publish_all t ps st in (ok # oks, st))"

fun poll_passes :: "nat \<Rightarrow> 'c RelinkNode \<times> shm_memory \<Rightarrow> ('c \<times> bytes) list" where
  "poll_passes 0 st = []"
| "poll_passes (Suc k) st = (let (out, st) = poll_pass st in out @ poll_passes k st)"

lemma publish_one:
  assumes "map_of (nd_shm_rings n) t = Some r" and "sr_name r = s" and "ring_holds r (mem s) q"
    and "length p \<le> unat (sr_max_payload r)" and "length q < ring_room (mem s)"
  shows "\<exists>i seg n'. publish_local_ipc t p (n, mem) = (True, n', mem(s := seg)) \<and>
    ring_holds r seg (q @ [(i, p)]) \<and> ring_room seg = ring_room (mem s) \<and> nd_shm_rings n' = nd_shm_rings n"
proof -
  let ?i = "case map_of (nd_shm_seq n) t of Some s \<Rightarrow> s | None \<Rightarrow> 0"
  have "unat (sr_max_payload r) < 2 ^ 32" using unsigned_less [of "sr_max_payload r", where ?'a = nat] by simp
  with assms(4) have "length p < 2 ^ 32" by simp
  moreover obtain seg where "push_message r (?i, p) (mem s) = (True, seg)"
    "ring_holds r seg (q @ [(?i, p)])" "ring_room seg = ring_room (mem s)"
    using shm.push_fits [OF assms(3), of "(?i, p)"] assms(4,5) by (auto simp: message_fits_def)
  ultimately show ?thesis
    using assms(1,2) by (simp add: publish_local_ipc_def push_word Let_def) blast
qed

lemma publish_all_spec:
  assumes "map_of (nd_shm_rings n) t = Some r" and "sr_name r = s" and "ring_holds r (mem s) q"
    and "\<forall>p \<in> set ps. length p \<le> unat (sr_max_payload r)" and "length q + length ps \<le> ring_room (mem s)"
  shows "\<exists>n' mem' is. publish_all t ps (n, mem) = (replicate (length ps) True, n', mem') \<and>
    length is = length ps \<and> ring_holds r (mem' s) (q @ zip is ps)"
  using assms
proof (induction ps arbitrary: n mem q)
  case Nil
  then show ?case by auto
next
  case (Cons p ps)
  obtain i seg n1 where one: "publish_local_ipc t p (n, mem) = (True, n1, mem(s := seg))"
    "ring_holds r seg (q @ [(i, p)])" "ring_room seg = ring_room (mem s)" "nd_shm_rings n1 = nd_shm_rings n"
    using publish_one [where mem = mem, OF Cons.prems(1-3), of p] Cons.prems(4,5) by auto
  define mem1 where "mem1 = mem(s := seg)"
  have "mem1 s = seg" by (simp add: mem1_def)
  then obtain n' mem' js where "publish_all t ps (n1, mem1) = (replicate (length ps) True, n', mem')"
    "length js = length ps" "ring_holds r (mem' s) ((q @ [(i, p)]) @ zip js ps)"
    using Cons.IH [of n1 mem1 "q @ [(i, p)]"] Cons.prems one by auto
  then show ?case using one(1) unfolding mem1_def by (intro exI [of _ n'] exI [of _ mem'] exI [of _ "i # js"]) simp
qed

lemma poll_passes_spec:
  assumes "nd_shm_handlers n = [(t, cb)]" and "map_of (nd_shm_rings n) t = Some r"
    and "sr_name r = s" and "ring_holds r (mem s) q" and "length q \<le> k"
  shows "poll_passes k (n, mem) = map (\<lambda>m. (cb, snd m)) q"
  using assms(4,5)
proof (induction k arbitrary: mem q)
  case 0
  then show ?case by simp
next
  case (Suc k)
  obtain seg where "try_pop_zero_copy (\<lambda>payload len seq out. out @ [(cb, payload)]) [] (mem s) =
      (q \<noteq> [], map (\<lambda>m. (cb, snd m)) (take 1 q), seg)" "ring_holds r seg (tl q)"
    using pop_seg [OF Suc.prems(1), of cb] by blast
  moreover from this have "poll_passes k (n, mem(s := seg)) = map (\<lambda>m. (cb, snd m)) (tl q)"
    using Suc.prems(2) by (intro Suc.IH) simp_all
  ultimately show ?case using assms(1-3) by (cases q) (auto simp: poll_pass_def)
qed

text \<open>
  C22: Same-host messaging delivers every message once, whole and in order: when a publisher and a
  subscriber have opened the same topic with the same payload bound, any burst of messages that fit
  the bound and the ring's room is accepted, and at least as many passes of the subscriber's poll
  thread call its callback with exactly those messages, in the order they were published.
\<close>

theorem local_ipc_delivers:
  assumes "map_of (nd_shm_rings publisher) t = Some rp" and "map_of (nd_shm_rings subscriber) t = Some rs"
    and "nd_shm_handlers subscriber = [(t, cb)]"
    and "sr_name rp = sr_name rs" and "sr_max_payload rp = sr_max_payload rs"
    and "ring_holds rp (mem (sr_name rp)) []"
    and "\<forall>p \<in> set ps. length p \<le> unat (sr_max_payload rp)" and "length ps \<le> ring_room (mem (sr_name rp))"
    and "length ps \<le> k"
  shows "let (oks, publisher', mem') = publish_all t ps (publisher, mem)
    in oks = replicate (length ps) True \<and> poll_passes k (subscriber, mem') = map (Pair cb) ps"
proof -
  obtain n' mem' js where p: "publish_all t ps (publisher, mem) = (replicate (length ps) True, n', mem')"
    "length js = length ps" "ring_holds rp (mem' (sr_name rp)) (zip js ps)"
    using publish_all_spec [where mem = mem, OF assms(1) refl assms(6,7)] assms(8) by auto
  have "ring_holds rs (mem' (sr_name rs)) (zip js ps)"
    using p(3) ring_holds_payload [OF assms(5)] assms(4) by simp
  from poll_passes_spec [where mem = mem', OF assms(3,2) refl this] p(2) assms(9)
  have "poll_passes k (subscriber, mem') = map (Pair cb) (map snd (zip js ps))" by (simp add: comp_def del: map_snd_zip)
  then show ?thesis using p(1,2) by simp
qed

theorem local_ipc_delivers_witness:
  "let r = ShmRing_init\<lparr>sr_name := ipc_name 7\<rparr>;
       (oks, n, mem) = publish_all 7 [[1], [2, 3]] ((RelinkNode_init :: nat RelinkNode)\<lparr>nd_shm_rings := [(7, r)]\<rparr>,
         \<lambda>_. \<lparr>sg_hdr = init_as_creator 77 3 ShmRing_init, sg_slots = replicate 3 (replicate 1408 0)\<rparr>)
   in oks = [True, True] \<and> poll_passes 5 ((RelinkNode_init :: nat RelinkNode)\<lparr>nd_shm_rings := [(7, r)],
        nd_shm_handlers := [(7, 4)]\<rparr>, mem) = [(4, [1]), (4, [2, 3])]"
proof -
  let ?r = "ShmRing_init\<lparr>sr_name := ipc_name 7\<rparr>"
  let ?seg = "\<lparr>sg_hdr = init_as_creator 77 3 ShmRing_init, sg_slots = replicate 3 (replicate 1408 0)\<rparr>"
  have "ring_holds ShmRing_init ?seg []"
    by (rule fresh_ring_holds) (simp_all add: ShmRing_init_def kShmMaxPayload_def)
  then have "ring_holds ?r ?seg []" using ring_holds_payload [of ShmRing_init ?r] by simp
  moreover have "ring_room ?seg = 2" by (simp add: ring_room_def init_as_creator_def)
  moreover have "unat (sr_max_payload ?r) = 1400" by (simp add: ShmRing_init_def kShmMaxPayload_def)
  ultimately show ?thesis
    using local_ipc_delivers [of "(RelinkNode_init :: nat RelinkNode)\<lparr>nd_shm_rings := [(7, ?r)]\<rparr>" 7 ?r
        "(RelinkNode_init :: nat RelinkNode)\<lparr>nd_shm_rings := [(7, ?r)], nd_shm_handlers := [(7, 4)]\<rparr>" ?r 4
        "\<lambda>_. ?seg" "[[1], [2, 3]]" 5]
    by (simp add: Let_def del: publish_all.simps poll_passes.simps)
qed

end
