(* ===== verification/Standard_Msgs.thy ===== *)
theory Standard_Msgs
  imports Relink_Prelude
begin

text \<open>
  The standard message types, \<^verbatim>\<open>cpp/include/relink/standard_msgs.hpp\<close>, and the primitive messages of
  \<^verbatim>\<open>wire.hpp\<close>. All of them are trivially copyable structs under \<^verbatim>\<open>#pragma pack(push, 1)\<close>, so a type is
  its members in order, without padding, and a value is its byte image, which is what is published.
  The layouts carry the names of the source with the suffix \<open>_t\<close>.
\<close>

datatype prim = TI8 | TU8 | TI16 | TU16 | TI32 | TU32 | TI64 | TU64 | TF32 | TF64 | TChar

datatype ctype = Prim prim | Arr nat ctype | Struct "(string \<times> ctype) list"

fun psize :: "prim \<Rightarrow> nat" where
  "psize TI8 = 1" | "psize TU8 = 1" | "psize TChar = 1"
| "psize TI16 = 2" | "psize TU16 = 2"
| "psize TI32 = 4" | "psize TU32 = 4" | "psize TF32 = 4"
| "psize TI64 = 8" | "psize TU64 = 8" | "psize TF64 = 8"

text \<open>\<^verbatim>\<open>sizeof\<close>; an empty struct has size 1 in C++.\<close>

fun csize :: "ctype \<Rightarrow> nat" and msize :: "(string \<times> ctype) list \<Rightarrow> nat" where
  "csize (Prim p) = psize p"
| "csize (Arr n t) = n * csize t"
| "csize (Struct ms) = (if ms = [] then 1 else msize ms)"
| "msize [] = 0"
| "msize ((f, t) # ms) = csize t + msize ms"

text \<open>Where a member starts, with its type.\<close>

fun find_member :: "nat \<Rightarrow> (string \<times> ctype) list \<Rightarrow> string \<Rightarrow> (nat \<times> ctype) option" where
  "find_member off [] f = None"
| "find_member off ((g, t) # ms) f = (if g = f then Some (off, t) else find_member (off + csize t) ms f)"

fun member_of :: "ctype \<Rightarrow> string \<Rightarrow> (nat \<times> ctype) option" where
  "member_of (Struct ms) f = find_member 0 ms f"
| "member_of (Prim p) f = None"
| "member_of (Arr n t) f = None"

section \<open>The types\<close>

definition Empty_t :: ctype where "Empty_t = Struct []"

definition Bool_t :: ctype where "Bool_t = Struct [(''data'', Prim TU8)]"

definition Byte_t :: ctype where "Byte_t = Struct [(''data'', Prim TU8)]"

definition Char_t :: ctype where "Char_t = Struct [(''data'', Prim TU8)]"

definition Int8_t :: ctype where "Int8_t = Struct [(''data'', Prim TI8)]"

definition Int16_t :: ctype where "Int16_t = Struct [(''data'', Prim TI16)]"

definition Int32_t :: ctype where "Int32_t = Struct [(''data'', Prim TI32)]"

definition Int64_t :: ctype where "Int64_t = Struct [(''data'', Prim TI64)]"

definition UInt8_t :: ctype where "UInt8_t = Struct [(''data'', Prim TU8)]"

definition UInt16_t :: ctype where "UInt16_t = Struct [(''data'', Prim TU16)]"

definition UInt32_t :: ctype where "UInt32_t = Struct [(''data'', Prim TU32)]"

definition UInt64_t :: ctype where "UInt64_t = Struct [(''data'', Prim TU64)]"

definition Float32_t :: ctype where "Float32_t = Struct [(''data'', Prim TF32)]"

definition Float64_t :: ctype where "Float64_t = Struct [(''data'', Prim TF64)]"

definition Time_t :: ctype where
  "Time_t =
     Struct [(''sec'', Prim TU32), (''nsec'', Prim TU32)]"

definition Duration_t :: ctype where
  "Duration_t =
     Struct [(''sec'', Prim TI32), (''nsec'', Prim TI32)]"

definition ColorRGBA_t :: ctype where
  "ColorRGBA_t =
     Struct [(''r'', Prim TF32), (''g'', Prim TF32), (''b'', Prim TF32), (''a'', Prim TF32)]"

definition kFrameIdMaxLen :: nat where "kFrameIdMaxLen = 32"

definition Header_t :: ctype where
  "Header_t =
     Struct [(''seq'', Prim TU32), (''stamp'', Time_t),
       (''frame_id'', Arr kFrameIdMaxLen (Prim TChar))]"

definition kStringMaxLen :: nat where "kStringMaxLen = 64"

definition String_t :: ctype where
  "String_t =
     Struct [(''data'', Arr kStringMaxLen (Prim TChar))]"

definition Vector3_t :: ctype where
  "Vector3_t =
     Struct [(''x'', Prim TF32), (''y'', Prim TF32), (''z'', Prim TF32)]"

definition Point_t :: ctype where
  "Point_t =
     Struct [(''x'', Prim TF32), (''y'', Prim TF32), (''z'', Prim TF32)]"

definition Quaternion_t :: ctype where
  "Quaternion_t =
     Struct [(''x'', Prim TF32), (''y'', Prim TF32), (''z'', Prim TF32), (''w'', Prim TF32)]"

definition Pose_t :: ctype where
  "Pose_t =
     Struct [(''position'', Point_t), (''orientation'', Quaternion_t)]"

definition Twist_t :: ctype where
  "Twist_t =
     Struct [(''linear'', Vector3_t), (''angular'', Vector3_t)]"

definition Accel_t :: ctype where
  "Accel_t =
     Struct [(''linear'', Vector3_t), (''angular'', Vector3_t)]"

definition Wrench_t :: ctype where
  "Wrench_t =
     Struct [(''force'', Vector3_t), (''torque'', Vector3_t)]"

definition PoseStamped_t :: ctype where
  "PoseStamped_t =
     Struct [(''header'', Header_t), (''pose'', Pose_t)]"

definition TwistStamped_t :: ctype where
  "TwistStamped_t =
     Struct [(''header'', Header_t), (''twist'', Twist_t)]"

definition Point32_t :: ctype where
  "Point32_t =
     Struct [(''x'', Prim TF32), (''y'', Prim TF32), (''z'', Prim TF32)]"

definition Transform_t :: ctype where
  "Transform_t =
     Struct [(''translation'', Vector3_t), (''rotation'', Quaternion_t)]"

definition TransformStamped_t :: ctype where
  "TransformStamped_t =
     Struct [(''header'', Header_t), (''child_frame_id'', Arr kFrameIdMaxLen (Prim TChar)),
       (''transform'', Transform_t)]"

definition PoseWithCovariance_t :: ctype where
  "PoseWithCovariance_t =
     Struct [(''pose'', Pose_t), (''covariance'', Arr 36 (Prim TF32))]"

definition TwistWithCovariance_t :: ctype where
  "TwistWithCovariance_t =
     Struct [(''twist'', Twist_t), (''covariance'', Arr 36 (Prim TF32))]"

definition kMaxPosesInArray :: nat where "kMaxPosesInArray = 16"

definition PoseArray_t :: ctype where
  "PoseArray_t =
     Struct [(''header'', Header_t), (''count'', Prim TU32),
       (''poses'', Arr kMaxPosesInArray Pose_t)]"

definition kMaxPolygonPoints :: nat where "kMaxPolygonPoints = 16"

definition Polygon_t :: ctype where
  "Polygon_t =
     Struct [(''count'', Prim TU32), (''points'', Arr kMaxPolygonPoints Point32_t)]"

definition Imu_t :: ctype where
  "Imu_t =
     Struct [(''header'', Header_t), (''orientation'', Quaternion_t),
       (''orientation_covariance'', Arr 9 (Prim TF32)), (''angular_velocity'', Vector3_t),
       (''angular_velocity_covariance'', Arr 9 (Prim TF32)), (''linear_acceleration'', Vector3_t),
       (''linear_acceleration_covariance'', Arr 9 (Prim TF32))]"

definition NavSatStatus_t :: ctype where
  "NavSatStatus_t =
     Struct [(''status'', Prim TI8), (''service'', Prim TU16)]"

definition NavSatFix_t :: ctype where
  "NavSatFix_t =
     Struct [(''header'', Header_t), (''status'', NavSatStatus_t), (''latitude'', Prim TF64),
       (''longitude'', Prim TF64), (''altitude'', Prim TF64),
       (''position_covariance'', Arr 9 (Prim TF64)), (''position_covariance_type'', Prim TU8)]"

definition MagneticField_t :: ctype where
  "MagneticField_t =
     Struct [(''header'', Header_t), (''magnetic_field'', Vector3_t),
       (''magnetic_field_covariance'', Arr 9 (Prim TF32))]"

definition Temperature_t :: ctype where
  "Temperature_t =
     Struct [(''header'', Header_t), (''temperature'', Prim TF64), (''variance'', Prim TF64)]"

definition Range_t :: ctype where
  "Range_t =
     Struct [(''header'', Header_t), (''radiation_type'', Prim TU8),
       (''field_of_view'', Prim TF32), (''min_range'', Prim TF32), (''max_range'', Prim TF32),
       (''range'', Prim TF32)]"

definition RegionOfInterest_t :: ctype where
  "RegionOfInterest_t =
     Struct [(''x_offset'', Prim TU32), (''y_offset'', Prim TU32), (''height'', Prim TU32),
       (''width'', Prim TU32), (''do_rectify'', Prim TU8)]"

definition kMaxDistortionCoeffs :: nat where "kMaxDistortionCoeffs = 8"

definition CameraInfo_t :: ctype where
  "CameraInfo_t =
     Struct [(''header'', Header_t), (''height'', Prim TU32), (''width'', Prim TU32),
       (''distortion_model'', Arr kStringMaxLen (Prim TChar)), (''d_count'', Prim TU32),
       (''D'', Arr kMaxDistortionCoeffs (Prim TF64)), (''K'', Arr 9 (Prim TF64)),
       (''R'', Arr 9 (Prim TF64)), (''P'', Arr 12 (Prim TF64)), (''binning_x'', Prim TU32),
       (''binning_y'', Prim TU32), (''roi'', RegionOfInterest_t)]"

definition PointField_t :: ctype where
  "PointField_t =
     Struct [(''name'', Arr kStringMaxLen (Prim TChar)), (''offset'', Prim TU32),
       (''datatype'', Prim TU8), (''count'', Prim TU32)]"

definition kMaxPointFields :: nat where "kMaxPointFields = 4"

definition kMaxPointCloudBytes :: nat where "kMaxPointCloudBytes = 900"

definition PointCloud2_t :: ctype where
  "PointCloud2_t =
     Struct [(''header'', Header_t), (''height'', Prim TU32), (''width'', Prim TU32),
       (''fields_count'', Prim TU32), (''fields'', Arr kMaxPointFields PointField_t),
       (''is_bigendian'', Prim TU8), (''point_step'', Prim TU32), (''row_step'', Prim TU32),
       (''data_len'', Prim TU32), (''data'', Arr kMaxPointCloudBytes (Prim TU8)),
       (''is_dense'', Prim TU8)]"

definition kMaxLaserScanPoints :: nat where "kMaxLaserScanPoints = 120"

definition LaserScan_t :: ctype where
  "LaserScan_t =
     Struct [(''header'', Header_t), (''angle_min'', Prim TF32), (''angle_max'', Prim TF32),
       (''angle_increment'', Prim TF32), (''time_increment'', Prim TF32),
       (''scan_time'', Prim TF32), (''range_min'', Prim TF32), (''range_max'', Prim TF32),
       (''ranges_count'', Prim TU32), (''ranges'', Arr kMaxLaserScanPoints (Prim TF32)),
       (''intensities_count'', Prim TU32), (''intensities'', Arr kMaxLaserScanPoints (Prim TF32))]"

definition kMaxJoints :: nat where "kMaxJoints = 8"

definition JointState_t :: ctype where
  "JointState_t =
     Struct [(''header'', Header_t), (''count'', Prim TU32),
       (''name'', Arr kMaxJoints (Arr kStringMaxLen (Prim TChar))),
       (''position'', Arr kMaxJoints (Prim TF64)), (''velocity'', Arr kMaxJoints (Prim TF64)),
       (''effort'', Arr kMaxJoints (Prim TF64))]"

definition Odometry_t :: ctype where
  "Odometry_t =
     Struct [(''header'', Header_t), (''child_frame_id'', Arr kFrameIdMaxLen (Prim TChar)),
       (''pose'', Pose_t), (''pose_covariance'', Arr 36 (Prim TF32)), (''twist'', Twist_t),
       (''twist_covariance'', Arr 36 (Prim TF32))]"

definition MapMetaData_t :: ctype where
  "MapMetaData_t =
     Struct [(''map_load_time'', Time_t), (''resolution'', Prim TF32), (''width'', Prim TU32),
       (''height'', Prim TU32), (''origin'', Pose_t)]"

definition kMaxPathPoses :: nat where "kMaxPathPoses = 16"

definition Path_t :: ctype where
  "Path_t =
     Struct [(''header'', Header_t), (''count'', Prim TU32),
       (''poses'', Arr kMaxPathPoses PoseStamped_t)]"

definition kMaxOccupancyGridCells :: nat where "kMaxOccupancyGridCells = 1024"

definition OccupancyGrid_t :: ctype where
  "OccupancyGrid_t =
     Struct [(''header'', Header_t), (''info'', MapMetaData_t), (''data_len'', Prim TU32),
       (''data'', Arr kMaxOccupancyGridCells (Prim TI8))]"

definition kMaxGridCells :: nat where "kMaxGridCells = 64"

definition GridCells_t :: ctype where
  "GridCells_t =
     Struct [(''header'', Header_t), (''cell_width'', Prim TF32), (''cell_height'', Prim TF32),
       (''count'', Prim TU32), (''cells'', Arr kMaxGridCells Point_t)]"

definition kKvMaxLen :: nat where "kKvMaxLen = 32"

definition KeyValue_t :: ctype where
  "KeyValue_t =
     Struct [(''key'', Arr kKvMaxLen (Prim TChar)), (''value'', Arr kKvMaxLen (Prim TChar))]"

definition kMaxKeyValues :: nat where "kMaxKeyValues = 3"

definition DiagnosticStatus_t :: ctype where
  "DiagnosticStatus_t =
     Struct [(''level'', Prim TI8), (''name'', Arr kStringMaxLen (Prim TChar)),
       (''message'', Arr kStringMaxLen (Prim TChar)),
       (''hardware_id'', Arr kStringMaxLen (Prim TChar)), (''values_count'', Prim TU32),
       (''values'', Arr kMaxKeyValues KeyValue_t)]"

definition kMaxDiagnosticStatuses :: nat where "kMaxDiagnosticStatuses = 3"

definition DiagnosticArray_t :: ctype where
  "DiagnosticArray_t =
     Struct [(''header'', Header_t), (''status_count'', Prim TU32),
       (''status'', Arr kMaxDiagnosticStatuses DiagnosticStatus_t)]"

definition kMaxDOF :: nat where "kMaxDOF = 4"

definition JointTrajectoryPoint_t :: ctype where
  "JointTrajectoryPoint_t =
     Struct [(''count'', Prim TU32), (''positions'', Arr kMaxDOF (Prim TF64)),
       (''velocities'', Arr kMaxDOF (Prim TF64)), (''accelerations'', Arr kMaxDOF (Prim TF64)),
       (''effort'', Arr kMaxDOF (Prim TF64)), (''time_from_start'', Duration_t)]"

definition kMaxTrajectoryPoints :: nat where "kMaxTrajectoryPoints = 6"

definition JointTrajectory_t :: ctype where
  "JointTrajectory_t =
     Struct [(''header'', Header_t), (''joint_names_count'', Prim TU32),
       (''joint_names'', Arr kMaxDOF (Arr kStringMaxLen (Prim TChar))),
       (''points_count'', Prim TU32),
       (''points'', Arr kMaxTrajectoryPoints JointTrajectoryPoint_t)]"

definition MultiDOFJointTrajectoryPoint_t :: ctype where
  "MultiDOFJointTrajectoryPoint_t =
     Struct [(''count'', Prim TU32), (''transforms'', Arr kMaxDOF Transform_t),
       (''velocities'', Arr kMaxDOF Twist_t), (''accelerations'', Arr kMaxDOF Twist_t),
       (''time_from_start'', Duration_t)]"

definition kMaxMultiDOFTrajectoryPoints :: nat where "kMaxMultiDOFTrajectoryPoints = 3"

definition MultiDOFJointTrajectory_t :: ctype where
  "MultiDOFJointTrajectory_t =
     Struct [(''header'', Header_t), (''joint_names_count'', Prim TU32),
       (''joint_names'', Arr kMaxDOF (Arr kStringMaxLen (Prim TChar))),
       (''points_count'', Prim TU32),
       (''points'', Arr kMaxMultiDOFTrajectoryPoints MultiDOFJointTrajectoryPoint_t)]"

definition GoalID_t :: ctype where
  "GoalID_t =
     Struct [(''stamp'', Time_t), (''id'', Arr kStringMaxLen (Prim TChar))]"

definition GoalStatus_t :: ctype where
  "GoalStatus_t =
     Struct [(''goal_id'', GoalID_t), (''status'', Prim TU8),
       (''text'', Arr kStringMaxLen (Prim TChar))]"

definition kMaxGoalStatuses :: nat where "kMaxGoalStatuses = 8"

definition GoalStatusArray_t :: ctype where
  "GoalStatusArray_t =
     Struct [(''header'', Header_t), (''status_list_count'', Prim TU32),
       (''status_list'', Arr kMaxGoalStatuses GoalStatus_t)]"

section \<open>Text members\<close>

text \<open>
  A text member is a character array that is zeroed and then filled by \<^verbatim>\<open>strncpy\<close>, leaving the last
  byte; it reads back up to the first zero byte. A name given to a setter is a C string: its bytes up
  to the first zero.
\<close>

definition c_string :: "bytes \<Rightarrow> bytes" where
  "c_string s = takeWhile (\<lambda>b. b \<noteq> 0) s"

definition text_image :: "nat \<Rightarrow> bytes \<Rightarrow> bytes" where
  "text_image n s = (let c = take (n - 1) (c_string s) in c @ replicate (n - length c) 0)"

definition put_bytes :: "nat \<Rightarrow> bytes \<Rightarrow> bytes \<Rightarrow> bytes" where
  "put_bytes off b v = take off v @ b @ drop (off + length b) v"

definition set_text :: "ctype \<Rightarrow> string \<Rightarrow> bytes \<Rightarrow> bytes \<Rightarrow> bytes" where
  "set_text T f s v =
     (case member_of T f of
        Some (off, t) \<Rightarrow> put_bytes off (text_image (csize t) s) v
      | None \<Rightarrow> v)"

definition get_text :: "ctype \<Rightarrow> string \<Rightarrow> bytes \<Rightarrow> bytes" where
  "get_text T f v =
     (case member_of T f of
        Some (off, t) \<Rightarrow> c_string (bslice off (csize t) v)
      | None \<Rightarrow> [])"

text \<open>
  Element \<open>i\<close> of an array of texts. The index is not checked: outside the array the access is
  undefined, here \<open>None\<close>.
\<close>

definition set_text_at :: "ctype \<Rightarrow> string \<Rightarrow> nat \<Rightarrow> bytes \<Rightarrow> bytes \<Rightarrow> bytes option" where
  "set_text_at T f i s v =
     (case member_of T f of
        Some (off, Arr n t) \<Rightarrow>
          if i < n then Some (put_bytes (off + i * csize t) (text_image (csize t) s) v) else None
      | _ \<Rightarrow> None)"

definition get_text_at :: "ctype \<Rightarrow> string \<Rightarrow> nat \<Rightarrow> bytes \<Rightarrow> bytes option" where
  "get_text_at T f i v =
     (case member_of T f of
        Some (off, Arr n t) \<Rightarrow>
          if i < n then Some (c_string (bslice (off + i * csize t) (csize t) v)) else None
      | _ \<Rightarrow> None)"

definition Header_set_frame_id :: "bytes \<Rightarrow> bytes \<Rightarrow> bytes" where
  "Header_set_frame_id s v = set_text Header_t ''frame_id'' s v"

definition Header_frame_id_str :: "bytes \<Rightarrow> bytes" where
  "Header_frame_id_str v = get_text Header_t ''frame_id'' v"

definition String_set :: "bytes \<Rightarrow> bytes \<Rightarrow> bytes" where
  "String_set s v = set_text String_t ''data'' s v"

definition String_str :: "bytes \<Rightarrow> bytes" where
  "String_str v = get_text String_t ''data'' v"

definition TransformStamped_set_child_frame_id :: "bytes \<Rightarrow> bytes \<Rightarrow> bytes" where
  "TransformStamped_set_child_frame_id s v = set_text TransformStamped_t ''child_frame_id'' s v"

definition TransformStamped_child_frame_id_str :: "bytes \<Rightarrow> bytes" where
  "TransformStamped_child_frame_id_str v = get_text TransformStamped_t ''child_frame_id'' v"

definition CameraInfo_set_distortion_model :: "bytes \<Rightarrow> bytes \<Rightarrow> bytes" where
  "CameraInfo_set_distortion_model s v = set_text CameraInfo_t ''distortion_model'' s v"

definition CameraInfo_distortion_model_str :: "bytes \<Rightarrow> bytes" where
  "CameraInfo_distortion_model_str v = get_text CameraInfo_t ''distortion_model'' v"

definition PointField_set_name :: "bytes \<Rightarrow> bytes \<Rightarrow> bytes" where
  "PointField_set_name s v = set_text PointField_t ''name'' s v"

definition PointField_name_str :: "bytes \<Rightarrow> bytes" where
  "PointField_name_str v = get_text PointField_t ''name'' v"

definition Odometry_set_child_frame_id :: "bytes \<Rightarrow> bytes \<Rightarrow> bytes" where
  "Odometry_set_child_frame_id s v = set_text Odometry_t ''child_frame_id'' s v"

definition Odometry_child_frame_id_str :: "bytes \<Rightarrow> bytes" where
  "Odometry_child_frame_id_str v = get_text Odometry_t ''child_frame_id'' v"

definition KeyValue_set_key :: "bytes \<Rightarrow> bytes \<Rightarrow> bytes" where
  "KeyValue_set_key s v = set_text KeyValue_t ''key'' s v"

definition KeyValue_key_str :: "bytes \<Rightarrow> bytes" where
  "KeyValue_key_str v = get_text KeyValue_t ''key'' v"

definition KeyValue_set_value :: "bytes \<Rightarrow> bytes \<Rightarrow> bytes" where
  "KeyValue_set_value s v = set_text KeyValue_t ''value'' s v"

definition KeyValue_value_str :: "bytes \<Rightarrow> bytes" where
  "KeyValue_value_str v = get_text KeyValue_t ''value'' v"

definition DiagnosticStatus_set_name :: "bytes \<Rightarrow> bytes \<Rightarrow> bytes" where
  "DiagnosticStatus_set_name s v = set_text DiagnosticStatus_t ''name'' s v"

definition DiagnosticStatus_set_message :: "bytes \<Rightarrow> bytes \<Rightarrow> bytes" where
  "DiagnosticStatus_set_message s v = set_text DiagnosticStatus_t ''message'' s v"

definition DiagnosticStatus_set_hardware_id :: "bytes \<Rightarrow> bytes \<Rightarrow> bytes" where
  "DiagnosticStatus_set_hardware_id s v = set_text DiagnosticStatus_t ''hardware_id'' s v"

definition GoalID_set_id :: "bytes \<Rightarrow> bytes \<Rightarrow> bytes" where
  "GoalID_set_id s v = set_text GoalID_t ''id'' s v"

definition GoalID_id_str :: "bytes \<Rightarrow> bytes" where
  "GoalID_id_str v = get_text GoalID_t ''id'' v"

definition GoalStatus_set_text :: "bytes \<Rightarrow> bytes \<Rightarrow> bytes" where
  "GoalStatus_set_text s v = set_text GoalStatus_t ''text'' s v"

definition GoalStatus_text_str :: "bytes \<Rightarrow> bytes" where
  "GoalStatus_text_str v = get_text GoalStatus_t ''text'' v"

definition JointState_set_name :: "u32 \<Rightarrow> bytes \<Rightarrow> bytes \<Rightarrow> bytes option" where
  "JointState_set_name i s v = set_text_at JointState_t ''name'' (unat i) s v"

definition JointState_name_str :: "u32 \<Rightarrow> bytes \<Rightarrow> bytes option" where
  "JointState_name_str i v = get_text_at JointState_t ''name'' (unat i) v"

definition JointTrajectory_set_joint_name :: "u32 \<Rightarrow> bytes \<Rightarrow> bytes \<Rightarrow> bytes option" where
  "JointTrajectory_set_joint_name i s v = set_text_at JointTrajectory_t ''joint_names'' (unat i) s v"

definition MultiDOFJointTrajectory_set_joint_name :: "u32 \<Rightarrow> bytes \<Rightarrow> bytes \<Rightarrow> bytes option" where
  "MultiDOFJointTrajectory_set_joint_name i s v = set_text_at MultiDOFJointTrajectory_t ''joint_names'' (unat i) s v"

text \<open>\<^verbatim>\<open>Time::now\<close> truncates the two fields of the clock reading to 32 bits.\<close>

definition Time_now :: "int \<times> int \<Rightarrow> bytes" where
  "Time_now ts = le32 (word_of_int (fst ts)) @ le32 (word_of_int (snd ts))"

definition Header_stamp_now :: "int \<times> int \<Rightarrow> bytes \<Rightarrow> bytes" where
  "Header_stamp_now ts v = put_bytes 4 (Time_now ts) v"

section \<open>Laws\<close>

lemma find_member_range:
  "find_member off ms f = Some (o', t) \<Longrightarrow> off \<le> o' \<and> o' + csize t \<le> off + msize ms"
  by (induction off ms f rule: find_member.induct) (auto split: if_splits)

lemma find_member_apart:
  "find_member off ms f = Some (o1, t1) \<Longrightarrow> find_member off ms g = Some (o2, t2) \<Longrightarrow> f \<noteq> g \<Longrightarrow>
   o1 + csize t1 \<le> o2 \<or> o2 + csize t2 \<le> o1"
  by (induction off ms f rule: find_member.induct)
    (auto split: if_splits dest: find_member_range)

lemma member_of_range:
  assumes "member_of T f = Some (off, t)"
  shows "off + csize t \<le> csize T"
proof -
  obtain ms where "T = Struct ms" "find_member 0 ms f = Some (off, t)" using assms by (cases T) auto
  then show ?thesis using find_member_range [of 0 ms f off t] by (cases ms) auto
qed

lemma member_of_apart:
  "member_of T f = Some (o1, t1) \<Longrightarrow> member_of T g = Some (o2, t2) \<Longrightarrow> f \<noteq> g \<Longrightarrow>
   o1 + csize t1 \<le> o2 \<or> o2 + csize t2 \<le> o1"
  by (cases T) (auto dest: find_member_apart)

lemma length_put_bytes [simp]: "off + length b \<le> length v \<Longrightarrow> length (put_bytes off b v) = length v"
  by (simp add: put_bytes_def)

lemma put_bytes_same: "off + length b \<le> length v \<Longrightarrow> bslice off (length b) (put_bytes off b v) = b"
  by (simp add: put_bytes_def bslice_def)

lemma put_bytes_other:
  assumes "off + length b \<le> length v" and "o' + n \<le> off \<or> off + length b \<le> o'"
  shows "bslice o' n (put_bytes off b v) = bslice o' n v"
  using assms(2)
proof
  assume "o' + n \<le> off"
  then show ?thesis using assms(1) by (simp add: put_bytes_def bslice_def take_drop min_def)
next
  assume "off + length b \<le> o'"
  then have "drop o' (put_bytes off b v) = drop o' v" using assms(1) by (simp add: put_bytes_def)
  then show ?thesis by (simp add: bslice_def)
qed

lemma length_text_image [simp]: "0 < n \<Longrightarrow> length (text_image n s) = n"
  by (simp add: text_image_def Let_def)

lemma c_string_text_image:
  assumes "0 < n"
  shows "c_string (text_image n s) = take (n - 1) (c_string s)"
proof -
  let ?c = "take (n - 1) (c_string s)"
  have "\<forall>b \<in> set ?c. b \<noteq> 0" by (auto simp: c_string_def dest!: in_set_takeD set_takeWhileD)
  then have "takeWhile (\<lambda>b. b \<noteq> 0) (?c @ replicate (n - length ?c) 0) = ?c"
    using assms by (simp add: takeWhile_append2 takeWhile_eq_Nil_iff hd_replicate del: length_take)
  then show ?thesis by (simp add: c_string_def text_image_def Let_def)
qed

lemma text_round_trip:
  assumes "member_of T f = Some (off, t)" and "0 < csize t" and "length v = csize T"
  shows "get_text T f (set_text T f s v) = take (csize t - 1) (c_string s)"
    and "length (set_text T f s v) = csize T"
    and "member_of T g = Some (o', t') \<Longrightarrow> g \<noteq> f \<Longrightarrow>
      bslice o' (csize t') (set_text T f s v) = bslice o' (csize t') v"
proof -
  have fits: "off + length (text_image (csize t) s) \<le> length v"
    using member_of_range [OF assms(1)] assms(2,3) by simp
  show "get_text T f (set_text T f s v) = take (csize t - 1) (c_string s)"
    using put_bytes_same [OF fits] assms(1,2) by (simp add: get_text_def set_text_def c_string_text_image)
  show "length (set_text T f s v) = csize T"
    using fits assms by (simp add: set_text_def)
  show "bslice o' (csize t') (set_text T f s v) = bslice o' (csize t') v"
    if "member_of T g = Some (o', t')" "g \<noteq> f"
    using put_bytes_other [OF fits, of o' "csize t'"] member_of_apart [OF assms(1) that(1)] that(2) assms
    by (auto simp: set_text_def)
qed

lemmas layout_defs = Header_t_def String_t_def TransformStamped_t_def CameraInfo_t_def PointField_t_def
  Odometry_t_def KeyValue_t_def DiagnosticStatus_t_def GoalID_t_def GoalStatus_t_def Time_t_def
  Duration_t_def Vector3_t_def Point_t_def Quaternion_t_def Pose_t_def Twist_t_def Transform_t_def
  RegionOfInterest_t_def JointState_t_def kFrameIdMaxLen_def kStringMaxLen_def kKvMaxLen_def
  kMaxDistortionCoeffs_def kMaxKeyValues_def kMaxJoints_def

lemmas accessor_defs = Header_set_frame_id_def Header_frame_id_str_def String_set_def String_str_def
  TransformStamped_set_child_frame_id_def TransformStamped_child_frame_id_str_def
  CameraInfo_set_distortion_model_def CameraInfo_distortion_model_str_def
  PointField_set_name_def PointField_name_str_def Odometry_set_child_frame_id_def
  Odometry_child_frame_id_str_def KeyValue_set_key_def KeyValue_key_str_def KeyValue_set_value_def
  KeyValue_value_str_def GoalID_set_id_def GoalID_id_str_def GoalStatus_set_text_def GoalStatus_text_str_def

text \<open>
  Every text member of a standard message reads back what was stored, cut to one byte less than
  its array, whatever bytes the message held before and whatever the length of the text.
\<close>

theorem text_members_round_trip:
  "(length v = csize Header_t \<longrightarrow> Header_frame_id_str (Header_set_frame_id s v) = take 31 (c_string s)) \<and>
   (length v = csize String_t \<longrightarrow> String_str (String_set s v) = take 63 (c_string s)) \<and>
   (length v = csize TransformStamped_t \<longrightarrow>
      TransformStamped_child_frame_id_str (TransformStamped_set_child_frame_id s v) = take 31 (c_string s)) \<and>
   (length v = csize CameraInfo_t \<longrightarrow>
      CameraInfo_distortion_model_str (CameraInfo_set_distortion_model s v) = take 63 (c_string s)) \<and>
   (length v = csize PointField_t \<longrightarrow> PointField_name_str (PointField_set_name s v) = take 63 (c_string s)) \<and>
   (length v = csize Odometry_t \<longrightarrow>
      Odometry_child_frame_id_str (Odometry_set_child_frame_id s v) = take 31 (c_string s)) \<and>
   (length v = csize KeyValue_t \<longrightarrow>
      KeyValue_key_str (KeyValue_set_key s v) = take 31 (c_string s) \<and>
      KeyValue_value_str (KeyValue_set_value s v) = take 31 (c_string s) \<and>
      KeyValue_key_str (KeyValue_set_value s v) = KeyValue_key_str v) \<and>
   (length v = csize GoalID_t \<longrightarrow> GoalID_id_str (GoalID_set_id s v) = take 63 (c_string s)) \<and>
   (length v = csize GoalStatus_t \<longrightarrow> GoalStatus_text_str (GoalStatus_set_text s v) = take 63 (c_string s))"
proof -
  have r: "get_text T f (set_text T f s v) = take m (c_string s)"
    if "member_of T f = Some (off, Arr (Suc m) (Prim TChar))" "length v = csize T" for T f off m
    using text_round_trip(1) [OF that(1) _ that(2)] by simp
  have k: "KeyValue_key_str (KeyValue_set_value s v) = KeyValue_key_str v" if "length v = csize KeyValue_t"
    using text_round_trip(3) [of KeyValue_t "''value''" 32 "Arr 32 (Prim TChar)" v "''key''" 0 "Arr 32 (Prim TChar)" s] that
    by (simp add: accessor_defs get_text_def layout_defs)
  show ?thesis
    unfolding accessor_defs
    by (intro conjI impI; (rule r | rule k [unfolded accessor_defs]); (assumption | simp add: layout_defs))
qed

theorem text_members_round_trip_witness:
  "Header_frame_id_str (Header_set_frame_id [0x6d, 0x61, 0x70] (replicate 44 1)) = [0x6d, 0x61, 0x70]"
  using text_members_round_trip [of "replicate 44 1" "[0x6d, 0x61, 0x70]"]
  by (simp add: layout_defs c_string_def)

text \<open>
  The names of a joint-state message are independent: storing name \<open>i\<close> makes name \<open>i\<close> read back as
  stored, cut to 63 bytes, and leaves every other name and every other member as it was; an index
  outside the array is undefined, and is the only case that is.
\<close>

theorem joint_names_independent:
  assumes "length v = csize JointState_t"
  shows "(JointState_set_name i s v = None \<longleftrightarrow> 8 \<le> unat i) \<and>
    (\<forall>w. JointState_set_name i s v = Some w \<longrightarrow>
       JointState_name_str i w = Some (take 63 (c_string s)) \<and>
       (\<forall>j. j \<noteq> i \<longrightarrow> JointState_name_str j w = JointState_name_str j v) \<and>
       take 48 w = take 48 v \<and> drop 560 w = drop 560 v)"
proof -
  have v: "length v = 752" using assms by (simp add: layout_defs)
  let ?im = "text_image 64 s"
  have im: "length ?im = 64" by simp
  have nm: "member_of JointState_t ''name'' = Some (48, Arr 8 (Arr 64 (Prim TChar)))"
    by (simp add: layout_defs)
  have set_eq: "JointState_set_name i s v = (if unat i < 8 then Some (put_bytes (48 + unat i * 64) ?im v) else None)"
    by (simp add: JointState_set_name_def set_text_at_def nm)
  have get_eq: "JointState_name_str j w = (if unat j < 8 then Some (c_string (bslice (48 + unat j * 64) 64 w)) else None)"
    for j w by (simp add: JointState_name_str_def get_text_at_def nm)
  have "JointState_name_str i w = Some (take 63 (c_string s)) \<and>
      (\<forall>j. j \<noteq> i \<longrightarrow> JointState_name_str j w = JointState_name_str j v) \<and>
      take 48 w = take 48 v \<and> drop 560 w = drop 560 v"
    if i: "unat i < 8" and w: "w = put_bytes (48 + unat i * 64) ?im v" for w
  proof (intro conjI allI impI)
    have fits: "48 + unat i * 64 + length ?im \<le> length v" using i im v by simp
    show "JointState_name_str i w = Some (take 63 (c_string s))"
      using put_bytes_same [OF fits] i c_string_text_image [of 64 s] by (simp add: get_eq w im)
    show "JointState_name_str j w = JointState_name_str j v" if "j \<noteq> i" for j
    proof -
      have "unat j \<noteq> unat i" using that by (simp add: word_unat_eq_iff)
      then have "48 + unat j * 64 + 64 \<le> 48 + unat i * 64 \<or> 48 + unat i * 64 + length ?im \<le> 48 + unat j * 64"
        using im by linarith
      then show ?thesis using put_bytes_other [OF fits] by (simp add: get_eq w)
    qed
    show "take 48 w = take 48 v" using i v by (simp add: w put_bytes_def)
    show "drop 560 w = drop 560 v" using i v im by (simp add: w put_bytes_def)
  qed
  then show ?thesis unfolding set_eq by auto
qed

theorem joint_names_independent_witness:
  "JointState_set_name 8 [0x61] (replicate 752 0) = None"
  using joint_names_independent [of "replicate 752 0" 8 "[0x61]"] by (simp add: layout_defs)

end
