(* ===== verification/Msg_Schema.thy ===== *)
theory Msg_Schema
  imports Standard_Msgs "HOL-Library.Code_Target_Nat"
begin

text \<open>
  The message schema of the topic tool, \<^verbatim>\<open>cpp/tools/msg_schema.hpp\<close>: a hand-written description of
  every standard message, the look-ups by name and by size, and the printer. The registration macros
  are functions of the layout of the struct, since they expand to \<^verbatim>\<open>offsetof\<close> and \<^verbatim>\<open>sizeof\<close>. The printer
  returns \<open>None\<close> where the code would read outside the payload or follow a null descriptor.
\<close>

datatype FKind =
    FK_I8 | FK_U8 | FK_I16 | FK_U16 | FK_I32 | FK_U32 | FK_I64 | FK_U64 | FK_F32 | FK_F64
  | FK_CHAR_STR | FK_CHAR_STR_ARRAY | FK_NUM_ARRAY | FK_STRUCT | FK_STRUCT_ARRAY

datatype TypeDesc = TypeDesc (td_type_name: string) (td_size: nat) (td_fields: "FieldDesc list")
  and FieldDesc = FieldDesc (fd_name: string) (fd_kind: FKind) (fd_offset: nat) (fd_count: nat)
    (fd_elem_size: nat) (fd_elem_kind: FKind) (fd_nested: "TypeDesc option")

section \<open>Registration\<close>

text \<open>A member that does not exist is a compile error; it gets offset and size 0 here.\<close>

definition offsetof :: "ctype \<Rightarrow> string \<Rightarrow> nat" where
  "offsetof S F = (case member_of S F of Some (off, t) \<Rightarrow> off | None \<Rightarrow> 0)"

definition sizeof_member :: "ctype \<Rightarrow> string \<Rightarrow> nat" where
  "sizeof_member S F = (case member_of S F of Some (off, t) \<Rightarrow> csize t | None \<Rightarrow> 0)"

definition sizeof_element :: "ctype \<Rightarrow> string \<Rightarrow> nat" where
  "sizeof_element S F = (case member_of S F of Some (off, Arr n t) \<Rightarrow> csize t | _ \<Rightarrow> 0)"

definition RMS_SCALAR :: "ctype \<Rightarrow> string \<Rightarrow> FKind \<Rightarrow> FieldDesc" where
  "RMS_SCALAR S F K = FieldDesc F K (offsetof S F) 1 0 K None"

definition RMS_NUMARR :: "ctype \<Rightarrow> string \<Rightarrow> FKind \<Rightarrow> FieldDesc" where
  "RMS_NUMARR S F EK =
     FieldDesc F FK_NUM_ARRAY (offsetof S F) (sizeof_member S F div sizeof_element S F) 0 EK None"

definition RMS_STR :: "ctype \<Rightarrow> string \<Rightarrow> FieldDesc" where
  "RMS_STR S F = FieldDesc F FK_CHAR_STR (offsetof S F) 1 (sizeof_member S F) FK_U8 None"

definition RMS_STRARR :: "ctype \<Rightarrow> string \<Rightarrow> FieldDesc" where
  "RMS_STRARR S F =
     FieldDesc F FK_CHAR_STR_ARRAY (offsetof S F) (sizeof_member S F div sizeof_element S F)
       (sizeof_element S F) FK_U8 None"

definition RMS_STRUCT :: "ctype \<Rightarrow> string \<Rightarrow> TypeDesc \<Rightarrow> FieldDesc" where
  "RMS_STRUCT S F DESC = FieldDesc F FK_STRUCT (offsetof S F) 1 (sizeof_member S F) FK_U8 (Some DESC)"

definition RMS_STRUCTARR :: "ctype \<Rightarrow> string \<Rightarrow> TypeDesc \<Rightarrow> FieldDesc" where
  "RMS_STRUCTARR S F DESC =
     FieldDesc F FK_STRUCT_ARRAY (offsetof S F) (sizeof_member S F div sizeof_element S F)
       (sizeof_element S F) FK_U8 (Some DESC)"

definition RMS_TYPE :: "string \<Rightarrow> ctype \<Rightarrow> FieldDesc list \<Rightarrow> TypeDesc" where
  "RMS_TYPE DISPLAYNAME STYPE fields = TypeDesc DISPLAYNAME (csize STYPE) fields"

definition kBool :: TypeDesc where
  "kBool = RMS_TYPE ''Bool'' Bool_t
      [RMS_SCALAR Bool_t ''data'' FK_U8]"

definition kByte :: TypeDesc where
  "kByte = RMS_TYPE ''Byte'' Byte_t
      [RMS_SCALAR Byte_t ''data'' FK_U8]"

definition kChar :: TypeDesc where
  "kChar = RMS_TYPE ''Char'' Char_t
      [RMS_SCALAR Char_t ''data'' FK_U8]"

definition kInt8 :: TypeDesc where
  "kInt8 = RMS_TYPE ''Int8'' Int8_t
      [RMS_SCALAR Int8_t ''data'' FK_I8]"

definition kInt16 :: TypeDesc where
  "kInt16 = RMS_TYPE ''Int16'' Int16_t
      [RMS_SCALAR Int16_t ''data'' FK_I16]"

definition kInt32 :: TypeDesc where
  "kInt32 = RMS_TYPE ''Int32'' Int32_t
      [RMS_SCALAR Int32_t ''data'' FK_I32]"

definition kInt64 :: TypeDesc where
  "kInt64 = RMS_TYPE ''Int64'' Int64_t
      [RMS_SCALAR Int64_t ''data'' FK_I64]"

definition kUInt8 :: TypeDesc where
  "kUInt8 = RMS_TYPE ''UInt8'' UInt8_t
      [RMS_SCALAR UInt8_t ''data'' FK_U8]"

definition kUInt16 :: TypeDesc where
  "kUInt16 = RMS_TYPE ''UInt16'' UInt16_t
      [RMS_SCALAR UInt16_t ''data'' FK_U16]"

definition kUInt32 :: TypeDesc where
  "kUInt32 = RMS_TYPE ''UInt32'' UInt32_t
      [RMS_SCALAR UInt32_t ''data'' FK_U32]"

definition kUInt64 :: TypeDesc where
  "kUInt64 = RMS_TYPE ''UInt64'' UInt64_t
      [RMS_SCALAR UInt64_t ''data'' FK_U64]"

definition kFloat32 :: TypeDesc where
  "kFloat32 = RMS_TYPE ''Float32'' Float32_t
      [RMS_SCALAR Float32_t ''data'' FK_F32]"

definition kFloat64 :: TypeDesc where
  "kFloat64 = RMS_TYPE ''Float64'' Float64_t
      [RMS_SCALAR Float64_t ''data'' FK_F64]"

definition kTime :: TypeDesc where
  "kTime = RMS_TYPE ''Time'' Time_t
      [RMS_SCALAR Time_t ''sec'' FK_U32,
       RMS_SCALAR Time_t ''nsec'' FK_U32]"

definition kDuration :: TypeDesc where
  "kDuration = RMS_TYPE ''Duration'' Duration_t
      [RMS_SCALAR Duration_t ''sec'' FK_I32,
       RMS_SCALAR Duration_t ''nsec'' FK_I32]"

definition kColorRGBA :: TypeDesc where
  "kColorRGBA = RMS_TYPE ''ColorRGBA'' ColorRGBA_t
      [RMS_SCALAR ColorRGBA_t ''r'' FK_F32,
       RMS_SCALAR ColorRGBA_t ''g'' FK_F32,
       RMS_SCALAR ColorRGBA_t ''b'' FK_F32,
       RMS_SCALAR ColorRGBA_t ''a'' FK_F32]"

definition kHeader :: TypeDesc where
  "kHeader = RMS_TYPE ''Header'' Header_t
      [RMS_SCALAR Header_t ''seq'' FK_U32,
       RMS_STRUCT Header_t ''stamp'' kTime,
       RMS_STR Header_t ''frame_id'']"

definition kString :: TypeDesc where
  "kString = RMS_TYPE ''String'' String_t
      [RMS_STR String_t ''data'']"

definition kVector3 :: TypeDesc where
  "kVector3 = RMS_TYPE ''Vector3'' Vector3_t
      [RMS_SCALAR Vector3_t ''x'' FK_F32,
       RMS_SCALAR Vector3_t ''y'' FK_F32,
       RMS_SCALAR Vector3_t ''z'' FK_F32]"

definition kPoint :: TypeDesc where
  "kPoint = RMS_TYPE ''Point'' Point_t
      [RMS_SCALAR Point_t ''x'' FK_F32,
       RMS_SCALAR Point_t ''y'' FK_F32,
       RMS_SCALAR Point_t ''z'' FK_F32]"

definition kPoint32 :: TypeDesc where
  "kPoint32 = RMS_TYPE ''Point32'' Point32_t
      [RMS_SCALAR Point32_t ''x'' FK_F32,
       RMS_SCALAR Point32_t ''y'' FK_F32,
       RMS_SCALAR Point32_t ''z'' FK_F32]"

definition kQuaternion :: TypeDesc where
  "kQuaternion = RMS_TYPE ''Quaternion'' Quaternion_t
      [RMS_SCALAR Quaternion_t ''x'' FK_F32,
       RMS_SCALAR Quaternion_t ''y'' FK_F32,
       RMS_SCALAR Quaternion_t ''z'' FK_F32,
       RMS_SCALAR Quaternion_t ''w'' FK_F32]"

definition kPose :: TypeDesc where
  "kPose = RMS_TYPE ''Pose'' Pose_t
      [RMS_STRUCT Pose_t ''position'' kPoint,
       RMS_STRUCT Pose_t ''orientation'' kQuaternion]"

definition kTwist :: TypeDesc where
  "kTwist = RMS_TYPE ''Twist'' Twist_t
      [RMS_STRUCT Twist_t ''linear'' kVector3,
       RMS_STRUCT Twist_t ''angular'' kVector3]"

definition kAccel :: TypeDesc where
  "kAccel = RMS_TYPE ''Accel'' Accel_t
      [RMS_STRUCT Accel_t ''linear'' kVector3,
       RMS_STRUCT Accel_t ''angular'' kVector3]"

definition kWrench :: TypeDesc where
  "kWrench = RMS_TYPE ''Wrench'' Wrench_t
      [RMS_STRUCT Wrench_t ''force'' kVector3,
       RMS_STRUCT Wrench_t ''torque'' kVector3]"

definition kPoseStamped :: TypeDesc where
  "kPoseStamped = RMS_TYPE ''PoseStamped'' PoseStamped_t
      [RMS_STRUCT PoseStamped_t ''header'' kHeader,
       RMS_STRUCT PoseStamped_t ''pose'' kPose]"

definition kTwistStamped :: TypeDesc where
  "kTwistStamped = RMS_TYPE ''TwistStamped'' TwistStamped_t
      [RMS_STRUCT TwistStamped_t ''header'' kHeader,
       RMS_STRUCT TwistStamped_t ''twist'' kTwist]"

definition kTransform :: TypeDesc where
  "kTransform = RMS_TYPE ''Transform'' Transform_t
      [RMS_STRUCT Transform_t ''translation'' kVector3,
       RMS_STRUCT Transform_t ''rotation'' kQuaternion]"

definition kTransformStamped :: TypeDesc where
  "kTransformStamped = RMS_TYPE ''TransformStamped'' TransformStamped_t
      [RMS_STRUCT TransformStamped_t ''header'' kHeader,
       RMS_STR TransformStamped_t ''child_frame_id'',
       RMS_STRUCT TransformStamped_t ''transform'' kTransform]"

definition kPoseWithCovariance :: TypeDesc where
  "kPoseWithCovariance = RMS_TYPE ''PoseWithCovariance'' PoseWithCovariance_t
      [RMS_STRUCT PoseWithCovariance_t ''pose'' kPose,
       RMS_NUMARR PoseWithCovariance_t ''covariance'' FK_F32]"

definition kTwistWithCovariance :: TypeDesc where
  "kTwistWithCovariance = RMS_TYPE ''TwistWithCovariance'' TwistWithCovariance_t
      [RMS_STRUCT TwistWithCovariance_t ''twist'' kTwist,
       RMS_NUMARR TwistWithCovariance_t ''covariance'' FK_F32]"

definition kPoseArray :: TypeDesc where
  "kPoseArray = RMS_TYPE ''PoseArray'' PoseArray_t
      [RMS_STRUCT PoseArray_t ''header'' kHeader,
       RMS_SCALAR PoseArray_t ''count'' FK_U32,
       RMS_STRUCTARR PoseArray_t ''poses'' kPose]"

definition kPolygon :: TypeDesc where
  "kPolygon = RMS_TYPE ''Polygon'' Polygon_t
      [RMS_SCALAR Polygon_t ''count'' FK_U32,
       RMS_STRUCTARR Polygon_t ''points'' kPoint32]"

definition kImu :: TypeDesc where
  "kImu = RMS_TYPE ''Imu'' Imu_t
      [RMS_STRUCT Imu_t ''header'' kHeader,
       RMS_STRUCT Imu_t ''orientation'' kQuaternion,
       RMS_NUMARR Imu_t ''orientation_covariance'' FK_F32,
       RMS_STRUCT Imu_t ''angular_velocity'' kVector3,
       RMS_NUMARR Imu_t ''angular_velocity_covariance'' FK_F32,
       RMS_STRUCT Imu_t ''linear_acceleration'' kVector3,
       RMS_NUMARR Imu_t ''linear_acceleration_covariance'' FK_F32]"

definition kNavSatStatus :: TypeDesc where
  "kNavSatStatus = RMS_TYPE ''NavSatStatus'' NavSatStatus_t
      [RMS_SCALAR NavSatStatus_t ''status'' FK_I8,
       RMS_SCALAR NavSatStatus_t ''service'' FK_U16]"

definition kNavSatFix :: TypeDesc where
  "kNavSatFix = RMS_TYPE ''NavSatFix'' NavSatFix_t
      [RMS_STRUCT NavSatFix_t ''header'' kHeader,
       RMS_STRUCT NavSatFix_t ''status'' kNavSatStatus,
       RMS_SCALAR NavSatFix_t ''latitude'' FK_F64,
       RMS_SCALAR NavSatFix_t ''longitude'' FK_F64,
       RMS_SCALAR NavSatFix_t ''altitude'' FK_F64,
       RMS_NUMARR NavSatFix_t ''position_covariance'' FK_F64,
       RMS_SCALAR NavSatFix_t ''position_covariance_type'' FK_U8]"

definition kMagneticField :: TypeDesc where
  "kMagneticField = RMS_TYPE ''MagneticField'' MagneticField_t
      [RMS_STRUCT MagneticField_t ''header'' kHeader,
       RMS_STRUCT MagneticField_t ''magnetic_field'' kVector3,
       RMS_NUMARR MagneticField_t ''magnetic_field_covariance'' FK_F32]"

definition kTemperature :: TypeDesc where
  "kTemperature = RMS_TYPE ''Temperature'' Temperature_t
      [RMS_STRUCT Temperature_t ''header'' kHeader,
       RMS_SCALAR Temperature_t ''temperature'' FK_F64,
       RMS_SCALAR Temperature_t ''variance'' FK_F64]"

definition kRange :: TypeDesc where
  "kRange = RMS_TYPE ''Range'' Range_t
      [RMS_STRUCT Range_t ''header'' kHeader,
       RMS_SCALAR Range_t ''radiation_type'' FK_U8,
       RMS_SCALAR Range_t ''field_of_view'' FK_F32,
       RMS_SCALAR Range_t ''min_range'' FK_F32,
       RMS_SCALAR Range_t ''max_range'' FK_F32,
       RMS_SCALAR Range_t ''range'' FK_F32]"

definition kRegionOfInterest :: TypeDesc where
  "kRegionOfInterest = RMS_TYPE ''RegionOfInterest'' RegionOfInterest_t
      [RMS_SCALAR RegionOfInterest_t ''x_offset'' FK_U32,
       RMS_SCALAR RegionOfInterest_t ''y_offset'' FK_U32,
       RMS_SCALAR RegionOfInterest_t ''height'' FK_U32,
       RMS_SCALAR RegionOfInterest_t ''width'' FK_U32,
       RMS_SCALAR RegionOfInterest_t ''do_rectify'' FK_U8]"

definition kCameraInfo :: TypeDesc where
  "kCameraInfo = RMS_TYPE ''CameraInfo'' CameraInfo_t
      [RMS_STRUCT CameraInfo_t ''header'' kHeader,
       RMS_SCALAR CameraInfo_t ''height'' FK_U32,
       RMS_SCALAR CameraInfo_t ''width'' FK_U32,
       RMS_STR CameraInfo_t ''distortion_model'',
       RMS_SCALAR CameraInfo_t ''d_count'' FK_U32,
       RMS_NUMARR CameraInfo_t ''D'' FK_F64,
       RMS_NUMARR CameraInfo_t ''K'' FK_F64,
       RMS_NUMARR CameraInfo_t ''R'' FK_F64,
       RMS_NUMARR CameraInfo_t ''P'' FK_F64,
       RMS_SCALAR CameraInfo_t ''binning_x'' FK_U32,
       RMS_SCALAR CameraInfo_t ''binning_y'' FK_U32,
       RMS_STRUCT CameraInfo_t ''roi'' kRegionOfInterest]"

definition kPointField :: TypeDesc where
  "kPointField = RMS_TYPE ''PointField'' PointField_t
      [RMS_STR PointField_t ''name'',
       RMS_SCALAR PointField_t ''offset'' FK_U32,
       RMS_SCALAR PointField_t ''datatype'' FK_U8,
       RMS_SCALAR PointField_t ''count'' FK_U32]"

definition kPointCloud2 :: TypeDesc where
  "kPointCloud2 = RMS_TYPE ''PointCloud2'' PointCloud2_t
      [RMS_STRUCT PointCloud2_t ''header'' kHeader,
       RMS_SCALAR PointCloud2_t ''height'' FK_U32,
       RMS_SCALAR PointCloud2_t ''width'' FK_U32,
       RMS_SCALAR PointCloud2_t ''fields_count'' FK_U32,
       RMS_STRUCTARR PointCloud2_t ''fields'' kPointField,
       RMS_SCALAR PointCloud2_t ''is_bigendian'' FK_U8,
       RMS_SCALAR PointCloud2_t ''point_step'' FK_U32,
       RMS_SCALAR PointCloud2_t ''row_step'' FK_U32,
       RMS_SCALAR PointCloud2_t ''data_len'' FK_U32,
       RMS_NUMARR PointCloud2_t ''data'' FK_U8,
       RMS_SCALAR PointCloud2_t ''is_dense'' FK_U8]"

definition kLaserScan :: TypeDesc where
  "kLaserScan = RMS_TYPE ''LaserScan'' LaserScan_t
      [RMS_STRUCT LaserScan_t ''header'' kHeader,
       RMS_SCALAR LaserScan_t ''angle_min'' FK_F32,
       RMS_SCALAR LaserScan_t ''angle_max'' FK_F32,
       RMS_SCALAR LaserScan_t ''angle_increment'' FK_F32,
       RMS_SCALAR LaserScan_t ''time_increment'' FK_F32,
       RMS_SCALAR LaserScan_t ''scan_time'' FK_F32,
       RMS_SCALAR LaserScan_t ''range_min'' FK_F32,
       RMS_SCALAR LaserScan_t ''range_max'' FK_F32,
       RMS_SCALAR LaserScan_t ''ranges_count'' FK_U32,
       RMS_NUMARR LaserScan_t ''ranges'' FK_F32,
       RMS_SCALAR LaserScan_t ''intensities_count'' FK_U32,
       RMS_NUMARR LaserScan_t ''intensities'' FK_F32]"

definition kJointState :: TypeDesc where
  "kJointState = RMS_TYPE ''JointState'' JointState_t
      [RMS_STRUCT JointState_t ''header'' kHeader,
       RMS_SCALAR JointState_t ''count'' FK_U32,
       RMS_STRARR JointState_t ''name'',
       RMS_NUMARR JointState_t ''position'' FK_F64,
       RMS_NUMARR JointState_t ''velocity'' FK_F64,
       RMS_NUMARR JointState_t ''effort'' FK_F64]"

definition kOdometry :: TypeDesc where
  "kOdometry = RMS_TYPE ''Odometry'' Odometry_t
      [RMS_STRUCT Odometry_t ''header'' kHeader,
       RMS_STR Odometry_t ''child_frame_id'',
       RMS_STRUCT Odometry_t ''pose'' kPose,
       RMS_NUMARR Odometry_t ''pose_covariance'' FK_F32,
       RMS_STRUCT Odometry_t ''twist'' kTwist,
       RMS_NUMARR Odometry_t ''twist_covariance'' FK_F32]"

definition kMapMetaData :: TypeDesc where
  "kMapMetaData = RMS_TYPE ''MapMetaData'' MapMetaData_t
      [RMS_STRUCT MapMetaData_t ''map_load_time'' kTime,
       RMS_SCALAR MapMetaData_t ''resolution'' FK_F32,
       RMS_SCALAR MapMetaData_t ''width'' FK_U32,
       RMS_SCALAR MapMetaData_t ''height'' FK_U32,
       RMS_STRUCT MapMetaData_t ''origin'' kPose]"

definition kPath :: TypeDesc where
  "kPath = RMS_TYPE ''Path'' Path_t
      [RMS_STRUCT Path_t ''header'' kHeader,
       RMS_SCALAR Path_t ''count'' FK_U32,
       RMS_STRUCTARR Path_t ''poses'' kPoseStamped]"

definition kOccupancyGrid :: TypeDesc where
  "kOccupancyGrid = RMS_TYPE ''OccupancyGrid'' OccupancyGrid_t
      [RMS_STRUCT OccupancyGrid_t ''header'' kHeader,
       RMS_STRUCT OccupancyGrid_t ''info'' kMapMetaData,
       RMS_SCALAR OccupancyGrid_t ''data_len'' FK_U32,
       RMS_NUMARR OccupancyGrid_t ''data'' FK_I8]"

definition kGridCells :: TypeDesc where
  "kGridCells = RMS_TYPE ''GridCells'' GridCells_t
      [RMS_STRUCT GridCells_t ''header'' kHeader,
       RMS_SCALAR GridCells_t ''cell_width'' FK_F32,
       RMS_SCALAR GridCells_t ''cell_height'' FK_F32,
       RMS_SCALAR GridCells_t ''count'' FK_U32,
       RMS_STRUCTARR GridCells_t ''cells'' kPoint]"

definition kKeyValue :: TypeDesc where
  "kKeyValue = RMS_TYPE ''KeyValue'' KeyValue_t
      [RMS_STR KeyValue_t ''key'',
       RMS_STR KeyValue_t ''value'']"

definition kDiagnosticStatus :: TypeDesc where
  "kDiagnosticStatus = RMS_TYPE ''DiagnosticStatus'' DiagnosticStatus_t
      [RMS_SCALAR DiagnosticStatus_t ''level'' FK_I8,
       RMS_STR DiagnosticStatus_t ''name'',
       RMS_STR DiagnosticStatus_t ''message'',
       RMS_STR DiagnosticStatus_t ''hardware_id'',
       RMS_SCALAR DiagnosticStatus_t ''values_count'' FK_U32,
       RMS_STRUCTARR DiagnosticStatus_t ''values'' kKeyValue]"

definition kDiagnosticArray :: TypeDesc where
  "kDiagnosticArray = RMS_TYPE ''DiagnosticArray'' DiagnosticArray_t
      [RMS_STRUCT DiagnosticArray_t ''header'' kHeader,
       RMS_SCALAR DiagnosticArray_t ''status_count'' FK_U32,
       RMS_STRUCTARR DiagnosticArray_t ''status'' kDiagnosticStatus]"

definition kJointTrajectoryPoint :: TypeDesc where
  "kJointTrajectoryPoint = RMS_TYPE ''JointTrajectoryPoint'' JointTrajectoryPoint_t
      [RMS_SCALAR JointTrajectoryPoint_t ''count'' FK_U32,
       RMS_NUMARR JointTrajectoryPoint_t ''positions'' FK_F64,
       RMS_NUMARR JointTrajectoryPoint_t ''velocities'' FK_F64,
       RMS_NUMARR JointTrajectoryPoint_t ''accelerations'' FK_F64,
       RMS_NUMARR JointTrajectoryPoint_t ''effort'' FK_F64,
       RMS_STRUCT JointTrajectoryPoint_t ''time_from_start'' kDuration]"

definition kJointTrajectory :: TypeDesc where
  "kJointTrajectory = RMS_TYPE ''JointTrajectory'' JointTrajectory_t
      [RMS_STRUCT JointTrajectory_t ''header'' kHeader,
       RMS_SCALAR JointTrajectory_t ''joint_names_count'' FK_U32,
       RMS_STRARR JointTrajectory_t ''joint_names'',
       RMS_SCALAR JointTrajectory_t ''points_count'' FK_U32,
       RMS_STRUCTARR JointTrajectory_t ''points'' kJointTrajectoryPoint]"

definition kMultiDOFJointTrajectoryPoint :: TypeDesc where
  "kMultiDOFJointTrajectoryPoint = RMS_TYPE ''MultiDOFJointTrajectoryPoint'' MultiDOFJointTrajectoryPoint_t
      [RMS_SCALAR MultiDOFJointTrajectoryPoint_t ''count'' FK_U32,
       RMS_STRUCTARR MultiDOFJointTrajectoryPoint_t ''transforms'' kTransform,
       RMS_STRUCTARR MultiDOFJointTrajectoryPoint_t ''velocities'' kTwist,
       RMS_STRUCTARR MultiDOFJointTrajectoryPoint_t ''accelerations'' kTwist,
       RMS_STRUCT MultiDOFJointTrajectoryPoint_t ''time_from_start'' kDuration]"

definition kMultiDOFJointTrajectory :: TypeDesc where
  "kMultiDOFJointTrajectory = RMS_TYPE ''MultiDOFJointTrajectory'' MultiDOFJointTrajectory_t
      [RMS_STRUCT MultiDOFJointTrajectory_t ''header'' kHeader,
       RMS_SCALAR MultiDOFJointTrajectory_t ''joint_names_count'' FK_U32,
       RMS_STRARR MultiDOFJointTrajectory_t ''joint_names'',
       RMS_SCALAR MultiDOFJointTrajectory_t ''points_count'' FK_U32,
       RMS_STRUCTARR MultiDOFJointTrajectory_t ''points'' kMultiDOFJointTrajectoryPoint]"

definition kGoalID :: TypeDesc where
  "kGoalID = RMS_TYPE ''GoalID'' GoalID_t
      [RMS_STRUCT GoalID_t ''stamp'' kTime,
       RMS_STR GoalID_t ''id'']"

definition kGoalStatus :: TypeDesc where
  "kGoalStatus = RMS_TYPE ''GoalStatus'' GoalStatus_t
      [RMS_STRUCT GoalStatus_t ''goal_id'' kGoalID,
       RMS_SCALAR GoalStatus_t ''status'' FK_U8,
       RMS_STR GoalStatus_t ''text'']"

definition kGoalStatusArray :: TypeDesc where
  "kGoalStatusArray = RMS_TYPE ''GoalStatusArray'' GoalStatusArray_t
      [RMS_STRUCT GoalStatusArray_t ''header'' kHeader,
       RMS_SCALAR GoalStatusArray_t ''status_list_count'' FK_U32,
       RMS_STRUCTARR GoalStatusArray_t ''status_list'' kGoalStatus]"

definition all_types :: "TypeDesc list" where
  "all_types =
     [kBool, kByte, kChar, kInt8, kInt16, kInt32, kInt64, kUInt8, kUInt16, kUInt32, kUInt64,
      kFloat32, kFloat64, kTime, kDuration, kColorRGBA, kHeader, kString, kVector3, kPoint,
      kPoint32, kQuaternion, kPose, kTwist, kAccel, kWrench, kPoseStamped, kTwistStamped,
      kTransform, kTransformStamped, kPoseWithCovariance, kTwistWithCovariance, kPoseArray,
      kPolygon, kImu, kNavSatStatus, kNavSatFix, kMagneticField, kTemperature, kRange,
      kRegionOfInterest, kCameraInfo, kPointField, kPointCloud2, kLaserScan, kJointState,
      kOdometry, kMapMetaData, kPath, kOccupancyGrid, kGridCells, kKeyValue, kDiagnosticStatus,
      kDiagnosticArray, kJointTrajectoryPoint, kJointTrajectory, kMultiDOFJointTrajectoryPoint,
      kMultiDOFJointTrajectory, kGoalID, kGoalStatus, kGoalStatusArray]"

section \<open>Look-up\<close>

definition find_type_by_name :: "string \<Rightarrow> TypeDesc option" where
  "find_type_by_name name = find (\<lambda>t. name = td_type_name t) all_types"

definition find_types_by_size :: "nat \<Rightarrow> TypeDesc list" where
  "find_types_by_size sz = filter (\<lambda>t. td_size t = sz) all_types"

section \<open>Printing numbers\<close>

text \<open>
  \<^verbatim>\<open>std::to_string\<close> of a floating-point number prints it with \<^verbatim>\<open>%f\<close>: the exact value to six decimals,
  ties to even. A finite value is \<open>m * 2 ^ k\<close>.
\<close>

definition round_half_even :: "nat \<Rightarrow> nat \<Rightarrow> nat" where
  "round_half_even n d =
     (let q = n div d; r = n mod d
      in if 2 * r < d then q else if d < 2 * r then q + 1 else if even q then q else q + 1)"

definition pad6 :: "nat \<Rightarrow> string" where
  "pad6 x = (let ds = to_digits x in replicate (6 - length ds) (CHR ''0'') @ ds)"

definition show_fixed :: "nat \<Rightarrow> int \<Rightarrow> string" where
  "show_fixed m k =
     (let scaled = (if 0 \<le> k then m * 10 ^ 6 * 2 ^ nat k else round_half_even (m * 10 ^ 6) (2 ^ nat (- k)))
      in to_digits (scaled div 10 ^ 6) @ ''.'' @ pad6 (scaled mod 10 ^ 6))"

definition show_float :: "nat \<Rightarrow> nat \<Rightarrow> nat \<Rightarrow> string" where
  "show_float ebits mbits w =
     (let m = w mod 2 ^ mbits; e = w div 2 ^ mbits mod 2 ^ ebits; neg = odd (w div 2 ^ (mbits + ebits));
          bias = 2 ^ (ebits - 1) - 1 + int mbits;
          body = (if e = 2 ^ ebits - 1 then (if m = 0 then ''inf'' else ''nan'')
                  else if e = 0 then show_fixed m (1 - bias)
                  else show_fixed (2 ^ mbits + m) (int e - bias))
      in (if neg then ''-'' else '''') @ body)"

definition signed :: "nat \<Rightarrow> nat \<Rightarrow> int" where
  "signed n v = (if v < 2 ^ (8 * n - 1) then int v else int v - 2 ^ (8 * n))"

definition read_bytes :: "nat \<Rightarrow> nat \<Rightarrow> bytes \<Rightarrow> bytes option" where
  "read_bytes p n data = (if p + n \<le> length data then Some (bslice p n data) else None)"

text \<open>The scalar of a kind at \<open>p\<close>; for a kind that is no scalar the code appends nothing.\<close>

fun kind_size :: "FKind \<Rightarrow> nat" where
  "kind_size FK_I8 = 1" | "kind_size FK_U8 = 1" | "kind_size FK_I16 = 2" | "kind_size FK_U16 = 2"
| "kind_size FK_I32 = 4" | "kind_size FK_U32 = 4" | "kind_size FK_I64 = 8" | "kind_size FK_U64 = 8"
| "kind_size FK_F32 = 4" | "kind_size FK_F64 = 8" | "kind_size _ = 0"

definition show_num :: "FKind \<Rightarrow> nat \<Rightarrow> bytes \<Rightarrow> string option" where
  "show_num k p data =
     map_option (\<lambda>b.
       if k \<in> {FK_I8, FK_I16, FK_I32, FK_I64} then show_int (signed (kind_size k) (le_nat b))
       else if k \<in> {FK_U8, FK_U16, FK_U32, FK_U64} then show_int (int (le_nat b))
       else if k = FK_F32 then show_float 8 23 (le_nat b)
       else if k = FK_F64 then show_float 11 52 (le_nat b)
       else '''') (read_bytes p (kind_size k) data)"

text \<open>\<^verbatim>\<open>std::string(s, strnlen(s, n))\<close> in quotes; \<^verbatim>\<open>strnlen\<close> stops at a zero byte.\<close>

fun read_text :: "nat \<Rightarrow> nat \<Rightarrow> bytes \<Rightarrow> string option" where
  "read_text p 0 data = Some ''''"
| "read_text p (Suc n) data =
     (if p < length data then
        if data ! p = 0 then Some ''''
        else map_option ((#) (char_of (unat (data ! p)))) (read_text (Suc p) n data)
      else None)"

definition show_text :: "nat \<Rightarrow> nat \<Rightarrow> bytes \<Rightarrow> string option" where
  "show_text p n data = map_option (\<lambda>s. ''\"'' @ s @ ''\"'') (read_text p n data)"

text \<open>A loop over the elements of an array that puts a separator between two of them.\<close>

fun show_elems :: "string \<Rightarrow> (nat \<Rightarrow> string option) \<Rightarrow> nat \<Rightarrow> nat \<Rightarrow> string option" where
  "show_elems sep f j 0 = Some ''''"
| "show_elems sep f j (Suc n) =
     (case f j of
        None \<Rightarrow> None
      | Some s \<Rightarrow> map_option (\<lambda>rest. s @ (if n = 0 then '''' else sep) @ rest) (show_elems sep f (Suc j) n))"

section \<open>Printing messages\<close>

definition newline :: string where "newline = [char_of (10 :: nat)]"

definition pad :: "nat \<Rightarrow> string" where "pad indent = replicate (indent * 2) (CHR '' '')"

function format_message :: "TypeDesc \<Rightarrow> nat \<Rightarrow> nat \<Rightarrow> bytes \<Rightarrow> string option"
  and format_fields :: "FieldDesc list \<Rightarrow> nat \<Rightarrow> nat \<Rightarrow> bytes \<Rightarrow> string option"
  and format_field :: "FieldDesc \<Rightarrow> nat \<Rightarrow> nat \<Rightarrow> bytes \<Rightarrow> string option" where
  "format_message (TypeDesc name sz fields) indent p data = format_fields fields indent p data"
| "format_fields [] indent p data = Some ''''"
| "format_fields (fd # fds) indent p data =
     (case format_field fd indent p data of
        None \<Rightarrow> None
      | Some s \<Rightarrow>
          map_option (\<lambda>rest. pad (indent + 1) @ fd_name fd @ s @ (if fds = [] then '''' else newline) @ rest)
            (format_fields fds indent p data))"
| "format_field (FieldDesc name kind off count elem_size elem_kind nested) indent p data =
     (let fp = p + off in
      case kind of
        FK_CHAR_STR \<Rightarrow> map_option (\<lambda>s. '' = '' @ s) (show_text fp elem_size data)
      | FK_CHAR_STR_ARRAY \<Rightarrow>
          map_option (\<lambda>s. '' = ['' @ s @ '']'')
            (show_elems '', '' (\<lambda>j. show_text (fp + j * elem_size) elem_size data) 0 count)
      | FK_NUM_ARRAY \<Rightarrow>
          map_option (\<lambda>s. '' = ['' @ s @ '']'')
            (show_elems '', '' (\<lambda>j. show_num elem_kind (fp + j * kind_size elem_kind) data) 0 count)
      | FK_STRUCT \<Rightarrow>
          (case nested of
             None \<Rightarrow> None
           | Some d \<Rightarrow> map_option (\<lambda>s. '':'' @ newline @ s) (format_message d (indent + 1) fp data))
      | FK_STRUCT_ARRAY \<Rightarrow>
          (case nested of
             None \<Rightarrow> None
           | Some d \<Rightarrow>
               map_option (\<lambda>s. '':'' @ newline @ s)
                 (show_elems newline (\<lambda>j.
                    map_option (\<lambda>s. pad (indent + 2) @ ''['' @ to_digits j @ '']:'' @ newline @ s)
                      (format_message d (indent + 2) (fp + j * elem_size) data)) 0 count))
      | _ \<Rightarrow> map_option (\<lambda>s. '' = '' @ s) (show_num kind fp data))"
  by pat_completeness auto
termination
  by (relation "measure (\<lambda>x. case x of Inl (d, _) \<Rightarrow> size d | Inr (Inl (fs, _)) \<Rightarrow> size_list size fs
                                     | Inr (Inr (f, _)) \<Rightarrow> size f)") auto

section \<open>The schema describes the structs\<close>

text \<open>
  When a description is in step with a struct: the fields are the members, in order, each at the
  offset of its member and of a kind that says what the member is, down through nested structs.
\<close>

fun prim_kind :: "prim \<Rightarrow> FKind option" where
  "prim_kind TI8 = Some FK_I8" | "prim_kind TU8 = Some FK_U8" | "prim_kind TI16 = Some FK_I16"
| "prim_kind TU16 = Some FK_U16" | "prim_kind TI32 = Some FK_I32" | "prim_kind TU32 = Some FK_U32"
| "prim_kind TI64 = Some FK_I64" | "prim_kind TU64 = Some FK_U64" | "prim_kind TF32 = Some FK_F32"
| "prim_kind TF64 = Some FK_F64" | "prim_kind TChar = None"

function describes :: "ctype \<Rightarrow> TypeDesc \<Rightarrow> bool"
  and describe_all :: "nat \<Rightarrow> (string \<times> ctype) list \<Rightarrow> FieldDesc list \<Rightarrow> bool"
  and describes_member :: "ctype \<Rightarrow> FieldDesc \<Rightarrow> bool" where
  "describes t d =
     (case t of
        Struct ms \<Rightarrow> td_size d = csize t \<and> ms \<noteq> [] \<and> describe_all 0 ms (td_fields d)
      | _ \<Rightarrow> False)"
| "describe_all off ms fs =
     (case (ms, fs) of
        ([], []) \<Rightarrow> True
      | ((f, t) # ms, fd # fs) \<Rightarrow>
          fd_name fd = f \<and> fd_offset fd = off \<and> describes_member t fd \<and> describe_all (off + csize t) ms fs
      | _ \<Rightarrow> False)"
| "describes_member t fd =
     (case t of
        Prim p \<Rightarrow> Some (fd_kind fd) = prim_kind p
      | Struct ms \<Rightarrow>
          fd_kind fd = FK_STRUCT \<and> (case fd_nested fd of None \<Rightarrow> False | Some d \<Rightarrow> describes t d)
      | Arr n e \<Rightarrow>
          (case e of
             Prim p \<Rightarrow>
               if p = TChar then fd_kind fd = FK_CHAR_STR \<and> fd_elem_size fd = n
               else fd_kind fd = FK_NUM_ARRAY \<and> fd_count fd = n \<and> Some (fd_elem_kind fd) = prim_kind p
           | Arr m e' \<Rightarrow>
               e' = Prim TChar \<and> fd_kind fd = FK_CHAR_STR_ARRAY \<and> fd_count fd = n \<and> fd_elem_size fd = m
           | Struct ms \<Rightarrow>
               fd_kind fd = FK_STRUCT_ARRAY \<and> fd_count fd = n \<and> fd_elem_size fd = csize e \<and>
               (case fd_nested fd of None \<Rightarrow> False | Some d \<Rightarrow> describes e d)))"
  by pat_completeness auto
termination
  by (relation "measures [\<lambda>x. case x of Inl (t, d) \<Rightarrow> size t | Inr (Inl (off, ms, fs)) \<Rightarrow> size_list (size_prod (\<lambda>_. 0) size) ms
                                     | Inr (Inr (t, fd)) \<Rightarrow> size t,
                         \<lambda>x. case x of Inl _ \<Rightarrow> 0 | Inr (Inl _) \<Rightarrow> 0 | Inr (Inr _) \<Rightarrow> 1]")
    (auto split: ctype.splits)

definition layouts :: "ctype list" where
  "layouts =
     [Bool_t, Byte_t, Char_t, Int8_t, Int16_t, Int32_t, Int64_t, UInt8_t, UInt16_t, UInt32_t, UInt64_t,
      Float32_t, Float64_t, Time_t, Duration_t, ColorRGBA_t, Header_t, String_t, Vector3_t, Point_t,
      Point32_t, Quaternion_t, Pose_t, Twist_t, Accel_t, Wrench_t, PoseStamped_t, TwistStamped_t,
      Transform_t, TransformStamped_t, PoseWithCovariance_t, TwistWithCovariance_t, PoseArray_t,
      Polygon_t, Imu_t, NavSatStatus_t, NavSatFix_t, MagneticField_t, Temperature_t, Range_t,
      RegionOfInterest_t, CameraInfo_t, PointField_t, PointCloud2_t, LaserScan_t, JointState_t,
      Odometry_t, MapMetaData_t, Path_t, OccupancyGrid_t, GridCells_t, KeyValue_t, DiagnosticStatus_t,
      DiagnosticArray_t, JointTrajectoryPoint_t, JointTrajectory_t, MultiDOFJointTrajectoryPoint_t,
      MultiDOFJointTrajectory_t, GoalID_t, GoalStatus_t, GoalStatusArray_t]"

lemma type_names_distinct: "distinct (map td_type_name all_types)"
  by code_simp

lemma registered_in_sync: "list_all2 describes layouts all_types"
  by code_simp

text \<open>
  C21: The hand-written schema is in step with the message header: each of the 61 registered
  descriptions gives its struct's exact size, names the members in order at their real offsets, with
  the right kind, array length and element size, and refers to the description of the right struct
  where a member is itself a struct; their names are distinct and every type fits one datagram.
\<close>

theorem schema_matches_structs:
  "list_all2 describes layouts all_types \<and> distinct (map td_type_name all_types) \<and>
   list_all (\<lambda>d. td_size d \<le> 1400) all_types"
proof (intro conjI)
  show "list_all2 describes layouts all_types" by (rule registered_in_sync)
  show "distinct (map td_type_name all_types)" by (rule type_names_distinct)
  show "list_all (\<lambda>d. td_size d \<le> 1400) all_types" by code_simp
qed

section \<open>Printing stays inside the payload\<close>

declare describes.simps [simp del] describe_all.simps [simp del] describes_member.simps [simp del]

lemma show_elems_some:
  "(\<And>i. j \<le> i \<Longrightarrow> i < j + n \<Longrightarrow> \<exists>s. f i = Some s) \<Longrightarrow> \<exists>s. show_elems sep f j n = Some s"
proof (induction n arbitrary: j)
  case 0
  then show ?case by simp
next
  case (Suc n)
  obtain s where "f j = Some s" using Suc.prems [of j] by auto
  moreover obtain rest where "show_elems sep f (Suc j) n = Some rest"
    using Suc.IH [of "Suc j"] Suc.prems by auto
  ultimately show ?case by simp
qed

lemma show_num_some: "p + kind_size k \<le> length data \<Longrightarrow> \<exists>s. show_num k p data = Some s"
  by (simp add: show_num_def read_bytes_def)

lemma read_text_some: "p + n \<le> length data \<Longrightarrow> \<exists>s. read_text p n data = Some s"
  by (induction p n data rule: read_text.induct) auto

lemma show_text_some: "p + n \<le> length data \<Longrightarrow> \<exists>s. show_text p n data = Some s"
  using read_text_some by (auto simp: show_text_def)

lemma prim_kind_size: "prim_kind p = Some k \<Longrightarrow> kind_size k = psize p"
  by (cases p) auto

lemma elem_inside: "j < n \<Longrightarrow> j * m + m \<le> n * m" for j n m :: nat
  by (metis Suc_leI add.commute mult_Suc mult_le_mono1)

lemma prim_kind_scalar:
  "prim_kind p = Some k \<Longrightarrow> format_field (FieldDesc nm k off c es ek nest) indent q data =
     map_option ((@) '' = '') (show_num k (q + off) data)"
  by (cases p) auto

lemma map_option_some: "\<exists>s. x = Some s \<Longrightarrow> \<exists>s. map_option f x = Some s"
  by auto

lemma format_array_some:
  assumes "describes_member (Arr n e) (FieldDesc nm k off c es ek nest)"
    and "p + off + n * csize e \<le> length data"
    and "\<And>ms d i q. e = Struct ms \<Longrightarrow> describes (Struct ms) d \<Longrightarrow> q + csize (Struct ms) \<le> length data \<Longrightarrow>
      \<exists>s. format_message d i q data = Some s"
  shows "\<exists>s. format_field (FieldDesc nm k off c es ek nest) indent p data = Some s"
proof -
  have inside: "p + off + j * csize e + csize e \<le> length data" if "j < n" for j
    using assms(2) elem_inside [OF that, of "csize e"] by simp
  show ?thesis
  proof (cases e)
    case (Prim pr)
    show ?thesis
    proof (cases "pr = TChar")
      case True
      then have "k = FK_CHAR_STR" "es = n" using assms(1) Prim by (auto simp: describes_member.simps)
      then show ?thesis using assms(2) Prim True show_text_some [of "p + off" n data] by auto
    next
      case False
      then have k: "k = FK_NUM_ARRAY" "c = n" "prim_kind pr = Some ek"
        using assms(1) Prim by (auto simp: describes_member.simps)
      have "\<exists>s. show_num ek (p + off + j * kind_size ek) data = Some s" if "j < n" for j
        using inside [OF that] prim_kind_size [OF k(3)] Prim by (intro show_num_some) simp
      then show ?thesis
        using k show_elems_some [of 0 n "\<lambda>j. show_num ek (p + off + j * kind_size ek) data" "'', ''"] by simp
    qed
  next
    case (Arr m e')
    then have k: "k = FK_CHAR_STR_ARRAY" "c = n" "es = m" "e' = Prim TChar"
      using assms(1) by (auto simp: describes_member.simps)
    have "\<exists>s. show_text (p + off + j * m) m data = Some s" if "j < n" for j
      using inside [OF that] Arr k by (intro show_text_some) simp
    then show ?thesis
      using k show_elems_some [of 0 n "\<lambda>j. show_text (p + off + j * m) m data" "'', ''"] by simp
  next
    case (Struct ms)
    then obtain d where d: "k = FK_STRUCT_ARRAY" "c = n" "es = csize e" "nest = Some d" "describes (Struct ms) d"
      using assms(1) by (auto simp: describes_member.simps split: option.splits)
    have "\<exists>s. format_message d (indent + 2) (p + off + j * csize e) data = Some s" if "j < n" for j
      using inside [OF that] d(5) Struct by (intro assms(3)) auto
    then show ?thesis
      using d show_elems_some [of 0 n "\<lambda>j. map_option (\<lambda>s. pad (indent + 2) @ ''['' @ to_digits j @ '']:'' @ newline @ s)
        (format_message d (indent + 2) (p + off + j * csize e) data)" newline] by force
  qed
qed

lemma format_field_some:
  assumes "describes_member t fd" and "p + fd_offset fd + csize t \<le> length data"
    and "\<And>ms d i q. t = Struct ms \<or> (\<exists>n. t = Arr n (Struct ms)) \<Longrightarrow> describes (Struct ms) d \<Longrightarrow>
      q + csize (Struct ms) \<le> length data \<Longrightarrow> \<exists>s. format_message d i q data = Some s"
  shows "\<exists>s. format_field fd indent p data = Some s"
proof -
  obtain nm k off c es ek nest where fd: "fd = FieldDesc nm k off c es ek nest" by (cases fd)
  show ?thesis
  proof (cases t)
    case (Prim pr)
    then have "prim_kind pr = Some k" using assms(1) by (simp add: fd describes_member.simps)
    then show ?thesis
      using assms(2) Prim prim_kind_size [of pr k]
      unfolding fd prim_kind_scalar [OF \<open>prim_kind pr = Some k\<close>] by (intro map_option_some show_num_some) simp
  next
    case (Struct ms)
    then obtain d where "k = FK_STRUCT" "nest = Some d" "describes (Struct ms) d"
      using assms(1) by (auto simp: fd describes_member.simps split: option.splits)
    then show ?thesis
      using assms(2) Struct assms(3) [of ms d "p + off"] by (auto simp: fd)
  next
    case (Arr n e)
    show ?thesis
      unfolding fd by (rule format_array_some [of n e]) (use assms Arr in \<open>auto simp: fd\<close>)
  qed
qed

lemma format_fields_some:
  assumes "describe_all off ms fs" and "p + off + msize ms \<le> length data"
    and "\<And>f t fd. (f, t) \<in> set ms \<Longrightarrow> describes_member t fd \<Longrightarrow> p + fd_offset fd + csize t \<le> length data \<Longrightarrow>
      \<exists>s. format_field fd indent p data = Some s"
  shows "\<exists>s. format_fields fs indent p data = Some s"
  using assms
proof (induction ms arbitrary: off fs)
  case Nil
  then show ?case by (cases fs) (auto simp: describe_all.simps)
next
  case (Cons m ms)
  obtain f t where m: "m = (f, t)" by (cases m)
  with Cons.prems(1) obtain fd fs' where fs: "fs = fd # fs'" "fd_offset fd = off" "describes_member t fd"
    "describe_all (off + csize t) ms fs'"
    by (cases fs) (auto simp: describe_all.simps)
  obtain s where "format_field fd indent p data = Some s"
    using Cons.prems(2,3) fs m by fastforce
  moreover obtain rest where "format_fields fs' indent p data = Some rest"
  proof -
    have "p + (off + csize t) + msize ms \<le> length data" using Cons.prems(2) m by simp
    moreover have "\<exists>s. format_field fd indent p data = Some s"
      if "(g, u) \<in> set ms" "describes_member u fd" "p + fd_offset fd + csize u \<le> length data" for g u fd
      using Cons.prems(3) [of g u fd] that by simp
    ultimately show ?thesis using Cons.IH [OF fs(4)] that by blast
  qed
  ultimately show ?case by (simp add: fs)
qed

lemma format_message_some:
  "describes t d \<Longrightarrow> p + csize t \<le> length data \<Longrightarrow> \<exists>s. format_message d indent p data = Some s"
proof (induction "size t" arbitrary: t d p indent rule: less_induct)
  case less
  obtain ms where t: "t = Struct ms" "ms \<noteq> []" "describe_all 0 ms (td_fields d)"
    using less.prems(1) by (auto simp: describes.simps split: ctype.splits)
  have "\<exists>s. format_field fd indent p data = Some s"
    if "(f, u) \<in> set ms" "describes_member u fd" "p + fd_offset fd + csize u \<le> length data" for f u fd
  proof (rule format_field_some [OF that(2,3)])
    fix ms' d' i q
    assume u: "u = Struct ms' \<or> (\<exists>n. u = Arr n (Struct ms'))" and d': "describes (Struct ms') d'"
      "q + csize (Struct ms') \<le> length data"
    have "size u < size t"
      using that(1) size_list_estimation [of "(f, u)" ms "size u" "size_prod (\<lambda>_. 0) size"] t(1)
      by (simp add: less_Suc_eq)
    then have "size (Struct ms') < size t" using u by auto
    from less.hyps [OF this d'] show "\<exists>s. format_message d' i q data = Some s" .
  qed
  then have "\<exists>s. format_fields (td_fields d) indent p data = Some s"
    using t less.prems(2) by (intro format_fields_some [OF t(3)]) auto
  then show ?case by (cases d) simp
qed

lemma list_all2_find: "list_all2 P xs ys \<Longrightarrow> y \<in> set ys \<Longrightarrow> \<exists>x \<in> set xs. P x y"
  by (induction rule: list_all2_induct) auto

text \<open>Printing a message of any registered type never reads outside a payload of the type's size.\<close>

lemma format_registered:
  assumes "d \<in> set all_types" and "td_size d \<le> length data"
  shows "\<exists>s. format_message d indent 0 data = Some s"
proof -
  obtain t where t: "t \<in> set layouts" "describes t d"
    using assms(1) list_all2_find [OF registered_in_sync] by blast
  then have "td_size d = csize t" by (auto simp: describes.simps split: ctype.splits)
  with format_message_some [OF t(2), of 0 data indent] assms(2) show ?thesis by simp
qed

text \<open>
  Both look-ups are exact: a name finds the one registered type that bears it, and nothing else;
  a size finds every registered type of that size, so that a single match is unambiguous.
\<close>

theorem type_lookup_exact:
  "(find_type_by_name nm = Some d \<longleftrightarrow> d \<in> set all_types \<and> td_type_name d = nm) \<and>
   (find_types_by_size n = [d] \<longrightarrow> {e. e \<in> set all_types \<and> td_size e = n} = {d})"
proof
  have "e = d" if "e \<in> set all_types" "d \<in> set all_types" "td_type_name e = td_type_name d" for e
    using type_names_distinct that by (auto simp: distinct_map inj_on_def)
  moreover have "find_type_by_name nm = Some e \<Longrightarrow> e \<in> set all_types \<and> td_type_name e = nm" for e
    by (auto simp: find_type_by_name_def find_Some_iff)
  moreover have "find_type_by_name nm = None \<Longrightarrow> d \<in> set all_types \<Longrightarrow> td_type_name d \<noteq> nm"
    by (auto simp: find_type_by_name_def find_None_iff)
  ultimately show "find_type_by_name nm = Some d \<longleftrightarrow> d \<in> set all_types \<and> td_type_name d = nm"
    by (cases "find_type_by_name nm") blast+
  have eq: "{e. e \<in> set all_types \<and> td_size e = n} = set (find_types_by_size n)"
    unfolding find_types_by_size_def set_filter ..
  show "find_types_by_size n = [d] \<longrightarrow> {e. e \<in> set all_types \<and> td_size e = n} = {d}"
    unfolding eq by simp
qed

theorem type_lookup_exact_witness: "find_type_by_name ''Imu'' = Some kImu"
proof -
  have "kImu \<in> set all_types" by (simp add: all_types_def)
  moreover have "td_type_name kImu = ''Imu''" by (simp add: kImu_def RMS_TYPE_def)
  ultimately show ?thesis using type_lookup_exact [of "''Imu''" kImu 0] by blast
qed

end
