(* ===== verification/Platform.thy ===== *)
theory Platform
  imports Relink_Prelude "HOL-Library.Signed_Division"
begin

text \<open>
  The parts of \<^verbatim>\<open>cpp/include/relink/platform.hpp\<close> that compute something: how a receive timeout, a core and a
  priority are handed to the two kinds of operating system. The scatter sends are in \<open>Udp_Transport\<close>.
  What a call passes to the system is returned. \<^verbatim>\<open>long\<close> is an integer; division truncates.
\<close>

record timeval =
  tv_sec :: int
  tv_usec :: int

definition set_recv_timeout_posix :: "int \<Rightarrow> timeval" where
  "set_recv_timeout_posix ms = \<lparr>tv_sec = ms sdiv 1000, tv_usec = (ms smod 1000) * 1000\<rparr>"

definition set_recv_timeout_windows :: "int \<Rightarrow> u32" where
  "set_recv_timeout_windows ms = word_of_int ms"

text \<open>
  How long a receive then waits, in microseconds: a value of zero means without limit, on both kinds of
  system.
\<close>

definition recv_wait_posix :: "timeval \<Rightarrow> int option" where
  "recv_wait_posix tv = (if tv_sec tv = 0 \<and> tv_usec tv = 0 then None else Some (tv_sec tv * 1000000 + tv_usec tv))"

definition recv_wait_windows :: "u32 \<Rightarrow> int option" where
  "recv_wait_windows ms = (if ms = 0 then None else Some (uint ms * 1000))"

text \<open>
  Pinning: the set of cores handed to the system, and \<open>None\<close> where no call is made. \<^verbatim>\<open>CPU_SET\<close> ignores a core
  that \<^verbatim>\<open>cpu_set_t\<close>, of 1024 bits, has no room for. On Windows the mask is \<^verbatim>\<open>1ull << core\<close>; the inner \<open>None\<close> is a shift by 64 or more,
  which is undefined.
\<close>

definition pin_thread_linux :: "int \<Rightarrow> int set option" where
  "pin_thread_linux core = (if core < 0 then None else Some (if core < 1024 then {core} else {}))"

definition pin_thread_windows :: "int \<Rightarrow> u64 option option" where
  "pin_thread_windows core =
     (if core < 0 then None else Some (if core < 64 then Some (push_bit (nat core) 1) else None))"

text \<open>The scheduling request: the priority asked for, and whether its refusal is reported.\<close>

definition set_thread_realtime_posix :: "(int \<Rightarrow> int) \<Rightarrow> int \<Rightarrow> int \<times> bool" where
  "set_thread_realtime_posix setschedparam priority = (priority, setschedparam priority \<noteq> 0)"

text \<open>On Windows the class is always \<^verbatim>\<open>THREAD_PRIORITY_TIME_CRITICAL\<close>, whatever the priority asked for; on
  systems other than Linux and Windows no core is ever requested.\<close>

definition set_thread_realtime_windows :: "int \<Rightarrow> int" where
  "set_thread_realtime_windows priority = 15"

definition pin_thread_other :: "int \<Rightarrow> int set option" where
  "pin_thread_other core = None"

text \<open>
  The guard of the Windows socket library: the number of starts that have not been cleaned up. A start
  that fails is not noticed, and its clean-up still takes one away, if there is one.
\<close>

definition WinsockGuard_ctor :: "bool \<Rightarrow> nat \<Rightarrow> nat" where
  "WinsockGuard_ctor startup_ok users = (if startup_ok then users + 1 else users)"

definition WinsockGuard_dtor :: "nat \<Rightarrow> nat" where
  "WinsockGuard_dtor users = users - 1"

section \<open>The two platforms agree\<close>

lemma trunc_nonneg: "0 \<le> (a :: int) \<Longrightarrow> a sdiv 1000 = a div 1000 \<and> a smod 1000 = a mod 1000"
  by (simp add: signed_divide_int_def signed_modulo_int_def sgn_if minus_div_mult_eq_mod)

text \<open>
  A receive timeout means the same on both platforms, the fields of the \<^verbatim>\<open>timeval\<close> are always in range, and
  only 0 means to wait without limit.
\<close>

theorem recv_timeouts_agree:
  assumes "0 \<le> ms" and "ms < 2 ^ 32"
  shows "recv_wait_posix (set_recv_timeout_posix ms) = (if ms = 0 then None else Some (ms * 1000)) \<and>
    recv_wait_windows (set_recv_timeout_windows ms) = recv_wait_posix (set_recv_timeout_posix ms) \<and>
    0 \<le> tv_usec (set_recv_timeout_posix ms) \<and> tv_usec (set_recv_timeout_posix ms) < 1000000"
proof -
  have z: "ms div 1000 = 0 \<and> ms mod 1000 = 0 \<longleftrightarrow> ms = 0"
    using div_mult_mod_eq [of ms 1000] by auto
  have s: "ms div 1000 * 1000000 + ms mod 1000 * 1000 = ms * 1000"
    using div_mult_mod_eq [of ms 1000] by linarith
  have u: "uint (word_of_int ms :: u32) = ms" using assms by (simp add: unsigned_of_int take_bit_int_eq_self)
  then have w: "(word_of_int ms :: u32) = 0 \<longleftrightarrow> ms = 0" by (metis uint_0_iff)
  show ?thesis
    using z s u w trunc_nonneg [OF assms(1)]
    by (auto simp: recv_wait_posix_def set_recv_timeout_posix_def recv_wait_windows_def set_recv_timeout_windows_def)
qed

theorem recv_timeouts_agree_witness:
  "recv_wait_posix (set_recv_timeout_posix 1500) = Some 1500000 \<and>
   recv_wait_windows (set_recv_timeout_windows 1500) = Some 1500000"
  using recv_timeouts_agree [of 1500] by simp

text \<open>On a core both platforms can name, both pin to that core and no other.\<close>

lemma pins_one_core:
  assumes "0 \<le> core" and "core < 64"
  shows "\<exists>mask. pin_thread_windows core = Some (Some mask) \<and>
    pin_thread_linux core = Some {c. 0 \<le> c \<and> bit mask (nat c)}"
proof -
  have "bit (push_bit (nat core) 1 :: u64) (nat c) \<longleftrightarrow> c = core" if "0 \<le> c" for c
    using assms that by (auto simp: bit_exp_iff possible_bit_word)
  then show ?thesis
    using assms by (auto simp: pin_thread_windows_def pin_thread_linux_def)
qed

end
