(* ===== verification/Command_Line.thy ===== *)
theory Command_Line
  imports Complex_Main Relink_Prelude
begin

text \<open>
  Text as the tools read it: the bytes of a string, and the conversions \<^verbatim>\<open>atoi\<close>, \<^verbatim>\<open>atof\<close> and \<^verbatim>\<open>std::stoul\<close>
  of the standard library on the arguments of a command.
\<close>

definition str_bytes :: "string \<Rightarrow> bytes" where
  "str_bytes s = map (\<lambda>c. word_of_nat (of_char c)) s"

definition bytes_str :: "bytes \<Rightarrow> string" where
  "bytes_str b = map (\<lambda>x. char_of (unat x)) b"

section \<open>Numbers on the command line\<close>

definition is_space :: "char \<Rightarrow> bool" where
  "is_space c \<longleftrightarrow> of_char c \<in> {32, 9, 10, 11, 12, 13 :: nat}"

definition digit_value :: "nat \<Rightarrow> char \<Rightarrow> nat option" where
  "digit_value base c =
     (let n = (of_char c :: nat);
          v = (if 48 \<le> n \<and> n \<le> 57 then n - 48
               else if 97 \<le> n \<and> n \<le> 122 then n - 87
               else if 65 \<le> n \<and> n \<le> 90 then n - 55 else 36)
      in if v < base then Some v else None)"

text \<open>The value of the longest prefix of digits, how many there are, and the rest.\<close>

fun read_digits :: "nat \<Rightarrow> nat \<Rightarrow> nat \<Rightarrow> string \<Rightarrow> nat \<times> nat \<times> string" where
  "read_digits base v k [] = (v, k, [])"
| "read_digits base v k (c # cs) =
     (case digit_value base c of
        Some d \<Rightarrow> read_digits base (v * base + d) (Suc k) cs
      | None \<Rightarrow> (v, k, c # cs))"

definition read_sign :: "string \<Rightarrow> bool \<times> string" where
  "read_sign s =
     (let s = dropWhile is_space s in
      case s of
        c # cs \<Rightarrow> if c = CHR ''-'' then (True, cs) else if c = CHR ''+'' then (False, cs) else (False, s)
      | [] \<Rightarrow> (False, []))"

definition atoi :: "string \<Rightarrow> int" where
  "atoi s = (let (neg, s) = read_sign s; (v, k, rest) = read_digits 10 0 0 s in if neg then - int v else int v)"

text \<open>\<^verbatim>\<open>atof\<close> on decimal numbers, with an optional fraction and exponent.\<close>

definition atof :: "string \<Rightarrow> real" where
  "atof s =
     (let (neg, s) = read_sign s;
          (whole, k, s) = read_digits 10 0 0 s;
          (v, fk, s) = (case s of
                          c # cs \<Rightarrow> if c = CHR ''.'' then read_digits 10 whole 0 cs else (whole, 0, s)
                        | [] \<Rightarrow> (whole, 0, s));
          e = (case s of
                 c # cs \<Rightarrow> if c \<in> {CHR ''e'', CHR ''E''} \<and> 0 < k + fk then
                             (let (eneg, es) = (case cs of
                                                  d # ds \<Rightarrow> if d = CHR ''-'' then (True, ds)
                                                            else if d = CHR ''+'' then (False, ds) else (False, cs)
                                                | [] \<Rightarrow> (False, []));
                                  (ev, ek, r) = read_digits 10 0 0 es
                              in if eneg then - int ev else int ev)
                           else 0
               | [] \<Rightarrow> 0);
          x = (if k + fk = 0 then 0 else real v * 10 powi (e - int fk))
      in if neg then - x else x)"

text \<open>
  \<^verbatim>\<open>std::stoul\<close>: \<open>None\<close> is the exception for text without a number or for a number beyond 64 bits. A
  minus sign negates modulo \<open>2 ^ 64\<close>, and base 16 accepts \<^verbatim>\<open>0x\<close>.
\<close>

definition stoul :: "nat \<Rightarrow> string \<Rightarrow> u64 option" where
  "stoul base s =
     (let (neg, s) = read_sign s;
          s = (case s of
                 z # x # c # cs \<Rightarrow>
                   if base = 16 \<and> z = CHR ''0'' \<and> x \<in> {CHR ''x'', CHR ''X''} \<and> digit_value 16 c \<noteq> None
                   then c # cs else s
               | _ \<Rightarrow> s);
          (v, k, rest) = read_digits base 0 0 s
      in if k = 0 \<or> 2 ^ 64 \<le> v then None else Some (if neg then - word_of_nat v else word_of_nat v))"

end
