(* ===== verification/Rl_Topic.thy ===== *)
theory Rl_Topic
  imports Local_Ipc Msg_Schema Platform Command_Line
begin

text \<open>
  The topic tool, \<^verbatim>\<open>cpp/tools/rl_topic.cpp\<close>: its options, the remembered rlcore address, the directory
  queries, and the commands. Arguments are strings and payloads bytes. Files, sockets, clocks and the
  address parser of the operating system are parameters: a query takes the sequence of results of
  \<^verbatim>\<open>recvfrom\<close>, a command the messages and the times they arrive at. \<open>Inl\<close> is the exit status of a command
  that ends the process.
\<close>

type_synonym lines = "string list"

section \<open>Options\<close>

record Args =
  ar_command :: string
  ar_topic :: string
  ar_rlcore_ip :: string
  ar_rlcore_port :: u16
  ar_group :: string
  ar_port :: u16
  ar_timeout :: real
  ar_ipc :: bool
  ar_relay :: bool
  ar_type_name :: string
  ar_window :: int
  ar_report_every :: real
  ar_count :: int
  ar_hex_payload :: string
  ar_text_payload :: string
  ar_have_hex :: bool
  ar_have_text :: bool
  ar_repeat :: int
  ar_rate_period :: real

definition Args_init :: Args where
  "Args_init =
     \<lparr>ar_command = '''', ar_topic = '''', ar_rlcore_ip = '''', ar_rlcore_port = 8445,
      ar_group = kDefaultMulticastGroup, ar_port = kDefaultMulticastPort, ar_timeout = 3 / 2, ar_ipc = False, ar_relay = False,
      ar_type_name = '''', ar_window = 100, ar_report_every = 5, ar_count = 0, ar_hex_payload = '''',
      ar_text_payload = '''', ar_have_hex = False, ar_have_text = False, ar_repeat = 1, ar_rate_period = 1\<rparr>"

text \<open>What the chain of comparisons in the option loop does with one argument.\<close>

datatype option_action =
    OptHelp | OptFlag "Args \<Rightarrow> Args" | OptValue "string \<Rightarrow> Args \<Rightarrow> Args" | OptPositional | OptUnknown

definition option_action :: "string \<Rightarrow> option_action" where
  "option_action arg =
     (if arg = ''-h'' \<or> arg = ''--help'' then OptHelp
      else if arg = ''--rlcore-ip'' then OptValue (\<lambda>v a. a\<lparr>ar_rlcore_ip := v\<rparr>)
      else if arg = ''--rlcore-port'' then OptValue (\<lambda>v a. a\<lparr>ar_rlcore_port := word_of_int (atoi v)\<rparr>)
      else if arg = ''--group'' then OptValue (\<lambda>v a. a\<lparr>ar_group := v\<rparr>)
      else if arg = ''--port'' then OptValue (\<lambda>v a. a\<lparr>ar_port := word_of_int (atoi v)\<rparr>)
      else if arg = ''--timeout'' then OptValue (\<lambda>v a. a\<lparr>ar_timeout := atof v\<rparr>)
      else if arg = ''--ipc'' then OptFlag (\<lambda>a. a\<lparr>ar_ipc := True\<rparr>)
      else if arg = ''--relay'' then OptFlag (\<lambda>a. a\<lparr>ar_relay := True\<rparr>)
      else if arg = ''--type'' then OptValue (\<lambda>v a. a\<lparr>ar_type_name := v\<rparr>)
      else if arg = ''--window'' then OptValue (\<lambda>v a. a\<lparr>ar_window := atoi v\<rparr>)
      else if arg = ''--report-every'' then OptValue (\<lambda>v a. a\<lparr>ar_report_every := atof v\<rparr>)
      else if arg = ''-n'' \<or> arg = ''--count'' then OptValue (\<lambda>v a. a\<lparr>ar_count := atoi v\<rparr>)
      else if arg = ''--hex'' then OptValue (\<lambda>v a. a\<lparr>ar_hex_payload := v, ar_have_hex := True\<rparr>)
      else if arg = ''--text'' then OptValue (\<lambda>v a. a\<lparr>ar_text_payload := v, ar_have_text := True\<rparr>)
      else if arg = ''-r'' \<or> arg = ''--repeat'' then OptValue (\<lambda>v a. a\<lparr>ar_repeat := atoi v\<rparr>)
      else if arg = ''--rate-period'' then OptValue (\<lambda>v a. a\<lparr>ar_rate_period := atof v\<rparr>)
      else if arg \<noteq> '''' \<and> hd arg \<noteq> CHR ''-'' then OptPositional
      else OptUnknown)"

text \<open>An option at the end of the line gets the empty value.\<close>

fun next_arg :: "string list \<Rightarrow> string \<times> string list" where
  "next_arg [] = ('''', [])"
| "next_arg (v # rest) = (v, rest)"

function parse_opts :: "string list \<Rightarrow> Args \<Rightarrow> string list \<Rightarrow> int + Args \<times> string list" where
  "parse_opts [] a positional = Inr (a, positional)"
| "parse_opts (arg # rest) a positional =
     (case option_action arg of
        OptHelp \<Rightarrow> Inl 0
      | OptFlag f \<Rightarrow> parse_opts rest (f a) positional
      | OptValue f \<Rightarrow> parse_opts (snd (next_arg rest)) (f (fst (next_arg rest)) a) positional
      | OptPositional \<Rightarrow> parse_opts rest a (positional @ [arg])
      | OptUnknown \<Rightarrow> Inl 2)"
  by pat_completeness auto
termination
proof (relation "measure (\<lambda>(args, _). length args)")
  fix arg :: string and rest a positional f
  show "((snd (next_arg rest), f (fst (next_arg rest)) a, positional), arg # rest, a, positional)
      \<in> measure (\<lambda>(args, _). length args)"
    by (cases rest) auto
qed auto

definition parse_args :: "string list \<Rightarrow> int + Args" where
  "parse_args argv =
     (case argv of
        [] \<Rightarrow> Inl 2
      | [prog] \<Rightarrow> Inl 2
      | prog # first # rest \<Rightarrow>
          if first = ''-h'' \<or> first = ''--help'' then Inl 0
          else
            let (command, opts) = (if first \<noteq> '''' \<and> hd first = CHR ''-'' then (''list'', first # rest)
                                   else (first, rest))
            in case parse_opts opts (Args_init\<lparr>ar_command := command\<rparr>) [] of
                 Inl e \<Rightarrow> Inl e
               | Inr (a, positional) \<Rightarrow>
                   Inr (if positional \<noteq> [] then a\<lparr>ar_topic := hd positional\<rparr> else a))"

section \<open>The remembered address\<close>

definition be16 :: "u16 \<Rightarrow> bytes" where "be16 w = rev (le16 w)"
definition be32 :: "u32 \<Rightarrow> bytes" where "be32 w = rev (le32 w)"

definition inet_ntoa :: "u32 \<Rightarrow> string" where
  "inet_ntoa a =
     (let b = map (\<lambda>x. to_digits (unat x)) (be32 a)
      in b ! 0 @ ''.'' @ b ! 1 @ ''.'' @ b ! 2 @ ''.'' @ b ! 3)"

text \<open>\<^verbatim>\<open>conf.bin\<close> is its content, if the file can be opened.\<close>

definition load_conf :: "bytes option \<Rightarrow> (string \<times> u16) option" where
  "load_conf conf =
     (case conf of
        None \<Rightarrow> None
      | Some content \<Rightarrow>
          if length content < 6 then None
          else Some (inet_ntoa (rd32 (rev (bslice 0 4 content))), rd16 (rev (bslice 4 2 content))))"

definition save_conf :: "(string \<Rightarrow> u32 option) \<Rightarrow> string \<Rightarrow> u16 \<Rightarrow> bytes option \<Rightarrow> bytes option" where
  "save_conf inet_pton ip port conf =
     (case inet_pton ip of None \<Rightarrow> conf | Some a \<Rightarrow> Some (be32 a @ be16 port))"

text \<open>\<^verbatim>\<open>mkdir -p\<close> of the directory of a path: the directories created, in order.\<close>

fun split_on :: "char \<Rightarrow> string \<Rightarrow> string \<Rightarrow> string list" where
  "split_on sep acc [] = [acc]"
| "split_on sep acc (c # cs) = (if c = sep then acc # split_on sep [] cs else split_on sep (acc @ [c]) cs)"

fun mkdir_parts :: "string \<Rightarrow> string list \<Rightarrow> string list" where
  "mkdir_parts accum [] = []"
| "mkdir_parts accum (part # parts) =
     (if part = [] then mkdir_parts (accum @ ''/'') parts
      else (accum @ part @ ''/'') # mkdir_parts (accum @ part @ ''/'') parts)"

definition ensure_parent_dir :: "string \<Rightarrow> string list" where
  "ensure_parent_dir path =
     (if CHR ''/'' \<notin> set path then []
      else mkdir_parts [] (butlast (split_on (CHR ''/'') [] path)))"

definition home_cache_dir :: "string option \<Rightarrow> string option \<Rightarrow> string" where
  "home_cache_dir home pw_dir =
     (case home of
        Some h \<Rightarrow> h
      | None \<Rightarrow> (case pw_dir of Some d \<Rightarrow> d | None \<Rightarrow> ''/tmp'')) @ ''/.cache/relink''"

definition conf_path :: "string option \<Rightarrow> string option \<Rightarrow> string" where
  "conf_path home pw_dir = home_cache_dir home pw_dir @ ''/conf.bin''"

section \<open>Directory queries\<close>

text \<open>
  The names learned, as an ordered map. A reply is one result of \<^verbatim>\<open>recvfrom\<close>, cut to the buffer; \<open>None\<close>
  or an empty datagram ends the wait.
\<close>

type_synonym name_map = "(u32 \<times> bytes) list"

text \<open>
  The receive timeouts of a query, in milliseconds: before the first reply, and the quiet window after one.
  The conversion to \<^verbatim>\<open>long\<close> truncates.
\<close>

definition to_long :: "real \<Rightarrow> int" where
  "to_long x = (if 0 \<le> x then \<lfloor>x\<rfloor> else \<lceil>x\<rceil>)"

definition query_timeout_ms :: "real \<Rightarrow> int" where
  "query_timeout_ms timeout_s = to_long (timeout_s * 1000)"

definition quiet_timeout_ms :: "real \<Rightarrow> int" where
  "quiet_timeout_ms timeout_s = to_long ((if timeout_s < 3 / 10 then timeout_s else 3 / 10) * 1000)"

definition learn_names :: "bytes \<Rightarrow> name_map \<Rightarrow> bool \<times> name_map" where
  "learn_names pkt out =
     (case decode_topic_dir_entries pkt of
        Some entries \<Rightarrow> (True, fold (\<lambda>e. om_put (td_topic_id e) (td_name e)) entries out)
      | None \<Rightarrow> (False, out))"

fun collect_replies :: "bytes option list \<Rightarrow> bool \<Rightarrow> name_map \<Rightarrow> bool \<times> name_map" where
  "collect_replies [] got_any out = (got_any, out)"
| "collect_replies (None # rs) got_any out = (got_any, out)"
| "collect_replies (Some r # rs) got_any out =
     (let pkt = take kTopicDirMaxPacket r in
      if pkt = [] then (got_any, out)
      else if topic_dir_packet_kind pkt \<noteq> TdReply then collect_replies rs got_any out
      else let (ok, out) = learn_names pkt out in collect_replies rs (got_any \<or> ok) out)"

text \<open>The query sent, whether any reply came, and the names.\<close>

definition query_rlcore :: "bool \<Rightarrow> bytes option list \<Rightarrow> bytes option \<times> bool \<times> name_map" where
  "query_rlcore socket_ok replies =
     (if \<not> socket_ok then (None, True, [])
      else (encode_topic_dir_query 8, collect_replies replies False []))"

text \<open>The multicast query stops at the deadline as well: a turn says whether it has passed.\<close>

fun collect_until :: "(bool \<times> bytes option) list \<Rightarrow> bool \<Rightarrow> name_map \<Rightarrow> bool \<times> name_map" where
  "collect_until [] got_any out = (got_any, out)"
| "collect_until ((past_deadline, reply) # ts) got_any out =
     (if past_deadline then (got_any, out)
      else (case reply of
              None \<Rightarrow> (got_any, out)
            | Some r \<Rightarrow>
                let pkt = take kTopicDirMaxPacket r in
                if pkt = [] then (got_any, out)
                else if topic_dir_packet_kind pkt \<noteq> TdReply then collect_until ts got_any out
                else let (ok, out) = learn_names pkt out in collect_until ts (got_any \<or> ok) out))"

definition query_multicast :: "bool \<Rightarrow> (bool \<times> bytes option) list \<Rightarrow> bytes option \<times> bool \<times> name_map" where
  "query_multicast socket_ok turns =
     (if \<not> socket_ok then (None, True, [])
      else (encode_topic_dir_query 8, collect_until turns False []))"

record RolePeer =
  rl_ip :: string
  rl_port :: u16
  rl_role :: u8

type_synonym role_map = "(u32 \<times> RolePeer list) list"

definition push_role :: "RolePeerEntry \<Rightarrow> role_map \<Rightarrow> role_map" where
  "push_role e out =
     om_put (rp_topic_id e)
       ((case map_of out (rp_topic_id e) of Some ps \<Rightarrow> ps | None \<Rightarrow> [])
        @ [\<lparr>rl_ip = inet_ntoa (rp_ip e), rl_port = rp_port e, rl_role = rp_role e\<rparr>]) out"

fun collect_roles :: "bytes option list \<Rightarrow> role_map \<Rightarrow> role_map" where
  "collect_roles [] out = out"
| "collect_roles (None # rs) out = out"
| "collect_roles (Some r # rs) out =
     (let pkt = take kRoleMaxPacket r in
      if pkt = [] then out
      else if role_packet_kind pkt \<noteq> RdReply then collect_roles rs out
      else collect_roles rs (case decode_role_reply pkt of
                               Some entries \<Rightarrow> fold push_role entries out
                             | None \<Rightarrow> out))"

definition query_rlcore_roles :: "bool \<Rightarrow> bytes option list \<Rightarrow> bytes option \<times> role_map" where
  "query_rlcore_roles socket_ok replies =
     (if \<not> socket_ok then (None, []) else (encode_role_query 8, collect_roles replies []))"

text \<open>The network a command sees: what each of the three queries receives.\<close>

record query_env =
  qe_socket_ok :: bool
  qe_rlcore :: "bytes option list"
  qe_multicast :: "(bool \<times> bytes option) list"
  qe_roles :: "bytes option list"

definition collect_names :: "query_env \<Rightarrow> Args \<Rightarrow> name_map" where
  "collect_names q a =
     snd (snd (if ar_rlcore_ip a = [] then query_multicast (qe_socket_ok q) (qe_multicast q)
               else query_rlcore (qe_socket_ok q) (qe_rlcore q)))"

section \<open>list and info\<close>

definition list_line :: "u32 \<times> bytes \<Rightarrow> string" where
  "list_line kv =
     (let n = to_digits (unat (fst kv))
      in n @ replicate (10 - length n) (CHR '' '') @ ''  '' @
         (if snd kv = [] then ''(unnamed)'' else bytes_str (snd kv)))"

text \<open>The line for an empty directory, which also names the source and the timeout, is cut short.\<close>

definition cmd_list :: "query_env \<Rightarrow> Args \<Rightarrow> lines" where
  "cmd_list q a =
     (let names = collect_names q a
      in if names = [] then [''rl_topic: no topics found'']
         else map list_line names)"

definition looks_numeric :: "string \<Rightarrow> bool" where
  "looks_numeric s \<longleftrightarrow> s \<noteq> [] \<and> (digit_value 10 (hd s) \<noteq> None \<or> hd s = CHR ''-'')"

text \<open>How a command ends early: by an exit status, or by an exception nobody catches.\<close>

datatype tool_error = ExitStatus int | Uncaught | NodeThrew NodeError

record topic_info =
  in_topic_id :: u32
  in_name :: bytes
  in_publishers :: "RolePeer list"
  in_subscribers :: "RolePeer list"

definition matching_topics :: "string \<Rightarrow> name_map \<Rightarrow> tool_error + (u32 \<times> bytes) list" where
  "matching_topics topic names =
     (if looks_numeric topic then
        (case stoul 10 topic of
           None \<Rightarrow> Inl Uncaught
         | Some v \<Rightarrow>
             let tid = ucast v
             in Inr [(tid, case map_of names tid of Some nm \<Rightarrow> nm | None \<Rightarrow> [])])
      else Inr (filter (\<lambda>kv. snd kv = str_bytes topic) names))"

text \<open>What \<^verbatim>\<open>info\<close> prints of each matching topic.\<close>

definition cmd_info :: "query_env \<Rightarrow> Args \<Rightarrow> tool_error + topic_info list" where
  "cmd_info q a =
     ebind (matching_topics (ar_topic a) (collect_names q a)) (\<lambda>matches.
       if matches = [] then Inl (ExitStatus 1)
       else
         let roles = (if ar_rlcore_ip a = [] then [] else snd (query_rlcore_roles (qe_socket_ok q) (qe_roles q)))
         in Inr (map (\<lambda>(tid, nm).
              let peers = (case map_of roles tid of Some ps \<Rightarrow> ps | None \<Rightarrow> [])
              in \<lparr>in_topic_id = tid, in_name = nm,
                  in_publishers = filter (\<lambda>p. rl_role p AND kRolePublisher \<noteq> 0) peers,
                  in_subscribers = filter (\<lambda>p. rl_role p AND kRoleSubscriber \<noteq> 0) peers\<rparr>) matches))"

section \<open>The node of a command\<close>

definition configure_node ::
  "(string \<Rightarrow> u32 option) \<Rightarrow> Args \<Rightarrow> 'c RelinkNode \<Rightarrow> tool_error + 'c RelinkNode" where
  "configure_node inet_pton a node =
     (if ar_rlcore_ip a \<noteq> [] then
        (case rlcore_ip inet_pton (ar_rlcore_ip a) node of
           (Some e, node) \<Rightarrow> Inl (NodeThrew e)
         | (None, node) \<Rightarrow>
             let node = rlcore_port (ar_rlcore_port a) node
             in Inr (if ar_relay a then setRelay True node else node))
      else if ar_relay a then Inl (ExitStatus 2)
      else (case use_multicast_discovery node of
              Inl e \<Rightarrow> Inl (NodeThrew e)
            | Inr node \<Rightarrow> Inr node))"

definition resolve_topic :: "string \<Rightarrow> 'c RelinkNode \<Rightarrow> tool_error + u32 \<times> 'c RelinkNode" where
  "resolve_topic s node =
     (if looks_numeric s then
        (case stoul 10 s of None \<Rightarrow> Inl Uncaught | Some v \<Rightarrow> Inr (ucast v, node))
      else (case topic_id_for (str_bytes s) node of
              Inl e \<Rightarrow> Inl (NodeThrew e)
            | Inr r \<Rightarrow> Inr r))"

definition lift_node :: "NodeError + 'a \<Rightarrow> tool_error + 'a" where
  "lift_node r = (case r of Inl e \<Rightarrow> Inl (NodeThrew e) | Inr x \<Rightarrow> Inr x)"

text \<open>
  The set-up that \<^verbatim>\<open>hz\<close>, \<^verbatim>\<open>bw\<close> and \<^verbatim>\<open>echo\<close> share: the topic, then the subscription and the first \<^verbatim>\<open>spin_once\<close>.
  The later calls of \<^verbatim>\<open>spin_once\<close> find the node started and do nothing. \<open>None\<close> as in \<open>subscribe_local_ipc\<close>.
\<close>

definition tool_topic ::
  "(string \<Rightarrow> u32 option) \<Rightarrow> Args \<Rightarrow> 'c RelinkNode \<Rightarrow> tool_error + u32 \<times> 'c RelinkNode" where
  "tool_topic inet_pton a node =
     ebind (if ar_ipc a then Inr node else configure_node inet_pton a node) (resolve_topic (ar_topic a))"

definition tool_listen ::
  "shm_os \<Rightarrow> node_env \<Rightarrow> Args \<Rightarrow> u32 \<Rightarrow> 'c \<Rightarrow> 'c RelinkNode \<times> shm_memory \<Rightarrow>
   (tool_error + datagram list \<times> 'c RelinkNode \<times> shm_memory) option" where
  "tool_listen os env a topic_id on_msg st =
     (if ar_ipc a then
        map_option (\<lambda>(ok, st). Inr ([], st))
          (subscribe_local_ipc os topic_id on_msg kShmDefaultCapacity kShmMaxPayload st)
      else (case st of (node, mem) \<Rightarrow>
        Some (lift_node (ebind (subscribe_raw (ne_bind env) topic_id on_msg False 0 node) (\<lambda>node.
                         ebind (spin_once env node) (\<lambda>(node, sent, punch). Inr (sent, node, mem)))))))"

section \<open>hz and bw\<close>

text \<open>
  One report of \<^verbatim>\<open>hz\<close>: the arrivals of the last \<^verbatim>\<open>report_every\<close> seconds, at most \<^verbatim>\<open>window\<close> of them, and
  their statistics if there are two at least. A negative window makes \<^verbatim>\<open>erase\<close> run past the end: the
  outer \<open>None\<close>.
\<close>

record hz_report =
  hz_rate :: real
  hz_min :: real
  hz_max :: real
  hz_std_dev :: real
  hz_window :: nat

definition hz_recent :: "Args \<Rightarrow> real \<Rightarrow> real list \<Rightarrow> real list option" where
  "hz_recent a now arrivals =
     (let cutoff = now - ar_report_every a;
          recent = filter (\<lambda>t. t \<ge> cutoff) arrivals
      in if int (length recent) > ar_window a then
           (if ar_window a < 0 then None else Some (drop (length recent - nat (ar_window a)) recent))
         else Some recent)"

definition intervals_of :: "real list \<Rightarrow> real list" where
  "intervals_of recent = map (\<lambda>i. recent ! i - recent ! (i - 1)) [1..<length recent]"

definition mean_of :: "real list \<Rightarrow> real" where
  "mean_of xs = sum_list xs / real (length xs)"

definition hz_statistics :: "real list \<Rightarrow> hz_report option" where
  "hz_statistics recent =
     (if length recent < 2 then None
      else
        let intervals = intervals_of recent;
            mean_iv = mean_of intervals;
            var = mean_of (map (\<lambda>iv. (iv - mean_iv) * (iv - mean_iv)) intervals);
            span = last recent - hd recent
        in Some \<lparr>hz_rate = (if last recent > hd recent then real (length recent) / span else 0),
                 hz_min = Min (set intervals), hz_max = Max (set intervals),
                 hz_std_dev = sqrt var, hz_window = length recent\<rparr>)"

definition cmd_hz_turn :: "Args \<Rightarrow> real \<Rightarrow> real list \<Rightarrow> (hz_report option \<times> real list) option" where
  "cmd_hz_turn a now arrivals =
     map_option (\<lambda>recent. (hz_statistics recent, recent)) (hz_recent a now arrivals)"

text \<open>
  The command: a turn of its loop is given by the arrivals since the last one and the time at which the
  report is made.
\<close>

fun hz_run :: "Args \<Rightarrow> (real list \<times> real) list \<Rightarrow> real list \<Rightarrow> hz_report option list option" where
  "hz_run a [] arrivals = Some []"
| "hz_run a ((new, now) # turns) arrivals =
     (case cmd_hz_turn a now (arrivals @ new) of
        None \<Rightarrow> None
      | Some (report, recent) \<Rightarrow> map_option ((#) report) (hz_run a turns recent))"

definition cmd_hz ::
  "(string \<Rightarrow> u32 option) \<Rightarrow> shm_os \<Rightarrow> node_env \<Rightarrow> Args \<Rightarrow> 'c \<Rightarrow> (real list \<times> real) list \<Rightarrow>
   'c RelinkNode \<times> shm_memory \<Rightarrow> (tool_error + datagram list \<times> hz_report option list option) option" where
  "cmd_hz inet_pton os env a on_msg turns st =
     (case tool_topic inet_pton a (fst st) of
        Inl e \<Rightarrow> Some (Inl e)
      | Inr (topic_id, node) \<Rightarrow>
          map_option (\<lambda>r. ebind r (\<lambda>(sent, st). Inr (sent, hz_run a turns [])))
            (tool_listen os env a topic_id on_msg (node, snd st)))"

record bw_report =
  bw_rate :: real
  bw_mean :: real
  bw_min :: nat
  bw_max :: nat
  bw_window :: nat

definition bw_statistics :: "(real \<times> nat) list \<Rightarrow> bw_report option" where
  "bw_statistics recent =
     (if length recent < 2 then None
      else
        let total = sum_list (map snd recent);
            span = fst (last recent) - fst (hd recent)
        in Some \<lparr>bw_rate = (if span > 0 then real total / span else 0),
                 bw_mean = real total / real (length recent),
                 bw_min = Min (snd ` set recent), bw_max = Max (snd ` set recent),
                 bw_window = length recent\<rparr>)"

definition cmd_bw_turn :: "Args \<Rightarrow> real \<Rightarrow> (real \<times> nat) list \<Rightarrow> bw_report option \<times> (real \<times> nat) list" where
  "cmd_bw_turn a now samples =
     (let recent = filter (\<lambda>s. fst s \<ge> now - ar_report_every a) samples
      in (bw_statistics recent, recent))"

fun bw_run :: "Args \<Rightarrow> ((real \<times> nat) list \<times> real) list \<Rightarrow> (real \<times> nat) list \<Rightarrow> bw_report option list" where
  "bw_run a [] samples = []"
| "bw_run a ((new, now) # turns) samples =
     (let (report, recent) = cmd_bw_turn a now (samples @ new) in report # bw_run a turns recent)"

definition cmd_bw ::
  "(string \<Rightarrow> u32 option) \<Rightarrow> shm_os \<Rightarrow> node_env \<Rightarrow> Args \<Rightarrow> 'c \<Rightarrow> ((real \<times> nat) list \<times> real) list \<Rightarrow>
   'c RelinkNode \<times> shm_memory \<Rightarrow> (tool_error + datagram list \<times> bw_report option list) option" where
  "cmd_bw inet_pton os env a on_msg turns st =
     (case tool_topic inet_pton a (fst st) of
        Inl e \<Rightarrow> Some (Inl e)
      | Inr (topic_id, node) \<Rightarrow>
          map_option (\<lambda>r. ebind r (\<lambda>(sent, st). Inr (sent, bw_run a turns [])))
            (tool_listen os env a topic_id on_msg (node, snd st)))"

section \<open>echo\<close>

fun decode_text_loop :: "bytes \<Rightarrow> nat \<Rightarrow> nat option" where
  "decode_text_loop [] i = Some i"
| "decode_text_loop (b # bs) i =
     (if b = 0 then (if list_ex (\<lambda>x. x \<noteq> 0) (b # bs) then None else Some i)
      else if b < 0x20 \<and> b \<noteq> 10 \<and> b \<noteq> 9 \<and> b \<noteq> 13 then None
      else if b \<ge> 0x7f then None
      else decode_text_loop bs (Suc i))"

definition try_decode_text :: "bytes \<Rightarrow> bytes option" where
  "try_decode_text payload =
     (if payload = [] then None
      else (case decode_text_loop payload 0 of
              None \<Rightarrow> None
            | Some text_len \<Rightarrow> if text_len = 0 then None else Some (take text_len payload)))"

datatype echo_output =
    EchoTyped string string
  | EchoMismatch nat string bytes
  | EchoText bytes
  | EchoHex bytes

text \<open>\<open>None\<close>: the printer would read outside the payload.\<close>

definition echo_message :: "TypeDesc option \<Rightarrow> bytes \<Rightarrow> echo_output option" where
  "echo_message explicit_type payload =
     (case explicit_type of
        Some d \<Rightarrow>
          if length payload = td_size d
          then map_option (EchoTyped (td_type_name d)) (format_message d 0 0 payload)
          else Some (EchoMismatch (td_size d) (td_type_name d) payload)
      | None \<Rightarrow>
          (case find_types_by_size (length payload) of
             [d] \<Rightarrow> map_option (EchoTyped (td_type_name d)) (format_message d 0 0 payload)
           | _ \<Rightarrow> (case try_decode_text payload of
                     Some t \<Rightarrow> Some (EchoText t)
                   | None \<Rightarrow> Some (EchoHex payload))))"

definition echo_type :: "Args \<Rightarrow> tool_error + TypeDesc option" where
  "echo_type a =
     (if ar_type_name a = [] then Inr None
      else (case find_type_by_name (ar_type_name a) of
              None \<Rightarrow> Inl (ExitStatus 2)
            | Some d \<Rightarrow> Inr (Some d)))"

text \<open>The messages shown of those that arrive: the process exits after \<^verbatim>\<open>--count\<close> of them.\<close>

fun echo_run :: "TypeDesc option \<Rightarrow> int \<Rightarrow> nat \<Rightarrow> bytes list \<Rightarrow> echo_output option list" where
  "echo_run explicit_type limit n [] = []"
| "echo_run explicit_type limit n (p # ps) =
     (let n = Suc n; out = echo_message explicit_type p
      in if limit \<noteq> 0 \<and> int n \<ge> limit then [out] else out # echo_run explicit_type limit n ps)"

text \<open>The command: what its set-up sends and what it shows of the payloads that arrive.\<close>

definition cmd_echo ::
  "(string \<Rightarrow> u32 option) \<Rightarrow> shm_os \<Rightarrow> node_env \<Rightarrow> Args \<Rightarrow> 'c \<Rightarrow> bytes list \<Rightarrow> 'c RelinkNode \<times> shm_memory \<Rightarrow>
   (tool_error + datagram list \<times> echo_output option list) option" where
  "cmd_echo inet_pton os env a on_msg payloads st =
     (case tool_topic inet_pton a (fst st) of
        Inl e \<Rightarrow> Some (Inl e)
      | Inr (topic_id, node) \<Rightarrow>
          (case echo_type a of
             Inl e \<Rightarrow> Some (Inl e)
           | Inr explicit_type \<Rightarrow>
               map_option (\<lambda>r. ebind r (\<lambda>(sent, st). Inr (sent, echo_run explicit_type (ar_count a) 0 payloads)))
                 (tool_listen os env a topic_id on_msg (node, snd st))))"

section \<open>pub\<close>

fun parse_hex :: "string \<Rightarrow> bytes option" where
  "parse_hex (c # d # cs) =
     (case stoul 16 [c, d] of
        None \<Rightarrow> None
      | Some v \<Rightarrow> map_option ((#) (ucast v)) (parse_hex cs))"
| "parse_hex [c] = Some []"
| "parse_hex [] = Some []"

definition pub_payload :: "Args \<Rightarrow> tool_error + bytes" where
  "pub_payload a =
     (if \<not> ar_have_hex a \<and> \<not> ar_have_text a then Inl (ExitStatus 2)
      else if ar_have_hex a then (case parse_hex (ar_hex_payload a) of None \<Rightarrow> Inl Uncaught | Some p \<Rightarrow> Inr p)
      else Inr (str_bytes (ar_text_payload a)))"

definition pub_reps :: "Args \<Rightarrow> nat" where
  "pub_reps a = (if ar_repeat a > 0 then nat (ar_repeat a) else 1)"

fun pub_ipc_loop ::
  "nat \<Rightarrow> u32 \<Rightarrow> bytes \<Rightarrow> 'c RelinkNode \<times> shm_memory \<Rightarrow> bool list \<times> 'c RelinkNode \<times> shm_memory" where
  "pub_ipc_loop 0 topic_id payload st = ([], st)"
| "pub_ipc_loop (Suc k) topic_id payload st =
     (let (ok, st) = publish_local_ipc topic_id payload st; (oks, st) = pub_ipc_loop k topic_id payload st
      in (ok # oks, st))"

text \<open>The same-host branch: whether each publication was accepted.\<close>

definition cmd_pub_ipc ::
  "shm_os \<Rightarrow> Args \<Rightarrow> 'c RelinkNode \<times> shm_memory \<Rightarrow> (tool_error + bool list \<times> 'c RelinkNode \<times> shm_memory) option" where
  "cmd_pub_ipc os a st =
     (case pub_payload a of
        Inl e \<Rightarrow> Some (Inl e)
      | Inr payload \<Rightarrow>
          (case resolve_topic (ar_topic a) (fst st) of
             Inl e \<Rightarrow> Some (Inl e)
           | Inr (topic_id, node) \<Rightarrow>
               (case advertise_local_ipc os topic_id kShmDefaultCapacity kShmMaxPayload (node, snd st) of
                  None \<Rightarrow> None
                | Some (ok, st) \<Rightarrow>
                    if \<not> ok then Some (Inl (ExitStatus 1))
                    else Some (Inr (pub_ipc_loop (pub_reps a) topic_id payload st)))))"

text \<open>
  The network branch. A turn of the wait for a peer is what the world answers during \<^verbatim>\<open>spin_once\<close> and what
  the background threads do to the node before the next one; the turns are those that start before the
  deadline.
\<close>

fun pub_wait ::
  "(node_env \<times> ('c RelinkNode \<Rightarrow> 'c RelinkNode)) list \<Rightarrow> u32 \<Rightarrow> 'c RelinkNode \<Rightarrow> NodeError + nat \<times> 'c RelinkNode" where
  "pub_wait [] topic_id node = Inr (0, node)"
| "pub_wait ((env, background) # turns) topic_id node =
     ebind (spin_once env node) (\<lambda>(node, sent, punch).
       let n_peers = length (peers_for_topic topic_id node)
       in if n_peers > 0 then Inr (n_peers, node) else pub_wait turns topic_id (background node))"

fun pub_loop ::
  "(datagram \<Rightarrow> int) \<Rightarrow> node_env \<Rightarrow> nat \<Rightarrow> u32 \<Rightarrow> bytes \<Rightarrow> 'c RelinkNode \<Rightarrow>
   NodeError + bool list \<times> datagram list \<times> 'c RelinkNode" where
  "pub_loop sendto env 0 topic_id payload node = Inr ([], [], node)"
| "pub_loop sendto env (Suc k) topic_id payload node =
     ebind (node_publish sendto env False topic_id payload node) (\<lambda>(ok, out, node).
     ebind (pub_loop sendto env k topic_id payload node) (\<lambda>(oks, outs, node).
     Inr (ok # oks, out @ outs, node)))"

definition cmd_pub_net ::
  "(string \<Rightarrow> u32 option) \<Rightarrow> (datagram \<Rightarrow> int) \<Rightarrow> node_env \<Rightarrow>
   (node_env \<times> ('c RelinkNode \<Rightarrow> 'c RelinkNode)) list \<Rightarrow> Args \<Rightarrow> 'c RelinkNode \<Rightarrow>
   tool_error + bool list \<times> datagram list \<times> 'c RelinkNode" where
  "cmd_pub_net inet_pton sendto env turns a node =
     ebind (pub_payload a) (\<lambda>payload.
     ebind (configure_node inet_pton a node) (\<lambda>node.
     ebind (resolve_topic (ar_topic a) node) (\<lambda>(topic_id, node).
     ebind (lift_node (advertise_raw (ne_bind env) topic_id False 0 node)) (\<lambda>node.
     ebind (lift_node (pub_wait turns topic_id node)) (\<lambda>(n_peers, node).
     lift_node (pub_loop sendto env (pub_reps a) topic_id payload node))))))"

section \<open>main\<close>

datatype tool_action = DoList | DoInfo | DoHz | DoBw | DoEcho | DoPub | Fail int

definition apply_conf ::
  "(string \<Rightarrow> u32 option) \<Rightarrow> bytes option \<Rightarrow> Args \<Rightarrow> Args \<times> bytes option" where
  "apply_conf inet_pton conf a =
     (if ar_rlcore_ip a \<noteq> [] then (a, save_conf inet_pton (ar_rlcore_ip a) (ar_rlcore_port a) conf)
      else (case load_conf conf of
              Some (ip, port) \<Rightarrow> (a\<lparr>ar_rlcore_ip := ip, ar_rlcore_port := port\<rparr>, conf)
            | None \<Rightarrow> (a, conf)))"

definition dispatch :: "Args \<Rightarrow> tool_action" where
  "dispatch a =
     (if ar_ipc a \<and> (ar_command a = ''list'' \<or> ar_command a = ''info'') then Fail 2
      else if ar_command a = ''list'' then DoList
      else if ar_command a = ''info'' then DoInfo
      else if ar_command a = ''hz'' then DoHz
      else if ar_command a = ''bw'' then DoBw
      else if ar_command a = ''echo'' then DoEcho
      else if ar_command a = ''pub'' then DoPub
      else Fail 2)"

definition rl_topic_main ::
  "(string \<Rightarrow> u32 option) \<Rightarrow> bytes option \<Rightarrow> string list \<Rightarrow> int + tool_action \<times> Args \<times> bytes option" where
  "rl_topic_main inet_pton conf argv =
     ebind (parse_args argv) (\<lambda>a. let (a, conf) = apply_conf inet_pton conf a in Inr (dispatch a, a, conf))"

section \<open>The directory reaches the tool\<close>

definition learned :: "TopicDirEntry list \<Rightarrow> name_map \<Rightarrow> name_map" where
  "learned es out = fold (\<lambda>e. om_put (td_topic_id e) (td_name e)) es out"

lemma learned_get:
  "map_of (learned es out) i =
     (case filter (\<lambda>e. td_topic_id e = i) es of [] \<Rightarrow> map_of out i | _ \<Rightarrow> Some (td_name (last (filter (\<lambda>e. td_topic_id e = i) es))))"
proof (induction es arbitrary: out)
  case Nil
  then show ?case by (simp add: learned_def)
next
  case (Cons e es)
  have "learned (e # es) out = learned es (om_put (td_topic_id e) (td_name e) out)" by (simp add: learned_def)
  then show ?case using Cons by (auto simp: om_put_get split: list.split)
qed

lemma collect_packets:
  assumes "\<forall>c \<in> set cs. 6 \<le> length (img c) \<and> length (img c) \<le> 8192 \<and> take 4 (img c) = kTopicDirReplyMagic \<and>
    decode_topic_dir_entries (img c) = Some c"
  shows "collect_replies (map (\<lambda>c. Some (img c)) cs @ None # rest) got out =
    (got \<or> cs \<noteq> [], learned (concat cs) out)"
  using assms
proof (induction cs arbitrary: got out)
  case Nil
  then show ?case by (simp add: learned_def)
next
  case (Cons c cs)
  have "take kTopicDirMaxPacket (img c) = img c" "img c \<noteq> []" "topic_dir_packet_kind (img c) = TdReply"
    using Cons.prems by (auto simp: dir_consts topic_dir_packet_kind_def dir_magics)
  then show ?case
    using Cons by (simp add: learn_names_def learned_def)
qed

text \<open>
  C23: The tool lists exactly what rlcore knows: whatever the size of the directory, as long as names are
  at most 255 bytes, collecting the chunked replies rlcore sends yields every topic id of the directory
  with the name last announced for it, no other id, and reports that there was a reply unless the
  directory is empty.
\<close>

theorem query_rlcore_complete:
  assumes "\<forall>e \<in> set es. length (td_name e) \<le> 255"
  shows "\<exists>pkts. list_all2 (\<lambda>c pkt. encode_topic_dir_reply c 8192 = Some pkt) (chunk_topic_dir_entries es) pkts \<and>
    (\<exists>names. query_rlcore True (map Some pkts @ None # rest) = (Some kTopicDirQueryMagic, es \<noteq> [], names) \<and>
       (\<forall>i. map_of names i =
          (case filter (\<lambda>e. td_topic_id e = i) es of
             [] \<Rightarrow> None
           | _ \<Rightarrow> Some (td_name (last (filter (\<lambda>e. td_topic_id e = i) es))))))"
proof -
  let ?cs = "chunk_topic_dir_entries es" and ?img = "topic_dir.packet_image kTopicDirReplyMagic"
  have m: "length kTopicDirReplyMagic = 4" by (simp add: dir_magics)
  note p = topic_dir_chunk_packet [OF assms _ m]
  have "list_all2 (\<lambda>c pkt. encode_topic_dir_reply c 8192 = Some pkt) ?cs (map ?img ?cs)"
    using p(1) by (simp add: list_all2_conv_all_nth encode_topic_dir_reply_def)
  moreover have "?cs = [] \<longleftrightarrow> es = []"
  proof
    assume "?cs = []"
    then show "es = []" using topic_dir_chunks_concat [of es] by simp
  next
    assume "es = []"
    then show "?cs = []" by (simp add: chunkers_eq)
  qed
  moreover have "collect_replies (map (\<lambda>c. Some (?img c)) ?cs @ None # rest) False [] =
      (False \<or> ?cs \<noteq> [], learned (concat ?cs) [])"
    using p(2-4) by (intro collect_packets) auto
  moreover have "map_of (learned es []) i =
      (case filter (\<lambda>e. td_topic_id e = i) es of [] \<Rightarrow> None
       | _ \<Rightarrow> Some (td_name (last (filter (\<lambda>e. td_topic_id e = i) es))))" for i
    unfolding learned_get by (simp split: list.split)
  ultimately show ?thesis
    by (intro exI [of _ "map ?img ?cs"])
       (auto simp: query_rlcore_def encode_topic_dir_query_def dir_consts topic_dir_chunks_concat comp_def)
qed

theorem query_rlcore_complete_witness:
  "\<exists>pkts. list_all2 (\<lambda>c pkt. encode_topic_dir_reply c 8192 = Some pkt)
      (chunk_topic_dir_entries [\<lparr>td_topic_id = 7, td_name = [0x2F, 0x61]\<rparr>]) pkts \<and>
    (\<exists>names. query_rlcore True (map Some pkts @ None # []) = (Some kTopicDirQueryMagic, True, names) \<and>
       map_of names 7 = Some [0x2F, 0x61])"
  using query_rlcore_complete [of "[\<lparr>td_topic_id = 7, td_name = [0x2F, 0x61]\<rparr>]" "[]"] by fastforce

section \<open>The remembered address\<close>

text \<open>
  An address given once is remembered: after a run with a valid rlcore address, a run without one
  uses that address and port, and an invalid address leaves the remembered one as it was.
\<close>

theorem conf_remembered:
  assumes "ar_rlcore_ip first \<noteq> []" and "ar_rlcore_ip second = []"
  shows "case inet_pton (ar_rlcore_ip first) of
      Some addr \<Rightarrow>
        fst (apply_conf inet_pton (snd (apply_conf inet_pton conf first)) second) =
          second\<lparr>ar_rlcore_ip := inet_ntoa addr, ar_rlcore_port := ar_rlcore_port first\<rparr>
    | None \<Rightarrow> apply_conf inet_pton conf first = (first, conf)"
proof -
  have b: "bslice 0 4 (be32 addr @ be16 p) = be32 addr" "bslice 4 2 (be32 addr @ be16 p) = be16 p" for addr p
    by (simp_all add: bslice_def be32_def be16_def)
  have "load_conf (Some (be32 addr @ be16 p)) = Some (inet_ntoa addr, p)" for addr p
    by (simp add: load_conf_def b) (simp add: be32_def be16_def)
  then show ?thesis
    using assms by (simp add: apply_conf_def save_conf_def split: option.split)
qed

theorem conf_remembered_witness:
  "fst (apply_conf (\<lambda>_. Some 0x0A000001)
       (snd (apply_conf (\<lambda>_. Some 0x0A000001) None (Args_init\<lparr>ar_rlcore_ip := ''10.0.0.1''\<rparr>))) Args_init) =
     Args_init\<lparr>ar_rlcore_ip := inet_ntoa 0x0A000001, ar_rlcore_port := 8445\<rparr>"
  using conf_remembered [of "Args_init\<lparr>ar_rlcore_ip := ''10.0.0.1''\<rparr>" Args_init "\<lambda>_. Some 0x0A000001" None]
  by (simp add: Args_init_def)

text \<open>
  Once an address is remembered no option selects multicast again: without \<^verbatim>\<open>--rlcore-ip\<close>, whatever the
  group and port, the names come from rlcore.
\<close>

theorem remembered_hides_multicast:
  assumes "load_conf conf = Some (ip, port)" and "ip \<noteq> []" and "ar_rlcore_ip a = []"
  shows "collect_names q (fst (apply_conf inet_pton conf a)) = snd (snd (query_rlcore (qe_socket_ok q) (qe_rlcore q)))"
  using assms by (simp add: apply_conf_def collect_names_def)

section \<open>Text\<close>

definition printable :: "u8 \<Rightarrow> bool" where
  "printable b \<longleftrightarrow> (0x20 \<le> b \<or> b = 9 \<or> b = 10 \<or> b = 13) \<and> b < 0x7f"

lemma printable_nonzero: "printable b \<Longrightarrow> b \<noteq> 0"
  by (auto simp: printable_def)

lemma decode_text_loop_iff:
  "decode_text_loop bs i = Some n \<longleftrightarrow>
     (\<exists>t k. bs = t @ replicate k 0 \<and> list_all printable t \<and> n = i + length t)"
proof (induction bs arbitrary: i)
  case Nil
  then show ?case by auto
next
  case (Cons b bs)
  show ?case
  proof (cases "b = 0")
    case True
    have split: "b # bs = t @ replicate k 0 \<and> list_all printable t \<longleftrightarrow> t = [] \<and> b # bs = replicate k 0" for t k
      using True printable_nonzero by (cases t) auto
    have zeros: "(\<exists>k. xs = replicate k 0) \<longleftrightarrow> \<not> list_ex (\<lambda>x. x \<noteq> 0) xs" for xs :: bytes
      using replicate_length_same [of xs 0] by (auto simp: list_ex_iff) metis
    have "(\<exists>t k. b # bs = t @ replicate k 0 \<and> list_all printable t \<and> n = i + length t) \<longleftrightarrow>
        (\<exists>k. b # bs = replicate k 0) \<and> n = i"
    proof
      assume "\<exists>t k. b # bs = t @ replicate k 0 \<and> list_all printable t \<and> n = i + length t"
      then obtain t k where "b # bs = t @ replicate k 0 \<and> list_all printable t" "n = i + length t" by blast
      then show "(\<exists>k. b # bs = replicate k 0) \<and> n = i" unfolding split by auto
    qed (auto intro: exI [of _ "[]"])
    then show ?thesis unfolding zeros using True by auto
  next
    case False
    have nz: "(\<exists>t k. b # bs = t @ replicate k 0 \<and> list_all printable t \<and> n = i + length t) \<longleftrightarrow>
        printable b \<and> (\<exists>t k. bs = t @ replicate k 0 \<and> list_all printable t \<and> n = Suc i + length t)"
    proof
      assume "\<exists>t k. b # bs = t @ replicate k 0 \<and> list_all printable t \<and> n = i + length t"
      then obtain t k where t: "b # bs = t @ replicate k 0" "list_all printable t" "n = i + length t" by blast
      then obtain t' where "t = b # t'" using False by (cases t; cases k) auto
      then show "printable b \<and> (\<exists>t k. bs = t @ replicate k 0 \<and> list_all printable t \<and> n = Suc i + length t)"
        using t by auto
    next
      assume "printable b \<and> (\<exists>t k. bs = t @ replicate k 0 \<and> list_all printable t \<and> n = Suc i + length t)"
      then obtain t k where "printable b" "bs = t @ replicate k 0" "list_all printable t" "n = Suc i + length t" by blast
      then show "\<exists>t k. b # bs = t @ replicate k 0 \<and> list_all printable t \<and> n = i + length t"
        by (intro exI [of _ "b # t"] exI [of _ k]) simp
    qed
    have "decode_text_loop (b # bs) i = (if printable b then decode_text_loop bs (Suc i) else None)"
      using False by (auto simp: printable_def not_less not_le)
    then show ?thesis using nz Cons by simp
  qed
qed

text \<open>
  A payload is shown as text exactly when it is printable ASCII followed by nothing but zero bytes,
  and the text shown is all of it up to the padding; anything else, and an empty or all-zero payload,
  is never shown as text.
\<close>

theorem try_decode_text_iff:
  "try_decode_text payload = Some t \<longleftrightarrow>
     t \<noteq> [] \<and> list_all printable t \<and> (\<exists>k. payload = t @ replicate k 0)"
proof
  assume "try_decode_text payload = Some t"
  then obtain n where n: "decode_text_loop payload 0 = Some n" "n \<noteq> 0" "t = take n payload"
    by (auto simp: try_decode_text_def split: if_splits option.splits)
  then obtain u k where "payload = u @ replicate k 0" "list_all printable u" "n = length u"
    using decode_text_loop_iff by auto
  then show "t \<noteq> [] \<and> list_all printable t \<and> (\<exists>k. payload = t @ replicate k 0)" using n by auto
next
  assume t: "t \<noteq> [] \<and> list_all printable t \<and> (\<exists>k. payload = t @ replicate k 0)"
  then have "decode_text_loop payload 0 = Some (length t)" using decode_text_loop_iff by auto
  then show "try_decode_text payload = Some t" using t by (auto simp: try_decode_text_def)
qed

section \<open>echo\<close>

text \<open>
  C24: Echo shows every message and never reads outside one: for any type the option accepts, or none,
  every payload produces an output; a payload of another size than the explicit type is shown raw with
  a notice; without a type a payload is decoded only when a single registered type has its size. Text
  is shown only for printable bytes followed by nothing but zeros, and is all of them.
\<close>

theorem echo_shows_every_message:
  assumes "echo_type a = Inr ty"
  shows "\<exists>out. echo_message ty payload = Some out \<and>
    (case out of
       EchoTyped nm s \<Rightarrow> \<exists>d. d \<in> set all_types \<and> nm = td_type_name d \<and> td_size d = length payload \<and>
         (ty = Some d \<or> ty = None \<and> (\<forall>e \<in> set all_types. td_size e = length payload \<longrightarrow> e = d))
     | EchoMismatch sz nm raw \<Rightarrow> raw = payload \<and> (\<exists>d. ty = Some d \<and> td_size d \<noteq> length payload)
     | EchoText t \<Rightarrow> ty = None \<and> t \<noteq> [] \<and> list_all printable t \<and> (\<exists>k. payload = t @ replicate k 0)
     | EchoHex raw \<Rightarrow> raw = payload \<and> ty = None)"
proof -
  have sized: "\<exists>s. format_message d 0 0 payload = Some s" if "d \<in> set all_types" "td_size d = length payload" for d
    using format_registered [OF that(1), of payload 0] that(2) by simp
  show ?thesis
  proof (cases ty)
    case (Some d)
    then have d: "d \<in> set all_types"
      using assms by (auto simp: echo_type_def find_type_by_name_def find_Some_iff split: if_splits option.splits)
    show ?thesis
    proof (cases "length payload = td_size d")
      case True
      with sized [OF d] obtain s where "format_message d 0 0 payload = Some s" by auto
      then show ?thesis using Some d True by (auto simp: echo_message_def)
    next
      case False
      then show ?thesis using Some by (auto simp: echo_message_def)
    qed
  next
    case None
    have matches: "set (find_types_by_size (length payload)) = {d \<in> set all_types. td_size d = length payload}"
      by (auto simp: find_types_by_size_def)
    show ?thesis
    proof (cases "\<exists>d. find_types_by_size (length payload) = [d]")
      case True
      then obtain d where d: "find_types_by_size (length payload) = [d]" by blast
      then have in_d: "{d} = {d \<in> set all_types. td_size d = length payload}" using matches by simp
      then have "d \<in> set all_types" "td_size d = length payload" by blast+
      with sized obtain s where "format_message d 0 0 payload = Some s" by blast
      then show ?thesis
        using None d in_d \<open>d \<in> set all_types\<close> \<open>td_size d = length payload\<close>
        by (intro exI [of _ "EchoTyped (td_type_name d) s"]) (auto simp: echo_message_def intro!: exI [of _ d])
    next
      case False
      then have "echo_message ty payload = (case try_decode_text payload of
          Some t \<Rightarrow> Some (EchoText t) | None \<Rightarrow> Some (EchoHex payload))"
        using None by (auto simp: echo_message_def split: list.split)
      then show ?thesis using None by (auto simp: try_decode_text_iff split: option.splits)
    qed
  qed
qed

theorem echo_shows_every_message_witness: "\<exists>out. echo_message None [1, 2, 3] = Some out"
  using echo_shows_every_message [of Args_init None "[1, 2, 3]"] by (auto simp: echo_type_def Args_init_def)

section \<open>hz\<close>

lemma intervals_telescope:
  "xs \<noteq> [] \<Longrightarrow> sum_list (intervals_of xs) = last xs - hd xs"
proof (induction xs rule: rev_induct)
  case Nil
  then show ?case by simp
next
  case (snoc x xs)
  show ?case
  proof (cases xs)
    case Nil
    then show ?thesis by (simp add: intervals_of_def)
  next
    case (Cons y ys)
    then have n: "0 < length xs" by simp
    have "intervals_of (xs @ [x]) = intervals_of xs @ [x - last xs]"
    proof -
      have "[1..<length (xs @ [x])] = [1..<length xs] @ [length xs]" using n by (simp add: Suc_le_eq)
      moreover have "map (\<lambda>i. (xs @ [x]) ! i - (xs @ [x]) ! (i - 1)) [1..<length xs] = intervals_of xs"
        unfolding intervals_of_def by (intro map_cong refl) (auto simp: nth_append)
      moreover have "(xs @ [x]) ! length xs - (xs @ [x]) ! (length xs - 1) = x - last xs"
        using n Cons by (simp add: nth_append last_conv_nth)
      ultimately show ?thesis by (simp add: intervals_of_def)
    qed
    then show ?thesis using snoc Cons by simp
  qed
qed

text \<open>
  The rate that \<^verbatim>\<open>hz\<close> reports is too high: over a window of \<open>n\<close> arrivals it divides \<open>n\<close>, not \<open>n - 1\<close>, by
  the time between the first and the last, so it is \<open>n / (n - 1)\<close> times the inverse of the mean interval
  that the same report is computed from; with two messages it is twice the true rate.
\<close>

theorem hz_rate_overestimates:
  assumes "2 \<le> length recent" and "hd recent < last recent"
  shows "\<exists>r. hz_statistics recent = Some r \<and>
    hz_rate r = real (length recent) / (real (length recent) - 1) * (1 / mean_of (intervals_of recent)) \<and>
    1 / mean_of (intervals_of recent) < hz_rate r"
proof -
  let ?n = "real (length recent)" and ?d = "last recent - hd recent"
  have n: "2 \<le> ?n" using assms(1) by simp
  have "recent \<noteq> []" using assms(1) by auto
  then have mean: "mean_of (intervals_of recent) = ?d / (?n - 1)"
    using intervals_telescope assms(1) by (simp add: mean_of_def intervals_of_def of_nat_diff)
  have "x / y = x / (x - 1) * (1 / (y / (x - 1)))" if "2 \<le> x" "0 < y" for x y :: real using that by simp
  from this [OF n, of ?d] have rate: "?n / ?d = ?n / (?n - 1) * (1 / (?d / (?n - 1)))" using assms(2) by simp
  have "1 / (?d / (?n - 1)) < ?n / ?d" using n assms(2) by (simp add: divide_strict_right_mono)
  moreover have "map_option hz_rate (hz_statistics recent) = Some (?n / ?d)"
    using assms by (simp add: hz_statistics_def Let_def)
  then obtain r where "hz_statistics recent = Some r" "hz_rate r = ?n / ?d" by auto
  ultimately show ?thesis unfolding mean using rate by metis
qed

theorem hz_rate_overestimates_witness:
  "\<exists>r. hz_statistics [0, 1] = Some r \<and> hz_rate r = 2"
  using hz_rate_overestimates [of "[0, 1]"]
  by (auto simp: mean_of_def intervals_of_def upt_rec)

section \<open>pub\<close>

definition hex_digit :: "nat \<Rightarrow> char" where
  "hex_digit n = ''0123456789abcdef'' ! n"

definition hex_of :: "bytes \<Rightarrow> string" where
  "hex_of bs = concat (map (\<lambda>b. [hex_digit (unat b div 16), hex_digit (unat b mod 16)]) bs)"

lemma hex_digit_value: "h < 16 \<Longrightarrow> digit_value 16 (hex_digit h) = Some h"
  and hex_digit_plain: "h < 16 \<Longrightarrow> \<not> is_space (hex_digit h) \<and> hex_digit h \<noteq> CHR ''-'' \<and> hex_digit h \<noteq> CHR ''+''"
proof -
  have "\<forall>h \<in> set [0..<16]. digit_value 16 (hex_digit h) = Some h \<and>
      \<not> is_space (hex_digit h) \<and> hex_digit h \<noteq> CHR ''-'' \<and> hex_digit h \<noteq> CHR ''+''"
    by code_simp
  then show "h < 16 \<Longrightarrow> digit_value 16 (hex_digit h) = Some h"
    and "h < 16 \<Longrightarrow> \<not> is_space (hex_digit h) \<and> hex_digit h \<noteq> CHR ''-'' \<and> hex_digit h \<noteq> CHR ''+''"
    by simp_all
qed

lemma stoul_two_digits:
  assumes "h < 16" and "l < 16"
  shows "stoul 16 [hex_digit h, hex_digit l] = Some (word_of_nat (16 * h + l))"
proof -
  have "read_sign [hex_digit h, hex_digit l] = (False, [hex_digit h, hex_digit l])"
    using hex_digit_plain [OF assms(1)] by (simp add: read_sign_def Let_def)
  then show ?thesis
    using assms by (simp add: stoul_def Let_def hex_digit_value mult.commute)
qed

text \<open>
  The hexadecimal payload of \<^verbatim>\<open>pub\<close> reads back any bytes: the hexadecimal digits of a payload, two to a
  byte, parse to that payload; and a digit left over at the end is dropped without a word.
\<close>

theorem parse_hex_round_trip:
  "parse_hex (hex_of bs) = Some bs \<and> parse_hex (hex_of bs @ [c]) = Some bs"
proof (induction bs)
  case Nil
  then show ?case by (simp add: hex_of_def)
next
  case (Cons b bs)
  have b: "unat b < 256" by (rule unat_byte_less)
  then have "stoul 16 [hex_digit (unat b div 16), hex_digit (unat b mod 16)] = Some (word_of_nat (unat b))"
    using stoul_two_digits [of "unat b div 16" "unat b mod 16"] by simp
  moreover have "ucast (word_of_nat (unat b) :: u64) = b" by (simp add: unsigned_ucast_eq take_bit_word_eq_self)
  ultimately show ?case using Cons by (simp add: hex_of_def)
qed

section \<open>Reports and waits\<close>

lemma hz_recent_window:
  assumes "0 \<le> ar_window a"
  shows "\<exists>recent. hz_recent a now xs = Some recent \<and> int (length recent) \<le> ar_window a"
proof (cases "int (length (filter (\<lambda>t. t \<ge> now - ar_report_every a) xs)) > ar_window a")
  case True
  then show ?thesis
    using assms unfolding hz_recent_def Let_def by (intro exI conjI) (auto simp del: filter_append)
qed (simp add: hz_recent_def Let_def)

lemma hz_run_total:
  assumes "0 \<le> ar_window a"
  shows "\<exists>rs. hz_run a turns arrivals = Some rs \<and> length rs = length turns \<and>
    (\<forall>r. Some r \<in> set rs \<longrightarrow> 2 \<le> hz_window r \<and> int (hz_window r) \<le> ar_window a)"
proof (induction turns arbitrary: arrivals)
  case (Cons turn turns)
  obtain new now where turn: "turn = (new, now)" by (cases turn)
  obtain recent where r: "hz_recent a now (arrivals @ new) = Some recent" "int (length recent) \<le> ar_window a"
    using hz_recent_window [OF assms] by blast
  have "2 \<le> hz_window rep \<and> int (hz_window rep) \<le> ar_window a" if "hz_statistics recent = Some rep" for rep
    using that r(2) by (auto simp: hz_statistics_def Let_def split: if_splits)
  then show ?case using Cons.IH [of recent] r(1) by (auto simp: turn cmd_hz_turn_def)
qed simp

text \<open>
  A timeout below a millisecond makes the directory queries wait without limit, on either platform: it
  is truncated to 0, which a socket takes for no timeout. An argument that is not a number counts as 0.
\<close>

theorem short_timeout_waits_forever:
  assumes "0 \<le> t" and "t < 1 / 1000"
  shows "recv_wait_posix (set_recv_timeout_posix (query_timeout_ms t)) = None \<and>
    recv_wait_posix (set_recv_timeout_posix (quiet_timeout_ms t)) = None \<and>
    recv_wait_windows (set_recv_timeout_windows (query_timeout_ms t)) = None"
proof -
  have "query_timeout_ms t = 0" "quiet_timeout_ms t = 0"
    using assms by (simp_all add: query_timeout_ms_def quiet_timeout_ms_def to_long_def floor_eq_iff)
  then show ?thesis using recv_timeouts_agree [of 0] by simp
qed

theorem short_timeout_waits_forever_witness:
  "recv_wait_posix (set_recv_timeout_posix (query_timeout_ms 0)) = None"
  using short_timeout_waits_forever [of 0] by simp

text \<open>
  A same-host subscription that fails is not reported: when the ring of the topic exists with another
  slot size, as that of an image topic does, \<^verbatim>\<open>hz\<close>, \<^verbatim>\<open>bw\<close> and \<^verbatim>\<open>echo\<close> go on as if they had subscribed, and no pass
  of the poll thread will ever deliver anything of the topic.
\<close>

theorem ipc_mismatch_silent:
  assumes "ar_ipc a" and "so_excl os = ExclExists True" and "so_mmap_ok os" and "so_polls os = p # polls"
    and "sh_magic (pt_hdr p) = kShmRingMagic" and "sh_slot_size (pt_hdr p) \<noteq> 8 + kShmMaxPayload"
    and "map_of (nd_shm_rings node) topic_id = None"
  shows "tool_listen os env a topic_id on_msg (node, mem) = Some (Inr ([], node, mem))"
  using assms
  by (simp add: tool_listen_def subscribe_local_ipc_def advertise_local_ipc_def shm_open_def opened_segment_def
      ShmRing_init_def Let_def)

end
