(* ===== verification/Relay_Xdp.thy ===== *)
theory Relay_Xdp
  imports Relay_Daemon "HOL-Library.Multiset"
begin

text \<open>
  The AF_XDP receive path of the relay, \<^verbatim>\<open>cpp/rlcore/xdp/relay_xdp.hpp\<close>, and the poll loop of
  \<^verbatim>\<open>relink_relay.cpp\<close> that drives it. The packet memory is a function from addresses to bytes; the fill and
  receive rings are the lists of their entries, oldest first. Calls of the operating system and of
  libbpf are parameters: what they return, and for a ring how many entries a reservation is granted.
  The driver, which takes buffers from the fill ring and puts packets into the receive ring, is the
  other party of a step relation.
\<close>

definition kNumFrames :: nat where "kNumFrames = 4096"
definition kFrameSize :: nat where "kFrameSize = 4096"
definition kRingSize :: nat where "kRingSize = 2048"

section \<open>Set-up and tear-down\<close>

record RelayXdp =
  xr_ifindex :: u32
  xr_attached :: bool
  xr_umem :: bool
  xr_xsk :: bool
  xr_umem_area :: bool
  xr_bpf_obj :: bool
  xr_xsk_fd :: int
  xr_fill_ring :: "u64 list"
  xr_rx_ring :: "(u64 \<times> u32) list"

definition RelayXdp_init :: RelayXdp where
  "RelayXdp_init =
     \<lparr>xr_ifindex = 0, xr_attached = False, xr_umem = False, xr_xsk = False, xr_umem_area = False,
      xr_bpf_obj = False, xr_xsk_fd = -1, xr_fill_ring = [], xr_rx_ring = []\<rparr>"

text \<open>What the system answers during set-up. \<open>xo_reserve used n\<close> is the result of a reservation of \<open>n\<close>
  entries on the fill ring while \<open>used\<close> are in it.\<close>

record xdp_os =
  xo_ifindex :: u32
  xo_mmap_ok :: bool
  xo_umem_create :: int
  xo_reserve :: "nat \<Rightarrow> nat \<Rightarrow> nat"
  xo_socket_create :: int
  xo_socket_fd :: int
  xo_open_ok :: bool
  xo_load_ok :: bool
  xo_prog_found :: bool
  xo_port_map_fd :: int
  xo_xsks_map_fd :: int
  xo_attach_native :: int
  xo_attach_generic :: int

text \<open>The calls that acquire or release something, or write a map of the filter program.\<close>

datatype xdp_call =
    MapArea | CreateUmem | CreateSocket | OpenObject | SetPort u16 | SetSocket int | AttachNative | AttachGeneric
  | DetachNative | DetachGeneric | DeleteSocket | DeleteUmem | UnmapArea | CloseObject

definition load_and_attach_prog :: "xdp_os \<Rightarrow> u16 \<Rightarrow> RelayXdp \<Rightarrow> bool \<times> xdp_call list \<times> RelayXdp" where
  "load_and_attach_prog os port st =
     (if \<not> xo_open_ok os then (False, [], st)
      else if \<not> xo_load_ok os then (False, [OpenObject], st)
      else
        let st = st\<lparr>xr_bpf_obj := True\<rparr>
        in if \<not> xo_prog_found os then (False, [OpenObject], st)
           else if xo_port_map_fd os < 0 \<or> xo_xsks_map_fd os < 0 then (False, [OpenObject], st)
           else
             let maps = [OpenObject, SetPort port, SetSocket (xo_socket_fd os)]
             in if xo_attach_native os = 0 then (True, maps @ [AttachNative], st\<lparr>xr_attached := True\<rparr>)
                else if xo_attach_generic os = 0 then (True, maps @ [AttachGeneric], st\<lparr>xr_attached := True\<rparr>)
                else (False, maps, st))"

definition seed_fill_ring :: "u64 list" where
  "seed_fill_ring = map (\<lambda>i. word_of_nat (i * kFrameSize)) [0..<kNumFrames]"

definition xdp_init :: "xdp_os \<Rightarrow> u16 \<Rightarrow> RelayXdp \<Rightarrow> bool \<times> xdp_call list \<times> RelayXdp" where
  "xdp_init os port st =
     (let st = st\<lparr>xr_ifindex := xo_ifindex os\<rparr>
      in if xo_ifindex os = 0 then (False, [], st)
         else if \<not> xo_mmap_ok os then (False, [], st)
         else
           let st = st\<lparr>xr_umem_area := True\<rparr>
           in if xo_umem_create os \<noteq> 0 then (False, [MapArea], st)
              else
                let st = st\<lparr>xr_umem := True\<rparr>
                in if xo_reserve os (length (xr_fill_ring st)) kNumFrames \<noteq> kNumFrames
                   then (False, [MapArea, CreateUmem], st)
                   else
                     let st = st\<lparr>xr_fill_ring := xr_fill_ring st @ seed_fill_ring\<rparr>
                     in if xo_socket_create os \<noteq> 0 then (False, [MapArea, CreateUmem], st)
                        else
                          let st = st\<lparr>xr_xsk := True\<rparr>;
                              (ok, calls, st) = load_and_attach_prog os port st;
                              calls = [MapArea, CreateUmem, CreateSocket] @ calls
                          in if ok then (True, calls, st\<lparr>xr_xsk_fd := xo_socket_fd os\<rparr>) else (False, calls, st))"

definition xdp_detach :: "RelayXdp \<Rightarrow> xdp_call list \<times> RelayXdp" where
  "xdp_detach st =
     (if xr_attached st \<and> xr_ifindex st \<noteq> 0
      then ([DetachNative, DetachGeneric], st\<lparr>xr_attached := False\<rparr>) else ([], st))"

definition xdp_destroy :: "RelayXdp \<Rightarrow> xdp_call list" where
  "xdp_destroy st =
     (let (calls, st) = xdp_detach st
      in calls @ (if xr_xsk st then [DeleteSocket] else []) @ (if xr_umem st then [DeleteUmem] else []) @
         (if xr_umem_area st then [UnmapArea] else []) @ (if xr_bpf_obj st then [CloseObject] else []))"

definition handle_signal :: "RelayXdp option \<Rightarrow> xdp_call list" where
  "handle_signal g_xdp_for_signal =
     (case g_xdp_for_signal of None \<Rightarrow> [] | Some xdp \<Rightarrow> fst (xdp_detach xdp))"

section \<open>The rings\<close>

definition rx_batch :: "nat \<Rightarrow> RelayXdp \<Rightarrow> nat" where
  "rx_batch batch_max st = min batch_max (length (xr_rx_ring st))"

definition rx_frame :: "(nat \<Rightarrow> u8) \<Rightarrow> nat \<Rightarrow> RelayXdp \<Rightarrow> bytes \<times> u64" where
  "rx_frame umem i st =
     (let (addr, len) = xr_rx_ring st ! i
      in (map (\<lambda>k. umem (unat addr + k)) [0..<unat len], addr))"

definition release_rx :: "nat \<Rightarrow> RelayXdp \<Rightarrow> RelayXdp" where
  "release_rx nb st = st\<lparr>xr_rx_ring := drop nb (xr_rx_ring st)\<rparr>"

definition refill :: "(nat \<Rightarrow> nat \<Rightarrow> nat) \<Rightarrow> u64 \<Rightarrow> RelayXdp \<Rightarrow> RelayXdp" where
  "refill reserve addr st =
     (if reserve (length (xr_fill_ring st)) 1 = 1
      then st\<lparr>xr_fill_ring := xr_fill_ring st @ [addr]\<rparr> else st)"

section \<open>The loop and the driver\<close>

text \<open>
  The relay is between two batches, or has handled \<open>i\<close> of the \<open>n\<close> frames of a batch. \<open>xs_arrived\<close> and
  \<open>xs_handled\<close> record the packets the driver stored and those the relay processed.
\<close>

datatype xdp_pc = XPoll | XBatch nat nat

record xdp_system =
  xs_dev :: RelayXdp
  xs_memory :: "nat \<Rightarrow> u8"
  xs_pc :: xdp_pc
  xs_relay :: relay_state
  xs_sent :: "datagram list"
  xs_arrived :: "bytes list"
  xs_handled :: "bytes list"

definition xdp_system_start :: "RelayXdp \<Rightarrow> (nat \<Rightarrow> u8) \<Rightarrow> int \<Rightarrow> xdp_system" where
  "xdp_system_start dev memory now =
     \<lparr>xs_dev = dev, xs_memory = memory, xs_pc = XPoll, xs_relay = relay_start now, xs_sent = [],
      xs_arrived = [], xs_handled = []\<rparr>"

text \<open>
  One step of the poll loop: a datagram of the ordinary socket, the start of a batch, a frame of it, or
  its end. \<open>None\<close>: the code would look beyond the end of a frame.
\<close>

definition plain_step :: "int \<Rightarrow> (PeerAddr \<times> bytes) option \<Rightarrow> xdp_system \<Rightarrow> xdp_system" where
  "plain_step now os_recv s =
     (let (out, relay) = relay_turn now os_recv (xs_relay s)
      in s\<lparr>xs_relay := relay, xs_sent := xs_sent s @ out\<rparr>)"

definition batch_step :: "(nat \<Rightarrow> nat \<Rightarrow> nat) \<Rightarrow> int \<Rightarrow> xdp_system \<Rightarrow> xdp_system option" where
  "batch_step reserve now s =
     (case xs_pc s of
        XPoll \<Rightarrow>
          let n = rx_batch 64 (xs_dev s)
          in Some (if n > 0 then s\<lparr>xs_pc := XBatch 0 n\<rparr> else s)
      | XBatch i n \<Rightarrow>
          if i < n then
            let (data, addr) = rx_frame (xs_memory s) i (xs_dev s)
            in (case xdp_frame now data (xs_relay s) of
                  None \<Rightarrow> None
                | Some (out, relay) \<Rightarrow>
                    Some (s\<lparr>xs_relay := relay, xs_sent := xs_sent s @ out, xs_handled := xs_handled s @ [data],
                            xs_dev := refill reserve addr (xs_dev s), xs_pc := XBatch (Suc i) n\<rparr>))
          else Some (s\<lparr>xs_dev := release_rx n (xs_dev s), xs_pc := XPoll\<rparr>))"

text \<open>
  The driver stores a packet: it takes the oldest buffer of the fill ring, writes the packet into the
  frame that buffer lies in, at an address of its choice inside the frame, and puts the address and
  the length into the receive ring.
\<close>

definition frame_of :: "u64 \<Rightarrow> nat" where "frame_of addr = unat addr div kFrameSize"

definition store_packet :: "bytes \<Rightarrow> u64 \<Rightarrow> (nat \<Rightarrow> u8) \<Rightarrow> nat \<Rightarrow> u8" where
  "store_packet p addr memory x =
     (if unat addr \<le> x \<and> x < unat addr + length p then p ! (x - unat addr) else memory x)"

definition driver_step :: "bytes \<Rightarrow> u64 \<Rightarrow> xdp_system \<Rightarrow> xdp_system" where
  "driver_step p addr s =
     s\<lparr>xs_memory := store_packet p addr (xs_memory s), xs_arrived := xs_arrived s @ [p],
       xs_dev := (xs_dev s)\<lparr>xr_fill_ring := tl (xr_fill_ring (xs_dev s)),
                            xr_rx_ring := xr_rx_ring (xs_dev s) @ [(addr, word_of_nat (length p))]\<rparr>\<rparr>"

inductive xdp_reachable :: "u16 \<Rightarrow> (nat \<Rightarrow> nat \<Rightarrow> nat) \<Rightarrow> xdp_system \<Rightarrow> xdp_system \<Rightarrow> bool"
  for port reserve s0 where
  start: "xdp_reachable port reserve s0 s0"
| plain: "xdp_reachable port reserve s0 s \<Longrightarrow> xs_pc s = XPoll \<Longrightarrow> xdp_reachable port reserve s0 (plain_step now r s)"
| batch: "xdp_reachable port reserve s0 s \<Longrightarrow> batch_step reserve now s = Some s' \<Longrightarrow> xdp_reachable port reserve s0 s'"
| driver: "xdp_reachable port reserve s0 s \<Longrightarrow> xr_fill_ring (xs_dev s) = a # rest \<Longrightarrow>
    length (xr_rx_ring (xs_dev s)) < kRingSize \<Longrightarrow> relay_xdp_prog (Some port) True p \<Longrightarrow>
    frame_of addr = frame_of a \<Longrightarrow> unat addr mod kFrameSize + length p \<le> kFrameSize \<Longrightarrow>
    xdp_reachable port reserve s0 (driver_step p addr s)"

section \<open>No buffer is lost\<close>

definition desc_data :: "(nat \<Rightarrow> u8) \<Rightarrow> u64 \<times> u32 \<Rightarrow> bytes" where
  "desc_data memory d = map (\<lambda>k. memory (unat (fst d) + k)) [0..<unat (snd d)]"

text \<open>The descriptors the relay still has to handle.\<close>

definition pending_frames :: "xdp_system \<Rightarrow> (u64 \<times> u32) list" where
  "pending_frames s = (case xs_pc s of XPoll \<Rightarrow> xr_rx_ring (xs_dev s) | XBatch i n \<Rightarrow> drop i (xr_rx_ring (xs_dev s)))"

definition xdp_ok :: "u16 \<Rightarrow> xdp_system \<Rightarrow> bool" where
  "xdp_ok port s \<longleftrightarrow>
     (case xs_pc s of XPoll \<Rightarrow> True | XBatch i n \<Rightarrow> i \<le> n \<and> n \<le> length (xr_rx_ring (xs_dev s))) \<and>
     mset (map frame_of (xr_fill_ring (xs_dev s))) + mset (map (frame_of \<circ> fst) (pending_frames s)) =
       mset [0..<kNumFrames] \<and>
     list_all (\<lambda>d. unat (fst d) mod kFrameSize + unat (snd d) \<le> kFrameSize) (pending_frames s) \<and>
     xs_arrived s = xs_handled s @ map (desc_data (xs_memory s)) (pending_frames s) \<and>
     list_all (relay_xdp_prog (Some port) True) (xs_arrived s)"

lemmas xdp_consts = kNumFrames_def kFrameSize_def kRingSize_def

lemma frame_contains:
  assumes "unat a mod kFrameSize + n \<le> kFrameSize" and "unat a \<le> x" and "x < unat a + n"
  shows "x div kFrameSize = frame_of a"
proof (rule div_nat_eqI)
  have "kFrameSize * frame_of a + unat a mod kFrameSize = unat a" by (simp add: frame_of_def)
  then show "kFrameSize * frame_of a \<le> x" "x < kFrameSize * Suc (frame_of a)"
    using assms unfolding mult_Suc_right by linarith+
qed

lemma desc_data_other:
  assumes "unat addr mod kFrameSize + length p \<le> kFrameSize" and "unat (fst d) mod kFrameSize + unat (snd d) \<le> kFrameSize"
    and "frame_of (fst d) \<noteq> frame_of addr"
  shows "desc_data (store_packet p addr memory) d = desc_data memory d"
proof -
  have "\<not> (unat addr \<le> x \<and> x < unat addr + length p)" if "unat (fst d) \<le> x" "x < unat (fst d) + unat (snd d)" for x
    using frame_contains [OF assms(1), of x] frame_contains [OF assms(2) that] assms(3) by auto
  then show ?thesis by (auto simp: desc_data_def store_packet_def)
qed

lemma desc_data_same:
  assumes "length p \<le> kFrameSize"
  shows "desc_data (store_packet p addr memory) (addr, word_of_nat (length p)) = p"
proof -
  have "unat (word_of_nat (length p) :: u32) = length p"
    using assms by (simp add: unat_of_nat xdp_consts)
  then show ?thesis by (auto simp: desc_data_def store_packet_def intro: nth_equalityI)
qed

lemma filtered_frame_handled:
  assumes "relay_xdp_prog port bound data"
  shows "\<exists>out st'. xdp_frame now data st = Some (out, st')"
proof -
  have "22 + unat (data ! 14 AND 0x0F) * 4 \<le> length data"
    using assms by (auto simp: relay_xdp_prog_def Let_def split: if_splits)
  then show ?thesis
    by (cases "handle_packet now (drop (22 + unat (data ! 14 AND 0x0F) * 4) data)
        \<lparr>pa_ip = rd_be32 (bslice 26 4 data), pa_port = rd_be16 (bslice (14 + unat (data ! 14 AND 0x0F) * 4) 2 data)\<rparr> st")
      (auto simp: xdp_frame_def Let_def add.commute)
qed

lemma xdp_ok_lengths:
  assumes "xdp_ok port s"
  shows "length (xr_fill_ring (xs_dev s)) + length (pending_frames s) = kNumFrames"
    and "distinct (map frame_of (xr_fill_ring (xs_dev s)) @ map (frame_of \<circ> fst) (pending_frames s))"
proof -
  have m: "mset (map frame_of (xr_fill_ring (xs_dev s)) @ map (frame_of \<circ> fst) (pending_frames s)) = mset [0..<kNumFrames]"
    using assms by (simp add: xdp_ok_def)
  show "distinct (map frame_of (xr_fill_ring (xs_dev s)) @ map (frame_of \<circ> fst) (pending_frames s))"
    using mset_eq_imp_distinct_iff [OF m] by simp
  show "length (xr_fill_ring (xs_dev s)) + length (pending_frames s) = kNumFrames"
    using mset_eq_length [OF m] by simp
qed

lemma driver_keeps_ok:
  assumes ok: "xdp_ok port s" and fill: "xr_fill_ring (xs_dev s) = a # rest" and filt: "relay_xdp_prog (Some port) True p"
    and frame: "frame_of addr = frame_of a" and fits: "unat addr mod kFrameSize + length p \<le> kFrameSize"
  shows "xdp_ok port (driver_step p addr s)"
proof -
  let ?d = "(addr, word_of_nat (length p) :: u32)"
  have len: "unat (word_of_nat (length p) :: u32) = length p" using fits by (simp add: unat_of_nat xdp_consts)
  have pend: "pending_frames (driver_step p addr s) = pending_frames s @ [?d]"
    using ok by (auto simp: pending_frames_def driver_step_def xdp_ok_def split: xdp_pc.splits)
  have "frame_of (fst d) \<noteq> frame_of addr" if "d \<in> set (pending_frames s)" for d
    using xdp_ok_lengths(2) [OF ok] that by (force simp: fill frame)
  then have "map (desc_data (store_packet p addr (xs_memory s))) (pending_frames s) =
      map (desc_data (xs_memory s)) (pending_frames s)"
    using ok fits by (auto simp: xdp_ok_def list_all_iff intro!: desc_data_other)
  moreover have "desc_data (store_packet p addr (xs_memory s)) ?d = p" using fits by (intro desc_data_same) simp
  ultimately show ?thesis
    using ok fill frame fits filt len unfolding xdp_ok_def pend
    by (auto simp: driver_step_def split: xdp_pc.splits)
qed

lemma pending_head:
  assumes "xdp_ok port s" and "xs_pc s = XBatch i n" and "i < n"
  shows "pending_frames s = xr_rx_ring (xs_dev s) ! i # drop (Suc i) (xr_rx_ring (xs_dev s))"
  using assms by (simp add: xdp_ok_def pending_frames_def Cons_nth_drop_Suc)

lemma batch_keeps_ok:
  assumes ok: "xdp_ok port s" and room: "\<forall>used n. used + n \<le> kNumFrames \<longrightarrow> reserve used n = n"
    and step: "batch_step reserve now s = Some s'"
  shows "xdp_ok port s'"
proof (cases "xs_pc s")
  case XPoll
  then show ?thesis
    using ok step by (auto simp: batch_step_def xdp_ok_def pending_frames_def rx_batch_def Let_def)
next
  case (XBatch i n)
  then have i: "i \<le> n" "n \<le> length (xr_rx_ring (xs_dev s))" using ok by (simp_all add: xdp_ok_def)
  show ?thesis
  proof (cases "i < n")
    case False
    then have "s' = s\<lparr>xs_dev := release_rx n (xs_dev s), xs_pc := XPoll\<rparr>" "i = n"
      using step i by (simp_all add: batch_step_def XBatch)
    then show ?thesis using ok by (auto simp: xdp_ok_def pending_frames_def XBatch release_rx_def)
  next
    case True
    let ?d = "xr_rx_ring (xs_dev s) ! i"
    note pend = pending_head [OF ok XBatch True]
    have rx: "rx_frame (xs_memory s) i (xs_dev s) = (desc_data (xs_memory s) ?d, fst ?d)"
      by (simp add: rx_frame_def desc_data_def split: prod.split)
    have "reserve (length (xr_fill_ring (xs_dev s))) 1 = 1"
      using room xdp_ok_lengths(1) [OF ok] by (simp add: pend)
    then have fill: "refill reserve (fst ?d) (xs_dev s) = (xs_dev s)\<lparr>xr_fill_ring := xr_fill_ring (xs_dev s) @ [fst ?d]\<rparr>"
      by (simp add: refill_def)
    obtain out relay where s': "s' = s\<lparr>xs_relay := relay, xs_sent := xs_sent s @ out,
        xs_handled := xs_handled s @ [desc_data (xs_memory s) ?d],
        xs_dev := (xs_dev s)\<lparr>xr_fill_ring := xr_fill_ring (xs_dev s) @ [fst ?d]\<rparr>, xs_pc := XBatch (Suc i) n\<rparr>"
      using step True by (auto simp: batch_step_def XBatch rx fill split: option.splits)
    have pend': "pending_frames s' = drop (Suc i) (xr_rx_ring (xs_dev s))" by (simp add: s' pending_frames_def)
    show ?thesis
      using ok True i unfolding xdp_ok_def pend pend' by (auto simp: s' XBatch)
  qed
qed

lemma plain_keeps_ok: "xdp_ok port s \<Longrightarrow> xdp_ok port (plain_step now r s)"
  by (cases "xs_pc s") (auto simp: xdp_ok_def pending_frames_def plain_step_def split_beta Let_def)

lemma xdp_reachable_ok:
  assumes "xdp_reachable port reserve s0 s" and "xdp_ok port s0"
    and "\<forall>used n. used + n \<le> kNumFrames \<longrightarrow> reserve used n = n"
  shows "xdp_ok port s"
  using assms by (induction rule: xdp_reachable.induct) (auto intro: plain_keeps_ok batch_keeps_ok driver_keeps_ok)

lemma seed_frames: "map frame_of seed_fill_ring = [0..<kNumFrames]"
proof -
  have "frame_of (word_of_nat (i * kFrameSize)) = i" if "i < kNumFrames" for i
    using that by (simp add: frame_of_def unsigned_of_nat take_bit_nat_eq_self xdp_consts del: of_nat_mult)
  then show ?thesis unfolding seed_fill_ring_def by (auto intro: map_idI)
qed

lemma xdp_init_ring:
  assumes "xdp_init os port RelayXdp_init = (True, calls, dev)"
  shows "xr_fill_ring dev = seed_fill_ring \<and> xr_rx_ring dev = []"
  using assms
  by (auto simp: xdp_init_def load_and_attach_prog_def RelayXdp_init_def Let_def split: if_splits)

lemma xdp_start_ok:
  assumes "xdp_init os port RelayXdp_init = (True, calls, dev)"
  shows "xdp_ok port (xdp_system_start dev memory now)"
  using xdp_init_ring [OF assms]
  by (simp add: xdp_ok_def xdp_system_start_def pending_frames_def seed_frames del: mset_map mset_upt)

text \<open>
  C12: The relay never loses a packet buffer, and handles every packet it is handed once, in order and as
  it arrived: after a successful set-up, in every interleaving of the poll loop with the driver, the
  packets handled followed by those waiting in the receive ring are exactly the packets the driver
  stored; every one of the 4096 frames is either in the fill ring or holds a packet that waits, never
  both and never neither; and the loop is never stuck on a frame. This needs of the ring library only
  that a reservation is granted while the fill ring, of 4096 entries, has room.
\<close>

theorem xdp_frames_conserved:
  assumes "xdp_init os port RelayXdp_init = (True, calls, dev)"
    and "\<forall>used n. used + n \<le> kNumFrames \<longrightarrow> reserve used n = n"
    and "xdp_reachable port reserve (xdp_system_start dev memory now) s"
  shows "xs_arrived s = xs_handled s @ map (desc_data (xs_memory s)) (pending_frames s) \<and>
    mset (map frame_of (xr_fill_ring (xs_dev s))) + mset (map (frame_of \<circ> fst) (pending_frames s)) = mset [0..<kNumFrames] \<and>
    batch_step reserve t s \<noteq> None"
proof -
  have ok: "xdp_ok port s" by (rule xdp_reachable_ok [OF assms(3) xdp_start_ok [OF assms(1)] assms(2)])
  have "batch_step reserve t s \<noteq> None"
  proof (cases "xs_pc s")
    case (XBatch i n)
    show ?thesis
    proof (cases "i < n")
      case True
      let ?data = "fst (rx_frame (xs_memory s) i (xs_dev s))"
      have "?data = desc_data (xs_memory s) (xr_rx_ring (xs_dev s) ! i)"
        by (simp add: rx_frame_def desc_data_def split: prod.split)
      moreover have "xr_rx_ring (xs_dev s) ! i \<in> set (pending_frames s)"
        unfolding pending_head [OF ok XBatch True] by simp
      ultimately have "?data \<in> set (xs_arrived s)" using ok by (auto simp: xdp_ok_def)
      then have "relay_xdp_prog (Some port) True ?data" using ok by (auto simp: xdp_ok_def list_all_iff)
      from filtered_frame_handled [OF this, of t "xs_relay s"] XBatch True show ?thesis
        by (auto simp: batch_step_def split_beta)
    qed (simp add: batch_step_def XBatch)
  qed (simp add: batch_step_def Let_def)
  then show ?thesis using ok unfolding xdp_ok_def by blast
qed

text \<open>A machine on which every call succeeds, and a REGISTER packet as the filter sees it.\<close>

definition sample_os :: xdp_os where
  "sample_os =
     \<lparr>xo_ifindex = 2, xo_mmap_ok = True, xo_umem_create = 0, xo_reserve = (\<lambda>used n. if used + n \<le> kNumFrames then n else 0),
      xo_socket_create = 0, xo_socket_fd = 5, xo_open_ok = True, xo_load_ok = True, xo_prog_found = True,
      xo_port_map_fd = 6, xo_xsks_map_fd = 7, xo_attach_native = -95, xo_attach_generic = 0\<rparr>"

definition sample_packet :: bytes where
  "sample_packet = replicate 12 0 @ [0x08, 0, 0x45] @ replicate 8 0 @ [17] @ replicate 10 0 @
     [0, 9, 0x20, 0xFE, 0, 14, 0, 0] @ encode_relay_register 7 6"

definition sample_xdp :: RelayXdp where
  "sample_xdp = snd (snd (xdp_init sample_os 8446 RelayXdp_init))"

lemma sample_init: "\<exists>calls. xdp_init sample_os 8446 RelayXdp_init = (True, calls, sample_xdp)"
  by (simp add: sample_xdp_def xdp_init_def load_and_attach_prog_def sample_os_def RelayXdp_init_def)

theorem xdp_frames_conserved_witness:
  "let s = driver_step sample_packet 256 (xdp_system_start sample_xdp (\<lambda>_. 0) 0)
   in xs_arrived s = xs_handled s @ map (desc_data (xs_memory s)) (pending_frames s) \<and>
      mset (map frame_of (xr_fill_ring (xs_dev s))) + mset (map (frame_of \<circ> fst) (pending_frames s)) = mset [0..<kNumFrames] \<and>
      batch_step (xo_reserve sample_os) 1 s \<noteq> None"
proof -
  obtain calls where init: "xdp_init sample_os 8446 RelayXdp_init = (True, calls, sample_xdp)"
    using sample_init by blast
  have "0 < kNumFrames" by (simp add: kNumFrames_def)
  from upt_conv_Cons [OF this]
  have fill: "xr_fill_ring sample_xdp = 0 # map (\<lambda>i. word_of_nat (i * kFrameSize)) [Suc 0..<kNumFrames]"
    using xdp_init_ring [OF init] by (simp add: seed_fill_ring_def)
  have "relay_xdp_prog (Some 8446) True sample_packet" by code_simp
  moreover have "length sample_packet = 48" by code_simp
  ultimately have "xdp_reachable 8446 (xo_reserve sample_os) (xdp_system_start sample_xdp (\<lambda>_. 0) 0)
      (driver_step sample_packet 256 (xdp_system_start sample_xdp (\<lambda>_. 0) 0))"
    using fill xdp_init_ring [OF init]
    by (intro xdp_reachable.driver [OF xdp_reachable.start, of _ 0])
      (simp_all add: xdp_system_start_def frame_of_def xdp_consts)
  then show ?thesis
    using xdp_frames_conserved [OF init, of "xo_reserve sample_os"] by (simp add: Let_def sample_os_def)
qed

section \<open>Nothing is left behind\<close>

text \<open>
  Set-up and tear-down match on every path: whichever call of the set-up fails, and if none does, the
  destructor unmaps, deletes and detaches exactly what was mapped, created and attached, so the filter
  program never outlives the relay; detaching twice is harmless. The one exception is an object that was
  opened and failed to load, which is never closed.
\<close>

theorem xdp_teardown_complete:
  "case xdp_init os port RelayXdp_init of (ok, calls, st) \<Rightarrow>
     let done = set (xdp_destroy st)
     in (UnmapArea \<in> done \<longleftrightarrow> MapArea \<in> set calls) \<and> (DeleteUmem \<in> done \<longleftrightarrow> CreateUmem \<in> set calls) \<and>
        (DeleteSocket \<in> done \<longleftrightarrow> CreateSocket \<in> set calls) \<and>
        (DetachNative \<in> done \<longleftrightarrow> AttachNative \<in> set calls \<or> AttachGeneric \<in> set calls) \<and>
        (DetachGeneric \<in> done \<longleftrightarrow> AttachNative \<in> set calls \<or> AttachGeneric \<in> set calls) \<and>
        (CloseObject \<in> done \<longleftrightarrow> OpenObject \<in> set calls \<and> xo_load_ok os) \<and>
        (ok \<longleftrightarrow> xr_attached st) \<and> fst (xdp_detach (snd (xdp_detach st))) = []"
  by (simp add: xdp_init_def load_and_attach_prog_def xdp_destroy_def xdp_detach_def RelayXdp_init_def Let_def)

end
