(* ===== verification/Crypto_Reference.thy ===== *)
theory Crypto_Reference
  imports Crypto
begin

text \<open>
  The tables and field operations of \<open>Crypto\<close> against their definitions in FIPS 197 and NIST SP 800-38D:
  the S-box from inversion and the affine map, the multiplication of GF(2^8) from its polynomial basis, and
  the byte-wise multiplication of GF(2^128) from the one on 128-bit words. The random bytes of keys and
  nonces are here too, over an arbitrary generator; no property rests on it.
\<close>

section \<open>The tables of AES\<close>

definition rotl8 :: "nat \<Rightarrow> u8 \<Rightarrow> u8" where "rotl8 k x = push_bit k x OR drop_bit (8 - k) x"

definition sbox_affine :: "u8 \<Rightarrow> u8" where
  "sbox_affine x = x XOR rotl8 1 x XOR rotl8 2 x XOR rotl8 3 x XOR rotl8 4 x XOR 0x63"

definition sbox_unaffine :: "u8 \<Rightarrow> u8" where
  "sbox_unaffine x = rotl8 1 x XOR rotl8 3 x XOR rotl8 6 x XOR 0x05"

text \<open>Multiplication from the polynomial basis: the sum of the powers of \<open>x\<close> that \<open>b\<close> selects, times \<open>a\<close>.\<close>

primrec gf8_sum :: "nat \<Rightarrow> u8 \<Rightarrow> u8 \<Rightarrow> u8" where
  "gf8_sum 0 a b = 0"
| "gf8_sum (Suc n) a b = gf8_sum n a b XOR (if bit b n then (xtime ^^ n) a else 0)"

lemma gmul_loop_sum:
  "gmul_loop n a b p = p XOR gf8_sum n a b"
proof (induction n arbitrary: a b p)
  case (Suc n)
  have shift: "gf8_sum (Suc k) a b = (if bit b 0 then a else 0) XOR gf8_sum k (xtime a) (drop_bit 1 b)" for k
  proof (induction k)
    case (Suc k)
    then show ?case by (simp add: bit_drop_bit_eq funpow_swap1 ac_simps)
  qed simp
  have "b AND 1 \<noteq> 0 \<longleftrightarrow> bit b 0" by (simp add: and_one_eq bit_0 odd_iff_mod_2_eq_one)
  then show ?case unfolding shift by (simp add: Suc ac_simps)
qed simp

lemma gmul_sum: "gmul a b = gf8_sum 8 a b"
  by (simp add: gmul_def gmul_loop_sum)

lemma gmul_unfold: "gmul a b = gmul_loop (Suc (Suc (Suc (Suc (Suc (Suc (Suc (Suc 0)))))))) a b 0"
  by (simp add: gmul_def eval_nat_numeral)

fun sbox_checked :: "u8 \<Rightarrow> bytes \<Rightarrow> bool" where
  "sbox_checked x [] = True"
| "sbox_checked x (s # ss) \<longleftrightarrow>
     sbox_affine (sbox_unaffine s) = s \<and> gmul x (sbox_unaffine s) = (if x = 0 then 0 else 1) \<and>
     (x = 0 \<longrightarrow> sbox_unaffine s = 0) \<and> sbox_checked (x + 1) ss"

lemma sbox_table_checked: "sbox_checked 0 kSbox"
  by (simp add: kSbox_def sbox_affine_def sbox_unaffine_def rotl8_def gmul_unfold xtime_def)

lemma sbox_checked_nth:
  "sbox_checked x ss \<Longrightarrow> i < length ss \<Longrightarrow> sbox_checked (x + word_of_nat i) [ss ! i]"
proof (induction x ss arbitrary: i rule: sbox_checked.induct)
  case (2 x s ss)
  then show ?case by (cases i) (auto simp: algebra_simps)
qed simp

lemma rcon_powers: "kRcon = 0 # map (\<lambda>n. (xtime ^^ n) 1) [0..<14]"
  by code_simp

text \<open>
  The hand-copied tables of the cipher are the ones the standard defines: every S-box entry is the
  affine image of the inverse of its index in GF(2^8), with 0 for the inverse of 0; the round constants
  are the powers of \<open>x\<close>; and the shift-and-add multiplication the columns are mixed with is the
  multiplication of that field.
\<close>

theorem aes_tables_correct:
  "(\<exists>y. (if x = 0 then y = 0 else gf8_sum 8 x y = 1) \<and> kSbox ! unat x = sbox_affine y) \<and>
   kRcon = 0 # map (\<lambda>n. (xtime ^^ n) 1) [0..<14] \<and> gmul a b = gf8_sum 8 a b"
proof -
  have "unat x < length kSbox" using unsigned_less [of x, where ?'a = nat] by (simp add: kSbox_def)
  from sbox_checked_nth [OF sbox_table_checked this]
  have "sbox_affine (sbox_unaffine (kSbox ! unat x)) = kSbox ! unat x"
    "gmul x (sbox_unaffine (kSbox ! unat x)) = (if x = 0 then 0 else 1)"
    "x = 0 \<longrightarrow> sbox_unaffine (kSbox ! unat x) = 0" by simp_all
  then show ?thesis
    unfolding gmul_sum [symmetric] using rcon_powers
    by (intro conjI exI [of _ "sbox_unaffine (kSbox ! unat x)"]) auto
qed

section \<open>GF(2^128)\<close>

text \<open>
  A block as a number, its first byte most significant; multiplication by the polynomial \<open>x\<close>, which is
  a shift to the right with a reduction; and the sum of the products that the bits of the first factor,
  from the most significant on, select.
\<close>

definition block_word :: "bytes \<Rightarrow> 128 word" where
  "block_word v = foldl (\<lambda>w b. push_bit 8 w OR ucast b) 0 v"

definition gf128_shift :: "128 word \<Rightarrow> 128 word" where
  "gf128_shift w = drop_bit 1 w XOR (if bit w 0 then push_bit 120 0xe1 else 0)"

primrec gf128_sum :: "nat \<Rightarrow> 128 word \<Rightarrow> 128 word \<Rightarrow> 128 word" where
  "gf128_sum 0 x y = 0"
| "gf128_sum (Suc n) x y = gf128_sum n x y XOR (if bit x (127 - n) then (gf128_shift ^^ n) y else 0)"

lemma bit_block_word:
  "bit (block_word v) n \<longleftrightarrow> n < 128 \<and> n < 8 * length v \<and> bit (v ! (length v - 1 - n div 8)) (n mod 8)"
proof (induction v arbitrary: n rule: rev_induct)
  case Nil
  then show ?case by (simp add: block_word_def)
next
  case (snoc b v)
  have eq: "block_word (v @ [b]) = push_bit 8 (block_word v) OR ucast b" by (simp add: block_word_def)
  show ?case
  proof (cases "n < 8")
    case True
    then show ?thesis unfolding eq by (simp add: bit_or_iff bit_push_bit_iff bit_ucast_iff nth_append)
  next
    case False
    have "\<not> bit b n" using False bit_imp_le_length [of b n] by auto
    moreover have "n div 8 = Suc ((n - 8) div 8)" "n mod 8 = (n - 8) mod 8"
      using False by (simp_all add: le_div_geq le_mod_geq)
    moreover have "length v - Suc ((n - 8) div 8) < length v" if "n - 8 < 8 * length v"
      using that by (cases v) auto
    ultimately show ?thesis
      unfolding eq using False
      by (auto simp: bit_or_iff bit_push_bit_iff bit_ucast_iff snoc.IH nth_append less_diff_conv2)
  qed
qed

lemma block_word_xor:
  assumes "length a = 16" and "length b = 16"
  shows "block_word (xor16 a b) = block_word a XOR block_word b"
proof (rule bit_word_eqI)
  fix n :: nat assume "n < LENGTH(128)"
  then show "bit (block_word (xor16 a b)) n \<longleftrightarrow> bit (block_word a XOR block_word b) n"
    using assms by (auto simp: bit_block_word bit_xor_iff xor16_def)
qed

text \<open>The byte-wise step of the loop is the shift of the whole block.\<close>

lemma length_gf128_bit:
  "length (fst (gf128_bit xi b zv)) = 16 \<longleftrightarrow> drop_bit b xi AND 1 \<noteq> 0 \<or> length (fst zv) = 16"
  "length (snd (gf128_bit xi b zv)) = 16"
  by (auto simp: gf128_bit_def Let_def split: prod.splits)

definition shifted_bytes :: "bytes \<Rightarrow> bytes" where
  "shifted_bytes v = map (\<lambda>k. if k = 0 then drop_bit 1 (v ! 0)
     else drop_bit 1 (v ! k) OR push_bit 7 (v ! (k - 1) AND 1)) [0..<16]"

lemma block_word_shifted:
  assumes "length v = 16"
  shows "block_word (shifted_bytes v) = drop_bit 1 (block_word v)"
proof (rule bit_word_eqI)
  fix n :: nat assume "n < LENGTH(128)"
  then have n: "n < 128" by simp
  let ?k = "15 - n div 8" and ?m = "n mod 8"
  have k: "?k < 16" "n div 8 \<le> 15" using n by auto
  have byte: "bit (shifted_bytes v ! ?k) ?m \<longleftrightarrow>
      (if ?m = 7 then ?k \<noteq> 0 \<and> bit (v ! (?k - 1)) 0 else bit (v ! ?k) (Suc ?m))"
    using k unfolding shifted_bytes_def
    by (auto simp: bit_drop_bit_eq bit_or_iff bit_push_bit_iff bit_and_iff bit_1_iff dest: bit_imp_le_length)
  have "bit (block_word v) (Suc n) \<longleftrightarrow>
      (if ?m = 7 then ?k \<noteq> 0 \<and> bit (v ! (?k - 1)) 0 else bit (v ! ?k) (Suc ?m))"
  proof (cases "?m = 7")
    case True
    then have "Suc n div 8 = Suc (n div 8)" "Suc n mod 8 = 0" by (simp_all add: div_Suc mod_Suc)
    moreover have "Suc n < 128 \<longleftrightarrow> n div 8 < 15" using True n by presburger
    ultimately show ?thesis using True k assms by (auto simp: bit_block_word)
  next
    case False
    then have "Suc n div 8 = n div 8" "Suc n mod 8 = Suc ?m" by (simp_all add: div_Suc mod_Suc)
    moreover have "Suc n < 128" using False n by presburger
    ultimately show ?thesis using False assms by (simp add: bit_block_word)
  qed
  moreover have "bit (block_word (shifted_bytes v)) n \<longleftrightarrow> bit (shifted_bytes v ! ?k) ?m"
    using n by (simp add: bit_block_word shifted_bytes_def)
  ultimately show "bit (block_word (shifted_bytes v)) n \<longleftrightarrow> bit (drop_bit 1 (block_word v)) n"
    using byte by (simp add: bit_drop_bit_eq)
qed

lemma block_word_update_0:
  assumes "length v = 16"
  shows "block_word (v[0 := v ! 0 XOR c]) = block_word v XOR push_bit 120 (ucast c)"
proof (rule bit_word_eqI)
  fix n :: nat assume "n < LENGTH(128)"
  then have n: "n < 128" by simp
  show "bit (block_word (v[0 := v ! 0 XOR c])) n \<longleftrightarrow> bit (block_word v XOR push_bit 120 (ucast c)) n"
  proof (cases "120 \<le> n")
    case True
    then have "n div 8 = 15" "n mod 8 = n - 120" using n by presburger+
    then show ?thesis
      using True n assms by (auto simp: bit_block_word bit_xor_iff bit_push_bit_iff bit_ucast_iff)
  next
    case False
    then have "15 - n div 8 \<noteq> 0" by presburger
    then show ?thesis
      using False n assms by (simp add: bit_block_word bit_xor_iff bit_push_bit_iff)
  qed
qed

lemma and_1_bit: "(x :: 'a :: len word) AND 1 \<noteq> 0 \<longleftrightarrow> bit x 0"
  by (simp add: and_one_eq bit_0 odd_iff_mod_2_eq_one)

lemma gf128_bit_step:
  assumes "length v = 16" and "length z = 16" and "b < 8"
  shows "\<exists>z' v'. gf128_bit xi b (z, v) = (z', v') \<and> length z' = 16 \<and> length v' = 16 \<and>
    block_word z' = block_word z XOR (if bit xi b then block_word v else 0) \<and>
    block_word v' = gf128_shift (block_word v)"
proof -
  let ?w = "shifted_bytes v"
  have w: "length ?w = 16" by (simp add: shifted_bytes_def)
  have lsb: "v ! 15 AND 1 \<noteq> 0 \<longleftrightarrow> bit (block_word v) 0"
    using assms(1) bit_block_word [of v 0] unfolding and_1_bit by (simp del: bit_0)
  have sel: "drop_bit b xi AND 1 \<noteq> 0 \<longleftrightarrow> bit xi b"
    unfolding and_1_bit by (simp add: bit_drop_bit_eq del: bit_0)
  have "gf128_bit xi b (z, v) = (if bit xi b then xor16 z v else z,
      if bit (block_word v) 0 then ?w[0 := ?w ! 0 XOR 0xe1] else ?w)"
    unfolding gf128_bit_def Let_def split_conv lsb sel shifted_bytes_def by simp
  then show ?thesis
    using assms w by (auto simp: block_word_xor block_word_update_0 block_word_shifted gf128_shift_def)
qed


definition gf_state :: "128 word \<Rightarrow> 128 word \<Rightarrow> nat \<Rightarrow> bytes \<times> bytes \<Rightarrow> bool" where
  "gf_state x y m zv \<longleftrightarrow> length (fst zv) = 16 \<and> length (snd zv) = 16 \<and>
     block_word (fst zv) = gf128_sum m x y \<and> block_word (snd zv) = (gf128_shift ^^ m) y"

lemma gf_state_step:
  assumes st: "gf_state (block_word x) y (8 * i + k) zv"
    and x: "length x = 16" "i < 16" "b + k = 7"
  shows "gf_state (block_word x) y (8 * i + Suc k) (gf128_bit (x ! i) b zv)"
proof -
  have "127 - (8 * i + k) = 8 * (15 - i) + b" using x by simp
  moreover have "(8 * (15 - i) + b) div 8 = 15 - i" "(8 * (15 - i) + b) mod 8 = b" using x by simp_all
  ultimately have "bit (block_word x) (127 - (8 * i + k)) \<longleftrightarrow> bit (x ! i) b"
    using x(3) x(1,2) by (auto simp: bit_block_word)
  moreover have "b < 8" using x by simp
  ultimately show ?thesis
    using gf128_bit_step [of "snd zv" "fst zv" b "x ! i"] st by (auto simp: gf_state_def)
qed

lemma gf_state_byte:
  assumes "gf_state (block_word x) y (8 * i) zv" and "length x = 16" and "i < 16"
  shows "gf_state (block_word x) y (8 * Suc i) (fold (gf128_bit (x ! i)) [7, 6, 5, 4, 3, 2, 1, 0] zv)"
proof -
  note step = gf_state_step [OF _ assms(2,3)]
  have "gf_state (block_word x) y (8 * i + 8) (fold (gf128_bit (x ! i)) [7, 6, 5, 4, 3, 2, 1, 0] zv)"
    using step [where b = 0, OF step [where b = 1, OF step [where b = 2, OF step [where b = 3, OF
          step [where b = 4, OF step [where b = 5, OF step [where b = 6, OF
          step [where b = 7 and k = 0 and zv = zv]]]]]]]] assms(1)
    by (simp add: eval_nat_numeral)
  then show ?thesis by (simp add: add.commute)
qed

lemma block_word_zero: "block_word (replicate 16 0) = 0"
  by (rule bit_word_eqI) (simp add: bit_block_word)

lemma gf128_mul_sum:
  assumes x: "length x = 16" and y: "length y = 16"
  shows "block_word (gf128_mul x y) = gf128_sum 128 (block_word x) (block_word y)"
proof -
  let ?go = "\<lambda>n. fold (\<lambda>i. fold (gf128_bit (x ! i)) [7, 6, 5, 4, 3, 2, 1, 0]) [0..<n] (replicate 16 0, y)"
  have "n \<le> 16 \<Longrightarrow> gf_state (block_word x) (block_word y) (8 * n) (?go n)" for n
  proof (induction n)
    case 0
    show ?case using y by (simp add: gf_state_def block_word_zero)
  next
    case (Suc n)
    then show ?case using gf_state_byte [OF _ x, of "block_word y" n] by simp
  qed
  from this [of 16] show ?thesis by (simp add: gf_state_def gf128_mul_def)
qed

text \<open>The sum is linear in each factor, and the number of a block determines the block.\<close>

lemma gf128_sum_xor_left: "gf128_sum n (a XOR b) y = gf128_sum n a y XOR gf128_sum n b y"
  by (induction n) (auto simp: bit_xor_iff ac_simps)

section \<open>GHASH\<close>

text \<open>The blocks of a message, the last one padded with zeros, and the block of its length in bits.\<close>

function ghash_blocks :: "bytes \<Rightarrow> 128 word list" where
  "ghash_blocks data =
     (if data = [] then [] else block_word (take 16 (take 16 data @ replicate 15 0)) # ghash_blocks (drop 16 data))"
  by pat_completeness auto
termination by (relation "measure length") auto

definition ghash_horner :: "128 word \<Rightarrow> 128 word list \<Rightarrow> 128 word" where
  "ghash_horner h = foldl (\<lambda>y b. gf128_sum 128 (y XOR b) h) 0"

declare ghash_blocks.simps [simp del]

lemma ghash_loop_horner:
  "length h = 16 \<Longrightarrow> length y = 16 \<Longrightarrow> length (ghash_loop h y data) = 16 \<and>
   block_word (ghash_loop h y data) =
     foldl (\<lambda>y b. gf128_sum 128 (y XOR b) (block_word h)) (block_word y) (ghash_blocks data)"
proof (induction h y data rule: ghash_loop.induct)
  case (1 h y data)
  show ?case
  proof (cases "data = []")
    case True
    then show ?thesis using 1 by (simp add: ghash_loop.simps ghash_blocks.simps)
  next
    case False
    let ?n = "if length data < 16 then length data else 16"
    let ?b = "take ?n data @ replicate (16 - ?n) 0"
    have block: "?b = take 16 (take 16 data @ replicate 15 0)" "length ?b = 16"
      using False by (cases data; simp add: take_Cons')+
    have next_y: "block_word (gf128_mul (xor16 y ?b) h) =
        gf128_sum 128 (block_word y XOR block_word ?b) (block_word h)"
      using 1(2,3) block(2) by (simp only: gf128_mul_sum block_word_xor length_xor16)
    have "drop ?n data = drop 16 data" by simp
    then show ?thesis
      using 1(1) [OF False refl refl 1(2)] False next_y
      unfolding ghash_loop.simps [of h y data] ghash_blocks.simps [of data] Let_def block(1) [symmetric]
      by simp
  qed
qed


definition len_block :: "nat \<Rightarrow> bytes" where
  "len_block n = replicate 8 0 @
     rev (map (\<lambda>i. ucast (drop_bit (8 * i) ((word_of_nat n :: u64) * 8))) [0..<8])"

lemma block_word_len:
  "length (len_block n) = 16"
  "block_word (len_block n) = ucast ((word_of_nat n :: u64) * 8)"
proof -
  show len: "length (len_block n) = 16" by (simp add: len_block_def)
  show "block_word (len_block n) = ucast ((word_of_nat n :: u64) * 8)"
  proof (rule bit_word_eqI)
    fix m :: nat assume "m < LENGTH(128)"
    then have m: "m < 128" by simp
    have split: "8 * (m div 8) + m mod 8 = m" by simp
    show "bit (block_word (len_block n)) m \<longleftrightarrow> bit (ucast ((word_of_nat n :: u64) * 8) :: 128 word) m"
    proof (cases "m < 64")
      case True
      then have "m div 8 < 8" "\<not> 15 - m div 8 < 8" by simp_all
      then have "len_block n ! (15 - m div 8) = ucast (drop_bit (8 * (m div 8)) ((word_of_nat n :: u64) * 8))"
        by (simp add: len_block_def nth_append rev_nth)
      then show ?thesis
        using m len split by (simp add: bit_block_word bit_ucast_iff bit_drop_bit_eq)
    next
      case False
      then have "15 - m div 8 < 8" by simp
      then have "len_block n ! (15 - m div 8) = 0" using m by (simp add: len_block_def nth_append)
      moreover have "\<not> bit ((word_of_nat n :: u64) * 8) m"
        using False bit_imp_le_length [of "(word_of_nat n :: u64) * 8" m] by auto
      ultimately show ?thesis using m len by (simp add: bit_block_word bit_ucast_iff)
    qed
  qed
qed

text \<open>
  C14: The byte-wise field arithmetic of GCM computes what the standard defines: a product of two blocks is,
  as a 128-bit number, the sum of the successive \<open>x\<close>-multiples of the second factor that the bits of the
  first select; and GHASH is Horner's rule over that product, on the zero-padded blocks of the data, of
  any length, followed by the block of its length in bits.
\<close>

theorem ghash_reference:
  assumes "length h = 16" and "length x = 16"
  shows "block_word (gf128_mul x h) = gf128_sum 128 (block_word x) (block_word h) \<and>
    block_word (ghash h data) = ghash_horner (block_word h)
      (ghash_blocks data @ [ucast ((word_of_nat (length data) :: u64) * 8)])"
proof -
  have "ghash h data = gf128_mul (xor16 (ghash_loop h (replicate 16 0) data) (len_block (length data))) h"
    by (simp add: ghash_def len_block_def Let_def)
  then show ?thesis
    using ghash_loop_horner [of h "replicate 16 0" data] assms
    by (simp add: gf128_mul_sum block_word_xor block_word_len block_word_zero ghash_horner_def)
qed

theorem ghash_reference_witness:
  "block_word (gf128_mul (replicate 16 3) (replicate 16 7)) =
     gf128_sum 128 (block_word (replicate 16 3)) (block_word (replicate 16 7)) \<and>
   block_word (ghash (replicate 16 7) [1, 2, 3]) = ghash_horner (block_word (replicate 16 7))
      (ghash_blocks [1, 2, 3] @ [ucast ((word_of_nat 3 :: u64) * 8)])"
  using ghash_reference [of "replicate 16 7" "replicate 16 3" "[1, 2, 3]"] by simp

section \<open>Keys and nonces\<close>

text \<open>
  \<open>std::mt19937_64\<close> seeded with \<open>seed\<close>, drawing the \<open>i\<close>-th number of a uniform distribution on 0..255, is
  the function \<open>gen seed i\<close>; \<open>rd\<close> is what \<open>std::random_device\<close> returned, 32 bits, and \<open>clock\<close> the count
  of the high-resolution clock.
\<close>

definition random_bytes ::
  "(u64 \<Rightarrow> nat \<Rightarrow> int) \<Rightarrow> nat \<Rightarrow> u32 \<Rightarrow> u64 \<Rightarrow> bytes" where
  "random_bytes gen n rd clock = map (\<lambda>i. word_of_int (gen (ucast rd XOR clock) i)) [0..<n]"

definition generate_random_key32 :: "(u64 \<Rightarrow> nat \<Rightarrow> int) \<Rightarrow> u32 \<Rightarrow> u64 \<Rightarrow> bytes" where
  "generate_random_key32 gen rd clock = random_bytes gen kAesKeyBytes rd clock"

definition seal_nonce :: "(u64 \<Rightarrow> nat \<Rightarrow> int) \<Rightarrow> u32 \<Rightarrow> u64 \<Rightarrow> bytes" where
  "seal_nonce gen rd clock = random_bytes gen kAesGcmNonceBytes rd clock"

end
