(* ===== verification/Publish_Threads.thy ===== *)
theory Publish_Threads
  imports Udp_Transport
begin

text \<open>
  Several threads that publish through one transport: the application, the threads that punch holes and
  the listener of multicast discovery all call \<^verbatim>\<open>publish_raw\<close> of \<^verbatim>\<open>udp_transport.hpp\<close> on the transport of
  their topic, and the image calls \<^verbatim>\<open>publish_scattered\<close>. A call is the list of its accesses to the state
  the threads share: the atomic counter, the member \<^verbatim>\<open>send_buf_\<close>, which \<^verbatim>\<open>encode_frame\<close> fills piece by
  piece and \<^verbatim>\<open>sendto\<close> reads, and the socket. A schedule names the thread that makes the next access.
\<close>

section \<open>The accesses of a call\<close>

datatype send_op =
    FetchSeq
  | FillStart
  | FillHeader u32 nat
  | FillPayload bytes
  | FillStop nat
  | SendTo u32 bytes PeerAddr
  | SendMsg u32 bytes bytes PeerAddr

datatype pub_call =
    RawCall u32 bytes "PeerAddr list"
  | ScatteredCall u32 bytes bytes PeerAddr

definition encode_ops :: "u32 \<Rightarrow> bytes \<Rightarrow> send_op list" where
  "encode_ops topic_id payload =
     [FillStart, FillHeader topic_id (length payload)] @
     (if payload = [] then [] else [FillPayload payload]) @ [FillStop (length payload)]"

definition publish_raw_ops :: "u32 \<Rightarrow> bytes \<Rightarrow> PeerAddr \<Rightarrow> send_op list" where
  "publish_raw_ops topic_id payload peer =
     (if length payload > kMaxPayloadBytes then []
      else encode_ops topic_id payload @ [SendTo topic_id payload peer])"

definition publish_scattered_ops :: "u32 \<Rightarrow> bytes \<Rightarrow> bytes \<Rightarrow> PeerAddr \<Rightarrow> send_op list" where
  "publish_scattered_ops topic_id extra_header data peer =
     (if length extra_header + length data > kMaxPayloadBytes then []
      else [FetchSeq, SendMsg topic_id extra_header data peer])"

fun call_ops :: "pub_call \<Rightarrow> send_op list" where
  "call_ops (RawCall topic_id payload peers) =
     FetchSeq # concat (map (publish_raw_ops topic_id payload) peers)"
| "call_ops (ScatteredCall topic_id extra_header data peer) =
     publish_scattered_ops topic_id extra_header data peer"

definition punch_calls :: "PeerAddr \<Rightarrow> pub_call list" where
  "punch_calls peer = replicate 3 (RawCall kNatPunchTopicId [] [peer])"

section \<open>The shared state and its threads\<close>

text \<open>
  Besides what the transport holds: the sequence numbers drawn so far, and every datagram sent, paired with
  the one that its call was to send.
\<close>

record send_state =
  ss_seq_counter :: u16
  ss_send_buf :: bytes
  ss_threads :: "(u16 \<times> send_op list) list"
  ss_drawn :: "u16 list"
  ss_sent :: "(datagram \<times> datagram) list"

definition fill :: "nat \<Rightarrow> bytes \<Rightarrow> bytes \<Rightarrow> bytes" where
  "fill off bs buf = take off buf @ bs @ drop (off + length bs) buf"

fun op_buf :: "u16 \<Rightarrow> send_op \<Rightarrow> bytes \<Rightarrow> bytes" where
  "op_buf seq FillStart buf = fill 0 [kStartByte] buf"
| "op_buf seq (FillHeader t n) buf = fill 1 (enc_RelinkHeader (frame_header t seq n)) buf"
| "op_buf seq (FillPayload p) buf = fill 10 p buf"
| "op_buf seq (FillStop n) buf = fill (10 + n) [kStopByte] buf"
| "op_buf seq op buf = buf"

fun op_sent :: "u16 \<Rightarrow> bytes \<Rightarrow> send_op \<Rightarrow> (datagram \<times> datagram) list" where
  "op_sent seq buf (SendTo t p peer) = [((peer, take (length p + 11) buf), (peer, frame_bytes t seq p))]"
| "op_sent seq buf (SendMsg t h d peer) =
     [((peer, concat (scatter_iov t seq h d)), (peer, frame_bytes t seq (h @ d)))]"
| "op_sent seq buf op = []"

definition send_step :: "nat \<Rightarrow> send_state \<Rightarrow> send_state" where
  "send_step i st =
     (if i < length (ss_threads st) then
        case ss_threads st ! i of
          (seq, []) \<Rightarrow> st
        | (seq, FetchSeq # ops) \<Rightarrow>
            st\<lparr>ss_threads := (ss_threads st)[i := (ss_seq_counter st, ops)],
               ss_drawn := ss_drawn st @ [ss_seq_counter st],
               ss_seq_counter := ss_seq_counter st + 1\<rparr>
        | (seq, op # ops) \<Rightarrow>
            st\<lparr>ss_threads := (ss_threads st)[i := (seq, ops)],
               ss_send_buf := op_buf seq op (ss_send_buf st),
               ss_sent := ss_sent st @ op_sent seq (ss_send_buf st) op\<rparr>
      else st)"

definition run_schedule :: "nat list \<Rightarrow> send_state \<Rightarrow> send_state" where
  "run_schedule sched st = fold send_step sched st"

definition send_start :: "u16 \<Rightarrow> bytes \<Rightarrow> pub_call list list \<Rightarrow> send_state" where
  "send_start seq buf threads =
     \<lparr>ss_seq_counter = seq, ss_send_buf = buf,
      ss_threads = map (\<lambda>calls. (0, concat (map call_ops calls))) threads, ss_drawn = [], ss_sent = []\<rparr>"

section \<open>Filling the buffer\<close>

lemma length_fill [simp]: "off + length bs \<le> length buf \<Longrightarrow> length (fill off bs buf) = length buf"
  by (simp add: fill_def)

lemma take_encode:
  assumes "length buf = kMaxFrameBytes" and "length p \<le> 1400"
  shows "take (length p + 11) (fold (op_buf seq) (encode_ops t p) buf) = frame_bytes t seq p"
    and "length (fold (op_buf seq) (encode_ops t p) buf) = kMaxFrameBytes"
proof -
  let ?h = "enc_RelinkHeader (frame_header t seq (length p))"
  have h: "length ?h = 9" by simp
  have "fold (op_buf seq) (encode_ops t p) buf = frame_bytes t seq p @ drop (length p + 11) buf"
    using assms h
    by (cases "p = []")
       (simp_all add: encode_ops_def fill_def frame_bytes_def frame_consts take_Cons' drop_Cons' add.commute)
  then show "take (length p + 11) (fold (op_buf seq) (encode_ops t p) buf) = frame_bytes t seq p"
    and "length (fold (op_buf seq) (encode_ops t p) buf) = kMaxFrameBytes"
    using assms by (simp_all add: frame_consts)
qed


text \<open>
  \<open>clean seq buf ops\<close>: run without another writer from the buffer \<open>buf\<close>, the accesses \<open>ops\<close> send the
  datagrams of their calls.
\<close>

fun clean :: "u16 \<Rightarrow> bytes \<Rightarrow> send_op list \<Rightarrow> bool" where
  "clean seq buf [] \<longleftrightarrow> True"
| "clean seq buf (FetchSeq # ops) \<longleftrightarrow> (\<forall>seq. clean seq buf ops)"
| "clean seq buf (op # ops) \<longleftrightarrow>
     list_all (\<lambda>(actual, meant). actual = meant) (op_sent seq buf op) \<and> clean seq (op_buf seq op buf) ops"

definition local_op :: "send_op \<Rightarrow> bool" where
  "local_op op \<longleftrightarrow> op = FetchSeq \<or> (\<exists>t h d peer. op = SendMsg t h d peer)"

lemma local_op_simps [simp]:
  "local_op FetchSeq" "local_op (SendMsg t h d peer)" "\<not> local_op FillStart" "\<not> local_op (FillHeader t n)"
  "\<not> local_op (FillPayload p)" "\<not> local_op (FillStop n)" "\<not> local_op (SendTo t p peer)"
  by (simp_all add: local_op_def)

lemma clean_encode_append:
  "clean seq buf (encode_ops t p @ ops) \<longleftrightarrow> clean seq (fold (op_buf seq) (encode_ops t p) buf) ops"
  by (simp add: encode_ops_def)

lemma clean_raw_append:
  assumes "length buf = kMaxFrameBytes" and "\<And>buf. length buf = kMaxFrameBytes \<Longrightarrow> clean seq buf ops"
  shows "clean seq buf (publish_raw_ops t p peer @ ops)"
proof (cases "length p > kMaxPayloadBytes")
  case False
  then have "length p \<le> 1400" by (simp add: kMaxPayloadBytes_def)
  from take_encode [OF assms(1) this] False assms(2) show ?thesis
    by (simp add: publish_raw_ops_def clean_encode_append)
qed (simp add: publish_raw_ops_def assms)

lemma clean_peers:
  "length buf = kMaxFrameBytes \<Longrightarrow> (\<And>seq buf. length buf = kMaxFrameBytes \<Longrightarrow> clean seq buf ops) \<Longrightarrow>
   clean seq buf (concat (map (publish_raw_ops t p) peers) @ ops)"
  by (induction peers arbitrary: buf) (simp_all add: clean_raw_append)

lemma clean_calls:
  "length buf = kMaxFrameBytes \<Longrightarrow> clean seq buf (concat (map call_ops calls))"
proof (induction calls arbitrary: seq buf)
  case (Cons c calls)
  then show ?case
    by (cases c) (simp_all add: clean_peers publish_scattered_ops_def scatter_iov_bytes)
qed simp

lemma clean_local: "list_all local_op ops \<Longrightarrow> clean seq buf ops"
  by (induction ops arbitrary: seq) (auto simp: local_op_def scatter_iov_bytes)

section \<open>One writer\<close>

text \<open>
  All threads but \<open>r\<close> use the scatter-gather send only: what every schedule keeps.
\<close>

definition single_writer :: "nat \<Rightarrow> u16 \<Rightarrow> send_state \<Rightarrow> bool" where
  "single_writer r seq0 st \<longleftrightarrow>
     (\<forall>i < length (ss_threads st). (i \<noteq> r \<longrightarrow> list_all local_op (snd (ss_threads st ! i))) \<and>
        (i = r \<longrightarrow> clean (fst (ss_threads st ! i)) (ss_send_buf st) (snd (ss_threads st ! i)))) \<and>
     list_all (\<lambda>(actual, meant). actual = meant) (ss_sent st) \<and>
     ss_drawn st = map (\<lambda>k. seq0 + word_of_nat k) [0..<length (ss_drawn st)] \<and>
     ss_seq_counter st = seq0 + word_of_nat (length (ss_drawn st))"

lemma local_op_buf: "local_op op \<Longrightarrow> op_buf seq op buf = buf"
  by (auto simp: local_op_def)

lemma local_op_sent: "local_op op \<Longrightarrow> list_all (\<lambda>(actual, meant). actual = meant) (op_sent seq buf op)"
  by (auto simp: local_op_def scatter_iov_bytes)

lemma clean_Cons:
  "op \<noteq> FetchSeq \<Longrightarrow> clean seq buf (op # ops) \<longleftrightarrow>
     list_all (\<lambda>(actual, meant). actual = meant) (op_sent seq buf op) \<and> clean seq (op_buf seq op buf) ops"
  by (cases op) simp_all

lemma send_step_simps:
  "\<not> i < length (ss_threads st) \<Longrightarrow> send_step i st = st"
  "i < length (ss_threads st) \<Longrightarrow> ss_threads st ! i = (seq, []) \<Longrightarrow> send_step i st = st"
  "i < length (ss_threads st) \<Longrightarrow> ss_threads st ! i = (seq, FetchSeq # ops) \<Longrightarrow> send_step i st =
     st\<lparr>ss_threads := (ss_threads st)[i := (ss_seq_counter st, ops)],
        ss_drawn := ss_drawn st @ [ss_seq_counter st], ss_seq_counter := ss_seq_counter st + 1\<rparr>"
  "i < length (ss_threads st) \<Longrightarrow> ss_threads st ! i = (seq, op # ops) \<Longrightarrow> op \<noteq> FetchSeq \<Longrightarrow> send_step i st =
     st\<lparr>ss_threads := (ss_threads st)[i := (seq, ops)], ss_send_buf := op_buf seq op (ss_send_buf st),
        ss_sent := ss_sent st @ op_sent seq (ss_send_buf st) op\<rparr>"
  by (simp_all add: send_step_def split: send_op.split)

lemma single_writer_step: 
  assumes "single_writer r seq0 st"
  shows "single_writer r seq0 (send_step i st)"
proof (cases "i < length (ss_threads st)")
  case True
  obtain seq ops where t: "ss_threads st ! i = (seq, ops)" by force
  show ?thesis
  proof (cases ops)
    case Nil
    then show ?thesis using assms True t by (simp add: send_step_simps)
  next
    case (Cons op rest)
    show ?thesis
    proof (cases "op = FetchSeq")
      case fetch: True
      from assms True t Cons fetch show ?thesis
        unfolding single_writer_def send_step_simps(3) [OF True t [unfolded Cons fetch]]
        by (auto simp: nth_list_update algebra_simps)
    next
      case False
      have "list_all (\<lambda>(actual, meant). actual = meant) (op_sent seq (ss_send_buf st) op)"
        "i \<noteq> r \<Longrightarrow> op_buf seq op (ss_send_buf st) = ss_send_buf st"
        using assms True t Cons False
        by (cases "i = r"; force simp: single_writer_def clean_Cons local_op_sent local_op_buf)+
      with assms True t Cons False show ?thesis
        unfolding single_writer_def send_step_simps(4) [OF True t [unfolded Cons] False]
        by (auto simp: nth_list_update clean_Cons)
    qed
  qed
qed (use assms in \<open>simp add: send_step_simps\<close>)


lemma single_writer_run: "single_writer r seq0 st \<Longrightarrow> single_writer r seq0 (run_schedule sched st)"
  unfolding run_schedule_def by (induction sched arbitrary: st) (simp_all add: single_writer_step)

definition scattered_only :: "pub_call list \<Rightarrow> bool" where
  "scattered_only calls \<longleftrightarrow> list_all (\<lambda>c. case c of RawCall _ _ _ \<Rightarrow> False | ScatteredCall _ _ _ _ \<Rightarrow> True) calls"

lemma scattered_only_local: "scattered_only calls \<Longrightarrow> list_all local_op (concat (map call_ops calls))"
  by (induction calls) (auto simp: scattered_only_def publish_scattered_ops_def split: pub_call.splits)

lemma single_writer_start:
  assumes "length buf = kMaxFrameBytes"
    and "\<And>i. i < length threads \<Longrightarrow> i \<noteq> r \<Longrightarrow> scattered_only (threads ! i)"
  shows "single_writer r seq (send_start seq buf threads)"
  using assms by (auto simp: single_writer_def send_start_def scattered_only_local clean_calls)

lemma distinct_seqs: "n \<le> 65536 \<Longrightarrow> distinct (map (\<lambda>k. (seq :: u16) + word_of_nat k) [0..<n])"
  by (auto simp: distinct_map inj_on_def word_of_nat_eq_iff take_bit_eq_mod)

text \<open>
  C7: If one thread alone publishes with the copying send, and the others, if any, with the scatter-gather
  send, then under every interleaving of their accesses each datagram handed to the kernel is the frame
  of the call it belongs to, and the calls draw consecutive sequence numbers, no two the same until the
  counter has wrapped.
\<close>

theorem publish_single_writer_safe:
  assumes "length buf = kMaxFrameBytes"
    and "\<And>i. i < length threads \<Longrightarrow> i \<noteq> r \<Longrightarrow> scattered_only (threads ! i)"
  shows "let st = run_schedule sched (send_start seq buf threads) in
     list_all (\<lambda>(actual, meant). actual = meant) (ss_sent st) \<and>
     ss_drawn st = map (\<lambda>k. seq + word_of_nat k) [0..<length (ss_drawn st)] \<and>
     (length (ss_drawn st) \<le> 65536 \<longrightarrow> distinct (ss_drawn st))"
proof -
  have "single_writer r seq (run_schedule sched (send_start seq buf threads))"
    using assms by (intro single_writer_run single_writer_start)
  then show ?thesis
    unfolding single_writer_def Let_def by (metis distinct_seqs)
qed

theorem publish_single_writer_safe_witness:
  "let st = run_schedule [0, 1, 0, 1] (send_start 9 (replicate kMaxFrameBytes 0)
       [[RawCall 7 [1] [\<lparr>pa_ip = 1, pa_port = 2\<rparr>]], [ScatteredCall 8 [2] [3] \<lparr>pa_ip = 1, pa_port = 2\<rparr>]]) in
     list_all (\<lambda>(actual, meant). actual = meant) (ss_sent st) \<and>
     ss_drawn st = map (\<lambda>k. 9 + word_of_nat k) [0..<length (ss_drawn st)] \<and>
     (length (ss_drawn st) \<le> 65536 \<longrightarrow> distinct (ss_drawn st))"
  by (rule publish_single_writer_safe [where r = 0]) (auto simp: scattered_only_def less_Suc_eq)

section \<open>One thread\<close>

text \<open>The calls one after the other, by the functions of the transport.\<close>

fun do_call ::
  "(datagram \<Rightarrow> int) \<Rightarrow> pub_call \<Rightarrow> 'h UdpTransport \<Rightarrow> datagram list \<times> 'h UdpTransport" where
  "do_call sendto (RawCall topic_id payload peers) t =
     (let (seq, t) = next_seq t
      in (concat (map (\<lambda>peer. snd (publish_raw_seq sendto topic_id payload peer seq)) peers), t))"
| "do_call sendto (ScatteredCall topic_id extra_header data peer) t =
     (let (ok, out, t) = publish_scattered (sendmsg_to_posix sendto) topic_id extra_header data peer t in (out, t))"

fun do_calls ::
  "(datagram \<Rightarrow> int) \<Rightarrow> pub_call list \<Rightarrow> 'h UdpTransport \<Rightarrow> datagram list \<times> 'h UdpTransport" where
  "do_calls sendto [] t = ([], t)"
| "do_calls sendto (c # cs) t =
     (let (out, t) = do_call sendto c t; (outs, t) = do_calls sendto cs t in (out @ outs, t))"

text \<open>What the accesses are to send, from the thread's number \<open>s\<close> and the counter \<open>c\<close>.\<close>

fun meant_from :: "u16 \<Rightarrow> u16 \<Rightarrow> send_op list \<Rightarrow> datagram list" where
  "meant_from s c [] = []"
| "meant_from s c (FetchSeq # ops) = meant_from c (c + 1) ops"
| "meant_from s c (op # ops) = map snd (op_sent s [] op) @ meant_from s c ops"

lemma meant_snd: "map snd (op_sent s buf op) = map snd (op_sent s buf' op)"
  by (cases op) simp_all

lemma meant_run:
  "ss_threads st = [(s, ops)] \<Longrightarrow>
   map snd (ss_sent (run_schedule (replicate (length ops) 0) st)) =
     map snd (ss_sent st) @ meant_from s (ss_seq_counter st) ops"
proof (induction ops arbitrary: s st)
  case (Cons op ops)
  have run: "run_schedule (replicate (length (op # ops)) 0) st =
      run_schedule (replicate (length ops) 0) (send_step 0 st)" by (simp add: run_schedule_def)
  show ?case
  proof (cases "op = FetchSeq")
    case True
    then show ?thesis using Cons.prems unfolding run by (simp add: Cons.IH send_step_simps(3))
  next
    case False
    then have "meant_from s (ss_seq_counter st) (op # ops) =
        map snd (op_sent s (ss_send_buf st) op) @ meant_from s (ss_seq_counter st) ops"
      using meant_snd [of s "ss_send_buf st" op "[]"] by (cases op) simp_all
    then show ?thesis using Cons.prems False unfolding run by (simp add: Cons.IH send_step_simps(4))
  qed
qed (simp add: run_schedule_def)

lemma meant_raw_one:
  "meant_from s c (publish_raw_ops t p peer @ ops) =
     snd (publish_raw_seq sendto t p peer s) @ meant_from s c ops"
  by (simp add: publish_raw_ops_def encode_ops_def publish_raw_seq_def encode_frame_eq frame_consts)

lemma meant_raw:
  "meant_from s c (concat (map (publish_raw_ops t p) peers) @ ops) =
     concat (map (\<lambda>peer. snd (publish_raw_seq sendto t p peer s)) peers) @ meant_from s c ops"
  by (induction peers) (simp_all add: meant_raw_one [where sendto = sendto])

lemma meant_calls:
  "meant_from s (ut_seq_counter t) (concat (map call_ops calls)) = fst (do_calls sendto calls t)"
proof (induction calls arbitrary: s t)
  case (Cons c calls)
  show ?case
  proof (cases c)
    case (RawCall topic p peers)
    then show ?thesis
      using Cons [of "ut_seq_counter t" "snd (next_seq t)"]
      by (simp add: meant_raw [where sendto = sendto] next_seq_def split: prod.splits)
  next
    case (ScatteredCall topic h d peer)
    then show ?thesis
      using Cons [of "ut_seq_counter t" "snd (next_seq t)"] Cons [of s t]
      by (auto simp: publish_scattered_ops_def publish_scattered_def next_seq_def sendmsg_to_posix_def
          scatter_iov_bytes Let_def split: prod.splits)
  qed
qed simp

text \<open>
  C30: The accesses are those of the calls: a single thread that makes them all sends, in order, the datagrams
  that the functions of the transport return for its calls one after the other.
\<close>

theorem publish_ops_refine_calls:
  assumes "length buf = kMaxFrameBytes"
  shows "map fst (ss_sent (run_schedule (replicate (length (concat (map call_ops calls))) 0)
       (send_start (ut_seq_counter t) buf [calls]))) = fst (do_calls sendto calls t)"
proof -
  let ?st = "run_schedule (replicate (length (concat (map call_ops calls))) 0)
    (send_start (ut_seq_counter t) buf [calls])"
  have "single_writer 0 (ut_seq_counter t) ?st"
    using assms by (intro single_writer_run single_writer_start) simp_all
  then have "map fst (ss_sent ?st) = map snd (ss_sent ?st)"
    by (auto simp: single_writer_def list_all_iff)
  also have "\<dots> = fst (do_calls sendto calls t)"
    by (simp add: meant_run [where s = 0] send_start_def meant_calls)
  finally show ?thesis .
qed

theorem publish_ops_refine_calls_witness:
  "let calls = [RawCall 7 [1] [\<lparr>pa_ip = 1, pa_port = 2\<rparr>], RawCall 8 [] [\<lparr>pa_ip = 3, pa_port = 4\<rparr>]];
       t = UdpTransport_init :: nat UdpTransport
   in map fst (ss_sent (run_schedule (replicate (length (concat (map call_ops calls))) 0)
        (send_start (ut_seq_counter t) (replicate kMaxFrameBytes 0) [calls]))) = fst (do_calls (\<lambda>_. 0) calls t) \<and>
      length (fst (do_calls (\<lambda>_. 0) calls t)) = 2"
  using publish_ops_refine_calls [of "replicate kMaxFrameBytes 0"
      "[RawCall 7 [1] [\<lparr>pa_ip = 1, pa_port = 2\<rparr>], RawCall 8 [] [\<lparr>pa_ip = 3, pa_port = 4\<rparr>]]"
      "UdpTransport_init :: nat UdpTransport" "\<lambda>_. 0"] meant_calls [of 0 "UdpTransport_init :: nat UdpTransport"
      "[RawCall 7 [1] [\<lparr>pa_ip = 1, pa_port = 2\<rparr>], RawCall 8 [] [\<lparr>pa_ip = 3, pa_port = 4\<rparr>]]" "\<lambda>_. 0", symmetric]
  by (simp add: Let_def publish_raw_ops_def kMaxPayloadBytes_def encode_ops_def)

section \<open>Two writers\<close>

lemma run_schedule_simps:
  "run_schedule [] st = st"
  "run_schedule (i # sched) st = run_schedule sched (send_step i st)"
  "run_schedule (s1 @ s2) st = run_schedule s2 (run_schedule s1 st)"
  by (simp_all add: run_schedule_def)

lemma run_encode:
  assumes "i < length (ss_threads st)" and "ss_threads st ! i = (seq, encode_ops t p @ ops)"
  shows "run_schedule (replicate (length (encode_ops t p)) i @ sched) st = run_schedule sched
    (st\<lparr>ss_threads := (ss_threads st)[i := (seq, ops)],
        ss_send_buf := fold (op_buf seq) (encode_ops t p) (ss_send_buf st)\<rparr>)"
  using assms
  by (cases "p = []") (simp_all add: encode_ops_def send_step_def run_schedule_simps)

lemma run_fetch:
  "i < length (ss_threads st) \<Longrightarrow> ss_threads st ! i = (seq, FetchSeq # ops) \<Longrightarrow>
   run_schedule (i # sched) st = run_schedule sched
     (st\<lparr>ss_threads := (ss_threads st)[i := (ss_seq_counter st, ops)],
         ss_drawn := ss_drawn st @ [ss_seq_counter st], ss_seq_counter := ss_seq_counter st + 1\<rparr>)"
  by (simp add: send_step_def run_schedule_simps)

lemma run_send:
  "i < length (ss_threads st) \<Longrightarrow> ss_threads st ! i = (seq, SendTo t p peer # ops) \<Longrightarrow>
   run_schedule (i # sched) st = run_schedule sched
     (st\<lparr>ss_threads := (ss_threads st)[i := (seq, ops)],
         ss_sent := ss_sent st @
           [((peer, take (length p + 11) (ss_send_buf st)), (peer, frame_bytes t seq p))]\<rparr>)"
  by (simp add: send_step_def run_schedule_simps)

text \<open>
  The schedule of the race: the first thread draws its number and encodes, then the second thread draws
  and encodes, then the first one sends what is in the buffer.
\<close>

definition race :: "u32 \<Rightarrow> bytes \<Rightarrow> u32 \<Rightarrow> bytes \<Rightarrow> nat list" where
  "race t p t' p' =
     0 # replicate (length (encode_ops t p)) 0 @ 1 # replicate (length (encode_ops t' p')) 1 @ [0]"

lemma race_sent:
  assumes "length buf = kMaxFrameBytes" and "length p \<le> 1400" and "length p' \<le> 1400"
  shows "ss_sent (run_schedule (race t p t' p')
      (send_start seq buf [[RawCall t p [peer]], RawCall t' p' [peer'] # calls])) =
    [((peer, take (length p + 11)
         (fold (op_buf (seq + 1)) (encode_ops t' p') (fold (op_buf seq) (encode_ops t p) buf))),
      (peer, frame_bytes t seq p))]"
  using assms
  by (simp add: race_def send_start_def publish_raw_ops_def kMaxPayloadBytes_def
      run_fetch run_encode run_send run_schedule_simps(1))

text \<open>The frame of a hole punch over a longer one is not a frame.\<close>

lemma punched_over:
  assumes "p \<noteq> []" and "length buf = kMaxFrameBytes" and "length p \<le> 1400"
  shows "decode_frame (take (length p + 11) (fold (op_buf seq) (encode_ops t' []) buf)) = Inl LengthMismatch"
proof -
  let ?h = "enc_RelinkHeader (frame_header t' seq 0)"
  let ?buf = "fold (op_buf seq) (encode_ops t' []) buf"
  have "take 11 ?buf = frame_bytes t' seq []" "length ?buf = kMaxFrameBytes"
    using take_encode [of buf "[]"] assms by simp_all
  then have eq: "take (length p + 11) ?buf = frame_bytes t' seq [] @ take (length p) (drop 11 ?buf)"
    by (metis add.commute take_add)
  have len: "length (take (length p) (drop 11 ?buf)) = length p"
    using \<open>length ?buf = kMaxFrameBytes\<close> assms(3) by (simp add: frame_consts)
  have "decode_frame (frame_bytes t' seq [] @ rest) = Inl LengthMismatch" if "rest \<noteq> []" for rest
    using that
    by (simp add: decode_frame_def Let_def frame_bytes_def sizeof_RelinkHeader_def bslice_def frame_header_def)
  then show ?thesis unfolding eq using len assms(1) by (metis length_0_conv)
qed

text \<open>
  C8: The buffer a message is encoded in belongs to the transport, not to the call, and nothing guards it.
  While the application publishes a message of 1 to 1400 bytes, a thread that punches a hole through the same
  transport can make it send a datagram no receiver accepts; and of two threads that publish messages of
  one length, the one can send the other's message, with its topic and number, to its own peer. The
  caller is told that its message went out.
\<close>

theorem publish_race_corrupts:
  assumes "length buf = kMaxFrameBytes" and "p \<noteq> []" and "length p \<le> 1400" and "length p' = length p"
  shows "(\<exists>sched actual. ss_sent (run_schedule sched
        (send_start seq buf [[RawCall t p [peer]], punch_calls peer'])) = [((peer, actual), (peer, frame_bytes t seq p))] \<and>
        length actual = length (frame_bytes t seq p) \<and> decode_frame actual = Inl LengthMismatch) \<and>
    (\<exists>sched. ss_sent (run_schedule sched
        (send_start seq buf [[RawCall t p [peer]], [RawCall t' p' [peer']]])) =
        [((peer, frame_bytes t' (seq + 1) p'), (peer, frame_bytes t seq p))])"
proof -
  let ?buf = "fold (op_buf seq) (encode_ops t p) buf"
  let ?actual = "take (length p + 11) (fold (op_buf (seq + 1)) (encode_ops kNatPunchTopicId []) ?buf)"
  have len: "length ?buf = kMaxFrameBytes" using take_encode(2) [OF assms(1,3)] .
  have "length (fold (op_buf (seq + 1)) (encode_ops kNatPunchTopicId []) ?buf) = kMaxFrameBytes"
    using take_encode(2) [OF len, of "[]"] by simp
  then have "length ?actual = length (frame_bytes t seq p)" using assms(3) by (simp add: frame_consts)
  moreover have "decode_frame ?actual = Inl LengthMismatch" using punched_over [OF assms(2) len assms(3)] .
  moreover have "punch_calls peer' = RawCall kNatPunchTopicId [] [peer'] # replicate 2 (RawCall kNatPunchTopicId [] [peer'])"
    by (simp add: punch_calls_def eval_nat_numeral)
  ultimately have "\<exists>sched actual. ss_sent (run_schedule sched
      (send_start seq buf [[RawCall t p [peer]], punch_calls peer'])) = [((peer, actual), (peer, frame_bytes t seq p))] \<and>
      length actual = length (frame_bytes t seq p) \<and> decode_frame actual = Inl LengthMismatch"
    using race_sent [OF assms(1,3), of "[]"] by (metis le0 list.size(3))
  moreover have "\<exists>sched. ss_sent (run_schedule sched
      (send_start seq buf [[RawCall t p [peer]], [RawCall t' p' [peer']]])) =
      [((peer, frame_bytes t' (seq + 1) p'), (peer, frame_bytes t seq p))]"
    using race_sent [OF assms(1,3), of p' t t' seq peer peer' "[]"] take_encode(1) [OF len, of p'] assms(3,4)
    by (metis (no_types, lifting))
  ultimately show ?thesis by simp
qed

theorem publish_race_corrupts_witness:
  "(\<exists>sched actual. ss_sent (run_schedule sched
       (send_start 5 (replicate kMaxFrameBytes 0) [[RawCall 7 [1, 2] [\<lparr>pa_ip = 1, pa_port = 2\<rparr>]],
          punch_calls \<lparr>pa_ip = 3, pa_port = 4\<rparr>])) =
       [((\<lparr>pa_ip = 1, pa_port = 2\<rparr>, actual), (\<lparr>pa_ip = 1, pa_port = 2\<rparr>, frame_bytes 7 5 [1, 2]))] \<and>
       length actual = length (frame_bytes 7 5 [1, 2]) \<and> decode_frame actual = Inl LengthMismatch) \<and>
   (\<exists>sched. ss_sent (run_schedule sched
       (send_start 5 (replicate kMaxFrameBytes 0) [[RawCall 7 [1, 2] [\<lparr>pa_ip = 1, pa_port = 2\<rparr>]],
          [RawCall 8 [3, 4] [\<lparr>pa_ip = 3, pa_port = 4\<rparr>]]])) =
       [((\<lparr>pa_ip = 1, pa_port = 2\<rparr>, frame_bytes 8 (5 + 1) [3, 4]),
         (\<lparr>pa_ip = 1, pa_port = 2\<rparr>, frame_bytes 7 5 [1, 2]))])"
  by (rule publish_race_corrupts) simp_all

end
