(* ===== verification/Node_Lifetime.thy ===== *)
theory Node_Lifetime
  imports Local_Ipc
begin

text \<open>
  The threads of a node and its destructor, \<^verbatim>\<open>cpp/include/relink/relink.hpp\<close> with the stop functions of
  \<^verbatim>\<open>udp_transport.hpp\<close> and \<^verbatim>\<open>multicast_discovery.hpp\<close>: which threads a started node has, which members
  of the node each of them touches between its looks at its stop flag, the body of \<^verbatim>\<open>~RelinkNode\<close>, and the
  destruction of the members, last declared first, that the language adds after the body. The steps of
  the threads and of the destructor interleave freely. What the threads compute is in \<open>Relink_Node\<close> and
  \<open>Local_Ipc\<close>; here a turn of a thread is the list of its accesses.
\<close>

section \<open>Threads, flags and members\<close>

datatype thread =
    Repunch | Rereg | Keepalive | InitialPunch | PunchBatch nat | ShmPoll
  | BeaconSender | BeaconListener | DataThread tref

datatype stop_flag =
    RepunchStop | ReregStop | RelayStop | StopRequested | DiscoveryStop | TransportStop tref

datatype member =
    SetRlcore | ShmMutex | ShmRings | ShmHandlers | ShmSeq | LocalIpcCandidates | ShmPollThread
  | StateMutex | DeclaredTopics | AdvertisedTopics | SubscribedTopics | Peers | TopicNames
  | ImageReassemblers | CompressedImageReassemblers | StartMutex | StopRequestedFlag | Transport | Mcast
  | TopicPairId | TopicTransports | TopicRoute | RepunchInterval | RepunchStopFlag | RepunchThread
  | RlcoreGroups | RlcoreSelfIp | ReregisterInterval | ReregisterStopFlag | ReregisterThread
  | InitialPunchThread | PunchThreadsMutex | PunchThreads | RelayAddress | RelayStopFlag | RelayKeepaliveThread

text \<open>The members in the order of their declarations.\<close>

definition declared_members :: "member list" where
  "declared_members =
     [SetRlcore, ShmMutex, ShmRings, ShmHandlers, ShmSeq, LocalIpcCandidates, ShmPollThread,
      StateMutex, DeclaredTopics, AdvertisedTopics, SubscribedTopics, Peers, TopicNames,
      ImageReassemblers, CompressedImageReassemblers, StartMutex, StopRequestedFlag, Transport, Mcast,
      TopicPairId, TopicTransports, TopicRoute, RepunchInterval, RepunchStopFlag, RepunchThread,
      RlcoreGroups, RlcoreSelfIp, ReregisterInterval, ReregisterStopFlag, ReregisterThread,
      InitialPunchThread, PunchThreadsMutex, PunchThreads, RelayAddress, RelayStopFlag, RelayKeepaliveThread]"

fun owner :: "tref \<Rightarrow> member" where
  "owner Shared = Transport"
| "owner (Dedicated key) = TopicTransports"

fun flag_member :: "stop_flag \<Rightarrow> member" where
  "flag_member RepunchStop = RepunchStopFlag"
| "flag_member ReregStop = ReregisterStopFlag"
| "flag_member RelayStop = RelayStopFlag"
| "flag_member StopRequested = StopRequestedFlag"
| "flag_member DiscoveryStop = Mcast"
| "flag_member (TransportStop r) = owner r"

text \<open>The flag of a thread that loops; the others run once.\<close>

fun flag_of :: "thread \<Rightarrow> stop_flag option" where
  "flag_of Repunch = Some RepunchStop"
| "flag_of Rereg = Some ReregStop"
| "flag_of Keepalive = Some RelayStop"
| "flag_of ShmPoll = Some StopRequested"
| "flag_of BeaconSender = Some DiscoveryStop"
| "flag_of BeaconListener = Some DiscoveryStop"
| "flag_of (DataThread r) = Some (TransportStop r)"
| "flag_of InitialPunch = None"
| "flag_of (PunchBatch i) = None"

section \<open>A turn of a thread\<close>

text \<open>
  A look at a stop flag, which ends the thread when the flag is set: every loop of a thread but the outer
  one is left by the same flag as the outer one. A use of a member, a wait, and the start of a thread that
  punches holes.
\<close>

datatype instr = Test stop_flag | Use member | Pause | Spawn "tref list"

text \<open>
  What a turn works on: the transports that targets are punched or registered through; the groups of a tick
  of re-registration, each with what came of it; the rings of a pass, and whether one held a message; the
  peers that a beacon revealed, each with whether it is on this host; or a query for topic names. An access
  that is made under a condition on the data, and leaves the rest of the turn as it is, is listed. The first beacons
  of the sender touch what its later ones touch, and the callbacks of the application, which run on the
  data and poll threads, are taken not to touch the node.
\<close>

datatype group_outcome = AllSatisfied | NoAnswer | Learned "tref list"

datatype work =
    Vias "tref list" | Groups "(tref \<times> group_outcome) list" | Rings nat bool | Discovered "(tref \<times> bool) list"
  | NameQuery

fun vias_of :: "work \<Rightarrow> tref list" where
  "vias_of (Vias ts) = ts"
| "vias_of _ = []"

fun groups_of :: "work \<Rightarrow> (tref \<times> group_outcome) list" where
  "groups_of (Groups gs) = gs"
| "groups_of _ = []"

definition punch :: "tref \<Rightarrow> instr list" where
  "punch via = concat (replicate 3 [Use (owner via), Pause])"

definition punch_burst :: "tref list \<Rightarrow> instr list" where
  "punch_burst vias = concat (map punch vias)"

definition rereg_group_turn :: "tref \<Rightarrow> group_outcome \<Rightarrow> instr list" where
  "rereg_group_turn r outcome =
     [Test ReregStop, Use StateMutex, Use AdvertisedTopics, Use SubscribedTopics, Use SetRlcore, Use (owner r),
      Use StateMutex, Use Peers] @
     (case outcome of
        AllSatisfied \<Rightarrow> []
      | NoAnswer \<Rightarrow> [Use SetRlcore, Use (owner r), Pause]
      | Learned newly_discovered \<Rightarrow>
          [Use SetRlcore, Use (owner r), Pause, Use StateMutex, Use Peers] @
          (if newly_discovered = [] then []
           else [Use PunchThreadsMutex, Use PunchThreads, Spawn newly_discovered]))"

definition discovered_turn :: "tref \<Rightarrow> bool \<Rightarrow> instr list" where
  "discovered_turn via shm_capable =
     [Use Mcast, Use StateMutex, Use Peers, Use TopicRoute] @
     (if shm_capable then [Use ShmMutex, Use LocalIpcCandidates] else []) @ punch via"

fun turn :: "thread \<Rightarrow> work \<Rightarrow> instr list" where
  "turn Repunch w =
     [Test RepunchStop, Use RepunchInterval, Pause, Test RepunchStop, Use StateMutex, Use Peers, Use TopicRoute] @
     concat (map (\<lambda>via. Test RepunchStop # punch via) (vias_of w))"
| "turn Rereg w =
     [Test ReregStop, Use ReregisterInterval, Pause, Test ReregStop,
      Use StateMutex, Use RlcoreGroups, Use RlcoreSelfIp,
      Use StateMutex, Use TopicNames, Use SetRlcore, Use Transport] @
     concat (map (\<lambda>(r, outcome). rereg_group_turn r outcome) (groups_of w))"
| "turn Keepalive w =
     [Test RelayStop, Pause, Test RelayStop] @
     concat (map (\<lambda>r. [Use RelayAddress, Use (owner r)]) (vias_of w))"
| "turn ShmPoll w =
     [Test StopRequested, Use ShmMutex, Use ShmHandlers, Use ShmRings] @
     (case w of
        Rings k delivered \<Rightarrow>
          concat (replicate k [Use ShmMutex, Use ShmHandlers, Use ShmRings]) @ (if delivered then [] else [Pause])
      | _ \<Rightarrow> [Pause])"
| "turn BeaconSender w = [Test DiscoveryStop, Pause, Test DiscoveryStop, Use Mcast]"
| "turn BeaconListener w =
     [Test DiscoveryStop, Use Mcast, Pause] @
     (case w of
        NameQuery \<Rightarrow> [Use StateMutex, Use TopicNames, Use Mcast]
      | Discovered ps \<Rightarrow> concat (map (\<lambda>(via, shm_capable). discovered_turn via shm_capable) ps)
      | _ \<Rightarrow> [])"
| "turn (DataThread r) w = [Test (TransportStop r), Use (owner r), Pause, Use (owner r)]"
| "turn InitialPunch w = []"
| "turn (PunchBatch i) w = []"

section \<open>The destructor\<close>

datatype main_op = Raise stop_flag | Join thread | JoinBatches | Destroy member

definition destructor_body :: "main_op list" where
  "destructor_body =
     [Raise RepunchStop, Join Repunch,
      Raise ReregStop, Join Rereg,
      Raise RelayStop, Join Keepalive,
      Join InitialPunch,
      JoinBatches,
      Raise StopRequested, Join ShmPoll]"

definition stop_transport :: "tref \<Rightarrow> 'h UdpTransport \<Rightarrow> main_op list" where
  "stop_transport r t = (if ut_running t then [Raise (TransportStop r), Join (DataThread r)] else [])"

definition stop_discovery :: "MulticastDiscovery option \<Rightarrow> main_op list" where
  "stop_discovery m =
     (case m of
        None \<Rightarrow> []
      | Some d \<Rightarrow> if dc_running d then [Raise DiscoveryStop, Join BeaconSender, Join BeaconListener] else [])"

fun destroy :: "'c RelinkNode \<Rightarrow> member \<Rightarrow> main_op list" where
  "destroy n Transport = stop_transport Shared (nd_transport n) @ [Destroy Transport]"
| "destroy n TopicTransports =
     concat (map (\<lambda>(key, t). stop_transport (Dedicated key) t) (nd_topic_transports n)) @ [Destroy TopicTransports]"
| "destroy n Mcast = stop_discovery (nd_mcast n) @ [Destroy Mcast]"
| "destroy n m = [Destroy m]"

definition destructor :: "'c RelinkNode \<Rightarrow> main_op list" where
  "destructor n = destructor_body @ concat (map (destroy n) (rev declared_members))"

section \<open>Steps\<close>

datatype thread_state = NotJoinable | Running "instr list" | Ended

datatype lifetime_fault = UseAfterDestroy thread member | Terminate thread

record lifetime =
  lf_flags :: "stop_flag list"
  lf_threads :: "thread \<Rightarrow> thread_state"
  lf_batches :: nat
  lf_main :: "main_op list"
  lf_destroyed :: "member list"
  lf_faults :: "lifetime_fault list"

fun accesses :: "instr \<Rightarrow> member list" where
  "accesses (Test f) = [flag_member f]"
| "accesses (Use m) = [m]"
| "accesses Pause = []"
| "accesses (Spawn vias) = []"

fun is_running :: "thread_state \<Rightarrow> bool" where
  "is_running (Running is) = True"
| "is_running s = False"

definition do_instr :: "thread \<Rightarrow> instr \<Rightarrow> instr list \<Rightarrow> lifetime \<Rightarrow> lifetime" where
  "do_instr t i is st =
     (let st = st\<lparr>lf_faults := lf_faults st @
            map (UseAfterDestroy t) (filter (\<lambda>m. m \<in> set (lf_destroyed st)) (accesses i))\<rparr>
      in case i of
           Test f \<Rightarrow> st\<lparr>lf_threads := (lf_threads st)(t := if f \<in> set (lf_flags st) then Ended else Running is)\<rparr>
         | Spawn vias \<Rightarrow>
             st\<lparr>lf_threads := (lf_threads st)(t := Running is, PunchBatch (lf_batches st) := Running (punch_burst vias)),
                lf_batches := Suc (lf_batches st)\<rparr>
         | _ \<Rightarrow> st\<lparr>lf_threads := (lf_threads st)(t := Running is)\<rparr>)"

definition thread_step :: "thread \<Rightarrow> work \<Rightarrow> lifetime \<Rightarrow> lifetime" where
  "thread_step t w st =
     (case lf_threads st t of
        Running [] \<Rightarrow>
          st\<lparr>lf_threads := (lf_threads st)(t := if flag_of t = None then Ended else Running (turn t w))\<rparr>
      | Running (i # is) \<Rightarrow> do_instr t i is st
      | _ \<Rightarrow> st)"

text \<open>The \<^verbatim>\<open>std::thread\<close> objects that a member holds: destroying one that is joinable ends the process.\<close>

definition threads_of :: "'c RelinkNode \<Rightarrow> nat \<Rightarrow> member \<Rightarrow> thread list" where
  "threads_of n batches m =
     (case m of
        ShmPollThread \<Rightarrow> [ShmPoll] | RepunchThread \<Rightarrow> [Repunch] | ReregisterThread \<Rightarrow> [Rereg]
      | InitialPunchThread \<Rightarrow> [InitialPunch] | PunchThreads \<Rightarrow> map PunchBatch [0..<batches]
      | RelayKeepaliveThread \<Rightarrow> [Keepalive] | Mcast \<Rightarrow> [BeaconSender, BeaconListener]
      | Transport \<Rightarrow> [DataThread Shared]
      | TopicTransports \<Rightarrow> map (DataThread \<circ> Dedicated \<circ> fst) (nd_topic_transports n)
      | _ \<Rightarrow> [])"

definition batches_running :: "lifetime \<Rightarrow> bool" where
  "batches_running st \<longleftrightarrow> list_ex (\<lambda>i. is_running (lf_threads st (PunchBatch i))) [0..<lf_batches st]"

definition is_batch :: "thread \<Rightarrow> bool" where
  "is_batch t = (case t of PunchBatch i \<Rightarrow> True | _ \<Rightarrow> False)"

definition main_step :: "'c RelinkNode \<Rightarrow> lifetime \<Rightarrow> lifetime" where
  "main_step n st =
     (case lf_main st of
        [] \<Rightarrow> st
      | Raise f # ops \<Rightarrow> st\<lparr>lf_flags := f # lf_flags st, lf_main := ops\<rparr>
      | Join t # ops \<Rightarrow>
          if is_running (lf_threads st t) then st
          else st\<lparr>lf_threads := (lf_threads st)(t := NotJoinable), lf_main := ops\<rparr>
      | JoinBatches # ops \<Rightarrow>
          if batches_running st then st
          else st\<lparr>lf_threads := (\<lambda>t. if is_batch t then NotJoinable else lf_threads st t), lf_main := ops\<rparr>
      | Destroy m # ops \<Rightarrow>
          st\<lparr>lf_destroyed := m # lf_destroyed st, lf_main := ops,
             lf_faults := lf_faults st @
               map Terminate (filter (\<lambda>t. lf_threads st t \<noteq> NotJoinable) (threads_of n (lf_batches st) m))\<rparr>)"

inductive life_step :: "'c RelinkNode \<Rightarrow> lifetime \<Rightarrow> lifetime \<Rightarrow> bool" for n where
  thread: "life_step n st (thread_step t w st)"
| main: "life_step n st (main_step n st)"

section \<open>The node as its destructor finds it\<close>

text \<open>The threads that \<^verbatim>\<open>ensure_started\<close> and \<^verbatim>\<open>subscribe_local_ipc\<close> left; \<open>burst\<close> is what the initial punch works on.\<close>

definition node_threads :: "'c RelinkNode \<Rightarrow> tref list \<Rightarrow> thread list" where
  "node_threads n burst =
     (if nd_started n then
        (if burst = [] then [] else [InitialPunch]) @
        (if nd_repunch_enabled n then [Repunch] else []) @
        (if nd_mode n = ModeRlCore then [Rereg] else []) @
        (if nd_relay_enabled n then [Keepalive] else [])
      else []) @
     (case nd_mcast n of None \<Rightarrow> [] | Some d \<Rightarrow> if dc_running d then [BeaconSender, BeaconListener] else []) @
     (if ut_running (nd_transport n) then [DataThread Shared] else []) @
     map (\<lambda>(key, t). DataThread (Dedicated key)) (filter (\<lambda>(key, t). ut_running t) (nd_topic_transports n)) @
     (if nd_shm_poll_started n then [ShmPoll] else [])"

definition life_start :: "'c RelinkNode \<Rightarrow> tref list \<Rightarrow> lifetime" where
  "life_start n burst =
     \<lparr>lf_flags = [],
      lf_threads = (\<lambda>t. if t \<in> set (node_threads n burst)
                        then Running (if t = InitialPunch then punch_burst burst else []) else NotJoinable),
      lf_batches = 0, lf_main = destructor n, lf_destroyed = [], lf_faults = []\<rparr>"

abbreviation life_reaches :: "'c RelinkNode \<Rightarrow> lifetime \<Rightarrow> lifetime \<Rightarrow> bool" where
  "life_reaches n \<equiv> (life_step n)\<^sup>*\<^sup>*"


section \<open>What a thread needs\<close>

text \<open>The members that a thread may touch, and the one that holds it: they must outlive it.\<close>

fun needs :: "thread \<Rightarrow> member list" where
  "needs Repunch = [RepunchStopFlag, RepunchInterval, StateMutex, Peers, TopicRoute, Transport, TopicTransports, RepunchThread]"
| "needs Rereg =
     [ReregisterStopFlag, ReregisterInterval, StateMutex, RlcoreGroups, RlcoreSelfIp, TopicNames, SetRlcore,
      Transport, TopicTransports, AdvertisedTopics, SubscribedTopics, Peers, PunchThreadsMutex, PunchThreads,
      ReregisterThread]"
| "needs Keepalive = [RelayStopFlag, RelayAddress, Transport, TopicTransports, RelayKeepaliveThread]"
| "needs InitialPunch = [Transport, TopicTransports, InitialPunchThread]"
| "needs (PunchBatch i) = [Transport, TopicTransports, PunchThreads]"
| "needs ShmPoll = [StopRequestedFlag, ShmMutex, ShmHandlers, ShmRings, ShmPollThread]"
| "needs BeaconSender = [Mcast]"
| "needs BeaconListener =
     [Mcast, StateMutex, Peers, TopicRoute, ShmMutex, LocalIpcCandidates, TopicNames, Transport, TopicTransports]"
| "needs (DataThread r) = [owner r]"

text \<open>The instructions of a thread: its own members, its own flag, and new threads from re-registration only.\<close>

fun allowed :: "thread \<Rightarrow> instr \<Rightarrow> bool" where
  "allowed t (Test f) \<longleftrightarrow> flag_of t = Some f \<and> flag_member f \<in> set (needs t)"
| "allowed t (Use m) \<longleftrightarrow> m \<in> set (needs t)"
| "allowed t Pause \<longleftrightarrow> True"
| "allowed t (Spawn vias) \<longleftrightarrow> t = Rereg"

lemma owner_cases: "owner r = Transport \<or> owner r = TopicTransports"
  by (cases r) simp_all

lemma allowed_punch:
  "Transport \<in> set (needs t) \<Longrightarrow> TopicTransports \<in> set (needs t) \<Longrightarrow> list_all (allowed t) (punch via)"
  using owner_cases [of via] by (auto simp: punch_def eval_nat_numeral)

lemma allowed_burst:
  "Transport \<in> set (needs t) \<Longrightarrow> TopicTransports \<in> set (needs t) \<Longrightarrow> list_all (allowed t) (punch_burst vias)"
  using allowed_punch by (auto simp: punch_burst_def list_all_iff)

lemma allowed_concat: "list_all (allowed t) (concat xss) \<longleftrightarrow> list_all (list_all (allowed t)) xss"
  by (induction xss) auto

lemma allowed_owner: "Transport \<in> set (needs t) \<Longrightarrow> TopicTransports \<in> set (needs t) \<Longrightarrow> owner r \<in> set (needs t)"
  using owner_cases [of r] by auto

lemma allowed_group_turn: "list_all (allowed Rereg) (rereg_group_turn r outcome)"
  using owner_cases [of r] by (auto simp: rereg_group_turn_def split: group_outcome.split)

lemma allowed_discovered_turn: "list_all (allowed BeaconListener) (discovered_turn via shm)"
  by (simp add: discovered_turn_def allowed_punch)

lemma allowed_turn: "list_all (allowed t) (turn t w)"
proof (cases t)
  case Repunch
  have "list_all (list_all (allowed Repunch)) (map (\<lambda>via. Test RepunchStop # punch via) vs)" for vs
    by (induction vs) (simp_all add: allowed_punch)
  then show ?thesis using Repunch by (simp add: allowed_concat)
next
  case Rereg
  have "list_all (list_all (allowed Rereg)) (map (\<lambda>(r, outcome). rereg_group_turn r outcome) gs)" for gs
    by (induction gs) (auto simp: allowed_group_turn)
  then show ?thesis using Rereg by (simp add: allowed_concat)
next
  case Keepalive
  have "list_all (list_all (allowed Keepalive)) (map (\<lambda>r. [Use RelayAddress, Use (owner r)]) vs)" for vs
    using owner_cases by (induction vs) auto
  then show ?thesis using Keepalive by (simp add: allowed_concat)
next
  case ShmPoll
  have "list_all (list_all (allowed ShmPoll)) (replicate k [Use ShmMutex, Use ShmHandlers, Use ShmRings])" for k
    by (induction k) simp_all
  then show ?thesis using ShmPoll by (simp add: allowed_concat split: work.split)
next
  case BeaconListener
  have "list_all (list_all (allowed BeaconListener)) (map (\<lambda>(via, shm). discovered_turn via shm) ps)" for ps
    by (induction ps) (auto simp: allowed_discovered_turn)
  then show ?thesis using BeaconListener by (simp add: allowed_concat split: work.split)
qed simp_all

section \<open>The order of the destructor\<close>

text \<open>\<open>before P Q ops\<close>: an operation of \<open>P\<close> comes before every one of \<open>Q\<close>.\<close>

fun before :: "(main_op \<Rightarrow> bool) \<Rightarrow> (main_op \<Rightarrow> bool) \<Rightarrow> main_op list \<Rightarrow> bool" where
  "before P Q [] \<longleftrightarrow> False"
| "before P Q (op # ops) \<longleftrightarrow> P op \<or> \<not> Q op \<and> before P Q ops"

lemma before_append:
  "before P Q (ops @ ops') \<longleftrightarrow> before P Q ops \<or> list_all (\<lambda>op. \<not> Q op) ops \<and> before P Q ops'"
  by (induction ops) auto

definition destroys :: "member list \<Rightarrow> main_op \<Rightarrow> bool" where
  "destroys ms op \<longleftrightarrow> (\<exists>m \<in> set ms. op = Destroy m)"

lemma destroys_simps [simp]:
  "\<not> destroys ms (Raise f)" "\<not> destroys ms (Join t)" "\<not> destroys ms JoinBatches"
  "destroys ms (Destroy m) \<longleftrightarrow> m \<in> set ms"
  by (auto simp: destroys_def)

lemma no_destroy_in_stops [simp]:
  "list_all (\<lambda>op. \<not> destroys ms op) (stop_transport r t)"
  "list_all (\<lambda>op. \<not> destroys ms op) (stop_discovery d)"
  "list_all (\<lambda>op. \<not> destroys ms op) (concat (map (\<lambda>(key, t). stop_transport (Dedicated key) t) ts))"
  by (auto simp: stop_transport_def stop_discovery_def list_all_iff split: option.splits)

text \<open>The threads whose members the destructor joins them before it destroys.\<close>

definition joined_first :: "main_op list \<Rightarrow> thread \<Rightarrow> bool" where
  "joined_first ops t \<longleftrightarrow>
     before (\<lambda>op. op = (if is_batch t then JoinBatches else Join t)) (destroys (needs t)) ops"

lemmas destructor_unfold =
  destructor_def destructor_body_def declared_members_def joined_first_def is_batch_def

lemma body_joined_first:
  "t \<in> {Repunch, Rereg, Keepalive, InitialPunch, ShmPoll} \<Longrightarrow> joined_first (destructor n) t"
  "joined_first (destructor n) (PunchBatch i)"
  "before (\<lambda>op. op = Join Rereg) (\<lambda>op. op = JoinBatches) (destructor n)"
  by (auto simp: destructor_unfold)

lemma transport_joined_first:
  "ut_running (nd_transport n) \<Longrightarrow> joined_first (destructor n) (DataThread Shared)"
  by (simp add: destructor_unfold before_append stop_transport_def [of Shared])

lemma topic_transport_joined_first:
  assumes "(key, t) \<in> set (nd_topic_transports n)" and "ut_running t"
  shows "joined_first (destructor n) (DataThread (Dedicated key))"
proof -
  have "before (\<lambda>op. op = Join (DataThread (Dedicated key))) (destroys [TopicTransports])
      (concat (map (\<lambda>(key, t). stop_transport (Dedicated key) t) ts))" if "(key, t) \<in> set ts" for ts
    using that assms(2) by (induction ts) (auto simp: before_append stop_transport_def)
  from this [OF assms(1)] show ?thesis by (simp add: destructor_unfold before_append)
qed


section \<open>Invariants of every run\<close>

text \<open>Each joinable thread that the destructor joins in time still has all its members.\<close>

definition alive :: "lifetime \<Rightarrow> thread \<Rightarrow> bool" where
  "alive st t \<longleftrightarrow> lf_threads st t \<noteq> NotJoinable"

definition code_ok :: "lifetime \<Rightarrow> bool" where
  "code_ok st \<longleftrightarrow> (\<forall>t is. lf_threads st t = Running is \<longrightarrow> list_all (allowed t) is)"

definition batches_ok :: "lifetime \<Rightarrow> bool" where
  "batches_ok st \<longleftrightarrow> (\<forall>i. alive st (PunchBatch i) \<longrightarrow> i < lf_batches st) \<and>
     (alive st Rereg \<longrightarrow> before (\<lambda>op. op = Join Rereg) (\<lambda>op. op = JoinBatches) (lf_main st))"

definition secured :: "lifetime \<Rightarrow> thread \<Rightarrow> bool" where
  "secured st t \<longleftrightarrow> joined_first (lf_main st) t \<and> set (needs t) \<inter> set (lf_destroyed st) = {}"

definition secure :: "lifetime \<Rightarrow> bool" where
  "secure st \<longleftrightarrow> lf_faults st = [] \<and> code_ok st \<and> batches_ok st \<and>
     (\<forall>t. alive st t \<or> alive st Rereg \<and> is_batch t \<longrightarrow> secured st t)"

lemma needs_batch: "is_batch t \<Longrightarrow> needs t = [Transport, TopicTransports, PunchThreads]"
  by (cases t) (simp_all add: is_batch_def)

lemma allowed_accesses: "allowed t i \<Longrightarrow> set (accesses i) \<subseteq> set (needs t)"
  by (cases i) simp_all

lemma is_batch_simps [simp]:
  "is_batch (PunchBatch i)" "\<not> is_batch Rereg"
  by (simp_all add: is_batch_def)

lemma code_okD:
  "code_ok st \<Longrightarrow> lf_threads st t = Running (i # rest) \<Longrightarrow> allowed t i"
  "code_ok st \<Longrightarrow> lf_threads st t = Running (i # rest) \<Longrightarrow> list_all (allowed t) rest"
  unfolding code_ok_def by (metis list.pred_inject(2))+

lemma code_ok_thread_step:
  assumes "code_ok st"
  shows "code_ok (thread_step t w st)"
proof (cases "lf_threads st t")
  case (Running rs)
  have upd: "code_ok (st\<lparr>lf_threads := (lf_threads st)(t := s), lf_faults := fs\<rparr>)"
    if "\<And>xs. s = Running xs \<Longrightarrow> list_all (allowed t) xs" for s fs
    using assms that by (auto simp: code_ok_def)
  show ?thesis
  proof (cases rs)
    case Nil
    then show ?thesis
      using upd [of "if flag_of t = None then Ended else Running (turn t w)" "lf_faults st"] Running
      by (auto simp: thread_step_def allowed_turn split: if_splits)
  next
    case (Cons i rest)
    then have rest: "list_all (allowed t) rest" using assms Running code_okD(2) by metis
    have burst: "list_all (allowed (PunchBatch k)) (punch_burst vs)" for k vs by (simp add: allowed_burst)
    show ?thesis
      using upd [of Ended] upd [of "Running rest"] rest assms Running Cons burst
      by (cases i) (auto simp: thread_step_def do_instr_def Let_def code_ok_def)
  qed
qed (use assms in \<open>simp_all add: thread_step_def\<close>)

lemma code_ok_main_step: "code_ok st \<Longrightarrow> code_ok (main_step n st)"
  by (auto simp: code_ok_def main_step_def split: list.splits main_op.splits)

lemma alive_thread_step:
  assumes "code_ok st" and "alive (thread_step t w st) u"
  shows "alive st u \<or> alive st Rereg \<and> u = PunchBatch (lf_batches st) \<and> lf_batches (thread_step t w st) = Suc (lf_batches st)"
proof (cases "lf_threads st t")
  case (Running rs)
  show ?thesis
  proof (cases rs)
    case (Cons i rest)
    have "allowed t i" using assms(1) Running Cons by (simp add: code_okD)
    then show ?thesis
      using assms(2) Running Cons
      by (auto simp: alive_def thread_step_def do_instr_def Let_def split: instr.splits if_splits)
  qed (use assms(2) Running in \<open>auto simp: alive_def thread_step_def split: if_splits\<close>)
qed (use assms(2) in \<open>auto simp: thread_step_def\<close>)

lemma thread_step_keeps [simp]:
  "lf_main (thread_step t w st) = lf_main st" "lf_destroyed (thread_step t w st) = lf_destroyed st"
  "lf_flags (thread_step t w st) = lf_flags st"
  by (simp_all add: thread_step_def do_instr_def Let_def split: thread_state.split list.split instr.split)

lemma batches_mono: "lf_batches st \<le> lf_batches (thread_step t w st)"
  by (auto simp: thread_step_def do_instr_def Let_def split: thread_state.split list.split instr.split)

lemma secured_thread_step [simp]: "secured (thread_step t w st) u = secured st u"
  by (simp add: secured_def)

lemma faults_thread_step:
  assumes "code_ok st" and "alive st t \<Longrightarrow> set (needs t) \<inter> set (lf_destroyed st) = {}"
  shows "lf_faults (thread_step t w st) = lf_faults st"
proof (cases "lf_threads st t")
  case (Running rs)
  show ?thesis
  proof (cases rs)
    case (Cons i rest)
    have "set (accesses i) \<subseteq> set (needs t)"
      using assms(1) Running Cons by (simp add: allowed_accesses code_okD)
    then have "filter (\<lambda>m. m \<in> set (lf_destroyed st)) (accesses i) = []"
      using assms(2) Running by (auto simp: alive_def filter_empty_conv)
    then show ?thesis using Running Cons by (auto simp: thread_step_def do_instr_def Let_def split: instr.split)
  qed (use Running in \<open>simp add: thread_step_def\<close>)
qed (simp_all add: thread_step_def)

lemma secure_thread_step:
  assumes "secure st"
  shows "secure (thread_step t w st)"
proof -
  note al = alive_thread_step [of st t w]
  have code: "code_ok st" and b: "batches_ok st"
    and sec: "\<And>u. alive st u \<or> alive st Rereg \<and> is_batch u \<Longrightarrow> secured st u"
    using assms by (auto simp: secure_def)
  have "lf_faults (thread_step t w st) = []"
    using assms faults_thread_step [OF code] sec by (auto simp: secure_def secured_def)
  moreover have rereg: "alive (thread_step t w st) Rereg \<Longrightarrow> alive st Rereg"
    using al [of Rereg] code by auto
  moreover have "batches_ok (thread_step t w st)"
    using b al code rereg batches_mono [of st t w] unfolding batches_ok_def
    by (metis le_trans lessI less_le_trans thread.inject(1) thread_step_keeps(1))
  moreover have "secured (thread_step t w st) u"
    if "alive (thread_step t w st) u \<or> alive (thread_step t w st) Rereg \<and> is_batch u" for u
    using that sec al [of u] code rereg by auto
  ultimately show ?thesis using code_ok_thread_step [OF code] by (simp add: secure_def)
qed

lemma joined_first_tail:
  "joined_first (op # ops) t \<Longrightarrow> op \<noteq> (if is_batch t then JoinBatches else Join t) \<Longrightarrow> joined_first ops t"
  by (auto simp: joined_first_def)

lemma joined_first_head: "joined_first (Destroy m # ops) t \<Longrightarrow> m \<notin> set (needs t)"
  by (auto simp: joined_first_def split: if_splits)

lemma threads_of_needs: "t \<in> set (threads_of n b m) \<Longrightarrow> m \<in> set (needs t)"
  by (cases m) (auto simp: threads_of_def)

text \<open>A step of the destructor: what is left of the order for the threads that are still joinable.\<close>

lemma secure_next:
  assumes st: "secure st" and main: "lf_main st = op # ops" "lf_main st' = ops"
    and same: "lf_faults st' = []" "code_ok st'" "lf_batches st' = lf_batches st"
    and threads: "\<And>u. alive st' u \<Longrightarrow> alive st u \<and> op \<noteq> (if is_batch u then JoinBatches else Join u)"
      "alive st' Rereg \<Longrightarrow> op \<noteq> JoinBatches"
    and destroyed: "\<And>u. alive st u \<or> alive st Rereg \<and> is_batch u \<Longrightarrow> set (needs u) \<inter> set (lf_destroyed st') = {}"
  shows "secure st'"
proof -
  have "batches_ok st'"
    using st main same(3) threads(1) threads(1) [of Rereg] threads(2)
    by (auto simp: secure_def batches_ok_def)
  moreover have "secured st' u" if "alive st' u \<or> alive st' Rereg \<and> is_batch u" for u
  proof -
    have old: "alive st u \<or> alive st Rereg \<and> is_batch u" using that threads(1) by auto
    moreover have "op \<noteq> (if is_batch u then JoinBatches else Join u)"
      using that threads(1) [of u] threads(2) by auto
    ultimately show ?thesis
      using st main destroyed [OF old] joined_first_tail unfolding secure_def secured_def by metis
  qed
  ultimately show ?thesis using same by (simp add: secure_def)
qed

lemma secure_main_step:
  assumes "secure st"
  shows "secure (main_step n st)"
proof (cases "lf_main st")
  case (Cons op ops)
  have code: "code_ok (main_step n st)" and b: "batches_ok st" and faults: "lf_faults st = []"
    and sec: "\<And>u. alive st u \<or> alive st Rereg \<and> is_batch u \<Longrightarrow> secured st u"
    using assms code_ok_main_step by (auto simp: secure_def)
  have disjoint: "\<And>u. alive st u \<or> alive st Rereg \<and> is_batch u \<Longrightarrow> set (needs u) \<inter> set (lf_destroyed st) = {}"
    using sec by (simp add: secured_def)
  note next_st = secure_next [OF assms Cons _ _ code]
  show ?thesis
  proof (cases op)
    case (Raise f)
    show ?thesis by (rule next_st) (use Cons Raise faults disjoint in \<open>auto simp: main_step_def alive_def\<close>)
  next
    case (Join t)
    show ?thesis
    proof (cases "is_running (lf_threads st t)")
      case False
      show ?thesis
        by (rule next_st) (use Cons Join False faults disjoint in \<open>auto simp: main_step_def alive_def split: if_splits\<close>)
    qed (use assms Cons Join in \<open>simp add: main_step_def\<close>)
  next
    case JoinBatches
    then have "\<not> alive st Rereg" using b Cons by (auto simp: batches_ok_def)
    show ?thesis
    proof (cases "batches_running st")
      case False
      show ?thesis
        by (rule next_st)
          (use Cons JoinBatches False faults disjoint \<open>\<not> alive st Rereg\<close> in
            \<open>auto simp: main_step_def alive_def split: if_splits\<close>)
    qed (use assms Cons JoinBatches in \<open>simp add: main_step_def\<close>)
  next
    case (Destroy m)
    have safe: "m \<notin> set (needs u)" if "alive st u \<or> alive st Rereg \<and> is_batch u" for u
      using sec [OF that] Cons Destroy by (auto simp: secured_def dest: joined_first_head)
    then have none: "filter (\<lambda>t. lf_threads st t \<noteq> NotJoinable) (threads_of n (lf_batches st) m) = []"
      using threads_of_needs by (fastforce simp: filter_empty_conv alive_def)
    show ?thesis
      by (rule next_st) (use Cons Destroy faults disjoint safe none in \<open>auto simp: main_step_def alive_def\<close>)
  qed
qed (use assms in \<open>simp add: main_step_def\<close>)

lemma secure_reaches: "life_reaches n st st' \<Longrightarrow> secure st \<Longrightarrow> secure st'"
  by (induction rule: rtranclp_induct) (auto elim!: life_step.cases simp: secure_thread_step secure_main_step)


section \<open>Without multicast discovery\<close>

lemma start_threads:
  assumes "nd_mcast n = None" and "t \<in> set (node_threads n burst)"
  shows "joined_first (destructor n) t"
proof -
  from assms consider "t \<in> {Repunch, Rereg, Keepalive, InitialPunch, ShmPoll}"
    | "t = DataThread Shared" "ut_running (nd_transport n)"
    | key tr where "t = DataThread (Dedicated key)" "(key, tr) \<in> set (nd_topic_transports n)" "ut_running tr"
    unfolding node_threads_def by (auto split: if_splits)
  then show ?thesis
    by cases (simp_all add: body_joined_first(1) transport_joined_first topic_transport_joined_first)
qed

lemma secure_start:
  assumes "nd_mcast n = None"
  shows "secure (life_start n burst)"
proof -
  have "PunchBatch i \<notin> set (node_threads n burst)" for i
    by (auto simp: node_threads_def split: option.splits)
  moreover have "joined_first (destructor n) t" if "is_batch t" for t
    using that body_joined_first(2) by (cases t) (simp_all add: is_batch_def)
  moreover have "code_ok (life_start n burst)"
    using allowed_burst [of InitialPunch burst] by (auto simp: code_ok_def life_start_def)
  ultimately show ?thesis
    using start_threads [OF assms] body_joined_first(3) [of n]
    by (auto simp: secure_def batches_ok_def alive_def secured_def life_start_def split: if_splits)
qed

text \<open>
  C6: Destroying a node that does not use multicast discovery is safe at any moment and under any
  interleaving with its threads, those started while the destructor runs included: no thread touches a
  member after its destruction, and no \<^verbatim>\<open>std::thread\<close> is destroyed while it can still be joined.
\<close>

theorem destructor_safe:
  assumes "nd_mcast n = None" and "life_reaches n (life_start n burst) st"
  shows "lf_faults st = []"
  using secure_reaches [OF assms(2) secure_start [OF assms(1)]] by (simp add: secure_def)

definition busy_node :: "nat RelinkNode" where
  "busy_node = RelinkNode_init\<lparr>nd_started := True, nd_mode := ModeRlCore, nd_repunch_enabled := True,
     nd_transport := UdpTransport_init\<lparr>ut_running := True\<rparr>\<rparr>"

theorem destructor_safe_witness:
  "lf_faults (main_step busy_node (thread_step Rereg (Groups []) (life_start busy_node [Shared]))) = []"
proof (rule destructor_safe)
  show "nd_mcast busy_node = None" by (simp add: busy_node_def RelinkNode_init_def)
  show "life_reaches busy_node (life_start busy_node [Shared])
      (main_step busy_node (thread_step Rereg (Groups []) (life_start busy_node [Shared])))"
    by (meson life_step.main life_step.thread rtranclp.rtrancl_into_rtrancl rtranclp.rtrancl_refl)
qed

section \<open>With multicast discovery\<close>

text \<open>The destructor runs through operations that wait for no thread.\<close>

definition no_wait :: "lifetime \<Rightarrow> main_op \<Rightarrow> bool" where
  "no_wait st op \<longleftrightarrow>
     (case op of
        Join t \<Rightarrow> lf_threads st t = NotJoinable
      | JoinBatches \<Rightarrow> \<forall>i. lf_threads st (PunchBatch i) = NotJoinable
      | _ \<Rightarrow> True)"

lemma no_wait_step:
  assumes "lf_main st = op # ops" and "no_wait st op"
  shows "lf_main (main_step n st) = ops \<and> lf_threads (main_step n st) = lf_threads st \<and>
    set (lf_destroyed (main_step n st)) = {m. op = Destroy m} \<union> set (lf_destroyed st) \<and>
    set (lf_flags (main_step n st)) = {f. op = Raise f} \<union> set (lf_flags st)"
proof -
  have batch: "is_batch t \<longleftrightarrow> (\<exists>i. t = PunchBatch i)" for t by (cases t) (simp_all add: is_batch_def)
  have "(\<lambda>t. if is_batch t then NotJoinable else lf_threads st t) = lf_threads st"
    if "\<forall>i. lf_threads st (PunchBatch i) = NotJoinable" using that by (auto simp: batch fun_eq_iff)
  then show ?thesis
    using assms by (cases op) (auto simp: main_step_def no_wait_def batches_running_def list_ex_iff)
qed

lemma main_prefix:
  "lf_main st = pre @ ops \<Longrightarrow> list_all (no_wait st) pre \<Longrightarrow>
   \<exists>st'. life_reaches n st st' \<and> lf_main st' = ops \<and> lf_threads st' = lf_threads st \<and>
     set (lf_destroyed st') = {m. Destroy m \<in> set pre} \<union> set (lf_destroyed st) \<and>
     set (lf_flags st') = {f. Raise f \<in> set pre} \<union> set (lf_flags st)"
proof (induction pre arbitrary: st)
  case (Cons op pre)
  let ?st = "main_step n st"
  from Cons.prems have st: "lf_main ?st = pre @ ops" "lf_threads ?st = lf_threads st"
    "set (lf_destroyed ?st) = {m. op = Destroy m} \<union> set (lf_destroyed st)"
    "set (lf_flags ?st) = {f. op = Raise f} \<union> set (lf_flags st)"
    using no_wait_step [of st op "pre @ ops" n] by simp_all
  then have "no_wait ?st = no_wait st" by (simp add: no_wait_def fun_eq_iff split: main_op.split)
  with Cons.IH [OF st(1)] Cons.prems(2) obtain st' where
    "life_reaches n ?st st'" "lf_main st' = ops" "lf_threads st' = lf_threads ?st"
    "set (lf_destroyed st') = {m. Destroy m \<in> set pre} \<union> set (lf_destroyed ?st)"
    "set (lf_flags st') = {f. Raise f \<in> set pre} \<union> set (lf_flags ?st)" by auto
  then show ?case
    using st converse_rtranclp_into_rtranclp [of "life_step n" st ?st st'] life_step.main [of n st]
    by (intro exI [of _ st']) auto
qed auto

definition listener_node :: "'c RelinkNode \<Rightarrow> bool" where
  "listener_node n \<longleftrightarrow> (\<exists>d. nd_mcast n = Some d \<and> dc_running d) \<and> nd_mode n = ModeMulticast \<and>
     \<not> nd_repunch_enabled n \<and> \<not> nd_relay_enabled n \<and> \<not> nd_shm_poll_started n"

text \<open>
  C17: With multicast discovery it is not safe. The listener is joined by the destructor of the discovery
  object, which the node declares before its route table and its dedicated transports, so those are
  destroyed while the listener still runs: if a beacon of a new peer arrives in that window, the
  listener looks the topic up in the destroyed table.
\<close>

theorem multicast_listener_outlives_routes:
  assumes "listener_node n"
  shows "\<exists>st. life_reaches n (life_start n []) st \<and>
     UseAfterDestroy BeaconListener TopicRoute \<in> set (lf_faults st)"
proof -
  let ?s = "life_start n []"
  let ?pre = "destructor_body @ map Destroy
    [RelayKeepaliveThread, RelayStopFlag, RelayAddress, PunchThreads, PunchThreadsMutex, InitialPunchThread,
     ReregisterThread, ReregisterStopFlag, ReregisterInterval, RlcoreSelfIp, RlcoreGroups, RepunchThread,
     RepunchStopFlag, RepunchInterval, TopicRoute]"
  let ?ops = "concat (map (destroy n) (drop 15 (rev declared_members)))"
  have idle: "lf_threads ?s t = NotJoinable"
    if "t \<in> {Repunch, Rereg, Keepalive, InitialPunch, ShmPoll} \<or> is_batch t" for t
    using that assms by (cases t) (auto simp: listener_node_def life_start_def node_threads_def is_batch_def)
  have run: "lf_threads ?s BeaconListener = Running []"
    using assms by (auto simp: listener_node_def life_start_def node_threads_def)
  have "lf_main ?s = ?pre @ ?ops" by (simp add: life_start_def destructor_def declared_members_def)
  moreover have "list_all (no_wait ?s) ?pre" by (simp add: no_wait_def destructor_body_def idle)
  ultimately obtain st where st: "life_reaches n ?s st" "lf_threads st = lf_threads ?s"
    "set (lf_destroyed st) = {m. Destroy m \<in> set ?pre}" "set (lf_flags st) = {f. Raise f \<in> set ?pre}"
    using main_prefix [of ?s ?pre ?ops n] by (auto simp: life_start_def)
  let ?turn = "turn BeaconListener (Discovered [(Shared, False)])"
  let ?go = "thread_step BeaconListener (Discovered [(Shared, False)])"
  have reach: "life_reaches n st ((?go ^^ k) st)" for k
    by (induction k) (auto intro: rtranclp.rtrancl_into_rtrancl life_step.thread)
  have "DiscoveryStop \<notin> set (lf_flags st)" "TopicRoute \<in> set (lf_destroyed st)"
    using st by (auto simp: destructor_body_def)
  then have "UseAfterDestroy BeaconListener TopicRoute \<in> set (lf_faults ((?go ^^ 8) st))"
    using st(2) run
    by (simp add: eval_nat_numeral thread_step_def do_instr_def Let_def discovered_turn_def)
  then show ?thesis using reach st(1) by (meson rtranclp_trans)
qed


definition beacon_node :: "nat RelinkNode" where
  "beacon_node = RelinkNode_init\<lparr>nd_started := True, nd_mode := ModeMulticast,
     nd_mcast := Some (dc_start (MulticastDiscovery_ctor (multicast_config 1 2 [(Shared, [7])] (RelinkNode_init :: nat RelinkNode))))\<rparr>"

theorem multicast_listener_outlives_routes_witness:
  "\<exists>st. life_reaches beacon_node (life_start beacon_node []) st \<and>
     UseAfterDestroy BeaconListener TopicRoute \<in> set (lf_faults st)"
  by (rule multicast_listener_outlives_routes)
     (simp add: listener_node_def beacon_node_def RelinkNode_init_def dc_start_def)

section \<open>The destructor returns\<close>

text \<open>Every thread that is joined was told to stop before, if it loops.\<close>

fun stops_ok :: "stop_flag set \<Rightarrow> main_op list \<Rightarrow> bool" where
  "stops_ok F [] \<longleftrightarrow> True"
| "stops_ok F (Raise f # ops) \<longleftrightarrow> stops_ok (insert f F) ops"
| "stops_ok F (Join t # ops) \<longleftrightarrow> set_option (flag_of t) \<subseteq> F \<and> stops_ok F ops"
| "stops_ok F (JoinBatches # ops) \<longleftrightarrow> stops_ok F ops"
| "stops_ok F (Destroy m # ops) \<longleftrightarrow> stops_ok F ops"

lemma stops_ok_mono: "stops_ok F ops \<Longrightarrow> F \<subseteq> F' \<Longrightarrow> stops_ok F' ops"
  by (induction F ops arbitrary: F' rule: stops_ok.induct) (simp_all, blast+)

lemma stops_ok_append: "stops_ok F ops \<Longrightarrow> stops_ok F ops' \<Longrightarrow> stops_ok F (ops @ ops')"
proof (induction F ops rule: stops_ok.induct)
  case (2 F f ops)
  then show ?case using stops_ok_mono [of F ops' "insert f F"] by auto
qed simp_all

lemma stops_ok_stop:
  "stops_ok F (stop_transport r t)" "stops_ok F (stop_discovery d)"
  "stops_ok F (concat (map (\<lambda>(key, t). stop_transport (Dedicated key) t) ts))"
proof -
  show t: "stops_ok F (stop_transport r t)" for r t by (simp add: stop_transport_def)
  show "stops_ok F (stop_discovery d)" by (simp add: stop_discovery_def split: option.split)
  show "stops_ok F (concat (map (\<lambda>(key, t). stop_transport (Dedicated key) t) ts))"
    by (induction ts) (auto simp: stops_ok_append t)
qed

lemma stops_ok_destroy: "stops_ok F (destroy n m)"
  by (cases m) (simp_all add: stops_ok_append stops_ok_stop)

lemma stops_ok_destructor: "stops_ok F (destructor n)"
proof -
  have "stops_ok F (concat (map (destroy n) ms))" for ms
    by (induction ms) (simp_all add: stops_ok_append stops_ok_destroy)
  then show ?thesis unfolding destructor_def
    by (intro stops_ok_append) (simp_all add: destructor_body_def)
qed

definition stoppable :: "lifetime \<Rightarrow> bool" where
  "stoppable st \<longleftrightarrow> code_ok st \<and> stops_ok (set (lf_flags st)) (lf_main st)"

lemma stoppable_thread_step: "stoppable st \<Longrightarrow> stoppable (thread_step t w st)"
  by (simp add: stoppable_def code_ok_thread_step)

lemma stoppable_main_step: "stoppable st \<Longrightarrow> stoppable (main_step n st)"
  using code_ok_main_step [of st n]
  by (auto simp: stoppable_def main_step_def split: list.split main_op.split)

lemma stoppable_reaches: "life_reaches n st st' \<Longrightarrow> stoppable st \<Longrightarrow> stoppable st'"
  by (induction rule: rtranclp_induct)
     (auto elim!: life_step.cases simp: stoppable_thread_step stoppable_main_step)

lemma turn_head: "flag_of t = Some f \<Longrightarrow> \<exists>rs. turn t w = Test f # rs"
  by (cases t) (auto split: work.split)

lemma life_thread_trans:
  "life_reaches n (thread_step t w st) st' \<Longrightarrow> life_reaches n st st'"
  using life_step.thread by (metis converse_rtranclp_into_rtranclp)

text \<open>
  A thread that was told to stop ends after at most two steps more than its turn has instructions left,
  whatever the others do; only re-registration starts other threads meanwhile.
\<close>

lemma thread_step_others:
  "code_ok st \<Longrightarrow> t \<noteq> Rereg \<Longrightarrow>
   lf_batches (thread_step t w st) = lf_batches st \<and>
   (\<forall>u. u \<noteq> t \<longrightarrow> lf_threads (thread_step t w st) u = lf_threads st u)"
  using code_okD(1) [of st t]
  by (auto simp: thread_step_def do_instr_def Let_def split: thread_state.split list.split instr.split)

lemma thread_step_instr:
  assumes "lf_threads st t = Running (i # rs)"
  shows "lf_threads (thread_step t w st) t = Ended \<or> lf_threads (thread_step t w st) t = Running rs \<or>
    t = PunchBatch (lf_batches st)"
  using assms by (auto simp: thread_step_def do_instr_def Let_def split: instr.split)

definition same_for_others :: "thread \<Rightarrow> lifetime \<Rightarrow> lifetime \<Rightarrow> bool" where
  "same_for_others t st st' \<longleftrightarrow> lf_main st' = lf_main st \<and> lf_flags st' = lf_flags st \<and> code_ok st' \<and>
     (t \<noteq> Rereg \<longrightarrow> lf_batches st' = lf_batches st \<and> (\<forall>u. u \<noteq> t \<longrightarrow> lf_threads st' u = lf_threads st u))"

lemma same_for_others_step: "code_ok st \<Longrightarrow> same_for_others t st (thread_step t w st)"
  using thread_step_others [of st t w] by (simp add: same_for_others_def code_ok_thread_step)

lemma same_for_others_trans: "same_for_others t s1 s2 \<Longrightarrow> same_for_others t s2 s3 \<Longrightarrow> same_for_others t s1 s3"
  by (auto simp: same_for_others_def)

lemma drain:
  "code_ok st \<Longrightarrow> set_option (flag_of t) \<subseteq> set (lf_flags st) \<Longrightarrow> lf_threads st t = Running rs \<Longrightarrow>
   \<exists>st'. life_reaches n st st' \<and> \<not> is_running (lf_threads st' t) \<and> same_for_others t st st'"
proof (induction rs arbitrary: st)
  case Nil
  show ?case
  proof (cases "flag_of t")
    case None
    then have "\<not> is_running (lf_threads (thread_step t NameQuery st) t)"
      using Nil by (simp add: thread_step_def)
    then show ?thesis
      using same_for_others_step [OF Nil(1)] life_step.thread by (metis r_into_rtranclp)
  next
    case (Some f)
    let ?s1 = "thread_step t NameQuery st" and ?s2 = "thread_step t NameQuery (thread_step t NameQuery st)"
    obtain rs where "turn t NameQuery = Test f # rs" using turn_head [OF Some] by blast
    then have "\<not> is_running (lf_threads ?s2 t)"
      using Nil(2,3) Some by (simp add: thread_step_def do_instr_def Let_def)
    moreover have "same_for_others t st ?s2"
      using Nil(1) code_ok_thread_step same_for_others_step same_for_others_trans by metis
    moreover have "life_reaches n st ?s2" by (blast intro: life_thread_trans)
    ultimately show ?thesis by blast
  qed
next
  case (Cons i rs)
  let ?s1 = "thread_step t NameQuery st"
  have same: "same_for_others t st ?s1" by (rule same_for_others_step [OF Cons.prems(1)])
  have "\<not> is_running (lf_threads ?s1 t) \<or> lf_threads ?s1 t = Running rs"
    using Cons.prems(1,3) code_okD(1) [OF Cons.prems(1,3)]
    by (cases i) (auto simp: thread_step_def do_instr_def Let_def)
  then show ?case
  proof
    assume "\<not> is_running (lf_threads ?s1 t)"
    then show ?thesis using same life_step.thread by (metis r_into_rtranclp)
  next
    assume "lf_threads ?s1 t = Running rs"
    then obtain st' where "life_reaches n ?s1 st'" "\<not> is_running (lf_threads st' t)" "same_for_others t ?s1 st'"
      using Cons.IH [of ?s1] Cons.prems(1,2) code_ok_thread_step by fastforce
    then show ?thesis using same same_for_others_trans life_thread_trans by blast
  qed
qed

lemma drain_thread:
  assumes "code_ok st" and "set_option (flag_of t) \<subseteq> set (lf_flags st)"
  shows "\<exists>st'. life_reaches n st st' \<and> \<not> is_running (lf_threads st' t) \<and> same_for_others t st st'"
proof (cases "lf_threads st t")
  case (Running rs)
  then show ?thesis using drain [OF assms] by blast
qed (use assms in \<open>auto simp: same_for_others_def intro!: exI [of _ st]\<close>)

lemma drain_batches:
  assumes "code_ok st"
  shows "\<exists>st'. life_reaches n st st' \<and> (\<forall>i < k. \<not> is_running (lf_threads st' (PunchBatch i))) \<and>
    lf_main st' = lf_main st \<and> lf_flags st' = lf_flags st \<and> lf_batches st' = lf_batches st \<and> code_ok st'"
proof (induction k)
  case (Suc k)
  then obtain st1 where st1: "life_reaches n st st1" "\<forall>i < k. \<not> is_running (lf_threads st1 (PunchBatch i))"
    "lf_main st1 = lf_main st" "lf_flags st1 = lf_flags st" "lf_batches st1 = lf_batches st" "code_ok st1" by blast
  obtain st2 where "life_reaches n st1 st2" "\<not> is_running (lf_threads st2 (PunchBatch k))"
    "same_for_others (PunchBatch k) st1 st2"
    using drain_thread [OF st1(6), of "PunchBatch k" n] by auto
  with st1 show ?case
    by (intro exI [of _ st2]) (auto simp: same_for_others_def less_Suc_eq)
qed (use assms in blast)

lemma life_main_trans: "life_reaches n st st' \<Longrightarrow> life_reaches n st (main_step n st')"
  using life_step.main by (metis rtranclp.rtrancl_into_rtrancl)

lemma next_main:
  assumes "stoppable st" and "lf_main st = op # ops"
  shows "\<exists>st'. life_reaches n st st' \<and> lf_main st' = ops"
proof -
  have code: "code_ok st" using assms by (simp add: stoppable_def)
  consider t where "op = Join t" | "op = JoinBatches" | f where "op = Raise f" | m where "op = Destroy m"
    by (cases op)
  then show ?thesis
  proof cases
    case (1 t)
    then have "set_option (flag_of t) \<subseteq> set (lf_flags st)" using assms by (simp add: stoppable_def)
    from drain_thread [OF code this] obtain st1 where
      "life_reaches n st st1" "\<not> is_running (lf_threads st1 t)" "lf_main st1 = Join t # ops"
      using assms 1 by (auto simp: same_for_others_def)
    then show ?thesis
      using life_main_trans [of n st st1] by (intro exI [of _ "main_step n st1"]) (simp add: main_step_def)
  next
    case 2
    from drain_batches [OF code, of n "lf_batches st"] obtain st1 where
      "life_reaches n st st1" "\<not> batches_running st1" "lf_main st1 = JoinBatches # ops"
      using assms 2 by (auto simp: batches_running_def list_ex_iff)
    then show ?thesis
      using life_main_trans [of n st st1] by (intro exI [of _ "main_step n st1"]) (simp add: main_step_def)
  qed (use assms in \<open>auto simp: main_step_def intro!: exI [of _ "main_step n st"] r_into_rtranclp life_step.main\<close>)
qed

text \<open>
  C16: The destructor cannot get stuck, in any discovery mode: from every state that its steps and those of
  the threads reach, it can still run to its end, because each thread it waits for was told to stop before
  and ends within its turn, and the threads it waits for hold nothing that the destructor would have to
  give up first.
\<close>

theorem destructor_never_stuck:
  assumes "life_reaches n (life_start n burst) st"
  shows "\<exists>st'. life_reaches n st st' \<and> lf_main st' = []"
proof -
  have finish: "stoppable st \<Longrightarrow> \<exists>st'. life_reaches n st st' \<and> lf_main st' = []" for st
  proof (induction "length (lf_main st)" arbitrary: st)
    case 0
    then show ?case by auto
  next
    case (Suc k)
    then obtain op ops where main: "lf_main st = op # ops" by (cases "lf_main st") auto
    from next_main [OF Suc.prems main, of n] obtain st1 where
      st1: "life_reaches n st st1" "lf_main st1 = ops" by blast
    with Suc main stoppable_reaches have "k = length (lf_main st1)" "stoppable st1" by auto
    from Suc.hyps(1) [OF this] st1(1) show ?case by (meson rtranclp_trans)
  qed
  have "stoppable (life_start n burst)"
    using allowed_burst [of InitialPunch burst] stops_ok_destructor
    by (auto simp: stoppable_def code_ok_def life_start_def)
  then show ?thesis using finish stoppable_reaches [OF assms] by blast
qed


theorem destructor_never_stuck_witness:
  "\<exists>st'. life_reaches busy_node (main_step busy_node (life_start busy_node [Shared])) st' \<and> lf_main st' = []"
  by (rule destructor_never_stuck [where burst = "[Shared]"]) (rule r_into_rtranclp, rule life_step.main)

section \<open>Spinning\<close>

text \<open>
  \<^verbatim>\<open>spin\<close>: after the start, one wait of 20 ms for every reading of the stop flag that is false; \<open>None\<close> when
  the readings given end before one that is true.
\<close>

fun spin_loop :: "bool list \<Rightarrow> nat option" where
  "spin_loop [] = None"
| "spin_loop (stop # stops) = (if stop then Some 0 else map_option Suc (spin_loop stops))"

definition spin ::
  "node_env \<Rightarrow> bool list \<Rightarrow> 'c RelinkNode \<Rightarrow>
   NodeError + ('c RelinkNode \<times> datagram list \<times> (tref \<times> PeerAddr) list) \<times> nat option" where
  "spin env stops n = ebind (ensure_started env n) (\<lambda>r. Inr (r, spin_loop stops))"

end
