(* ===== verification/Image_Delivery.thy ===== *)
theory Image_Delivery
  imports Relink_Node
begin

text \<open>
  The way of an image from one node to another: \<^verbatim>\<open>publish_image\<close> and \<^verbatim>\<open>publish_compressed_image\<close> of
  \<^verbatim>\<open>relink.hpp\<close>, the frames they send, the data thread of a subscriber (\<^verbatim>\<open>run_loop\<close> of
  \<^verbatim>\<open>udp_transport.hpp\<close>) with its duplicate window, and the two reassemblers. What the two kinds of image
  share is proved once, in the locale \<open>chunked_topic\<close>.
\<close>

section \<open>The data thread over a sequence of datagrams\<close>

fun run_loop ::
  "tref \<Rightarrow> bytes list \<Rightarrow> 'c RelinkNode \<Rightarrow> MemFault + 'c delivery option list \<times> 'c RelinkNode" where
  "run_loop r [] m = Inr ([], m)"
| "run_loop r (d # ds) m =
     ebind (node_receive r (Some d) m) (\<lambda>(out, m).
     ebind (run_loop r ds m) (\<lambda>(outs, m). Inr (out # outs, m)))"

text \<open>
  What one frame of the topic does: it is suppressed, which is only possible if its number is in the
  window, or its payload is handed to the topic's handler.
\<close>

lemma node_receive_frame:
  assumes "ut_handlers (get_transport r m) topic = Some h" and "windows_wf (get_transport r m)"
    and "length p \<le> 1400"
  shows "\<exists>t. ut_handlers t = ut_handlers (get_transport r m) \<and> windows_wf t \<and>
    ut_relay_dedup_enabled t = ut_relay_dedup_enabled (get_transport r m) \<and>
    (ut_relay_dedup_enabled t \<longrightarrow>
       set (sw_list (window_of topic t)) \<subseteq> insert s (set (sw_list (window_of topic (get_transport r m))))) \<and>
    node_receive r (Some (frame_bytes topic s p)) m =
      (if ut_relay_dedup_enabled t \<and> s \<in> set (sw_list (window_of topic (get_transport r m)))
       then Inr (None, set_transport r t m) else run_handler h p (set_transport r t m))"
proof -
  let ?t = "get_transport r m"
  obtain dup t1 where d: "is_recent_duplicate topic s ?t = (dup, t1)" by fastforce
  note e = is_recent_duplicate_eq [OF assms(2), of topic s, unfolded d fst_conv snd_conv]
  show ?thesis
  proof (cases "ut_relay_dedup_enabled ?t")
    case True
    have "set (sw_list (window_of topic t1)) \<subseteq> insert s (set (sw_list (window_of topic ?t)))"
      using e(2) sw_push_list [OF window_of_wf [OF assms(2), of topic], of s]
      by (auto dest: list.set_sel(2) [rotated] split: if_splits)
    then show ?thesis
      using e(1,3,4,5) True assms(1)
      by (intro exI [of _ t1]) (simp add: node_receive_def recv_frame_eq [OF assms(3)] d Let_def)
  next
    case False
    then show ?thesis
      using assms by (intro exI [of _ ?t]) (simp add: node_receive_def recv_frame_eq [OF assms(3)])
  qed
qed

text \<open>The numbers of the frames of one address are apart from each other as long as all frames of the
  image are at most 65536.\<close>

lemma seqs_apart:
  fixes c :: u16
  assumes "n * k \<le> 65536" and "j < k"
  shows "inj_on (\<lambda>i. c + word_of_nat (i * k + j)) {..<n}"
proof (rule inj_onI)
  fix x y
  assume x: "x \<in> {..<n}" and y: "y \<in> {..<n}"
    and eq: "c + word_of_nat (x * k + j) = c + word_of_nat (y * k + j)"
  have "i * k + j < 65536" if "i < n" for i
    using mult_le_mono1 [of "Suc i" n k] that assms by simp
  then have "unat (word_of_nat (i * k + j) :: u16) = i * k + j" if "i < n" for i
    using that by (simp only: unat_of_nat) simp
  moreover have "unat (word_of_nat (x * k + j) :: u16) = unat (word_of_nat (y * k + j) :: u16)"
    using eq by simp
  ultimately have "x * k + j = y * k + j" using x y by simp
  then show "x = y" using assms(2) by simp
qed

lemma seq_in_range: "i < n \<Longrightarrow> j < k \<Longrightarrow> i * k + j < n * k" for i j k n :: nat
  using mult_le_mono1 [of "Suc i" n k] by simp

section \<open>A topic that carries chunks\<close>

text \<open>
  A subscriber of chunks keeps a reassembler in its node, read by \<open>get\<close> and replaced by \<open>put\<close>. Its
  handler runs one step of it per payload and passes what it completes to the callback; what the first
  chunk stamped on the reassembler, \<open>stamp\<close>, is what completes with the image.
\<close>

locale chunked_topic = reassembler D data fid view out step
  for D :: nat and data :: bytes and fid :: u32 and view :: "'s \<Rightarrow> ImageReassembler"
    and out :: "'o \<Rightarrow> u32 \<times> bytes" and step :: "nat \<Rightarrow> 's \<Rightarrow> MemFault + 's \<times> 'o option" +
  fixes get :: "'c RelinkNode \<Rightarrow> 's" and put :: "'s \<Rightarrow> 'c RelinkNode \<Rightarrow> 'c RelinkNode"
    and present :: "'c RelinkNode \<Rightarrow> bool" and h :: "'c Handler" and payload :: "nat \<Rightarrow> bytes"
    and deliver :: "'o \<Rightarrow> 'c delivery" and stamp :: "'s \<Rightarrow> bool" and complete :: 'o
  assumes handled: "present m \<Longrightarrow> i < pieces D data \<Longrightarrow> run_handler h (payload i) m =
      ebind (step i (get m)) (\<lambda>(st, res). Inr (map_option deliver res, put st m))"
    and get_put: "present m \<Longrightarrow> get (put st m) = st"
    and present_put: "present m \<Longrightarrow> present (put st m)"
    and transport_put: "get_transport r (put st m) = get_transport r m"
    and get_transport: "get (set_transport r t m) = get m"
    and present_transport: "present (set_transport r t m) = present m"
    and payload_small: "i < pieces D data \<Longrightarrow> length (payload i) \<le> 1400"
    and stamped: "i < pieces D data \<Longrightarrow>
      (ir_in_progress (view st) \<and> ir_current_frame_id (view st) = fid \<Longrightarrow> stamp st) \<Longrightarrow>
      step i st = Inr (st', res) \<Longrightarrow> stamp st'"
    and completes: "i < pieces D data \<Longrightarrow>
      (ir_in_progress (view st) \<and> ir_current_frame_id (view st) = fid \<Longrightarrow> stamp st) \<Longrightarrow>
      step i st = Inr (st', Some x) \<Longrightarrow> out x = (fid, data) \<Longrightarrow> x = complete"
begin

text \<open>The state after the chunks with index in \<open>S\<close> have arrived; with none, any state that is not
  in the middle of this frame.\<close>

definition arrived :: "nat set \<Rightarrow> 's \<Rightarrow> bool" where
  "arrived S st \<longleftrightarrow>
     (if S = {} then \<not> (ir_in_progress (view st) \<and> ir_current_frame_id (view st) = fid)
      else seen fid S (view st) \<and> stamp st)"

lemma step_arrived:
  assumes a: "arrived S st" and i: "i < n"
  shows "\<exists>st'. step i st = Inr (st', if i \<notin> S \<and> insert i S = {..<n} then Some complete else None) \<and>
    (i \<notin> S \<and> insert i S = {..<n} \<or> arrived (insert i S) st')"
proof -
  have st: "stamp st" if "ir_in_progress (view st) \<and> ir_current_frame_id (view st) = fid"
    using a that by (auto simp: arrived_def split: if_splits)
  obtain st0 where st0: "seen fid S st0" "chunk fid i (view st) = chunk fid i st0"
    using a chunk_fresh [of "view st" fid i] by (cases "S = {}") (auto simp: arrived_def)
  obtain v res where step0: "chunk fid i (view st) = Inr (v, res)"
    and res: "res = (if i \<notin> S \<and> insert i S = {..<n} then Some (fid, data) else None)"
    and seen: "i \<notin> S \<and> insert i S = {..<n} \<or> seen fid (insert i S) v"
  proof (cases "i \<in> S")
    case True
    then show ?thesis using that chunk_again [OF st0(1) True] st0 by (simp add: insert_absorb)
  next
    case False
    obtain st1 where "chunk fid i st0 =
        (if insert i S = {..<n} then Inr (st1\<lparr>ir_in_progress := False\<rparr>, Some (fid, data)) else Inr (st1, None))"
      "seen fid (insert i S) st1"
      using chunk_new [OF st0(1) i False] by blast
    then show ?thesis
      using that [of "if insert i S = {..<n} then st1\<lparr>ir_in_progress := False\<rparr> else st1"] st0(2) False
      by (auto split: if_splits)
  qed
  have "map_sum id (map_prod view (map_option out)) (step i st) = Inr (v, res)"
    using step_view [OF i, of st] step0 by simp
  then obtain st' x where s: "step i st = Inr (st', x)" "view st' = v" "map_option out x = res"
    by (cases "step i st") auto
  have "stamp st'" by (rule stamped [OF i st s(1)])
  moreover have "x = map_option (\<lambda>_. complete) res"
    using s completes [OF i st, of st'] res by (cases x) (auto split: if_splits)
  ultimately show ?thesis
    using s seen res by (intro exI [of _ st']) (auto simp: arrived_def)
qed

text \<open>A subscriber that is ready for the rest of the frames: what it has recorded in the duplicate window
  of the topic are numbers of frames it has had, or of none of this image.\<close>

definition ready :: "tref \<Rightarrow> u32 \<Rightarrow> (nat \<Rightarrow> u16) \<Rightarrow> nat set \<Rightarrow> 'c RelinkNode \<Rightarrow> bool" where
  "ready r topic seq S m \<longleftrightarrow>
     present m \<and> arrived S (get m) \<and> ut_handlers (get_transport r m) topic = Some h \<and>
     windows_wf (get_transport r m) \<and>
     (ut_relay_dedup_enabled (get_transport r m) \<longrightarrow>
        inj_on seq {..<n} \<and> seq ` ({..<n} - S) \<inter> set (sw_list (window_of topic (get_transport r m))) = {})"

lemma receive_step:
  assumes rdy: "ready r topic seq S m" and i: "i < n"
  shows "\<exists>m'. node_receive r (Some (frame_bytes topic (seq i) (payload i))) m =
      Inr (if i \<notin> S \<and> insert i S = {..<n} then Some (deliver complete) else None, m') \<and>
    (i \<notin> S \<and> insert i S = {..<n} \<or> ready r topic seq (insert i S) m')"
proof -
  let ?T = "get_transport r m"
  have pre: "present m" "arrived S (get m)" "ut_handlers ?T topic = Some h" "windows_wf ?T"
    and inj: "ut_relay_dedup_enabled ?T \<Longrightarrow> inj_on seq {..<n}"
    and fresh: "ut_relay_dedup_enabled ?T \<Longrightarrow> seq ` ({..<n} - S) \<inter> set (sw_list (window_of topic ?T)) = {}"
    using rdy by (auto simp: ready_def)
  obtain t where t: "ut_handlers t = ut_handlers ?T" "windows_wf t"
    "ut_relay_dedup_enabled t = ut_relay_dedup_enabled ?T"
    and win: "ut_relay_dedup_enabled t \<Longrightarrow>
      set (sw_list (window_of topic t)) \<subseteq> insert (seq i) (set (sw_list (window_of topic ?T)))"
    and rec: "node_receive r (Some (frame_bytes topic (seq i) (payload i))) m =
      (if ut_relay_dedup_enabled t \<and> seq i \<in> set (sw_list (window_of topic ?T))
       then Inr (None, set_transport r t m) else run_handler h (payload i) (set_transport r t m))"
    using node_receive_frame [OF pre(3,4) payload_small [OF i], of "seq i"] by blast
  let ?m = "set_transport r t m"
  have still: "seq ` ({..<n} - insert i S) \<inter> set (sw_list (window_of topic t)) = {}" if on: "ut_relay_dedup_enabled t"
    using win [OF on] fresh inj i on t(3) by (fastforce simp: inj_on_def)
  show ?thesis
  proof (cases "ut_relay_dedup_enabled t \<and> seq i \<in> set (sw_list (window_of topic ?T))")
    case True
    then have iS: "i \<in> S" using fresh t(3) i by blast
    have "ready r topic seq S ?m"
      using pre t inj still iS by (simp add: ready_def present_transport get_transport insert_absorb)
    then show ?thesis using rec True iS by (simp add: insert_absorb)
  next
    case False
    obtain st' where st': "step i (get m) = Inr (st', if i \<notin> S \<and> insert i S = {..<n} then Some complete else None)"
      and arr: "i \<notin> S \<and> insert i S = {..<n} \<or> arrived (insert i S) st'"
      using step_arrived [OF pre(2) i] by blast
    have here: "present ?m" using pre(1) by (simp add: present_transport)
    have "run_handler h (payload i) ?m =
        Inr (if i \<notin> S \<and> insert i S = {..<n} then Some (deliver complete) else None, put st' ?m)"
      using handled [OF here i] st' by (simp add: get_transport)
    moreover have "ready r topic seq (insert i S) (put st' ?m)" if "arrived (insert i S) st'"
      using that pre t inj still here by (simp add: ready_def get_put present_put transport_put)
    ultimately show ?thesis using rec False arr by (metis (no_types))
  qed
qed

lemma run_loop_ready:
  assumes "ready r topic seq S m" and "set order \<subseteq> {..<n}" and "S \<noteq> {..<n}"
    and "S \<union> set order = {..<n}" and "S \<union> set (butlast order) \<noteq> {..<n}"
  shows "\<exists>m'. run_loop r (map (\<lambda>i. frame_bytes topic (seq i) (payload i)) order) m =
    Inr (replicate (length order - 1) None @ [Some (deliver complete)], m')"
  using assms
proof (induction order arbitrary: S m)
  case Nil
  then show ?case by simp
next
  case (Cons i js)
  have i: "i < n" using Cons.prems by simp
  obtain m1 where m1: "node_receive r (Some (frame_bytes topic (seq i) (payload i))) m =
      Inr (if i \<notin> S \<and> insert i S = {..<n} then Some (deliver complete) else None, m1)"
    and next_ready: "i \<notin> S \<and> insert i S = {..<n} \<or> ready r topic seq (insert i S) m1"
    using receive_step [OF Cons.prems(1) i] by blast
  show ?case
  proof (cases "insert i S = {..<n}")
    case True
    have iS: "i \<notin> S" using True Cons.prems(3) by (metis insert_absorb)
    have "js = []"
    proof (rule ccontr)
      assume ne: "js \<noteq> []"
      have "set (butlast js) \<subseteq> {..<n}" using Cons.prems(2) in_set_butlastD [of _ js] by auto
      then have "S \<union> set (butlast (i # js)) = {..<n}" using ne True by auto
      then show False using Cons.prems(5) by simp
    qed
    then show ?thesis using m1 True iS by simp
  next
    case False
    have js: "js \<noteq> []" using Cons.prems(4) False by (cases js) auto
    obtain m2 where "run_loop r (map (\<lambda>i. frame_bytes topic (seq i) (payload i)) js) m1 =
        Inr (replicate (length js - 1) None @ [Some (deliver complete)], m2)"
      using Cons.IH [of "insert i S" m1] next_ready False Cons.prems js by auto
    then show ?thesis
      using m1 False js by (auto simp: neq_Nil_conv)
  qed
qed

lemma run_loop_sent:
  assumes "present m" and "\<not> (ir_in_progress (view (get m)) \<and> ir_current_frame_id (view (get m)) = fid)"
    and "ut_handlers (get_transport r m) topic = Some h" and "windows_wf (get_transport r m)" and "j < k"
    and "ut_relay_dedup_enabled (get_transport r m) \<Longrightarrow> n * k \<le> 65536 \<and>
      (\<forall>q < n * k. c + word_of_nat q \<notin> set (sw_list (window_of topic (get_transport r m))))"
    and "set order = {..<n}" and "set (butlast order) \<noteq> {..<n}"
    and "fs = map (\<lambda>i. frame_bytes topic (c + word_of_nat (i * k + j)) (payload i)) [0..<n]"
  shows "\<exists>m'. run_loop r (map (\<lambda>i. fs ! i) order) m =
    Inr (replicate (length order - 1) None @ [Some (deliver complete)], m')"
proof -
  let ?seq = "\<lambda>i. c + word_of_nat (i * k + j)"
  have "inj_on ?seq {..<n} \<and> ?seq ` {..<n} \<inter> set (sw_list (window_of topic (get_transport r m))) = {}"
    if "ut_relay_dedup_enabled (get_transport r m)"
    using assms(6) [OF that] seqs_apart [OF _ assms(5), of n c] seq_in_range [OF _ assms(5), of _ n]
    by (auto simp del: of_nat_add of_nat_mult)
  then have "ready r topic ?seq {} m"
    using assms(1-4) by (simp add: ready_def arrived_def)
  moreover have "map (\<lambda>i. fs ! i) order = map (\<lambda>i. frame_bytes topic (?seq i) (payload i)) order"
    using assms(7) by (simp add: assms(9) subset_eq)
  ultimately show ?thesis
    using run_loop_ready [of r topic ?seq "{}" m order] assms(7,8) n_pos
    by (simp only: empty_subsetI Un_empty_left) (auto simp: lessThan_empty_iff)
qed

end

section \<open>What the publisher sends\<close>

text \<open>Either platform's scatter send.\<close>

definition platform_send ::
  "(datagram \<Rightarrow> int) \<Rightarrow> bool \<Rightarrow> bytes list \<Rightarrow> PeerAddr \<Rightarrow> int \<times> datagram list" where
  "platform_send sendto windows = (if windows then sendmsg_to_windows sendto else sendmsg_to_posix sendto)"

text \<open>The frames in a list of datagrams that go to one address, in order.\<close>

definition frames_to :: "PeerAddr \<Rightarrow> datagram list \<Rightarrow> bytes list" where
  "frames_to dest ds = map snd (filter (\<lambda>d. fst d = dest) ds)"

lemma frames_to_append [simp]: "frames_to dest (xs @ ys) = frames_to dest xs @ frames_to dest ys"
  and frames_to_Nil [simp]: "frames_to dest [] = []"
  by (simp_all add: frames_to_def)

lemma scattered_sends:
  assumes "length (wire c) \<le> 1400"
  shows "\<exists>ok. publish_scattered (platform_send sendto w) topic (fst c) (snd c) p t =
    (ok, [(p, frame_bytes topic (ut_seq_counter t) (wire c))], t\<lparr>ut_seq_counter := ut_seq_counter t + 1\<rparr>)"
proof -
  let ?f = "frame_bytes topic (ut_seq_counter t) (wire c)"
  have "length (concat (scatter_iov topic (ut_seq_counter t) (fst c) (snd c))) \<le> 1500"
    using assms by (simp add: scatter_iov_bytes wire_def)
  then have "platform_send sendto w (scatter_iov topic (ut_seq_counter t) (fst c) (snd c)) p =
      (sendto (p, ?f), [(p, ?f)])"
    by (simp add: platform_send_def sendmsg_same sendmsg_to_posix_def scatter_iov_bytes wire_def)
  then show ?thesis
    using assms by (simp add: publish_scattered_def next_seq_def wire_def frame_consts Let_def)
qed

lemma upt_first: "[0..<Suc k] = 0 # map Suc [0..<k]"
  by (simp add: map_Suc_upt upt_conv_Cons)

lemma chunk_sends:
  assumes "length (wire c) \<le> 1400"
  shows "\<exists>ok. publish_chunk (platform_send sendto w) topic c ps t =
    (ok, map (\<lambda>j. (ps ! j, frame_bytes topic (ut_seq_counter t + word_of_nat j) (wire c))) [0..<length ps],
     t\<lparr>ut_seq_counter := ut_seq_counter t + word_of_nat (length ps)\<rparr>)"
proof (induction ps arbitrary: t)
  case Nil
  then show ?case by (simp add: exI [of _ True])
next
  case (Cons p ps)
  obtain ok where one: "publish_scattered (platform_send sendto w) topic (fst c) (snd c) p t =
    (ok, [(p, frame_bytes topic (ut_seq_counter t) (wire c))], t\<lparr>ut_seq_counter := ut_seq_counter t + 1\<rparr>)"
    using scattered_sends [OF assms] by blast
  let ?t = "t\<lparr>ut_seq_counter := ut_seq_counter t + 1\<rparr>"
  obtain ok2 where rest: "publish_chunk (platform_send sendto w) topic c ps ?t =
    (ok2, map (\<lambda>j. (ps ! j, frame_bytes topic (ut_seq_counter ?t + word_of_nat j) (wire c))) [0..<length ps],
     ?t\<lparr>ut_seq_counter := ut_seq_counter ?t + word_of_nat (length ps)\<rparr>)"
    using Cons.IH [of ?t] by blast
  show ?case
    by (simp add: one rest comp_def add.assoc upt_first del: upt_Suc)
qed

lemma frames_to_nth:
  assumes "distinct ps" and "j < length ps"
  shows "frames_to (ps ! j) (map (\<lambda>j. (ps ! j, f j)) [0..<length ps]) = [f j]"
proof -
  have same: "filter (\<lambda>i. ps ! i = ps ! j) [0..<length ps] = filter (\<lambda>i. i = j) [0..<length ps]"
    using assms by (intro filter_cong) (auto simp: nth_eq_iff_index_eq)
  have "[0..<length ps] = [0..<j] @ j # [Suc j..<length ps]"
    using upt_add_eq_append [of 0 j "length ps - j"] upt_conv_Cons [OF assms(2)] assms(2) by simp
  then have "filter (\<lambda>i. i = j) [0..<length ps] = [j]"
    by (simp add: filter_empty_conv)
  with same show ?thesis by (simp add: frames_to_def filter_map comp_def)
qed


lemma chunks_send:
  assumes "distinct ps" and "j < length ps" and "\<forall>c \<in> set cs. length (wire c) \<le> 1400"
  shows "\<exists>ok out t'. publish_chunks (platform_send sendto w) topic cs ps t = (ok, out, t') \<and>
    frames_to (ps ! j) out =
      map (\<lambda>i. frame_bytes topic (ut_seq_counter t + word_of_nat (i * length ps + j)) (wire (cs ! i))) [0..<length cs]"
  using assms(3)
proof (induction cs arbitrary: t)
  case Nil
  then show ?case by (simp add: exI [of _ True])
next
  case (Cons c cs)
  let ?k = "length ps"
  let ?t = "t\<lparr>ut_seq_counter := ut_seq_counter t + word_of_nat ?k\<rparr>"
  let ?here = "map (\<lambda>j. (ps ! j, frame_bytes topic (ut_seq_counter t + word_of_nat j) (wire c))) [0..<?k]"
  obtain ok where one: "publish_chunk (platform_send sendto w) topic c ps t = (ok, ?here, ?t)"
    using chunk_sends [of c sendto w topic ps t] Cons.prems by auto
  obtain ok2 out t' where rest: "publish_chunks (platform_send sendto w) topic cs ps ?t = (ok2, out, t')"
    and to: "frames_to (ps ! j) out =
      map (\<lambda>i. frame_bytes topic (ut_seq_counter ?t + word_of_nat (i * ?k + j)) (wire (cs ! i))) [0..<length cs]"
    using Cons.IH [of ?t] Cons.prems by auto
  have here: "frames_to (ps ! j) ?here = [frame_bytes topic (ut_seq_counter t + word_of_nat j) (wire c)]"
    by (rule frames_to_nth [OF assms(1,2)])
  show ?case
    by (simp add: one rest here to comp_def add.assoc add.left_commute distrib_right upt_first del: upt_Suc)
qed

lemma chunk_frames:
  assumes "distinct ps" and "j < length ps" and "\<And>i. i < N \<Longrightarrow> length (wire (f i)) \<le> 1400"
  shows "\<exists>ok out t'. publish_chunks (platform_send sendto w) topic (map f [0..<N]) ps t = (ok, out, t') \<and>
    frames_to (ps ! j) out =
      map (\<lambda>i. frame_bytes topic (ut_seq_counter t + word_of_nat (i * length ps + j)) (wire (f i))) [0..<N]"
proof -
  let ?seq = "\<lambda>i. ut_seq_counter t + word_of_nat (i * length ps + j)"
  have same: "map (\<lambda>i. frame_bytes topic (?seq i) (wire (map f [0..<N] ! i))) [0..<length (map f [0..<N])] =
      map (\<lambda>i. frame_bytes topic (?seq i) (wire (f i))) [0..<N]"
    by simp
  have "\<forall>c \<in> set (map f [0..<N]). length (wire c) \<le> 1400" using assms(3) by simp
  from chunks_send [OF assms(1,2) this, of sendto w topic t] show ?thesis unfolding same .
qed

section \<open>Images\<close>

interpretation image_topic:
  chunked_topic 1390 "take (65535 * 1390) data" fid "\<lambda>st. st" "\<lambda>p. p"
    "\<lambda>i. image_topic_handler (wire (image_payload fid (take (65535 * 1390) data) i))"
    "\<lambda>m. nd_image_reassemblers m ! k"
    "\<lambda>st m. m\<lparr>nd_image_reassemblers := (nd_image_reassemblers m)[k := st]\<rparr>"
    "\<lambda>m. k < length (nd_image_reassemblers m)" "ImageHandler k cb"
    "\<lambda>i. wire (image_payload fid (take (65535 * 1390) data) i)"
    "\<lambda>(f, im). DeliverImage cb f im" "\<lambda>_. True" "(fid, take (65535 * 1390) data)"
  for data fid k cb
proof unfold_locales
  show "length (wire (image_payload fid (take (65535 * 1390) data) i)) \<le> 1400" for i
    by (simp add: wire_def image_payload_def Let_def chunk_data_bytes bslice_def)
qed (auto simp: run_handler_def get_transport_def set_transport_def split: tref.splits option.splits)

lemma compressed_payload_meta:
  assumes "i < pieces 1381 (take (65535 * 1381) data)"
    and "ir_in_progress (ImageReassembler.truncate st) \<and> ir_current_frame_id (ImageReassembler.truncate st) = fid \<Longrightarrow>
      cr_capture_timestamp_ns st = ts \<and> cr_quality st = q"
    and "compressed_image_topic_handler (wire (compressed_image_payload fid ts q (take (65535 * 1381) data) i)) st =
      Inr (st', res)"
  shows "(cr_capture_timestamp_ns st' = ts \<and> cr_quality st' = q) \<and>
    (\<forall>f im t r. res = Some (f, im, t, r) \<longrightarrow> t = ts \<and> r = q)"
proof -
  have "length (take (65535 * 1381) data) \<le> 65535 * 1381" by simp
  note step = assms(3) [unfolded compressed_payload_step [OF this assms(1)]]
  show ?thesis
    using compressed_meta [OF step] assms(2) by (simp add: ImageReassembler.defs)
qed

interpretation compressed_topic:
  chunked_topic 1381 "take (65535 * 1381) data" fid ImageReassembler.truncate "\<lambda>(f, im, t, q). (f, im)"
    "\<lambda>i. compressed_image_topic_handler (wire (compressed_image_payload fid ts q (take (65535 * 1381) data) i))"
    "\<lambda>m. nd_compressed_image_reassemblers m ! k"
    "\<lambda>st m. m\<lparr>nd_compressed_image_reassemblers := (nd_compressed_image_reassemblers m)[k := st]\<rparr>"
    "\<lambda>m. k < length (nd_compressed_image_reassemblers m)" "CompressedHandler k cb"
    "\<lambda>i. wire (compressed_image_payload fid ts q (take (65535 * 1381) data) i)"
    "\<lambda>(f, im, t, q). DeliverCompressed cb f im t q"
    "\<lambda>st. cr_capture_timestamp_ns st = ts \<and> cr_quality st = q" "(fid, take (65535 * 1381) data, ts, q)"
  for data fid ts q k cb
proof unfold_locales
  show "length (wire (compressed_image_payload fid ts q (take (65535 * 1381) data) i)) \<le> 1400" for i
    by (simp add: wire_def compressed_image_payload_def Let_def chunk_data_bytes bslice_def)
next
  fix i and st st' :: CompressedImageReassembler and res
  assume "i < pieces 1381 (take (65535 * 1381) data)"
    and "ir_in_progress (ImageReassembler.truncate st) \<and> ir_current_frame_id (ImageReassembler.truncate st) = fid \<Longrightarrow>
      cr_capture_timestamp_ns st = ts \<and> cr_quality st = q"
    and "compressed_image_topic_handler (wire (compressed_image_payload fid ts q (take (65535 * 1381) data) i)) st =
      Inr (st', res)"
  then show "cr_capture_timestamp_ns st' = ts \<and> cr_quality st' = q"
    by (rule compressed_payload_meta [THEN conjunct1])
next
  fix i and st st' :: CompressedImageReassembler and x
  assume i: "i < pieces 1381 (take (65535 * 1381) data)"
    and st: "ir_in_progress (ImageReassembler.truncate st) \<and> ir_current_frame_id (ImageReassembler.truncate st) = fid \<Longrightarrow>
      cr_capture_timestamp_ns st = ts \<and> cr_quality st = q"
    and step: "compressed_image_topic_handler (wire (compressed_image_payload fid ts q (take (65535 * 1381) data) i)) st =
      Inr (st', Some x)"
    and x: "(case x of (f, im, t, q) \<Rightarrow> (f, im)) = (fid, take (65535 * 1381) data)"
  show "x = (fid, take (65535 * 1381) data, ts, q)"
    using compressed_payload_meta [OF i st step] x by (cases x) auto
qed (auto simp: run_handler_def get_transport_def set_transport_def split: tref.splits option.splits)

text \<open>
  C4: An image of up to \<open>kMaxImageBytes\<close> bytes that a started node publishes reaches every peer of the
  topic whole: the peer is sent one frame per chunk, and whatever the order in which these frames
  reach it, and however often each is repeated, its callback is not called before the last missing
  frame, and that one calls it once with the frame id and exactly the published bytes. With duplicate
  suppression on, this is so as long as the image makes at most 65536 frames in all and none of their
  numbers is among the last eight of the topic.
\<close>

theorem published_image_delivered:
  assumes "nd_started n" and "length data \<le> kMaxImageBytes"
    and "distinct (peers_for_topic topic n)" and "dest \<in> set (peers_for_topic topic n)"
    and "frames = unat (image_chunk_count (length data)) * length (peers_for_topic topic n)"
    and "fid = (if frame_id = kAutoFrameId
                then case map_of (nd_next_image_frame_id n) topic of Some f \<Rightarrow> f | None \<Rightarrow> 0 else frame_id)"
    and "ut_handlers (get_transport r m) topic = Some (ImageHandler k cb)" and "windows_wf (get_transport r m)"
    and "k < length (nd_image_reassemblers m)"
    and "\<not> (ir_in_progress (nd_image_reassemblers m ! k) \<and> ir_current_frame_id (nd_image_reassemblers m ! k) = fid)"
    and "ut_relay_dedup_enabled (get_transport r m) \<Longrightarrow> frames \<le> 65536 \<and>
      (\<forall>q < frames. ut_seq_counter (nd_transport n) + word_of_nat q \<notin>
         set (sw_list (window_of topic (get_transport r m))))"
    and "set order = {..<unat (image_chunk_count (length data))}"
    and "set (butlast order) \<noteq> {..<unat (image_chunk_count (length data))}"
  shows "\<exists>ok sent n' m'. publish_image (platform_send sendto windows) env topic data frame_id n = Inr (ok, sent, n') \<and>
    length (frames_to dest sent) = unat (image_chunk_count (length data)) \<and>
    run_loop r (map (\<lambda>i. frames_to dest sent ! i) order) m =
      Inr (replicate (length order - 1) None @ [Some (DeliverImage cb fid data)], m')"
proof -
  have len: "length data \<le> 65535 * 1390" using assms(2) by (simp add: image_consts)
  then have data: "take (65535 * 1390) data = data" by simp
  have D: "image_data 1390 data" using len by (simp add: image_data_def)
  have cnt: "unat (image_chunk_count (length data)) = pieces 1390 data"
    by (simp add: image_count [OF len] image_data.count_unat [OF D])
  let ?ps = "peers_for_topic topic n" and ?c = "ut_seq_counter (nd_transport n)"
  obtain j where j: "j < length ?ps" "?ps ! j = dest" using assms(4) by (auto simp: in_set_conv_nth)
  obtain ok sent t where sent: "publish_chunks (platform_send sendto windows) topic
      (map (image_payload fid data) [0..<pieces 1390 data]) ?ps (nd_transport n) = (ok, sent, t)"
    and to: "frames_to dest sent =
      map (\<lambda>i. frame_bytes topic (?c + word_of_nat (i * length ?ps + j)) (wire (image_payload fid data i)))
        [0..<pieces 1390 data]"
    using chunk_frames [OF assms(3) j(1), where f = "image_payload fid data" and sendto = sendto and w = windows]
      image_topic.payload_small [of _ data fid] unfolding data j(2) by blast
  have "\<exists>n'. publish_image (platform_send sendto windows) env topic data frame_id n = Inr (ok, sent, n')"
    using sent assms(1,2,6) by (auto simp: publish_image_def ensure_started_def cnt Let_def peers_for_topic_def not_less
        cong: option.case_cong)
  moreover have "\<exists>m'. run_loop r (map (\<lambda>i. frames_to dest sent ! i) order) m =
      Inr (replicate (length order - 1) None @ [Some (DeliverImage cb fid data)], m')"
    by (rule image_topic.run_loop_sent [where data = data and fid = fid and cb = cb and m = m and r = r,
        unfolded data, simplified prod.case, OF assms(9,10,7,8) j(1) _ _ _ to])
      (use assms(5,11-13) in \<open>simp_all add: cnt\<close>)
  ultimately show ?thesis using to by (auto simp: cnt)
qed


theorem published_image_delivered_witness:
  "let n = (RelinkNode_init :: nat RelinkNode)\<lparr>nd_started := True, nd_peers := [(7, [\<lparr>pa_ip = 1, pa_port = 2\<rparr>])]\<rparr>;
       m = subscribe_image 7 9 (RelinkNode_init :: nat RelinkNode);
       m = m\<lparr>nd_transport := enable_relay_dedup (nd_transport m)\<rparr>
   in \<exists>ok sent n' m'. publish_image (platform_send (\<lambda>d. int (length (snd d))) False) sample_world 7 [1, 2, 3] kAutoFrameId n =
      Inr (ok, sent, n') \<and>
    length (frames_to \<lparr>pa_ip = 1, pa_port = 2\<rparr> sent) = unat (image_chunk_count (length [1 :: u8, 2, 3])) \<and>
    run_loop Shared (map (\<lambda>i. frames_to \<lparr>pa_ip = 1, pa_port = 2\<rparr> sent ! i) [0]) m =
      Inr (replicate (length [0 :: nat] - 1) None @ [Some (DeliverImage 9 0 [1, 2, 3])], m')"
  unfolding Let_def
  by (rule published_image_delivered [where k = 0, OF _ _ _ _ refl])
    (auto simp: RelinkNode_init_def peers_for_topic_def get_transport_def UdpTransport_init_def subscribe_image_def
      enable_relay_dedup_def set_topic_handler_def windows_wf_def window_of_def image_consts image_chunk_count_def
      image_reassembler_def declare_subscribed_def enable_large_buffers_def Let_def)

text \<open>
  The same holds for compressed images, whose callback also gets the capture time and the quality
  that the publisher gave, or the time of the call if it gave none.
\<close>

theorem published_compressed_image_delivered:
  assumes "nd_started n" and "length data \<le> kMaxCompressedImageBytes"
    and "distinct (peers_for_topic topic n)" and "dest \<in> set (peers_for_topic topic n)"
    and "frames = unat (compressed_image_chunk_count (length data)) * length (peers_for_topic topic n)"
    and "fid = (if frame_id = kAutoFrameId
                then case map_of (nd_next_compressed_image_frame_id n) topic of Some f \<Rightarrow> f | None \<Rightarrow> 0 else frame_id)"
    and "ts = (if capture_timestamp_ns = 0 then now_ns else capture_timestamp_ns)"
    and "ut_handlers (get_transport r m) topic = Some (CompressedHandler k cb)" and "windows_wf (get_transport r m)"
    and "k < length (nd_compressed_image_reassemblers m)"
    and "\<not> (ir_in_progress (nd_compressed_image_reassemblers m ! k) \<and>
             ir_current_frame_id (nd_compressed_image_reassemblers m ! k) = fid)"
    and "ut_relay_dedup_enabled (get_transport r m) \<Longrightarrow> frames \<le> 65536 \<and>
      (\<forall>q < frames. ut_seq_counter (nd_transport n) + word_of_nat q \<notin>
         set (sw_list (window_of topic (get_transport r m))))"
    and "set order = {..<unat (compressed_image_chunk_count (length data))}"
    and "set (butlast order) \<noteq> {..<unat (compressed_image_chunk_count (length data))}"
  shows "\<exists>ok sent n' m'. publish_compressed_image (platform_send sendto windows) env now_ns topic data quality frame_id
        capture_timestamp_ns n = Inr (ok, sent, n') \<and>
    length (frames_to dest sent) = unat (compressed_image_chunk_count (length data)) \<and>
    run_loop r (map (\<lambda>i. frames_to dest sent ! i) order) m =
      Inr (replicate (length order - 1) None @ [Some (DeliverCompressed cb fid data ts quality)], m')"
proof -
  have len: "length data \<le> 65535 * 1381" using assms(2) by (simp add: image_consts)
  then have data: "take (65535 * 1381) data = data" by simp
  have D: "image_data 1381 data" using len by (simp add: image_data_def)
  have cnt: "unat (compressed_image_chunk_count (length data)) = pieces 1381 data"
    by (simp add: compressed_count [OF len] image_data.count_unat [OF D])
  let ?ps = "peers_for_topic topic n" and ?c = "ut_seq_counter (nd_transport n)"
  let ?payload = "compressed_image_payload fid ts quality data"
  obtain j where j: "j < length ?ps" "?ps ! j = dest" using assms(4) by (auto simp: in_set_conv_nth)
  obtain ok sent t where sent: "publish_chunks (platform_send sendto windows) topic
      (map ?payload [0..<pieces 1381 data]) ?ps (nd_transport n) = (ok, sent, t)"
    and to: "frames_to dest sent =
      map (\<lambda>i. frame_bytes topic (?c + word_of_nat (i * length ?ps + j)) (wire (?payload i))) [0..<pieces 1381 data]"
    using chunk_frames [OF assms(3) j(1), where f = ?payload and sendto = sendto and w = windows]
      compressed_topic.payload_small [of _ data fid ts quality] unfolding data j(2) by blast
  have "\<exists>n'. publish_compressed_image (platform_send sendto windows) env now_ns topic data quality frame_id
      capture_timestamp_ns n = Inr (ok, sent, n')"
    using sent assms(1,2,6,7) by (auto simp: publish_compressed_image_def ensure_started_def cnt Let_def
        peers_for_topic_def not_less cong: option.case_cong)
  moreover have "\<not> (ir_in_progress (ImageReassembler.truncate (nd_compressed_image_reassemblers m ! k)) \<and>
      ir_current_frame_id (ImageReassembler.truncate (nd_compressed_image_reassemblers m ! k)) = fid)"
    using assms(11) by (simp add: ImageReassembler.defs)
  then have "\<exists>m'. run_loop r (map (\<lambda>i. frames_to dest sent ! i) order) m =
      Inr (replicate (length order - 1) None @ [Some (DeliverCompressed cb fid data ts quality)], m')"
    by (rule compressed_topic.run_loop_sent [where data = data and fid = fid and ts = ts and q = quality and cb = cb
        and m = m and r = r, unfolded data, simplified prod.case, OF assms(10) _ assms(8,9) j(1) _ _ _ to])
      (use assms(5,12-14) in \<open>simp_all add: cnt\<close>)
  ultimately show ?thesis using to by (auto simp: cnt)
qed

theorem published_compressed_image_delivered_witness:
  "let n = (RelinkNode_init :: nat RelinkNode)\<lparr>nd_started := True, nd_peers := [(7, [\<lparr>pa_ip = 1, pa_port = 2\<rparr>])]\<rparr>;
       m = subscribe_compressed_image 7 9 (RelinkNode_init :: nat RelinkNode);
       m = m\<lparr>nd_transport := enable_relay_dedup (nd_transport m)\<rparr>
   in \<exists>ok sent n' m'. publish_compressed_image (platform_send (\<lambda>d. int (length (snd d))) True) sample_world 99 7
        [1, 2, 3] 80 kAutoFrameId 0 n = Inr (ok, sent, n') \<and>
    length (frames_to \<lparr>pa_ip = 1, pa_port = 2\<rparr> sent) = unat (compressed_image_chunk_count (length [1 :: u8, 2, 3])) \<and>
    run_loop Shared (map (\<lambda>i. frames_to \<lparr>pa_ip = 1, pa_port = 2\<rparr> sent ! i) [0]) m =
      Inr (replicate (length [0 :: nat] - 1) None @ [Some (DeliverCompressed 9 0 [1, 2, 3] 99 80)], m')"
  unfolding Let_def
  by (rule published_compressed_image_delivered [where k = 0, OF _ _ _ _ refl])
    (auto simp: RelinkNode_init_def peers_for_topic_def get_transport_def UdpTransport_init_def subscribe_compressed_image_def
      enable_relay_dedup_def set_topic_handler_def windows_wf_def window_of_def image_consts compressed_image_chunk_count_def
      compressed_image_reassembler_def declare_subscribed_def enable_large_buffers_def Let_def)

end
