(* ===== verification/Benchmarks.thy ===== *)
theory Benchmarks
  imports Local_Ipc Image_Delivery Command_Line
begin

text \<open>
  The measuring programs \<^verbatim>\<open>cpp/tools/relink_benchmark.cpp\<close> and \<^verbatim>\<open>cpp/tools/relink_image_benchmark.cpp\<close>, over
  the node of \<open>Relink_Node\<close> and \<open>Local_Ipc\<close>. Clock readings, the interrupt flag and the frames of the camera
  or video file are the input of a loop, one item per iteration; doubles are reals.
\<close>

section \<open>Latency of small messages\<close>

definition TOPIC_BENCH :: u32 where "TOPIC_BENCH = 200"

record BenchMsg =
  bm_send_time_us :: u64
  bm_padding :: bytes

definition enc_BenchMsg :: "BenchMsg \<Rightarrow> bytes" where
  "enc_BenchMsg m = le64 (bm_send_time_us m) @ bm_padding m"

definition bench_message :: "u64 \<Rightarrow> bytes" where
  "bench_message now_us = enc_BenchMsg \<lparr>bm_send_time_us = now_us, bm_padding = replicate 32 0\<rparr>"

text \<open>
  \<^verbatim>\<open>run_publisher\<close>: the flag, the nanoseconds since the start and the time stamp of each iteration. The
  result is the number of messages sent, with the datagrams.
\<close>

fun bench_publish ::
  "(datagram \<Rightarrow> int) \<Rightarrow> node_env \<Rightarrow> (bool \<times> nat \<times> u64) list \<Rightarrow> u64 \<Rightarrow> 'c RelinkNode \<Rightarrow>
   NodeError + u64 \<times> datagram list \<times> 'c RelinkNode" where
  "bench_publish sendto env [] sent n = Inr (sent, [], n)"
| "bench_publish sendto env ((stop, elapsed, now_us) # turns) sent n =
     (if stop then Inr (sent, [], n)
      else if elapsed > 60 * 10 ^ 9 then Inr (sent, [], n)
      else
        ebind (node_publish sendto env False TOPIC_BENCH (bench_message now_us) n) (\<lambda>(ok, out, n).
        ebind (spin_once env n) (\<lambda>(n, startup, punch).
        ebind (bench_publish sendto env turns (sent + 1) n) (\<lambda>(sent, outs, n).
          Inr (sent, out @ startup @ outs, n)))))"

definition bench_run_publisher ::
  "(datagram \<Rightarrow> int) \<Rightarrow> node_env \<Rightarrow> (bool \<times> nat \<times> u64) list \<Rightarrow> 'c RelinkNode \<Rightarrow>
   NodeError + u64 \<times> datagram list \<times> 'c RelinkNode" where
  "bench_run_publisher sendto env turns n =
     ebind (advertise (ne_bind env) False TOPIC_BENCH False 0 n) (\<lambda>n. bench_publish sendto env turns 0 n)"

record BenchStats =
  bs_latencies_us :: "real list"
  bs_first_recv_time :: u64
  bs_last_recv_time :: u64

definition BenchStats_init :: BenchStats where
  "BenchStats_init = \<lparr>bs_latencies_us = [], bs_first_recv_time = 0, bs_last_recv_time = 0\<rparr>"

definition bench_on_message :: "u64 \<Rightarrow> BenchMsg \<Rightarrow> BenchStats \<Rightarrow> BenchStats" where
  "bench_on_message recv_time msg st =
     (let latency_us = real (unat (recv_time - bm_send_time_us msg))
      in st\<lparr>bs_latencies_us := bs_latencies_us st @ [latency_us],
            bs_first_recv_time := (if bs_first_recv_time st = 0 then recv_time else bs_first_recv_time st),
            bs_last_recv_time := recv_time\<rparr>)"

record BenchResults =
  br_best :: real
  br_avg :: real
  br_p50 :: real
  br_p99 :: real
  br_worst :: real
  br_pass :: bool
  br_received_hz :: "real option"

definition bench_results :: "BenchStats \<Rightarrow> BenchResults option" where
  "bench_results st =
     (if bs_latencies_us st = [] then None
      else
        let latencies_us = sort (bs_latencies_us st);
            n = length latencies_us;
            worst = latencies_us ! (n - 1);
            span_sec = real (unat (bs_last_recv_time st - bs_first_recv_time st)) / 1000000
        in Some \<lparr>br_best = latencies_us ! 0, br_avg = sum_list latencies_us / real n,
                 br_p50 = latencies_us ! (n * 50 div 100), br_p99 = latencies_us ! (n * 99 div 100),
                 br_worst = worst, br_pass = (worst \<le> 1000),
                 br_received_hz =
                   (if span_sec > 0 \<and> n > 1 then Some (real (n - 1) / span_sec) else None)\<rparr>)"

definition bench_run_subscriber :: "(u64 \<times> BenchMsg) list \<Rightarrow> BenchResults option" where
  "bench_run_subscriber received =
     bench_results (fold (\<lambda>(recv_time, msg). bench_on_message recv_time msg) received BenchStats_init)"

section \<open>Throughput of images\<close>

definition kTopicUdp :: u32 where "kTopicUdp = 800"
definition kTopicShm :: u32 where "kTopicShm = 801"
definition kExpectedLen :: nat where "kExpectedLen = 1920 * 1080 * 3"

record ImageBenchCounts =
  ib_frame_id :: u32
  ib_pushed :: u32
  ib_full_drops :: u32
  ib_bytes_total :: nat

definition count_frame :: "bool \<Rightarrow> nat \<Rightarrow> ImageBenchCounts \<Rightarrow> ImageBenchCounts" where
  "count_frame pushed len c =
     c\<lparr>ib_bytes_total := ib_bytes_total c + len,
       ib_pushed := (if pushed then ib_pushed c + 1 else ib_pushed c),
       ib_full_drops := (if pushed then ib_full_drops c else ib_full_drops c + 1),
       ib_frame_id := ib_frame_id c + 1\<rparr>"

text \<open>
  The loop of \<^verbatim>\<open>run_pub\<close>: whether the deadline is still ahead, and the frame that was read, resized, or
  \<open>None\<close>; \<open>push\<close> sends one frame and says whether it counts as pushed. A file starts over after its last
  frame, a camera without a frame ends the run.
\<close>

fun image_bench_loop ::
  "(u32 \<Rightarrow> bytes \<Rightarrow> 's \<Rightarrow> NodeError + bool \<times> datagram list \<times> 's) \<Rightarrow> bool \<Rightarrow> (bool \<times> bytes option) list \<Rightarrow>
   ImageBenchCounts \<Rightarrow> 's \<Rightarrow> NodeError + ImageBenchCounts \<times> datagram list \<times> 's" where
  "image_bench_loop push is_file [] c st = Inr (c, [], st)"
| "image_bench_loop push is_file ((in_time, frame) # turns) c st =
     (if \<not> in_time then Inr (c, [], st)
      else case frame of
             None \<Rightarrow> if is_file then image_bench_loop push is_file turns c st else Inr (c, [], st)
           | Some data \<Rightarrow>
               ebind (push (ib_frame_id c) data st) (\<lambda>(pushed, out, st).
               ebind (image_bench_loop push is_file turns (count_frame pushed (length data) c) st) (\<lambda>(c, outs, st).
                 Inr (c, out @ outs, st))))"

definition ImageBenchCounts_init :: ImageBenchCounts where
  "ImageBenchCounts_init = \<lparr>ib_frame_id = 0, ib_pushed = 0, ib_full_drops = 0, ib_bytes_total = 0\<rparr>"

definition push_shm ::
  "u32 \<Rightarrow> bytes \<Rightarrow> 'c RelinkNode \<times> shm_memory \<Rightarrow> NodeError + bool \<times> datagram list \<times> 'c RelinkNode \<times> shm_memory" where
  "push_shm frame_id data st =
     (let (ok, n, mem) = publish_local_ipc kTopicShm data st in Inr (ok, [], n, mem))"

definition push_udp ::
  "(bytes list \<Rightarrow> PeerAddr \<Rightarrow> int \<times> datagram list) \<Rightarrow> node_env \<Rightarrow> u32 \<Rightarrow> bytes \<Rightarrow> 'c RelinkNode \<Rightarrow>
   NodeError + bool \<times> datagram list \<times> 'c RelinkNode" where
  "push_udp sendmsg_to env frame_id data n =
     ebind (publish_image sendmsg_to env kTopicUdp data frame_id n) (\<lambda>(ok, out, n).
     ebind (spin_once env n) (\<lambda>(n, startup, punch). Inr (True, out @ startup, n)))"

text \<open>
  \<^verbatim>\<open>run_pub\<close> over either transport, on a new node; \<open>cap_open\<close> says whether the camera or file opened. The
  exit status is 1 when the ring or the camera cannot be opened, and the outer \<open>None\<close> is an opening of
  the ring that the readings given do not decide.
\<close>

definition image_bench_pub_udp ::
  "(bytes list \<Rightarrow> PeerAddr \<Rightarrow> int \<times> datagram list) \<Rightarrow> node_env \<Rightarrow> bool \<Rightarrow> bool \<Rightarrow> (bool \<times> bytes option) list \<Rightarrow>
   NodeError + (int + ImageBenchCounts) \<times> datagram list \<times> 'c RelinkNode" where
  "image_bench_pub_udp sendmsg_to env cap_open is_file turns =
     ebind (use_multicast_discovery RelinkNode_init) (\<lambda>n.
     ebind (advertise_image (ne_bind env) kTopicUdp n) (\<lambda>n.
     ebind (spin_once env n) (\<lambda>(n, startup, punch).
       if \<not> cap_open then Inr (Inl 1, startup, n)
       else ebind (image_bench_loop (push_udp sendmsg_to env) is_file turns ImageBenchCounts_init n) (\<lambda>(c, out, n).
              Inr (Inr c, startup @ out, n)))))"

definition image_bench_pub_shm ::
  "shm_os \<Rightarrow> bool \<Rightarrow> bool \<Rightarrow> (bool \<times> bytes option) list \<Rightarrow> shm_memory \<Rightarrow>
   (NodeError + (int + ImageBenchCounts) \<times> 'c RelinkNode \<times> shm_memory) option" where
  "image_bench_pub_shm os cap_open is_file turns mem =
     (case advertise_local_ipc_image os kTopicShm kShmImageDefaultMaxPayload 8 (RelinkNode_init, mem) of
        None \<Rightarrow> None
      | Some (False, n, mem) \<Rightarrow> Some (Inr (Inl 1, n, mem))
      | Some (True, n, mem) \<Rightarrow>
          Some (if \<not> cap_open then Inr (Inl 1, n, mem)
                else ebind (image_bench_loop push_shm is_file turns ImageBenchCounts_init (n, mem)) (\<lambda>(c, out, n, mem).
                       Inr (Inr c, fst (request_stop n), mem))))"

text \<open>The callback of \<^verbatim>\<open>run_sub\<close>: messages received and those of an unexpected size.\<close>

definition image_bench_receive :: "nat \<Rightarrow> u64 \<times> u64 \<Rightarrow> u64 \<times> u64" where
  "image_bench_receive len c =
     (let (received, wrong_size) = c
      in (received + 1, if len \<noteq> kExpectedLen then wrong_size + 1 else wrong_size))"

text \<open>
  \<^verbatim>\<open>run_sub\<close> over either transport, on a new node, up to its \<^verbatim>\<open>request_stop\<close>: over UDP the datagrams \<open>ds\<close>
  reach the data thread while it sleeps, over shared memory the poll thread makes \<open>k\<close> passes. The exit
  status is 1 when the ring cannot be opened. The unit value is the callback.
\<close>

fun delivered_length :: "'c delivery \<Rightarrow> nat" where
  "delivered_length (DeliverBytes cb data) = length data"
| "delivered_length (DeliverImage cb fid data) = length data"
| "delivered_length (DeliverCompressed cb fid data ts quality) = length data"

definition image_bench_sub_udp ::
  "node_env \<Rightarrow> bytes list \<Rightarrow> NodeError + (MemFault + (u64 \<times> u64) \<times> unit RelinkNode) \<times> datagram list" where
  "image_bench_sub_udp env ds =
     ebind (use_multicast_discovery RelinkNode_init) (\<lambda>n.
     ebind (spin_once env (subscribe_image kTopicUdp () n)) (\<lambda>(n, startup, punch).
       Inr (ebind (run_loop Shared ds n) (\<lambda>(outs, n).
              Inr (fold image_bench_receive (map delivered_length (List.map_filter (\<lambda>d. d) outs)) (0, 0),
                   fst (request_stop n))),
            startup)))"

definition image_bench_sub_shm ::
  "shm_os \<Rightarrow> nat \<Rightarrow> shm_memory \<Rightarrow> (int + (u64 \<times> u64)) option" where
  "image_bench_sub_shm os k mem =
     (case subscribe_local_ipc_image os kTopicShm () kShmImageDefaultMaxPayload 8 (RelinkNode_init, mem) of
        None \<Rightarrow> None
      | Some (False, n, mem) \<Rightarrow> Some (Inl 1)
      | Some (True, n, mem) \<Rightarrow>
          Some (Inr (fold image_bench_receive (map (\<lambda>(cb, payload). length payload) (poll_passes k (n, mem))) (0, 0))))"

text \<open>The command line: mode, transport, duration and file, or the exit status.\<close>

fun image_bench_options :: "string list \<Rightarrow> real \<times> string \<Rightarrow> int + real \<times> string" where
  "image_bench_options [] opts = Inr opts"
| "image_bench_options [arg] opts = Inl 1"
| "image_bench_options (arg # value # args) (duration_sec, video_file) =
     (if arg = ''--duration'' then image_bench_options args (atof value, video_file)
      else if arg = ''--video-file'' then image_bench_options args (duration_sec, value)
      else Inl 1)"

definition image_bench_args :: "string list \<Rightarrow> int + string \<times> string \<times> real \<times> string" where
  "image_bench_args argv =
     (case argv of
        prog # mode # transport # args \<Rightarrow>
          if mode \<noteq> ''pub'' \<and> mode \<noteq> ''sub'' then Inl 1
          else if transport \<noteq> ''udp'' \<and> transport \<noteq> ''shm'' then Inl 1
          else (case image_bench_options args (8, '''') of
                  Inl e \<Rightarrow> Inl e
                | Inr (duration_sec, video_file) \<Rightarrow>
                    Inr (mode, transport, if mode = ''pub'' then duration_sec else duration_sec + 2, video_file))
      | _ \<Rightarrow> Inl 1)"

section \<open>What the results say\<close>

lemma count_below_sorted:
  assumes "sorted xs" and "k < length xs"
  shows "length (filter (\<lambda>x. x < xs ! k) xs) \<le> k" and "k < length (filter (\<lambda>x. x \<le> xs ! k) xs)"
proof -
  have eq: "xs = take k xs @ xs ! k # drop (Suc k) xs" using assms(2) by (rule id_take_nth_drop)
  have above: "\<forall>x \<in> set (xs ! k # drop (Suc k) xs). xs ! k \<le> x"
    using assms sorted_append [of "take k xs" "xs ! k # drop (Suc k) xs"] eq by auto
  then have "filter (\<lambda>x. x < xs ! k) (xs ! k # drop (Suc k) xs) = []"
    by (auto simp: filter_empty_conv not_less)
  then have "filter (\<lambda>x. x < xs ! k) xs = filter (\<lambda>x. x < xs ! k) (take k xs)"
    by (subst eq, subst filter_append) simp
  then show "length (filter (\<lambda>x. x < xs ! k) xs) \<le> k"
    using length_filter_le [of _ "take k xs"] by (metis length_take min.cobounded2 order_trans)
  have "\<forall>x \<in> set (take (Suc k) xs). x \<le> xs ! k"
    using sorted_nth_mono [OF assms(1) _ assms(2)] by (auto simp: in_set_conv_nth)
  then have "filter (\<lambda>x. x \<le> xs ! k) (take (Suc k) xs) = take (Suc k) xs" by (simp add: filter_id_conv)
  moreover have "length (filter P (take (Suc k) xs)) \<le> length (filter P xs)" for P
    by (metis append_take_drop_id filter_append le_add1 length_append)
  ultimately show "k < length (filter (\<lambda>x. x \<le> xs ! k) xs)"
    using assms(2) by (metis Suc_leI Suc_le_lessD length_take min.absorb2 order_trans le_refl)
qed

lemma length_filter_sort: "length (filter P (sort xs)) = length (filter P (xs :: real list))"
  by (metis filter_sort length_sort)

lemma sort_Nil [simp]: "sort xs = [] \<longleftrightarrow> xs = []"
  by (metis length_0_conv length_sort)

lemma sorted_last_max:
  fixes xs :: "real list"
  assumes "xs \<noteq> []" and "sorted xs"
  shows "x \<in> set xs \<Longrightarrow> x \<le> xs ! (length xs - 1)"
    and "xs ! (length xs - 1) \<le> b \<longleftrightarrow> list_all (\<lambda>x. x \<le> b) xs"
proof -
  show le: "x \<le> xs ! (length xs - 1)" if "x \<in> set xs" for x
    using that assms sorted_nth_mono [OF assms(2)] by (fastforce simp: in_set_conv_nth)
  have "xs ! (length xs - 1) \<in> set xs" using assms(1) by simp
  then show "xs ! (length xs - 1) \<le> b \<longleftrightarrow> list_all (\<lambda>x. x \<le> b) xs"
    using le by (fastforce simp: list_all_iff)
qed

text \<open>
  The percentiles the benchmark prints are percentiles: at most half of the messages, rounded down,
  were faster than the one printed as p50, and more than that many no slower; likewise for p99. The run
  passes exactly when no recorded latency is over the budget.
\<close>

theorem bench_percentiles:
  assumes "bs_latencies_us st \<noteq> []"
  shows "\<exists>r. bench_results st = Some r \<and>
    (let below = (\<lambda>x. length (filter (\<lambda>l. l < x) (bs_latencies_us st)));
         upto = (\<lambda>x. length (filter (\<lambda>l. l \<le> x) (bs_latencies_us st)));
         n = length (bs_latencies_us st)
     in below (br_p50 r) \<le> n * 50 div 100 \<and> n * 50 div 100 < upto (br_p50 r) \<and>
        below (br_p99 r) \<le> n * 99 div 100 \<and> n * 99 div 100 < upto (br_p99 r) \<and>
        br_pass r = list_all (\<lambda>l. l \<le> 1000) (bs_latencies_us st))"
proof -
  let ?xs = "sort (bs_latencies_us st)"
  have n: "0 < length ?xs" using assms by simp
  then have idx: "length ?xs * 50 div 100 < length ?xs" "length ?xs * 99 div 100 < length ?xs" by linarith+
  note pct = count_below_sorted [OF sorted_sort idx(1)] count_below_sorted [OF sorted_sort idx(2)]
  have "(?xs ! (length ?xs - 1) \<le> 1000) = list_all (\<lambda>l. l \<le> 1000) (bs_latencies_us st)"
    using sorted_last_max(2) [of ?xs 1000] assms by (simp add: list_all_iff)
  with pct assms show ?thesis
    by (simp add: bench_results_def Let_def length_filter_sort)
qed

theorem bench_percentiles_witness:
  "\<exists>r. bench_results \<lparr>bs_latencies_us = [70, 30, 2000], bs_first_recv_time = 1, bs_last_recv_time = 3\<rparr> = Some r \<and>
    (let below = (\<lambda>x. length (filter (\<lambda>l. l < x) [70, 30, 2000]));
         upto = (\<lambda>x. length (filter (\<lambda>l. l \<le> x) [70, 30, 2000])); n = length [70, 30, 2000 :: real]
     in below (br_p50 r) \<le> n * 50 div 100 \<and> n * 50 div 100 < upto (br_p50 r) \<and>
        below (br_p99 r) \<le> n * 99 div 100 \<and> n * 99 div 100 < upto (br_p99 r) \<and>
        br_pass r = list_all (\<lambda>l. l \<le> 1000) [70, 30, 2000 :: real])"
  using bench_percentiles [of "\<lparr>bs_latencies_us = [70, 30, 2000], bs_first_recv_time = 1, bs_last_recv_time = 3\<rparr>"]
  by simp

text \<open>
  The time stamps are differences of unsigned numbers. A message that the receiver's clock places
  before its sending, by as little as a microsecond, is recorded with a latency of about 2^64, and one
  such message fails the run.
\<close>

theorem bench_skewed_clock_fails:
  assumes "unat recv < unat (bm_send_time_us msg)" and "unat (bm_send_time_us msg) - unat recv \<le> 2 ^ 63"
    and "(recv, msg) \<in> set received"
  shows "\<exists>r. bench_run_subscriber received = Some r \<and> \<not> br_pass r \<and> 2 ^ 63 \<le> br_worst r"
proof -
  let ?st = "fold (\<lambda>(recv_time, msg). bench_on_message recv_time msg) received BenchStats_init"
  let ?l = "real (unat (recv - bm_send_time_us msg))"
  have lat: "bs_latencies_us (fold (\<lambda>(recv_time, msg). bench_on_message recv_time msg) rs s) =
      bs_latencies_us s @ map (\<lambda>(recv_time, msg). real (unat (recv_time - bm_send_time_us msg))) rs" for rs s
    by (induction rs arbitrary: s) (auto simp: bench_on_message_def)
  have mem: "?l \<in> set (sort (bs_latencies_us ?st))" using assms(3) by (force simp: lat)
  have "unat (recv - bm_send_time_us msg) = 2 ^ 64 + unat recv - unat (bm_send_time_us msg)"
    using assms(1) by (simp add: unat_sub_if' not_le)
  then have big: "2 ^ 63 \<le> unat (recv - bm_send_time_us msg)" using assms(1,2) by simp
  then have "(2 ^ 63 :: real) \<le> ?l" by (metis of_nat_le_iff of_nat_numeral of_nat_power)
  moreover let ?xs = "sort (bs_latencies_us ?st)"
  have "?l \<le> ?xs ! (length ?xs - 1)"
    using mem by (intro sorted_last_max(1)) auto
  moreover have "bs_latencies_us ?st \<noteq> []" using mem by auto
  ultimately show ?thesis
    unfolding bench_run_subscriber_def bench_results_def Let_def by auto
qed


theorem bench_skewed_clock_fails_witness:
  "\<exists>r. bench_run_subscriber [(10, \<lparr>bm_send_time_us = 11, bm_padding = []\<rparr>)] = Some r \<and> \<not> br_pass r \<and>
     2 ^ 63 \<le> br_worst r"
  using bench_skewed_clock_fails [of 10 "\<lparr>bm_send_time_us = 11, bm_padding = []\<rparr>"] by simp

text \<open>The receiving side counts every image that reached its callback, and those of another size among them.\<close>

lemma image_bench_received:
  "fold image_bench_receive lens (r, w) =
    (r + word_of_nat (length lens), w + word_of_nat (length (filter (\<lambda>l. l \<noteq> kExpectedLen) lens)))"
  by (induction lens arbitrary: r w) (simp_all add: image_bench_receive_def algebra_simps)

text \<open>Every frame that was read is counted once, as pushed or as dropped.\<close>

lemma image_bench_accounting:
  "image_bench_loop push is_file turns c st = Inr (c', out, st') \<Longrightarrow>
   ib_frame_id c = ib_pushed c + ib_full_drops c \<Longrightarrow>
   ib_frame_id c' = ib_pushed c' + ib_full_drops c'"
proof (induction push is_file turns c st arbitrary: c' out st' rule: image_bench_loop.induct)
  case (2 push is_file in_time frame turns c st)
  show ?case
  proof (cases "in_time \<and> frame \<noteq> None")
    case True
    then obtain data where frame: "in_time" "frame = Some data" by auto
    from frame 2(3) obtain r where r: "push (ib_frame_id c) data st = Inr r"
      by (cases "push (ib_frame_id c) data st") auto
    obtain pushed sent st1 where r3: "r = (pushed, sent, st1)" by (cases r) auto
    let ?c = "count_frame pushed (length data) c"
    from 2(3) frame r r3 obtain outs where run: "image_bench_loop push is_file turns ?c st1 = Inr (c', outs, st')"
      by (cases "image_bench_loop push is_file turns ?c st1") auto
    have "ib_frame_id ?c = ib_pushed ?c + ib_full_drops ?c" using 2(4) by (simp add: count_frame_def)
    with "2.IH"(2) [OF _ frame(2) run] frame r3 show ?thesis by simp
  qed (use 2 in \<open>auto split: if_splits option.splits\<close>)
qed simp

end
