(* ===== verification/Node_Startup.thy ===== *)
theory Node_Startup
  imports Relink_Node "HOL-Library.Multiset"
begin

text \<open>
  Start-up with the exceptions of the sockets, and what they leave open: the two sockets of
  \<^verbatim>\<open>MulticastDiscovery\<close>, the socket of the transport (\<^verbatim>\<open>bind\<close>, \<^verbatim>\<open>close_socket\<close>) and \<^verbatim>\<open>ensure_started\<close> in
  multicast mode, over the list of descriptors that the process holds. \<open>Relink_Node\<close> models what a
  start-up computes; here is what it opens, whichever of its calls fail. A failed call of the system is a
  parameter.
\<close>

section \<open>Sockets and their options\<close>

datatype sock_option =
    MulticastLoop int | MulticastTtl int | SoReuseAddr int | SoReusePort int | RecvTimeoutMs int
  | AddMembership string

text \<open>\<^verbatim>\<open>enable_port_reuse_if_available\<close>, with \<^verbatim>\<open>SO_REUSEPORT\<close> defined or not.\<close>

definition enable_port_reuse_if_available :: "bool \<Rightarrow> sock_option list" where
  "enable_port_reuse_if_available has_reuseport = (if has_reuseport then [SoReusePort 1] else [])"

definition close_socket :: "int \<Rightarrow> int list \<Rightarrow> int list" where
  "close_socket s fds = remove1 s fds"

section \<open>The sockets of the discovery\<close>

record mc_sockets =
  ms_running :: bool
  ms_send_sock :: "int option"
  ms_recv_sock :: "int option"
  ms_threads :: bool

definition mc_sockets_init :: mc_sockets where
  "mc_sockets_init = \<lparr>ms_running = False, ms_send_sock = None, ms_recv_sock = None, ms_threads = False\<rparr>"

text \<open>What the system answers: the two calls of \<^verbatim>\<open>socket\<close>, \<^verbatim>\<open>bind\<close>, and the request to join the group.\<close>

record mc_os =
  mo_send :: "int option"
  mo_recv :: "int option"
  mo_bind_ok :: bool
  mo_join_ok :: bool
  mo_has_reuseport :: bool

datatype mc_error = SendSocketFailed | RecvSocketFailed | GroupBindFailed | MembershipFailed

text \<open>
  Each set-up returns the exception, if there is one, the options set on the socket, the new state and
  the open descriptors.
\<close>

definition setup_send_socket ::
  "mc_os \<Rightarrow> mc_sockets \<times> int list \<Rightarrow> mc_error option \<times> sock_option list \<times> mc_sockets \<times> int list" where
  "setup_send_socket os st =
     (case st of (ms, fds) \<Rightarrow>
        case mo_send os of
          None \<Rightarrow> (Some SendSocketFailed, [], ms\<lparr>ms_send_sock := None\<rparr>, fds)
        | Some s \<Rightarrow> (None, [MulticastLoop 1, MulticastTtl 1], ms\<lparr>ms_send_sock := Some s\<rparr>, fds @ [s]))"

definition setup_recv_socket ::
  "mc_os \<Rightarrow> MulticastDiscoveryConfig \<Rightarrow> mc_sockets \<times> int list \<Rightarrow>
   mc_error option \<times> sock_option list \<times> mc_sockets \<times> int list" where
  "setup_recv_socket os cfg st =
     (case st of (ms, fds) \<Rightarrow>
        case mo_recv os of
          None \<Rightarrow> (Some RecvSocketFailed, [], ms\<lparr>ms_recv_sock := None\<rparr>, fds)
        | Some s \<Rightarrow>
            let ms = ms\<lparr>ms_recv_sock := Some s\<rparr>; fds = fds @ [s];
                reuse = SoReuseAddr 1 # enable_port_reuse_if_available (mo_has_reuseport os)
            in if \<not> mo_bind_ok os then (Some GroupBindFailed, reuse, ms, fds)
               else
                 let joined = reuse @ [AddMembership (md_group_ip cfg)]
                 in if \<not> mo_join_ok os then (Some MembershipFailed, joined, ms, fds)
                    else (None, joined @ [RecvTimeoutMs 50], ms, fds))"

definition mc_start ::
  "mc_os \<Rightarrow> MulticastDiscoveryConfig \<Rightarrow> mc_sockets \<times> int list \<Rightarrow> mc_error option \<times> mc_sockets \<times> int list" where
  "mc_start os cfg st =
     (case st of (ms, fds) \<Rightarrow>
        if ms_running ms then (None, ms, fds)
        else
          case setup_send_socket os (ms\<lparr>ms_running := True\<rparr>, fds) of
            (Some e, opts, ms, fds) \<Rightarrow> (Some e, ms, fds)
          | (None, opts, st) \<Rightarrow>
              (case setup_recv_socket os cfg st of
                 (Some e, opts, ms, fds) \<Rightarrow> (Some e, ms, fds)
               | (None, opts, ms, fds) \<Rightarrow> (None, ms\<lparr>ms_threads := True\<rparr>, fds)))"

definition close_opt :: "int option \<Rightarrow> int list \<Rightarrow> int list" where
  "close_opt s fds = (case s of Some s \<Rightarrow> close_socket s fds | None \<Rightarrow> fds)"

definition mc_stop :: "mc_sockets \<times> int list \<Rightarrow> mc_sockets \<times> int list" where
  "mc_stop st =
     (case st of (ms, fds) \<Rightarrow>
        if \<not> ms_running ms then (ms, fds)
        else (\<lparr>ms_running = False, ms_send_sock = None, ms_recv_sock = None, ms_threads = False\<rparr>,
              close_opt (ms_recv_sock ms) (close_opt (ms_send_sock ms) fds)))"

section \<open>A node that is being started\<close>

record node_sockets =
  ns_started :: bool
  ns_transport :: "int option"
  ns_mcast :: "mc_sockets option"

definition node_sockets_init :: node_sockets where
  "node_sockets_init = \<lparr>ns_started = False, ns_transport = None, ns_mcast = None\<rparr>"

text \<open>The answers of the system to one attempt: \<^verbatim>\<open>bind\<close> of the transport, the detection of the own
  address, and the discovery.\<close>

record start_os =
  so_socket :: "int option"
  so_bind_ok :: bool
  so_detect_ok :: bool
  so_mc :: mc_os

datatype start_error = TransportError TransportError | DetectError | DiscoveryError mc_error

text \<open>\<^verbatim>\<open>UdpTransport::bind\<close>: a socket it had is forgotten, not closed.\<close>

definition bind_socket ::
  "int option \<Rightarrow> bool \<Rightarrow> int list \<Rightarrow> TransportError option \<times> int option \<times> int list" where
  "bind_socket os_socket bind_ok fds =
     (case os_socket of
        None \<Rightarrow> (Some SocketFailed, None, fds)
      | Some s \<Rightarrow>
          if \<not> bind_ok then (Some BindFailed, None, close_socket s (fds @ [s]))
          else (None, Some s, fds @ [s]))"

text \<open>
  One call of \<^verbatim>\<open>ensure_started\<close> on a node in multicast mode. The discovery object of an earlier attempt is
  destroyed when the new one takes its place.
\<close>

definition start_attempt ::
  "start_os \<Rightarrow> MulticastDiscoveryConfig \<Rightarrow> node_sockets \<times> int list \<Rightarrow>
   start_error option \<times> node_sockets \<times> int list" where
  "start_attempt os cfg st =
     (case st of (ns, fds) \<Rightarrow>
        if ns_started ns then (None, ns, fds)
        else
          case bind_socket (so_socket os) (so_bind_ok os) fds of
            (Some e, sock, fds) \<Rightarrow> (Some (TransportError e), ns\<lparr>ns_transport := sock\<rparr>, fds)
          | (None, sock, fds) \<Rightarrow>
              let ns = ns\<lparr>ns_transport := sock\<rparr> in
              if \<not> so_detect_ok os then (Some DetectError, ns, fds)
              else
                let fds = (case ns_mcast ns of Some ms \<Rightarrow> snd (mc_stop (ms, fds)) | None \<Rightarrow> fds)
                in case mc_start (so_mc os) cfg (mc_sockets_init, fds) of
                     (Some e, ms, fds) \<Rightarrow> (Some (DiscoveryError e), ns\<lparr>ns_mcast := Some ms\<rparr>, fds)
                   | (None, ms, fds) \<Rightarrow> (None, ns\<lparr>ns_mcast := Some ms, ns_started := True\<rparr>, fds))"

text \<open>Attempts one after the other, as a caller makes them that catches the exception and tries again.\<close>

fun start_attempts ::
  "start_os list \<Rightarrow> MulticastDiscoveryConfig \<Rightarrow> node_sockets \<times> int list \<Rightarrow>
   start_error option list \<times> node_sockets \<times> int list" where
  "start_attempts [] cfg st = ([], st)"
| "start_attempts (os # oss) cfg st =
     (let (e, st) = start_attempt os cfg st; (es, st) = start_attempts oss cfg st in (e # es, st))"

text \<open>The destruction of the node closes the sockets that its members name.\<close>

definition destroy_sockets :: "node_sockets \<times> int list \<Rightarrow> int list" where
  "destroy_sockets st =
     (case st of (ns, fds) \<Rightarrow>
        close_opt (ns_transport ns) (case ns_mcast ns of Some ms \<Rightarrow> snd (mc_stop (ms, fds)) | None \<Rightarrow> fds))"

section \<open>What start-up leaves open\<close>

text \<open>
  \<open>held\<close>: the members of the node name open descriptors, each only once, and a discovery that is not
  running has none.
\<close>

definition opt_list :: "'a option \<Rightarrow> 'a list" where
  "opt_list x = (case x of Some y \<Rightarrow> [y] | None \<Rightarrow> [])"

definition mc_named :: "mc_sockets option \<Rightarrow> int list" where
  "mc_named m = (case m of Some ms \<Rightarrow> opt_list (ms_send_sock ms) @ opt_list (ms_recv_sock ms) | None \<Rightarrow> [])"

definition held :: "int multiset \<Rightarrow> node_sockets \<times> int list \<Rightarrow> bool" where
  "held rest st \<longleftrightarrow>
     mset (snd st) = rest + mset (opt_list (ns_transport (fst st))) + mset (mc_named (ns_mcast (fst st))) \<and>
     (\<forall>ms. ns_mcast (fst st) = Some ms \<and> \<not> ms_running ms \<longrightarrow> mc_named (Some ms) = [])"

lemma close_opt_mset: "mset (close_opt s fds) = mset fds - mset (opt_list s)"
  by (cases s) (simp_all add: close_opt_def close_socket_def opt_list_def)

lemma mc_stop_mset:
  assumes "mset fds = rest + mset (mc_named (Some ms))" and "\<not> ms_running ms \<Longrightarrow> mc_named (Some ms) = []"
  shows "mset (snd (mc_stop (ms, fds))) = rest"
  using assms by (cases "ms_running ms") (simp_all add: mc_stop_def close_opt_mset mc_named_def)

lemma stopped_mset:
  assumes "held rest (ns, fds)" and "fds' = fds @ extra"
  shows "mset (case ns_mcast ns of Some ms \<Rightarrow> snd (mc_stop (ms, fds')) | None \<Rightarrow> fds') =
    rest + mset (opt_list (ns_transport ns)) + mset extra"
proof (cases "ns_mcast ns")
  case None
  then show ?thesis using assms by (simp add: held_def mc_named_def)
next
  case (Some ms)
  have "mset fds' = (rest + mset (opt_list (ns_transport ns)) + mset extra) + mset (mc_named (Some ms))"
    using assms Some by (simp add: held_def ac_simps)
  from mc_stop_mset [OF this] show ?thesis using assms(1) Some by (simp add: held_def)
qed

lemma destroy_mset: "held rest st \<Longrightarrow> mset (destroy_sockets st) = rest"
proof -
  assume h: "held rest st"
  obtain ns fds where st: "st = (ns, fds)" by fastforce
  show ?thesis
    using stopped_mset [of rest ns fds fds "[]"] h by (simp add: st destroy_sockets_def close_opt_mset)
qed

lemma mc_start_named:
  "mc_start os cfg (mc_sockets_init, fds) = (e, ms, fds') \<Longrightarrow> fds' = fds @ mc_named (Some ms) \<and> ms_running ms"
  by (auto simp: mc_start_def setup_send_socket_def setup_recv_socket_def mc_sockets_init_def mc_named_def opt_list_def
      Let_def split: option.splits if_splits)

text \<open>
  One attempt on a node that has not started loses exactly the socket that its transport had: no member
  names it any more. Whatever else the attempt opens is named, and closed in the end.
\<close>

lemma start_attempt_loses:
  assumes h: "held rest (ns, fds)" and "start_attempt os cfg (ns, fds) = (e, ns', fds')"
  shows "held (rest + mset (if ns_started ns then [] else opt_list (ns_transport ns))) (ns', fds')"
proof (cases "ns_started ns")
  case True
  then show ?thesis using assms by (simp add: start_attempt_def)
next
  case False
  obtain be sock fds1 where b: "bind_socket (so_socket os) (so_bind_ok os) fds = (be, sock, fds1)" by (metis prod_cases3)
  have f1: "mset fds1 = mset fds + mset (opt_list sock)" "be = None \<Longrightarrow> fds1 = fds @ opt_list sock"
    using b by (auto simp: bind_socket_def opt_list_def close_socket_def split: option.splits if_splits)
  let ?fds2 = "case ns_mcast ns of Some ms \<Rightarrow> snd (mc_stop (ms, fds1)) | None \<Rightarrow> fds1"
  obtain me ms fds3 where m: "mc_start (so_mc os) cfg (mc_sockets_init, ?fds2) = (me, ms, fds3)" by (metis prod_cases3)
  have early: "held (rest + mset (opt_list (ns_transport ns))) (ns\<lparr>ns_transport := sock\<rparr>, fds1)"
    using h f1(1) by (simp add: held_def ac_simps)
  have late: "held (rest + mset (opt_list (ns_transport ns)))
      (ns\<lparr>ns_transport := sock, ns_mcast := Some ms, ns_started := st\<rparr>, fds3)" if "be = None" for st
    using mc_start_named [OF m] stopped_mset [OF h f1(2) [OF that]] by (simp add: held_def ac_simps)
  show ?thesis
  proof (cases be)
    case (Some x)
    then show ?thesis using assms(2) False b early by (simp add: start_attempt_def)
  next
    case None
    show ?thesis
    proof (cases "so_detect_ok os")
      case False
      then show ?thesis using assms(2) \<open>\<not> ns_started ns\<close> b None early by (simp add: start_attempt_def Let_def)
    next
      case True
      have "ns' = ns\<lparr>ns_transport := sock, ns_mcast := Some ms\<rparr> \<or>
          ns' = ns\<lparr>ns_transport := sock, ns_mcast := Some ms, ns_started := True\<rparr>" "fds' = fds3"
        using assms(2) False b None True m by (auto simp: start_attempt_def Let_def split: option.splits)
      then show ?thesis using late [OF None, of False] late [OF None, of True] False by (auto simp: held_def)
    qed
  qed
qed

lemma init_held: "held (mset fds) (node_sockets_init, fds)"
  by (simp add: held_def node_sockets_init_def opt_list_def mc_named_def)

text \<open>
  A start-up, whether it succeeds or fails at whichever call, gives everything back: when the node is
  destroyed after one attempt the process holds what it held before.
\<close>

theorem one_attempt_releases:
  "mset (destroy_sockets (snd (start_attempt os cfg (node_sockets_init, fds)))) = mset fds"
proof -
  obtain e ns fds' where a: "start_attempt os cfg (node_sockets_init, fds) = (e, ns, fds')" by (metis prod_cases3)
  show ?thesis
    using destroy_mset [OF start_attempt_loses [OF init_held a]] a
    by (simp add: node_sockets_init_def opt_list_def)
qed

text \<open>An attempt that fails after the transport was bound: the own address is not found, or the discovery
  does not start.\<close>

definition mc_starts :: "mc_os \<Rightarrow> bool" where
  "mc_starts os \<longleftrightarrow> mo_send os \<noteq> None \<and> mo_recv os \<noteq> None \<and> mo_bind_ok os \<and> mo_join_ok os"

definition fails_late :: "start_os \<Rightarrow> bool" where
  "fails_late os \<longleftrightarrow> so_socket os \<noteq> None \<and> so_bind_ok os \<and> \<not> (so_detect_ok os \<and> mc_starts (so_mc os))"

lemma mc_start_result: "fst (mc_start os cfg (mc_sockets_init, fds)) = None \<longleftrightarrow> mc_starts os"
  by (auto simp: mc_start_def mc_starts_def setup_send_socket_def setup_recv_socket_def mc_sockets_init_def Let_def
      split: option.splits)

lemma late_failure:
  assumes "fails_late os" and "\<not> ns_started ns"
  shows "\<exists>e ns' fds'. start_attempt os cfg (ns, fds) = (Some e, ns', fds') \<and> \<not> ns_started ns' \<and> ns_transport ns' = so_socket os"
proof -
  obtain s where s: "so_socket os = Some s" "so_bind_ok os" "so_detect_ok os \<Longrightarrow> \<not> mc_starts (so_mc os)"
    using assms(1) by (auto simp: fails_late_def)
  show ?thesis
  proof (cases "so_detect_ok os")
    case False
    then show ?thesis using s assms(2) by (simp add: start_attempt_def bind_socket_def Let_def)
  next
    case True
    obtain e ms fds' where "mc_start (so_mc os) cfg (mc_sockets_init,
        case ns_mcast ns of Some ms \<Rightarrow> snd (mc_stop (ms, fds @ [s])) | None \<Rightarrow> fds @ [s]) = (Some e, ms, fds')"
      using mc_start_result [of "so_mc os" cfg] s(3) [OF True] by (metis option.collapse prod_cases3 fst_conv)
    then show ?thesis using s(1,2) assms(2) True by (simp add: start_attempt_def bind_socket_def Let_def)
  qed
qed

lemma late_failures:
  assumes "held rest (ns, fds)" and "\<not> ns_started ns" and "list_all fails_late oss"
  shows "\<exists>es ns' fds'. start_attempts oss cfg (ns, fds) = (es, ns', fds') \<and> None \<notin> set es \<and> \<not> ns_started ns' \<and>
    held (rest + mset (if oss = [] then [] else opt_list (ns_transport ns) @ map (the \<circ> so_socket) (butlast oss))) (ns', fds')"
  using assms
proof (induction oss arbitrary: ns fds rest)
  case Nil
  then show ?case by simp
next
  case (Cons os oss)
  obtain e ns1 fds1 where a: "start_attempt os cfg (ns, fds) = (Some e, ns1, fds1)" "\<not> ns_started ns1"
    "ns_transport ns1 = so_socket os"
    using late_failure [of os ns cfg fds] Cons.prems by auto
  have h: "held (rest + mset (opt_list (ns_transport ns))) (ns1, fds1)"
    using start_attempt_loses [OF Cons.prems(1) a(1)] Cons.prems(2) by simp
  have one: "opt_list (so_socket os) = [the (so_socket os)]"
    using Cons.prems(3) by (auto simp: fails_late_def opt_list_def)
  obtain es ns' fds' where r: "start_attempts oss cfg (ns1, fds1) = (es, ns', fds')" "None \<notin> set es" "\<not> ns_started ns'"
    "held (rest + mset (opt_list (ns_transport ns)) +
       mset (if oss = [] then [] else opt_list (ns_transport ns1) @ map (the \<circ> so_socket) (butlast oss))) (ns', fds')"
    using Cons.IH [OF h a(2)] Cons.prems(3) by auto
  have "start_attempts (os # oss) cfg (ns, fds) = (Some e # es, ns', fds')" by (simp add: a(1) r(1))
  moreover have "held (rest + mset (opt_list (ns_transport ns) @ map (the \<circ> so_socket) (butlast (os # oss)))) (ns', fds')"
    using r(4) by (cases oss) (simp_all add: a(3) one ac_simps)
  ultimately show ?case using r(2,3) by simp
qed

text \<open>
  C18: A program that catches the exception of a failed start-up and tries again, as on a host whose
  network is not up yet, loses a socket per try: after any number of attempts that fail once the
  transport is bound, the sockets of all but the last are still open when the node is destroyed, and
  nothing else is.
\<close>

theorem startup_retries_leak:
  assumes "list_all fails_late oss"
  shows "case start_attempts oss cfg (node_sockets_init, fds) of (es, st) \<Rightarrow>
    None \<notin> set es \<and> mset (destroy_sockets st) = mset fds + mset (map (the \<circ> so_socket) (butlast oss))"
proof -
  have "\<not> ns_started node_sockets_init" "opt_list (ns_transport node_sockets_init) = []"
    by (simp_all add: node_sockets_init_def opt_list_def)
  then show ?thesis
    using late_failures [OF init_held _ assms, of cfg fds] destroy_mset by fastforce
qed

theorem startup_retries_leak_witness:
  "let no_route = \<lparr>so_socket = Some 5, so_bind_ok = True, so_detect_ok = True,
        so_mc = \<lparr>mo_send = Some 6, mo_recv = Some 7, mo_bind_ok = True, mo_join_ok = False, mo_has_reuseport = True\<rparr>\<rparr>
   in case start_attempts [no_route, no_route\<lparr>so_socket := Some 8\<rparr>, no_route\<lparr>so_socket := Some 9\<rparr>]
        MulticastDiscoveryConfig_default (node_sockets_init, [0, 1, 2]) of (es, st) \<Rightarrow>
      None \<notin> set es \<and> mset (destroy_sockets st) = mset [0, 1, 2] + mset [5, 8]"
  using startup_retries_leak [of "let no_route = \<lparr>so_socket = Some 5, so_bind_ok = True, so_detect_ok = True,
        so_mc = \<lparr>mo_send = Some 6, mo_recv = Some 7, mo_bind_ok = True, mo_join_ok = False, mo_has_reuseport = True\<rparr>\<rparr>
      in [no_route, no_route\<lparr>so_socket := Some 8\<rparr>, no_route\<lparr>so_socket := Some 9\<rparr>]"
      "[0, 1, 2]" MulticastDiscoveryConfig_default]
  by (simp add: fails_late_def mc_starts_def Let_def del: start_attempts.simps)

section \<open>Start-up computes what it did\<close>

text \<open>
  On a node in multicast mode an attempt throws exactly where \<open>ensure_started\<close> does, or where the
  discovery does not start.
\<close>

lemma attempt_agrees:
  fixes n :: "'c RelinkNode"
  assumes "nd_mode n = ModeMulticast" and "\<not> (cf_relay_requested (nd_rlcore n) \<and> \<not> nd_relay_enabled n)"
    and "ns_started ns = nd_started n"
    and "ne_bind env = (so_socket os, so_bind_ok os, port)" and "ne_self_ip env \<noteq> None \<longleftrightarrow> so_detect_ok os"
  shows "fst (start_attempt os cfg (ns, fds)) = None \<longleftrightarrow>
    (\<exists>r. ensure_started env n = Inr r) \<and> (nd_started n \<or> mc_starts (so_mc os))"
proof (cases "nd_started n")
  case True
  then show ?thesis using assms by (simp add: start_attempt_def ensure_started_def)
next
  case False
  have "isl (ensure_started env n) \<longleftrightarrow> \<not> (so_socket os \<noteq> None \<and> so_bind_ok os \<and> so_detect_ok os)"
    using False assms
    by (cases "so_socket os"; cases "so_bind_ok os"; cases "so_detect_ok os"; cases "ne_self_ip env")
      (simp_all add: ensure_started_def resolve_relay_def bind_new_def transport_bind_def Let_def split: prod.split)
  then have "(\<exists>r. ensure_started env n = Inr r) \<longleftrightarrow> so_socket os \<noteq> None \<and> so_bind_ok os \<and> so_detect_ok os"
    by (cases "ensure_started env n") auto
  moreover have "fst (start_attempt os cfg (ns, fds)) = None \<longleftrightarrow>
      so_socket os \<noteq> None \<and> so_bind_ok os \<and> so_detect_ok os \<and> mc_starts (so_mc os)"
  proof (cases "so_socket os \<noteq> None \<and> so_bind_ok os \<and> so_detect_ok os")
    case True
    then obtain s where s: "so_socket os = Some s" by auto
    let ?fds = "case ns_mcast ns of Some ms \<Rightarrow> snd (mc_stop (ms, fds @ [s])) | None \<Rightarrow> fds @ [s]"
    obtain e ms fds' where m: "mc_start (so_mc os) cfg (mc_sockets_init, ?fds) = (e, ms, fds')" by (metis prod_cases3)
    have "fst (start_attempt os cfg (ns, fds)) = map_option DiscoveryError e"
      using True s m False assms(3) by (cases e) (simp_all add: start_attempt_def bind_socket_def Let_def)
    then show ?thesis using mc_start_result [of "so_mc os" cfg ?fds] m True by simp
  next
    case no: False
    then show ?thesis using False assms(3)
      by (cases "so_socket os") (auto simp: start_attempt_def bind_socket_def Let_def)
  qed
  ultimately show ?thesis using False by blast
qed

end
