(* ===== verification/H264_Codec.thy ===== *)
theory H264_Codec
  imports Command_Line "HOL-Library.Sublist"
begin

text \<open>
  The wrapper around an external video encoder and decoder,
  \<^verbatim>\<open>cpp/examples/ros2_compare/gst_h264_codec.hpp\<close>: the child process with its two pipes, the loops that
  write and read a pipe, and the two reader threads. The kernel is a parameter: the numbers and ends that
  \<^verbatim>\<open>pipe\<close> returns, the result of \<^verbatim>\<open>posix_spawnp\<close>, how many bytes a \<^verbatim>\<open>write\<close> takes, and the pieces in which
  the bytes of a pipe become readable. A callback is the bytes it is called with.
\<close>

section \<open>The child process\<close>

text \<open>
  The descriptors of a process are a table from numbers to what they refer to. \<open>ReadEnd i\<close> and \<open>WriteEnd i\<close>
  are the ends of pipe \<open>i\<close>; a reader of pipe \<open>i\<close> sees its end only when no table holds \<open>WriteEnd i\<close>.
\<close>

datatype description = ReadEnd nat | WriteEnd nat | OtherFile nat

type_synonym fd_table = "int \<rightharpoonup> description"

record ChildProcess =
  cp_pid :: int
  cp_stdin_fd :: int
  cp_stdout_fd :: int

definition ChildProcess_init :: ChildProcess where
  "ChildProcess_init = \<lparr>cp_pid = -1, cp_stdin_fd = -1, cp_stdout_fd = -1\<rparr>"

text \<open>Move assignment: the new values of \<^verbatim>\<open>*this\<close> and of \<^verbatim>\<open>other\<close>.\<close>

definition cp_move_assign :: "ChildProcess \<Rightarrow> ChildProcess \<Rightarrow> ChildProcess \<times> ChildProcess" where
  "cp_move_assign this other = (other, ChildProcess_init)"

datatype file_action = AddDup2 int int | AddClose int

fun run_action :: "file_action \<Rightarrow> fd_table \<Rightarrow> fd_table" where
  "run_action (AddDup2 a b) tab = tab(b := tab a)"
| "run_action (AddClose a) tab = tab(a := None)"

definition open_pipe :: "nat \<Rightarrow> int \<times> int \<Rightarrow> fd_table \<Rightarrow> fd_table" where
  "open_pipe i p tab = tab(fst p \<mapsto> ReadEnd i, snd p \<mapsto> WriteEnd i)"

definition close_fd :: "int \<Rightarrow> fd_table \<Rightarrow> fd_table" where
  "close_fd fd tab = tab(fd := None)"

definition spawn_actions :: "int \<times> int \<Rightarrow> int \<times> int \<Rightarrow> file_action list" where
  "spawn_actions in_pipe out_pipe =
     [AddDup2 (fst in_pipe) 0, AddDup2 (snd out_pipe) 1, AddClose (fst in_pipe), AddClose (snd in_pipe),
      AddClose (fst out_pipe), AddClose (snd out_pipe)]"

datatype spawn_error = PipeFailed | PosixSpawnFailed int

text \<open>
  \<^verbatim>\<open>spawn\<close>: the child and the table it starts with, or the exception, and the caller's table. The two calls
  of \<^verbatim>\<open>pipe\<close> open the pipes \<open>i\<close> and \<open>i + 1\<close>; a child inherits what the actions leave of the caller's table.
\<close>

definition cp_spawn ::
  "nat \<Rightarrow> (int \<times> int) option \<Rightarrow> (int \<times> int) option \<Rightarrow> int \<Rightarrow> int \<Rightarrow> fd_table \<Rightarrow>
   (spawn_error + ChildProcess \<times> fd_table) \<times> fd_table" where
  "cp_spawn i os_pipe1 os_pipe2 os_spawn os_pid tab =
     (case os_pipe1 of
        None \<Rightarrow> (Inl PipeFailed, tab)
      | Some in_pipe \<Rightarrow>
          let tab = open_pipe i in_pipe tab in
          case os_pipe2 of
            None \<Rightarrow> (Inl PipeFailed, tab)
          | Some out_pipe \<Rightarrow>
              let tab = open_pipe (i + 1) out_pipe tab;
                  child = fold run_action (spawn_actions in_pipe out_pipe) tab
              in if os_spawn \<noteq> 0 then (Inl (PosixSpawnFailed os_spawn), tab)
                 else (Inr (\<lparr>cp_pid = os_pid, cp_stdin_fd = snd in_pipe, cp_stdout_fd = fst out_pipe\<rparr>, child),
                       close_fd (snd out_pipe) (close_fd (fst in_pipe) tab)))"

text \<open>What closing and destruction ask of the system, in order.\<close>

datatype cp_call = CloseFd int | JoinReader | KillTerm int | WaitPid int

definition close_stdin :: "ChildProcess \<Rightarrow> cp_call list \<times> ChildProcess" where
  "close_stdin p =
     (if cp_stdin_fd p \<ge> 0 then ([CloseFd (cp_stdin_fd p)], p\<lparr>cp_stdin_fd := -1\<rparr>) else ([], p))"

definition ChildProcess_dtor :: "ChildProcess \<Rightarrow> cp_call list" where
  "ChildProcess_dtor p =
     (let (calls, p) = close_stdin p
      in calls @ (if cp_stdout_fd p \<ge> 0 then [CloseFd (cp_stdout_fd p)] else [])
         @ (if cp_pid p > 0 then [KillTerm (cp_pid p), WaitPid (cp_pid p)] else []))"

text \<open>\<^verbatim>\<open>~Encoder\<close> and \<^verbatim>\<open>~Decoder\<close>, and the destruction of \<^verbatim>\<open>proc_\<close> that follows.\<close>

definition codec_dtor :: "ChildProcess \<Rightarrow> cp_call list" where
  "codec_dtor proc =
     (let (calls, proc) = close_stdin proc in calls @ [JoinReader] @ ChildProcess_dtor proc)"

fun run_call :: "cp_call \<Rightarrow> fd_table \<Rightarrow> fd_table" where
  "run_call (CloseFd fd) tab = close_fd fd tab"
| "run_call _ tab = tab"

section \<open>Command lines of the children\<close>

definition trunc_int :: "real \<Rightarrow> int" where
  "trunc_int x = (if x < 0 then \<lceil>x\<rceil> else \<lfloor>x\<rfloor>)"

definition encoder_fps_num :: "real \<Rightarrow> int" where
  "encoder_fps_num fps = (let n = trunc_int (fps + 1 / 2) in if n < 1 then 1 else n)"

definition encoder_argv :: "int \<Rightarrow> int \<Rightarrow> real \<Rightarrow> int \<Rightarrow> string list" where
  "encoder_argv width height fps gop =
     [''gst-launch-1.0'', ''-q'', ''fdsrc'', ''fd=0'', ''!'', ''rawvideoparse'', ''format=bgr'',
      ''width='' @ show_int width, ''height='' @ show_int height,
      ''framerate='' @ show_int (encoder_fps_num fps) @ ''/1'',
      ''!'', ''videoconvert'', ''!'', ''vaapipostproc'', ''!'', ''vaapih264enc'', ''aud=true'', ''rate-control=cqp'',
      ''keyframe-period='' @ show_int gop, ''!'', ''h264parse'', ''config-interval=-1'', ''!'',
      ''video/x-h264,stream-format=byte-stream,alignment=au'', ''!'', ''fdsink'', ''fd=1'', ''sync=false'']"

definition decoder_argv :: "string list" where
  "decoder_argv =
     [''gst-launch-1.0'', ''-q'', ''fdsrc'', ''fd=0'', ''!'', ''h264parse'', ''!'', ''vaapih264dec'', ''!'', ''videoconvert'',
      ''!'', ''video/x-raw,format=BGR'', ''!'', ''fdsink'', ''fd=1'', ''sync=false'']"

section \<open>Reading and writing a pipe\<close>

text \<open>
  A pipe is the pieces in which its bytes become readable. \<^verbatim>\<open>read\<close> returns at most the bytes asked for of
  the first piece; an empty piece, and no piece, is the result zero or less: the end, or an error.
\<close>

fun os_read :: "nat \<Rightarrow> bytes list \<Rightarrow> bytes \<times> bytes list" where
  "os_read len [] = ([], [])"
| "os_read len (c # cs) = (take len c, if length c \<le> len then cs else drop len c # cs)"

definition stream :: "bytes list \<Rightarrow> bytes" where
  "stream pipe = concat (takeWhile (\<lambda>c. c \<noteq> []) pipe)"

lemma os_read_stream:
  assumes "os_read len pipe = (chunk, pipe')"
  shows "chunk = [] \<Longrightarrow> 0 < len \<Longrightarrow> stream pipe = []"
    and "chunk \<noteq> [] \<Longrightarrow> stream pipe = chunk @ stream pipe'"
    and "chunk \<noteq> [] \<Longrightarrow> length (concat pipe') < length (concat pipe)"
    and "length chunk \<le> len"
  using assms by (cases pipe; auto simp: stream_def split: if_splits)+

fun write_all :: "int list \<Rightarrow> bytes \<Rightarrow> bool option \<times> bytes" where
  "write_all rs [] = (Some True, [])"
| "write_all [] (x # xs) = (None, [])"
| "write_all (n # rs) (x # xs) =
     (if n \<le> 0 then (Some False, [])
      else let (ok, written) = write_all rs (drop (nat n) (x # xs)) in (ok, take (nat n) (x # xs) @ written))"

function read_all :: "nat \<Rightarrow> bytes list \<Rightarrow> bool \<times> bytes \<times> bytes list" where
  "read_all len pipe =
     (if len = 0 then (True, [], pipe)
      else let (chunk, pipe) = os_read len pipe in
        if chunk = [] then (False, [], pipe)
        else let (ok, rest, pipe) = read_all (len - length chunk) pipe in (ok, chunk @ rest, pipe))"
  by pat_completeness auto
termination by (relation "measure fst") auto

declare read_all.simps [simp del]

section \<open>Access units\<close>

definition AUD :: bytes where "AUD = [0, 0, 0, 1, 9]"

definition std_search :: "bytes \<Rightarrow> bytes \<Rightarrow> nat \<Rightarrow> nat option" where
  "std_search buf pat from = find (\<lambda>i. take (length pat) (drop i buf) = pat) [from..<length buf + 1 - length pat]"

lemma length_AUD [simp]: "length AUD = 5"
  by (simp add: AUD_def)

lemma std_search_None: "std_search buf AUD from = None \<longleftrightarrow>
    (\<forall>q. from \<le> q \<and> q + 5 \<le> length buf \<longrightarrow> take 5 (drop q buf) \<noteq> AUD)"
  by (auto simp: std_search_def find_None_iff)

lemma std_search_Some: "std_search buf AUD from = Some p \<longleftrightarrow>
    from \<le> p \<and> p + 5 \<le> length buf \<and> take 5 (drop p buf) = AUD \<and>
    (\<forall>q. from \<le> q \<and> q < p \<longrightarrow> take 5 (drop q buf) \<noteq> AUD)"
proof
  assume "std_search buf AUD from = Some p"
  then obtain i where i: "i < length buf - 4 - from" "take 5 (drop (from + i) buf) = AUD" "p = from + i"
    and before: "\<forall>j < i. take 5 (drop (from + j) buf) \<noteq> AUD"
    by (auto simp: std_search_def find_Some_iff)
  have "take 5 (drop q buf) \<noteq> AUD" if "from \<le> q" "q < p" for q
    using before [rule_format, of "q - from"] that i(3) by simp
  with i show "from \<le> p \<and> p + 5 \<le> length buf \<and> take 5 (drop p buf) = AUD \<and>
      (\<forall>q. from \<le> q \<and> q < p \<longrightarrow> take 5 (drop q buf) \<noteq> AUD)" by auto
next
  assume "from \<le> p \<and> p + 5 \<le> length buf \<and> take 5 (drop p buf) = AUD \<and>
      (\<forall>q. from \<le> q \<and> q < p \<longrightarrow> take 5 (drop q buf) \<noteq> AUD)"
  then show "std_search buf AUD from = Some p"
    by (auto simp: std_search_def find_Some_iff intro!: exI [of _ "p - from"])
qed

lemma std_search_Nil [simp]: "std_search [] AUD from = None"
  by (simp add: std_search_None)

lemma AUD_here: "take 5 (drop p buf) = AUD \<Longrightarrow> p + 5 \<le> length buf"
  by (drule arg_cong [where f = length]) (simp add: AUD_def)

lemma std_search_append: "std_search s AUD from = Some p \<Longrightarrow> std_search (s @ c) AUD from = Some p"
  by (auto simp: std_search_Some)

lemma std_search_drop:
  assumes "p \<le> length buf"
  shows "std_search buf AUD (p + k) = map_option (\<lambda>q. p + q) (std_search (drop p buf) AUD k)"
proof (cases "std_search (drop p buf) AUD k")
  case None
  have "take 5 (drop q buf) \<noteq> AUD" if q: "p + k \<le> q" "q + 5 \<le> length buf" for q
  proof -
    obtain r where r: "q = p + r" using q(1) by (metis add.assoc le_iff_add)
    show ?thesis using None [unfolded std_search_None, rule_format, of r] q by (simp add: r add.commute)
  qed
  then have "std_search buf AUD (p + k) = None" unfolding std_search_None by blast
  then show ?thesis using None by simp
next
  case (Some x)
  have "take 5 (drop q buf) \<noteq> AUD" if q: "p + k \<le> q" "q < p + x" for q
  proof -
    obtain r where r: "q = p + r" using q(1) by (metis add.assoc le_iff_add)
    have "\<forall>q. k \<le> q \<and> q < x \<longrightarrow> take 5 (drop q (drop p buf)) \<noteq> AUD"
      using Some unfolding std_search_Some by blast
    then show ?thesis using q by (auto simp: r add.commute dest: spec [of _ r])
  qed
  then have "std_search buf AUD (p + k) = Some (p + x)"
    using Some assms unfolding std_search_Some by (auto simp: add.commute [of x p])
  then show ?thesis using Some by simp
qed

section \<open>The encoder's reader thread\<close>

function scan :: "bytes \<Rightarrow> nat option \<Rightarrow> bytes list \<times> nat option" where
  "scan buf frame_start =
     (let search_from = (case frame_start of None \<Rightarrow> 0 | Some s \<Rightarrow> s + 1) in
      if search_from + length AUD > length buf then ([], frame_start)
      else case std_search buf AUD search_from of
        None \<Rightarrow> ([], frame_start)
      | Some pos \<Rightarrow>
          let (units, last) = scan buf (Some pos)
          in ((case frame_start of None \<Rightarrow> [] | Some s \<Rightarrow> [bslice s (pos - s) buf]) @ units, last))"
  by pat_completeness auto
termination
  by (relation "measure (\<lambda>(buf, st). length buf + 1 - (case st of None \<Rightarrow> 0 | Some s \<Rightarrow> s + 1))")
    (auto simp: std_search_Some split: option.splits)

declare scan.simps [simp del]

function read_loop :: "bytes \<Rightarrow> nat option \<Rightarrow> bytes list \<Rightarrow> bytes list" where
  "read_loop buf frame_start pipe =
     (let (chunk, pipe) = os_read 65536 pipe in
      if chunk = []
      then (case frame_start of
              Some s \<Rightarrow> if s < length buf then [drop s buf] else []
            | None \<Rightarrow> [])
      else
        let buf = buf @ chunk;
            (units, frame_start) = scan buf frame_start;
            (buf, frame_start) =
              (case frame_start of
                 Some s \<Rightarrow> if s > 0 then (drop s buf, Some 0) else (buf, frame_start)
               | None \<Rightarrow> (buf, frame_start))
        in units @ read_loop buf frame_start pipe)"
  by pat_completeness auto
termination
  by (relation "measure (\<lambda>(buf, st, pipe). length (concat pipe))") (auto dest: os_read_stream(3) [OF sym])

declare read_loop.simps [simp del]

text \<open>
  \<open>split_units s\<close> splits \<open>s\<close> before every access unit delimiter after its first byte: the pieces that are
  complete, and the last one. \<open>access_units\<close> is what a stream as a whole consists of: nothing before its
  first delimiter, and then one unit from each delimiter to the next.
\<close>

function split_units :: "bytes \<Rightarrow> bytes list \<times> bytes" where
  "split_units s =
     (case std_search s AUD (Suc 0) of
        None \<Rightarrow> ([], s)
      | Some p \<Rightarrow> let (units, rest) = split_units (drop p s) in (take p s # units, rest))"
  by pat_completeness auto
termination by (relation "measure length") (auto simp: std_search_Some)

declare split_units.simps [simp del]

definition access_units :: "bytes \<Rightarrow> bytes list" where
  "access_units s =
     (case std_search s AUD 0 of
        None \<Rightarrow> []
      | Some p \<Rightarrow> let (units, rest) = split_units (drop p s) in units @ [rest])"

lemma cut_append: "split_units (s @ c) = (let (us, r) = split_units s; (vs, r') = split_units (r @ c) in (us @ vs, r'))"
proof (induction s rule: split_units.induct)
  case (1 s)
  show ?case
  proof (cases "std_search s AUD (Suc 0)")
    case None
    then show ?thesis by (subst (2) split_units.simps) (simp split: prod.splits)
  next
    case (Some p)
    have p: "p \<le> length s" using Some by (simp add: std_search_Some)
    note IH = "1.IH" [OF Some]
    show ?thesis
      using IH p by (subst split_units.simps, subst (2) split_units.simps)
        (simp add: Some std_search_append [OF Some] Let_def split: prod.splits)
  qed
qed

lemma cut_rest: "take 5 s = AUD \<Longrightarrow> split_units s = (us, r) \<Longrightarrow>
    take 5 r = AUD \<and> std_search r AUD (Suc 0) = None \<and> concat us @ r = s"
proof (induction s arbitrary: us rule: split_units.induct)
  case (1 s)
  show ?case
  proof (cases "std_search s AUD (Suc 0)")
    case None
    then show ?thesis using "1.prems" by (auto simp: split_units.simps [of s])
  next
    case (Some p)
    obtain vs where v: "split_units (drop p s) = (vs, r)" "us = take p s # vs"
      using "1.prems"(2) by (auto simp: split_units.simps [of s] Some split: prod.splits)
    show ?thesis using "1.IH" [OF Some, of vs] v Some by (auto simp: std_search_Some)
  qed
qed

text \<open>The inner loop cuts the buffer from the start of the frame in progress on.\<close>

lemma scan_cut:
  "s \<le> length buf \<Longrightarrow> take 5 (drop s buf) = AUD \<Longrightarrow>
   \<exists>q \<ge> s. scan buf (Some s) = (fst (split_units (drop s buf)), Some q) \<and> q \<le> length buf \<and> drop q buf = snd (split_units (drop s buf))"
proof (induction "length buf - s" arbitrary: s rule: less_induct)
  case less
  have shift: "std_search buf AUD (s + Suc 0) = map_option (\<lambda>q. s + q) (std_search (drop s buf) AUD (Suc 0))"
    by (rule std_search_drop [OF less.prems(1)])
  show ?case
  proof (cases "std_search (drop s buf) AUD (Suc 0)")
    case None
    then show ?thesis using shift less.prems by (simp add: scan.simps [of buf "Some s"] split_units.simps [of "drop s buf"])
  next
    case (Some p)
    let ?q = "s + p"
    have q: "1 \<le> p" "?q + 5 \<le> length buf" "take 5 (drop ?q buf) = AUD"
      using Some by (auto simp: std_search_Some add.commute)
    have "\<exists>r \<ge> ?q. scan buf (Some ?q) = (fst (split_units (drop ?q buf)), Some r) \<and> r \<le> length buf \<and>
        drop r buf = snd (split_units (drop ?q buf))"
      by (rule less.hyps) (use q in simp_all)
    then obtain r where r: "r \<ge> ?q" "scan buf (Some ?q) = (fst (split_units (drop ?q buf)), Some r)"
      "r \<le> length buf" "drop r buf = snd (split_units (drop ?q buf))" by blast
    show ?thesis
      using shift r q
      by (intro exI [of _ r])
        (simp add: scan.simps [of buf "Some s"] split_units.simps [of "drop s buf"] Some bslice_def add.commute
          split: prod.splits)
  qed
qed

lemma scan_none:
  "scan buf None =
     (case std_search buf AUD 0 of
        None \<Rightarrow> ([], None)
      | Some p \<Rightarrow> scan buf (Some p))"
proof (cases "5 \<le> length buf")
  case True
  then show ?thesis by (simp add: scan.simps [of buf None] case_prod_beta split: option.splits)
next
  case False
  then have "std_search buf AUD 0 = None" by (simp add: std_search_None)
  then show ?thesis using False by (simp add: scan.simps [of buf None])
qed

text \<open>
  The outer loop: with a frame in progress at the start of the buffer it emits what the buffer and the
  rest of the stream split into; before the first delimiter it emits the access units of both.
\<close>

lemma erased: "(case if 0 < q then (drop q buf, Some 0) else (buf, Some q) of (b, f) \<Rightarrow> g b f) = g (drop q buf) (Some 0)"
  by (cases q) simp_all

lemma read_loop_in_frame:
  assumes "take 5 buf = AUD" and "std_search buf AUD (Suc 0) = None"
  shows "read_loop buf (Some 0) pipe = (let (us, r) = split_units (buf @ stream pipe) in us @ [r])"
  using assms
proof (induction "length (concat pipe)" arbitrary: buf pipe rule: less_induct)
  case less
  obtain chunk pipe' where rd: "os_read 65536 pipe = (chunk, pipe')" by fastforce
  have buf: "split_units buf = ([], buf)" "buf \<noteq> []"
    using less.prems by (auto simp: split_units.simps [of buf] AUD_def)
  show ?case
  proof (cases "chunk = []")
    case True
    then show ?thesis using os_read_stream(1) [OF rd] buf by (simp add: read_loop.simps [of buf] rd)
  next
    case False
    let ?b = "buf @ chunk"
    obtain us r where su: "split_units ?b = (us, r)" by fastforce
    have aud: "take 5 ?b = AUD" using less.prems(1) AUD_here [of 0 buf] by simp
    obtain q where q: "scan ?b (Some 0) = (us, Some q)" "drop q ?b = r"
      using scan_cut [of 0 ?b] aud su by auto
    have r: "take 5 r = AUD" "std_search r AUD (Suc 0) = None" using cut_rest [OF aud su] by simp_all
    have "read_loop buf (Some 0) pipe = us @ read_loop r (Some 0) pipe'"
      using False q by (simp add: read_loop.simps [of buf] rd Let_def erased)
    also have "\<dots> = us @ (let (vs, r') = split_units (r @ stream pipe') in vs @ [r'])"
      using less.hyps [OF os_read_stream(3) [OF rd False] r] by simp
    also have "\<dots> = (let (us, r) = split_units (buf @ stream pipe) in us @ [r])"
      using os_read_stream(2) [OF rd False] cut_append [of ?b "stream pipe'"] su
      by (simp split: prod.splits)
    finally show ?thesis .
  qed
qed

lemma read_loop_before:
  assumes "std_search buf AUD 0 = None"
  shows "read_loop buf None pipe = access_units (buf @ stream pipe)"
  using assms
proof (induction "length (concat pipe)" arbitrary: buf pipe rule: less_induct)
  case less
  obtain chunk pipe' where rd: "os_read 65536 pipe = (chunk, pipe')" by fastforce
  show ?case
  proof (cases "chunk = []")
    case True
    then show ?thesis
      using os_read_stream(1) [OF rd] less.prems by (simp add: read_loop.simps [of buf] rd access_units_def)
  next
    case False
    let ?b = "buf @ chunk"
    note s = os_read_stream(2) [OF rd False]
    show ?thesis
    proof (cases "std_search ?b AUD 0")
      case None
      then have "read_loop buf None pipe = read_loop ?b None pipe'"
        using False by (simp add: read_loop.simps [of buf] rd scan_none)
      then show ?thesis using less.hyps [OF os_read_stream(3) [OF rd False] None] s by simp
    next
      case (Some p)
      have p: "p \<le> length ?b" "take 5 (drop p ?b) = AUD" using Some by (auto simp: std_search_Some)
      obtain us r where su: "split_units (drop p ?b) = (us, r)" by fastforce
      obtain q where q: "scan ?b (Some p) = (us, Some q)" "drop q ?b = r" using scan_cut [OF p] su by auto
      have r: "take 5 r = AUD" "std_search r AUD (Suc 0) = None" using cut_rest [OF p(2) su] by simp_all
      have "read_loop buf None pipe = us @ read_loop r (Some 0) pipe'"
        using False q by (simp add: read_loop.simps [of buf] rd scan_none Some Let_def erased)
      also have "\<dots> = us @ (let (vs, r') = split_units (r @ stream pipe') in vs @ [r'])"
        using read_loop_in_frame [OF r, of pipe'] by simp
      also have "\<dots> = access_units (?b @ stream pipe')"
        using cut_append [of "drop p ?b" "stream pipe'"] su p(1)
        by (simp only: access_units_def std_search_append [OF Some]) (simp split: prod.splits)
      finally show ?thesis using s by simp
    qed
  qed
qed

text \<open>
  C35: The encoder's reader thread emits the same access units however the pipe cuts the stream into
  reads: those of the stream as a whole.
\<close>

theorem encoder_units_independent_of_reads:
  "read_loop [] None pipe = access_units (stream pipe)"
  using read_loop_before [of "[]" pipe] by (simp add: std_search_None)

text \<open>
  An access unit starts with a delimiter and holds no other. Delimiters do not overlap, so a unit ends
  where the next one starts.
\<close>

definition is_unit :: "bytes \<Rightarrow> bool" where
  "is_unit u \<longleftrightarrow> take 5 u = AUD \<and> std_search u AUD 1 = None"

lemma AUD_border_free:
  assumes "drop k AUD = take (5 - k) AUD" and "k \<le> 5"
  shows "k = 0 \<or> k = 5"
proof -
  consider "k = 0" | "k = 1" | "k = 2" | "k = 3" | "k = 4" | "k = 5" using assms(2) by linarith
  then show ?thesis using assms(1) by cases (simp_all add: AUD_def)
qed

lemma next_delimiter:
  assumes "is_unit u" and "take 5 rest = AUD"
  shows "std_search (u @ rest) AUD (Suc 0) = Some (length u)"
proof -
  have u: "take 5 u = AUD" "\<forall>q. Suc 0 \<le> q \<and> q + 5 \<le> length u \<longrightarrow> take 5 (drop q u) \<noteq> AUD"
    using assms(1) by (simp_all add: is_unit_def std_search_None)
  have len: "5 \<le> length u" "5 \<le> length rest"
    using AUD_here [of 0 u] AUD_here [of 0 rest] u(1) assms(2) by simp_all
  have "take 5 (drop q (u @ rest)) \<noteq> AUD" if q: "Suc 0 \<le> q" "q < length u" for q
  proof (cases "q + 5 \<le> length u")
    case True
    then show ?thesis using u(2) q by simp
  next
    case False
    define k where "k = length u - q"
    have k: "k < 5" "0 < k" using False q by (auto simp: k_def)
    show ?thesis
    proof
      assume "take 5 (drop q (u @ rest)) = AUD"
      then have "take 5 (drop q u @ rest) = AUD" using q by simp
      moreover have "take 5 (drop q u @ rest) = drop q u @ take (5 - k) rest" using k by (simp add: k_def)
      ultimately have "drop q u @ take (5 - k) rest = AUD" by simp
      then have "drop k AUD = drop k (drop q u @ take (5 - k) rest)" by simp
      also have "\<dots> = take (5 - k) rest" using q by (simp add: k_def)
      also have "\<dots> = take (5 - k) AUD" using assms(2) by (metis diff_le_self min.absorb1 take_take)
      finally show False using AUD_border_free [of k] k by simp
    qed
  qed
  then show ?thesis using assms(2) len by (simp add: std_search_Some)
qed

lemma split_concat:
  "list_all is_unit (u # us) \<Longrightarrow> split_units (concat (u # us)) = (butlast (u # us), last (u # us))"
proof (induction us arbitrary: u)
  case Nil
  then show ?case by (simp add: is_unit_def split_units.simps [of u])
next
  case (Cons v vs)
  have "take 5 v = AUD" using Cons.prems by (simp add: is_unit_def)
  then have "take 5 (concat (v # vs)) = AUD" using AUD_here [of 0 v] by simp
  then have "std_search (concat (u # v # vs)) AUD (Suc 0) = Some (length u)"
    using next_delimiter [of u "concat (v # vs)"] Cons.prems by simp
  then show ?case
    using Cons.IH [of v] Cons.prems by (cases vs) (simp_all add: split_units.simps [of "u @ v @ _"] split_units.simps [of "u @ v"])
qed

text \<open>
  What the external encoder writes, access unit after access unit, comes out of the reader thread as
  exactly these units, one call of the callback each, wherever its reads happen to cut the stream.
\<close>

theorem encoder_emits_units:
  assumes "list_all is_unit us" and "stream pipe = concat us"
  shows "read_loop [] None pipe = us"
proof (cases us)
  case Nil
  then show ?thesis using assms(2) read_loop_before [of "[]" pipe] by (simp add: access_units_def std_search_None)
next
  case (Cons u vs)
  have "take 5 u = AUD" using assms(1) Cons by (simp add: is_unit_def)
  then have "take 5 (concat us) = AUD" using AUD_here [of 0 u] Cons by simp
  then have "std_search (concat us) AUD 0 = Some 0" using AUD_here [of 0 "concat us"] by (simp add: std_search_Some)
  then have "access_units (concat us) = us"
    using split_concat [of u vs] assms(1) by (simp add: access_units_def Cons del: concat.simps)
  then show ?thesis using read_loop_before [of "[]" pipe] assms(2) by (simp add: std_search_None)
qed

theorem encoder_emits_units_witness:
  "read_loop [] None [[0, 0], [0, 1, 9, 7, 0], [0, 0, 0, 1, 9, 8]] = [[0, 0, 0, 1, 9, 7, 0], [0, 0, 0, 1, 9, 8]]"
  by (rule encoder_emits_units) (simp_all add: is_unit_def AUD_def std_search_def upt_rec stream_def)

text \<open>
  A unit is known to be complete only when the delimiter of the next one has been read: every unit but
  the last is final, whatever is still to come.
\<close>

lemma units_final: "prefix (butlast (access_units s)) (access_units (s @ c))"
proof (cases "std_search s AUD 0")
  case None
  then show ?thesis by (simp add: access_units_def)
next
  case (Some p)
  obtain us r where u: "split_units (drop p s) = (us, r)" by fastforce
  obtain vs r' where v: "split_units (r @ c) = (vs, r')" by fastforce
  have "p \<le> length s" using Some by (simp add: std_search_Some)
  then have "access_units (s @ c) = us @ vs @ [r']"
    using cut_append [of "drop p s" c] u v by (simp add: access_units_def std_search_append [OF Some])
  moreover have "access_units s = us @ [r]" by (simp add: access_units_def Some u)
  ultimately show ?thesis by simp
qed

section \<open>The decoder's reader thread\<close>

definition decoder_frame_size :: "int \<Rightarrow> int \<Rightarrow> nat" where
  "decoder_frame_size width height = unat (word_of_int width * word_of_int height * 3 :: u64)"

partial_function (option) decoder_read_loop :: "nat \<Rightarrow> bytes list \<Rightarrow> bytes list option" where
  "decoder_read_loop frame_size pipe =
     (let (ok, frame, pipe) = read_all frame_size pipe
      in if \<not> ok then Some []
         else Option.bind (decoder_read_loop frame_size pipe) (\<lambda>frames. Some (frame # frames)))"

lemma read_all_stream:
  "read_all len pipe = (if len \<le> length (stream pipe) then (True, take len (stream pipe), snd (snd (read_all len pipe)))
     else (False, stream pipe, snd (snd (read_all len pipe)))) \<and>
   (len \<le> length (stream pipe) \<longrightarrow> stream (snd (snd (read_all len pipe))) = drop len (stream pipe))"
proof (induction len pipe rule: read_all.induct)
  case (1 len pipe)
  show ?case
  proof (cases "len = 0")
    case True
    then show ?thesis by (simp add: read_all.simps [of 0])
  next
    case False
    obtain chunk pipe' where rd: "os_read len pipe = (chunk, pipe')" by fastforce
    show ?thesis
    proof (cases "chunk = []")
      case True
      then show ?thesis using False os_read_stream(1) [OF rd] by (simp add: read_all.simps [of len] rd)
    next
      case c: False
      note s = os_read_stream(2) [OF rd c] and l = os_read_stream(4) [OF rd]
      obtain ok rest p where r: "read_all (len - length chunk) pipe' = (ok, rest, p)" by (metis prod_cases3)
      have IH: "(ok, rest) = (if len - length chunk \<le> length (stream pipe') then (True, take (len - length chunk) (stream pipe'))
          else (False, stream pipe'))"
        "len - length chunk \<le> length (stream pipe') \<Longrightarrow> stream p = drop (len - length chunk) (stream pipe')"
        using "1.IH" [OF False rd [symmetric] refl c] unfolding r by (auto split: if_splits)
      have "read_all len pipe = (ok, chunk @ rest, p)"
        using False c by (simp add: read_all.simps [of len] rd r)
      then show ?thesis using IH l by (auto simp: s split: if_splits)
    qed
  qed
qed

text \<open>
  C37: The decoder's reader thread calls its callback with the consecutive frames of the stream, as many
  whole ones as it holds, and ends at its end; but for a frame of zero bytes, such as a width or height of
  zero makes, it never returns. The frame buffer is taken to be allocated: the exception that \<^verbatim>\<open>std::vector\<close>
  throws for a size it cannot hold, as negative dimensions make, is not modelled.
\<close>

theorem decoder_frames:
  "decoder_read_loop (decoder_frame_size width height) pipe =
     (if decoder_frame_size width height = 0 then None
      else Some (map (\<lambda>i. bslice (i * decoder_frame_size width height) (decoder_frame_size width height) (stream pipe))
             [0..<length (stream pipe) div decoder_frame_size width height]))"
proof -
  have loops: "decoder_read_loop 0 pipe = None"
  proof (cases "decoder_read_loop 0 pipe")
    case (Some fs)
    then have "Some fs = Some ([] # fs)"
      by (subst Some [symmetric], subst decoder_read_loop.simps) (simp add: read_all.simps [of 0] Some)
    then show ?thesis by simp
  qed
  have ends: "decoder_read_loop k pipe =
      Some (map (\<lambda>i. bslice (i * k) k (stream pipe)) [0..<length (stream pipe) div k])" if k: "0 < k" for k
  proof (induction "length (stream pipe)" arbitrary: pipe rule: less_induct)
    case less
    obtain ok frame p where r: "read_all k pipe = (ok, frame, p)" by (metis prod_cases3)
    note s = read_all_stream [of k pipe, unfolded r fst_conv snd_conv]
    show ?case
    proof (cases "k \<le> length (stream pipe)")
      case True
      then have ok: "ok" "frame = take k (stream pipe)" "stream p = drop k (stream pipe)" using s by auto
      have n: "length (stream pipe) div k = Suc (length (stream p) div k)"
        using True k ok(3) by (simp add: le_div_geq)
      have "decoder_read_loop k p = Some (map (\<lambda>i. bslice (i * k) k (stream p)) [0..<length (stream p) div k])"
        using less.hyps [of p] ok(3) k True by simp
      then show ?thesis
        using k ok by (simp add: decoder_read_loop.simps [of k pipe] r n upt_conv_Cons map_Suc_upt [symmetric]
            bslice_def add.commute comp_def del: upt_Suc)
    next
      case False
      then show ?thesis using s k by (simp add: decoder_read_loop.simps [of k pipe] r)
    qed
  qed
  show ?thesis using loops ends [of "decoder_frame_size width height"] by simp
qed

section \<open>The life of a child\<close>

definition fresh_fds :: "int list \<Rightarrow> fd_table \<Rightarrow> bool" where
  "fresh_fds fds tab \<longleftrightarrow> distinct fds \<and> list_all (\<lambda>fd. 2 < fd \<and> tab fd = None) fds"

lemma spawn_eq:
  assumes "fresh_fds [a, b, c, d] tab"
  shows "cp_spawn i (Some (a, b)) (Some (c, d)) 0 pid tab =
    (Inr (\<lparr>cp_pid = pid, cp_stdin_fd = b, cp_stdout_fd = c\<rparr>, tab(0 \<mapsto> ReadEnd i, 1 \<mapsto> WriteEnd (i + 1))),
     tab(b \<mapsto> WriteEnd i, c \<mapsto> ReadEnd (i + 1)))"
proof -
  have ne: "a \<noteq> b" "a \<noteq> c" "a \<noteq> d" "b \<noteq> c" "b \<noteq> d" "c \<noteq> d" "a > 2" "b > 2" "c > 2" "d > 2"
    and none: "tab a = None" "tab b = None" "tab c = None" "tab d = None"
    using assms by (auto simp: fresh_fds_def)
  let ?tab = "open_pipe (i + 1) (c, d) (open_pipe i (a, b) tab)"
  have tab: "?tab = tab(a \<mapsto> ReadEnd i, b \<mapsto> WriteEnd i, c \<mapsto> ReadEnd (i + 1), d \<mapsto> WriteEnd (i + 1))"
    by (simp add: open_pipe_def)
  have "fold run_action (spawn_actions (a, b) (c, d)) ?tab x = (tab(0 \<mapsto> ReadEnd i, 1 \<mapsto> WriteEnd (i + 1))) x" for x
  proof -
    have sm: "a \<noteq> 0" "b \<noteq> 0" "c \<noteq> 0" "d \<noteq> 0" "a \<noteq> 1" "b \<noteq> 1" "c \<noteq> 1" "d \<noteq> 1" using ne by auto
    have "fold run_action (spawn_actions (a, b) (c, d)) ?tab =
        tab(a := None, b := None, c := None, d := None, 0 \<mapsto> ReadEnd i, 1 \<mapsto> WriteEnd (i + 1))"
      unfolding tab spawn_actions_def using ne(1-6) ne(1-6) [symmetric] sm sm [symmetric]
      by (simp add: fun_upd_twist)
    then show ?thesis using none by simp
  qed
  moreover have "close_fd d (close_fd a ?tab) x = (tab(b \<mapsto> WriteEnd i, c \<mapsto> ReadEnd (i + 1))) x" for x
    unfolding tab close_fd_def using ne none by (cases "x = a \<or> x = d") auto
  ultimately show ?thesis by (simp add: cp_spawn_def Let_def fun_eq_iff)
qed

text \<open>
  A child that was started reads its standard input from the pipe the parent writes, and writes its
  standard output to the pipe the parent reads, and holds no other end of the two; destroying the
  encoder closes both ends of the parent, before and after the reader thread is joined, so that the
  parent's descriptors are again what they were before it was made.
\<close>

theorem child_wired_and_released:
  assumes "fresh_fds [a, b, c, d] tab"
  shows "\<exists>p child tab'. cp_spawn i (Some (a, b)) (Some (c, d)) 0 pid tab = (Inr (p, child), tab') \<and>
    child 0 = Some (ReadEnd i) \<and> child 1 = Some (WriteEnd (i + 1)) \<and>
    tab' (cp_stdin_fd p) = Some (WriteEnd i) \<and> tab' (cp_stdout_fd p) = Some (ReadEnd (i + 1)) \<and>
    {fd. fd \<noteq> 0 \<and> fd \<noteq> 1 \<and> child fd \<noteq> tab fd} = {} \<and>
    codec_dtor p = [CloseFd b, JoinReader, CloseFd c] @ (if 0 < pid then [KillTerm pid, WaitPid pid] else []) \<and>
    fold run_call (codec_dtor p) tab' = tab"
proof -
  have ne: "b \<noteq> c" "b > 2" "c > 2" "tab b = None" "tab c = None" using assms by (auto simp: fresh_fds_def)
  have restored: "close_fd c (close_fd b (tab(b \<mapsto> WriteEnd i, c \<mapsto> ReadEnd (i + 1)))) = tab"
    using ne unfolding close_fd_def by (intro ext) simp
  show ?thesis
    unfolding spawn_eq [OF assms] using ne restored
    by (simp add: codec_dtor_def close_stdin_def ChildProcess_dtor_def)
qed

theorem child_wired_and_released_witness:
  "\<exists>p child tab'. cp_spawn 5 (Some (3, 4)) (Some (6, 7)) 0 99 [0 \<mapsto> OtherFile 0] = (Inr (p, child), tab') \<and>
    child 0 = Some (ReadEnd 5) \<and> fold run_call (codec_dtor p) tab' = [0 \<mapsto> OtherFile 0]"
  using child_wired_and_released [of 3 4 6 7 "[0 \<mapsto> OtherFile 0]" 5 99] by (auto simp: fresh_fds_def)

text \<open>
  A start that fails keeps what it has opened: after a failed second \<^verbatim>\<open>pipe\<close> both ends of the first
  pipe, after a failed \<^verbatim>\<open>posix_spawnp\<close> all four descriptors stay open in the parent, and the exception
  carries none of their numbers.
\<close>

theorem failed_spawn_leaks:
  assumes "fresh_fds [a, b, c, d] tab" and "rc \<noteq> 0"
  shows "cp_spawn i (Some (a, b)) None rc pid tab = (Inl PipeFailed, tab(a \<mapsto> ReadEnd i, b \<mapsto> WriteEnd i)) \<and>
    cp_spawn i (Some (a, b)) (Some (c, d)) rc pid tab =
      (Inl (PosixSpawnFailed rc),
       tab(a \<mapsto> ReadEnd i, b \<mapsto> WriteEnd i, c \<mapsto> ReadEnd (i + 1), d \<mapsto> WriteEnd (i + 1)))"
  using assms by (simp add: cp_spawn_def open_pipe_def Let_def)

theorem failed_spawn_leaks_witness:
  "fst (cp_spawn 5 (Some (3, 4)) (Some (6, 7)) 2 99 Map.empty) = Inl (PosixSpawnFailed 2)"
  using failed_spawn_leaks [of 3 4 6 7 Map.empty 2 5 99] by (simp add: fresh_fds_def)

text \<open>
  A child started while another runs keeps the other's standard input open: it inherits the parent's
  end of that pipe, so that closing it in the parent, as the destructor of the first encoder does before
  it joins its reader, does not end the first child's input while the second child lives.
\<close>

theorem second_child_holds_first_input:
  assumes "fresh_fds [a, b, c, d] tab" and "fresh_fds [a2, b2, c2, d2] tab1"
    and "cp_spawn i (Some (a, b)) (Some (c, d)) 0 pid tab = (Inr (p, child), tab1)"
    and "cp_spawn j (Some (a2, b2)) (Some (c2, d2)) 0 pid2 tab1 = (Inr (p2, child2), tab2)"
  shows "child2 (cp_stdin_fd p) = Some (WriteEnd i) \<and>
    fold run_call (fst (close_stdin p)) tab2 (cp_stdin_fd p) = None"
proof -
  have ne: "b \<noteq> c" "2 < b" using assms(1) by (simp_all add: fresh_fds_def)
  have first: "p = \<lparr>cp_pid = pid, cp_stdin_fd = b, cp_stdout_fd = c\<rparr>"
    "tab1 = tab(b \<mapsto> WriteEnd i, c \<mapsto> ReadEnd (i + 1))"
    using assms(3) unfolding spawn_eq [OF assms(1)] by simp_all
  have second: "child2 = tab1(0 \<mapsto> ReadEnd j, 1 \<mapsto> WriteEnd (j + 1))"
    using assms(4) unfolding spawn_eq [OF assms(2)] by simp
  show ?thesis using ne by (simp add: first second close_stdin_def close_fd_def)
qed

theorem second_child_holds_first_input_witness:
  "let (r1, tab1) = cp_spawn 0 (Some (3, 4)) (Some (5, 6)) 0 99 Map.empty;
       (r2, tab2) = cp_spawn 2 (Some (3, 6)) (Some (7, 8)) 0 98 tab1
   in case (r1, r2) of (Inr (p, child), Inr (p2, child2)) \<Rightarrow> child2 (cp_stdin_fd p) = Some (WriteEnd 0) | _ \<Rightarrow> False"
proof -
  have fresh: "fresh_fds [3, 4, 5, 6] Map.empty" by (simp add: fresh_fds_def)
  note 1 = spawn_eq [OF this, of 0 99]
  have "fresh_fds [3, 6, 7, 8] [4 \<mapsto> WriteEnd 0, 5 \<mapsto> ReadEnd (0 + 1)]" by (simp add: fresh_fds_def)
  note 2 = spawn_eq [OF this, of 2 98]
  show ?thesis using second_child_holds_first_input [OF fresh \<open>fresh_fds [3, 6, 7, 8] _\<close> 1 2] by (simp only: 1 2 Let_def prod.case sum.case)
qed

text \<open>
  The actions assume that the pipes do not get the numbers they are to be moved to: in a program
  started with its standard input closed the first pipe gets number 0, and the action that closes the
  original then closes the child's standard input.
\<close>

lemma child_without_input:
  assumes "cp_spawn i (Some (0, b)) (Some (c, d)) 0 pid tab = (Inr (p, child), tab')"
    and "distinct [0, b, c, d]" and "list_all (\<lambda>fd. 1 < fd) [b, c, d]"
  shows "child 0 = None"
proof -
  have "child = fold run_action (spawn_actions (0, b) (c, d)) (open_pipe (i + 1) (c, d) (open_pipe i (0, b) tab))"
    using assms(1) by (simp add: cp_spawn_def Let_def)
  then show ?thesis using assms(2,3) by (simp add: spawn_actions_def)
qed

section \<open>Writing\<close>

text \<open>
  \<^verbatim>\<open>write_all\<close> never reports a frame as written unless all of it is; when it reports failure, an
  interrupted call included, a proper prefix of the frame is in the pipe.
\<close>

theorem write_all_prefix:
  "case write_all rs data of (ok, written) \<Rightarrow>
     prefix written data \<and> (ok = Some True \<longleftrightarrow> written = data)"
proof (induction rs data rule: write_all.induct)
  case (3 n rs x xs)
  obtain ok w where w: "write_all rs (drop (nat n) (x # xs)) = (ok, w)" by fastforce
  show ?case
  proof (cases "n \<le> 0")
    case False
    then have "prefix w (drop (nat n) (x # xs)) \<and> (ok = Some True \<longleftrightarrow> w = drop (nat n) (x # xs))"
      using "3.IH" w by simp
    moreover have "prefix (take k ys @ w) ys \<longleftrightarrow> prefix w (drop k ys)" "take k ys @ w = ys \<longleftrightarrow> w = drop k ys"
      for k and ys :: bytes
      by (metis append_take_drop_id same_prefix_prefix, metis append_take_drop_id same_append_eq)
    ultimately show ?thesis using False w by (simp only: write_all.simps Let_def prod.case if_False)
  qed simp
qed simp_all

end
