(* ===== verification/Camera_Programs.thy ===== *)
theory Camera_Programs
  imports Image_Delivery Adaptive_Bitrate Command_Line H264_Codec
begin

text \<open>
  The camera programs: \<^verbatim>\<open>cpp/examples/camera_stream.cpp\<close>, with three topics at different qualities, and the
  pair \<^verbatim>\<open>relink_camera_pub_raw.cpp\<close>, \<^verbatim>\<open>relink_camera_sub_raw.cpp\<close> of \<^verbatim>\<open>cpp/examples/ros2_compare/\<close>. OpenCV is a
  parameter: a frame is the bytes of the picture after resizing, \<open>jpeg q f\<close> its encoding at quality \<open>q\<close>,
  and the motion between frames a number. Clock readings are inputs of each turn. A double that travels is
  its bit pattern. What a program prints is returned as the values printed.
\<close>

section \<open>camera_stream: options and topics\<close>

definition TOPIC_IMAGE_RAW :: u32 where "TOPIC_IMAGE_RAW = 500"
definition TOPIC_IMAGE_COMPRESSED :: u32 where "TOPIC_IMAGE_COMPRESSED = 501"
definition TOPIC_IMAGE_ADAPTIVE :: u32 where "TOPIC_IMAGE_ADAPTIVE = 502"
definition kFrameWidth :: nat where "kFrameWidth = 320"
definition kFrameHeight :: nat where "kFrameHeight = 240"

definition stream_config :: AdaptiveBitrateConfig where
  "stream_config =
     AdaptiveBitrateConfig_default\<lparr>ab_quality_min := 20, ab_quality_max := 80, ab_motion_ceiling := 25,
       ab_target_bitrate_bps := 3000000\<rparr>"

text \<open>The two passes over the arguments after the mode: the last video file, and the first other argument.\<close>

fun stream_video_file :: "string list \<Rightarrow> string \<Rightarrow> string" where
  "stream_video_file (a # b # as) v =
     (if a = ''--video-file'' then stream_video_file as b else stream_video_file (b # as) v)"
| "stream_video_file _ v = v"

fun stream_rlcore_ip :: "string list \<Rightarrow> string" where
  "stream_rlcore_ip [] = ''''"
| "stream_rlcore_ip [a] = (if a = ''--video-file'' then '''' else a)"
| "stream_rlcore_ip (a # b # as) = (if a = ''--video-file'' then stream_rlcore_ip as else a)"

text \<open>The discovery of the node; an exception ends the program.\<close>

definition stream_discovery ::
  "(string \<Rightarrow> u32 option) \<Rightarrow> string \<Rightarrow> 'c RelinkNode \<Rightarrow> NodeError + 'c RelinkNode" where
  "stream_discovery inet_pton ip n =
     (if ip \<noteq> '''' then (case rlcore_ip inet_pton ip n of (Some e, n) \<Rightarrow> Inl e | (None, n) \<Rightarrow> Inr n)
      else use_multicast_discovery n)"

section \<open>camera_stream: the publisher\<close>

definition stream_advertise :: "node_env \<Rightarrow> 'c RelinkNode \<Rightarrow> NodeError + 'c RelinkNode \<times> datagram list" where
  "stream_advertise env n =
     ebind (advertise_image (ne_bind env) TOPIC_IMAGE_RAW n) (\<lambda>n.
     ebind (advertise_image (ne_bind env) TOPIC_IMAGE_COMPRESSED n) (\<lambda>n.
     ebind (advertise_compressed_image (ne_bind env) TOPIC_IMAGE_ADAPTIVE n) (\<lambda>n.
     ebind (spin_once env n) (\<lambda>(n, startup, punch). Inr (n, startup)))))"

record stream_turn =
  st_frame :: "bytes option"
  st_motion :: real
  st_now_sec :: real
  st_capture_ts :: u64
  st_now_ns :: u64

record stream_line =
  sl_frame :: u32
  sl_raw :: nat
  sl_compressed :: nat
  sl_adaptive :: bytes
  sl_quality :: int

record 'c stream_state =
  ss_node :: "'c RelinkNode"
  ss_controller :: AdaptiveBitrateController
  ss_frame_id :: u32

text \<open>
  One turn of the loop; a turn without a frame changes nothing. \<^verbatim>\<open>now_ns\<close> inside
  \<^verbatim>\<open>publish_compressed_image\<close> is used only when the capture time is 0.
\<close>

definition stream_step ::
  "(bytes list \<Rightarrow> PeerAddr \<Rightarrow> int \<times> datagram list) \<Rightarrow> node_env \<Rightarrow> (real \<Rightarrow> real) \<Rightarrow> (int \<Rightarrow> bytes \<Rightarrow> bytes) \<Rightarrow>
   stream_turn \<Rightarrow> 'c stream_state \<Rightarrow> NodeError + stream_line list \<times> datagram list \<times> 'c stream_state" where
  "stream_step sendmsg_to env rnd jpeg turn s =
     (case st_frame turn of
        None \<Rightarrow> Inr ([], [], s)
      | Some frame \<Rightarrow>
          let fid = ss_frame_id s in
          ebind (publish_image sendmsg_to env TOPIC_IMAGE_RAW frame fid (ss_node s)) (\<lambda>(ok, out1, n).
          let fixed = jpeg 70 frame in
          ebind (publish_image sendmsg_to env TOPIC_IMAGE_COMPRESSED fixed fid n) (\<lambda>(ok, out2, n).
          let (quality, c) = next_quality rnd (st_motion turn) (st_now_sec turn) (ss_controller s);
              adaptive = jpeg quality frame;
              c = record_sent (length adaptive) (st_now_sec turn) c
          in ebind (publish_compressed_image sendmsg_to env (st_now_ns turn) TOPIC_IMAGE_ADAPTIVE adaptive
                      (word_of_int quality) fid (st_capture_ts turn) n) (\<lambda>(ok, out3, n).
             ebind (spin_once env n) (\<lambda>(n, startup, punch).
               Inr ([\<lparr>sl_frame = fid, sl_raw = length frame, sl_compressed = length fixed, sl_adaptive = adaptive,
                      sl_quality = quality\<rparr>],
                    out1 @ out2 @ out3 @ startup,
                    \<lparr>ss_node = n, ss_controller = c, ss_frame_id = fid + 1\<rparr>))))))"

fun stream_loop ::
  "(bytes list \<Rightarrow> PeerAddr \<Rightarrow> int \<times> datagram list) \<Rightarrow> node_env \<Rightarrow> (real \<Rightarrow> real) \<Rightarrow> (int \<Rightarrow> bytes \<Rightarrow> bytes) \<Rightarrow>
   stream_turn list \<Rightarrow> 'c stream_state \<Rightarrow> NodeError + stream_line list \<times> datagram list \<times> 'c stream_state" where
  "stream_loop sendmsg_to env rnd jpeg [] s = Inr ([], [], s)"
| "stream_loop sendmsg_to env rnd jpeg (t # ts) s =
     ebind (stream_step sendmsg_to env rnd jpeg t s) (\<lambda>(line, out, s).
     ebind (stream_loop sendmsg_to env rnd jpeg ts s) (\<lambda>(lines, outs, s). Inr (line @ lines, out @ outs, s)))"

datatype stream_exception = NodeThrows NodeError | ControllerThrows invalid_argument

text \<open>\<^verbatim>\<open>run_publisher\<close>: the outer \<open>Inl\<close> is an exception, the inner one the camera that does not open.\<close>

definition stream_run_publisher ::
  "(bytes list \<Rightarrow> PeerAddr \<Rightarrow> int \<times> datagram list) \<Rightarrow> node_env \<Rightarrow> (real \<Rightarrow> real) \<Rightarrow> (int \<Rightarrow> bytes \<Rightarrow> bytes) \<Rightarrow>
   bool \<Rightarrow> stream_turn list \<Rightarrow> 'c RelinkNode \<Rightarrow>
   stream_exception + ('c RelinkNode + stream_line list \<times> 'c stream_state) \<times> datagram list" where
  "stream_run_publisher sendmsg_to env rnd jpeg cap_open turns n =
     ebind (map_sum NodeThrows id (stream_advertise env n)) (\<lambda>(n, startup).
       if \<not> cap_open then Inr (Inl n, startup)
       else
         ebind (map_sum ControllerThrows id (AdaptiveBitrateController_ctor stream_config)) (\<lambda>c.
         ebind (map_sum NodeThrows id (stream_loop sendmsg_to env rnd jpeg turns
                  \<lparr>ss_node = n, ss_controller = c, ss_frame_id = 0\<rparr>)) (\<lambda>(lines, out, s).
           Inr (Inr (lines, s), startup @ out))))"

section \<open>camera_stream: the subscriber\<close>

datatype stream_callback = OnRaw | OnCompressed | OnAdaptive

definition stream_subscribe :: "node_env \<Rightarrow> stream_callback RelinkNode \<Rightarrow> stream_callback RelinkNode" where
  "stream_subscribe env n =
     subscribe_compressed_image TOPIC_IMAGE_ADAPTIVE OnAdaptive
       (subscribe_image TOPIC_IMAGE_COMPRESSED OnCompressed (subscribe_image TOPIC_IMAGE_RAW OnRaw n))"

datatype stream_output =
    RawDropped u32 nat
  | RawWritten u32 bytes
  | CompressedWritten u32 bytes
  | AdaptiveWritten u32 bytes u8 real

text \<open>What the callbacks do, at the time \<open>now\<close> of the system clock: the difference of the time stamps is one of
  unsigned numbers.\<close>

fun stream_on :: "u64 \<Rightarrow> stream_callback delivery \<Rightarrow> stream_output list" where
  "stream_on now (DeliverImage OnRaw fid data) =
     (if length data \<noteq> kFrameWidth * kFrameHeight * 3 then [RawDropped fid (length data)] else [RawWritten fid data])"
| "stream_on now (DeliverImage OnCompressed fid data) = [CompressedWritten fid data]"
| "stream_on now (DeliverCompressed OnAdaptive fid data ts quality) =
     [AdaptiveWritten fid data quality (real (unat (now - ts)) / 1000000)]"
| "stream_on now _ = []"

section \<open>The comparison publisher\<close>

definition TOPIC_CAMERA :: bytes where "TOPIC_CAMERA = str_bytes ''/compare/camera''"

record PubArgs =
  cm_rlcore_ip :: string
  cm_width :: int
  cm_height :: int
  cm_fps :: real
  cm_compressed :: bool
  cm_quality :: int
  cm_video :: string
  cm_h264 :: bool

definition PubArgs_init :: PubArgs where
  "PubArgs_init =
     \<lparr>cm_rlcore_ip = [], cm_width = -1, cm_height = -1, cm_fps = -1, cm_compressed = False, cm_quality = 70,
      cm_video = [], cm_h264 = False\<rparr>"

text \<open>
  \<^verbatim>\<open>parse_args\<close> takes the next argument after an option without looking whether there is one; past the
  last argument it reads the null pointer that ends \<^verbatim>\<open>argv\<close>, the error \<open>NullArgument\<close>.
\<close>

datatype arg_fault = NullArgument

definition pub_flag :: "string \<Rightarrow> PubArgs \<Rightarrow> PubArgs option" where
  "pub_flag arg a =
     (if arg = ''--compressed'' then Some (a\<lparr>cm_compressed := True\<rparr>)
      else if arg = ''--h264'' then Some (a\<lparr>cm_h264 := True\<rparr>) else None)"

definition pub_value :: "string \<Rightarrow> (string \<Rightarrow> PubArgs \<Rightarrow> PubArgs) option" where
  "pub_value arg =
     (if arg = ''--width'' then Some (\<lambda>v a. a\<lparr>cm_width := atoi v\<rparr>)
      else if arg = ''--height'' then Some (\<lambda>v a. a\<lparr>cm_height := atoi v\<rparr>)
      else if arg = ''--fps'' then Some (\<lambda>v a. a\<lparr>cm_fps := atof v\<rparr>)
      else if arg = ''--quality'' then Some (\<lambda>v a. a\<lparr>cm_quality := atoi v\<rparr>)
      else if arg = ''--video'' then Some (\<lambda>v a. a\<lparr>cm_video := v\<rparr>) else None)"

fun pub_parse :: "string list \<Rightarrow> PubArgs \<Rightarrow> string list \<Rightarrow> arg_fault + PubArgs" where
  "pub_parse [] a pos = Inr (case pos of [] \<Rightarrow> a | p # _ \<Rightarrow> a\<lparr>cm_rlcore_ip := p\<rparr>)"
| "pub_parse (arg # args) a pos =
     (case pub_flag arg a of
        Some a \<Rightarrow> pub_parse args a pos
      | None \<Rightarrow>
          (case pub_value arg of
             Some assign \<Rightarrow> (case args of [] \<Rightarrow> Inl NullArgument | v # args \<Rightarrow> pub_parse args (assign v a) pos)
           | None \<Rightarrow> pub_parse args a (pos @ [arg])))"

definition pub_parse_args :: "string list \<Rightarrow> arg_fault + PubArgs" where
  "pub_parse_args argv = pub_parse (tl argv) PubArgs_init []"

text \<open>What the file or the camera says of itself fills in what the user left open.\<close>

definition pub_settings :: "real \<Rightarrow> real \<Rightarrow> real \<Rightarrow> PubArgs \<Rightarrow> PubArgs" where
  "pub_settings file_width file_height file_fps a =
     (if cm_video a \<noteq> [] then
        let a = (if cm_width a < 0 then a\<lparr>cm_width := trunc_int file_width\<rparr> else a);
            a = (if cm_height a < 0 then a\<lparr>cm_height := trunc_int file_height\<rparr> else a)
        in if cm_fps a < 0 then a\<lparr>cm_fps := if file_fps > 0 then file_fps else 30\<rparr> else a
      else
        let a = (if cm_width a < 0 then a\<lparr>cm_width := 320\<rparr> else a);
            a = (if cm_height a < 0 then a\<lparr>cm_height := 240\<rparr> else a)
        in if cm_fps a < 0 then a\<lparr>cm_fps := 30\<rparr> else a)"

definition pub_mode :: "PubArgs \<Rightarrow> string" where
  "pub_mode a = (if cm_h264 a then ''GPU H264'' else if cm_compressed a then ''JPEG'' else ''raw BGR'')"

text \<open>The payload: the send time, then the picture.\<close>

definition stamped :: "u64 \<Rightarrow> bytes \<Rightarrow> bytes" where
  "stamped t body = le64 t @ body"

record 'c pub_state =
  pb_node :: "'c RelinkNode"
  pb_frame_id :: u32
  pb_sent_bytes :: u64
  pb_failures :: int
  pb_pending :: "u64 list"
  pb_encoder_input :: bytes

text \<open>
  The turns of the two threads: the main thread reads a frame, or none, and the encoder's reader thread
  hands over an access unit. \<open>pb_encoder_input\<close> is what has been written to the encoder; \<open>rs\<close> are the
  results of the writes. A turn of the reader thread is one call of the callback: the queue is popped
  under its lock, and only this thread publishes in that mode.
\<close>

datatype pub_event = Captured bytes u64 "int list" | NoFrame | Encoded bytes

definition pub_send ::
  "(bytes list \<Rightarrow> PeerAddr \<Rightarrow> int \<times> datagram list) \<Rightarrow> node_env \<Rightarrow> bytes \<Rightarrow> 'c pub_state \<Rightarrow>
   NodeError + bytes list \<times> datagram list \<times> 'c pub_state" where
  "pub_send sendmsg_to env payload s =
     ebind (by_name (\<lambda>topic. publish_image sendmsg_to env topic payload (pb_frame_id s)) TOPIC_CAMERA (pb_node s))
       (\<lambda>(ok, out, n).
         Inr ([payload], out,
              s\<lparr>pb_node := n, pb_frame_id := pb_frame_id s + 1,
                pb_sent_bytes := pb_sent_bytes s + word_of_nat (length payload)\<rparr>))"

definition pub_spin ::
  "node_env \<Rightarrow> bytes list \<times> datagram list \<times> 'c pub_state \<Rightarrow> NodeError + bytes list \<times> datagram list \<times> 'c pub_state" where
  "pub_spin env r =
     (case r of (payloads, out, s) \<Rightarrow>
        ebind (spin_once env (pb_node s)) (\<lambda>(n, startup, punch). Inr (payloads, out @ startup, s\<lparr>pb_node := n\<rparr>)))"

definition pub_step ::
  "(bytes list \<Rightarrow> PeerAddr \<Rightarrow> int \<times> datagram list) \<Rightarrow> node_env \<Rightarrow> (int \<Rightarrow> bytes \<Rightarrow> bytes) \<Rightarrow> PubArgs \<Rightarrow>
   pub_event \<Rightarrow> 'c pub_state \<Rightarrow> NodeError + bytes list \<times> datagram list \<times> 'c pub_state" where
  "pub_step sendmsg_to env jpeg a ev s =
     (case ev of
        NoFrame \<Rightarrow> Inr ([], [], if cm_video a = [] then s\<lparr>pb_failures := pb_failures s + 1\<rparr> else s)
      | Captured frame t rs \<Rightarrow>
          let s = s\<lparr>pb_failures := 0\<rparr> in
          if cm_h264 a then
            let s = s\<lparr>pb_pending := pb_pending s @ [t]\<rparr>;
                (ok, written) = write_all rs frame
            in pub_spin env ([], [], s\<lparr>pb_encoder_input := pb_encoder_input s @ written\<rparr>)
          else
            ebind (pub_send sendmsg_to env (stamped t (if cm_compressed a then jpeg (cm_quality a) frame else frame)) s)
              (pub_spin env)
      | Encoded unit \<Rightarrow>
          (case pb_pending s of
             [] \<Rightarrow> Inr ([], [], s)
           | t # ts \<Rightarrow> pub_send sendmsg_to env (stamped t unit) (s\<lparr>pb_pending := ts\<rparr>)))"

fun pub_run ::
  "(bytes list \<Rightarrow> PeerAddr \<Rightarrow> int \<times> datagram list) \<Rightarrow> node_env \<Rightarrow> (int \<Rightarrow> bytes \<Rightarrow> bytes) \<Rightarrow> PubArgs \<Rightarrow>
   pub_event list \<Rightarrow> 'c pub_state \<Rightarrow> NodeError + bytes list \<times> datagram list \<times> 'c pub_state" where
  "pub_run sendmsg_to env jpeg a [] s = Inr ([], [], s)"
| "pub_run sendmsg_to env jpeg a (ev # evs) s =
     ebind (pub_step sendmsg_to env jpeg a ev s) (\<lambda>(ps, out, s).
     ebind (pub_run sendmsg_to env jpeg a evs s) (\<lambda>(ps', outs, s). Inr (ps @ ps', out @ outs, s)))"

section \<open>The comparison subscriber\<close>

record SubArgs =
  sa_rlcore_ip :: string
  sa_width :: int
  sa_height :: int
  sa_compressed :: bool
  sa_h264 :: bool

definition SubArgs_init :: SubArgs where
  "SubArgs_init = \<lparr>sa_rlcore_ip = [], sa_width = 320, sa_height = 240, sa_compressed = False, sa_h264 = False\<rparr>"

definition sub_flag :: "string \<Rightarrow> SubArgs \<Rightarrow> SubArgs option" where
  "sub_flag arg a =
     (if arg = ''--compressed'' then Some (a\<lparr>sa_compressed := True\<rparr>)
      else if arg = ''--h264'' then Some (a\<lparr>sa_h264 := True\<rparr>) else None)"

definition sub_value :: "string \<Rightarrow> (string \<Rightarrow> SubArgs \<Rightarrow> SubArgs) option" where
  "sub_value arg =
     (if arg = ''--width'' then Some (\<lambda>v a. a\<lparr>sa_width := atoi v\<rparr>)
      else if arg = ''--height'' then Some (\<lambda>v a. a\<lparr>sa_height := atoi v\<rparr>) else None)"

fun sub_parse :: "string list \<Rightarrow> SubArgs \<Rightarrow> string list \<Rightarrow> arg_fault + SubArgs" where
  "sub_parse [] a pos = Inr (case pos of [] \<Rightarrow> a | p # _ \<Rightarrow> a\<lparr>sa_rlcore_ip := p\<rparr>)"
| "sub_parse (arg # args) a pos =
     (case sub_flag arg a of
        Some a \<Rightarrow> sub_parse args a pos
      | None \<Rightarrow>
          (case sub_value arg of
             Some assign \<Rightarrow> (case args of [] \<Rightarrow> Inl NullArgument | v # args \<Rightarrow> sub_parse args (assign v a) pos)
           | None \<Rightarrow> sub_parse args a (pos @ [arg])))"

definition sub_parse_args :: "string list \<Rightarrow> arg_fault + SubArgs" where
  "sub_parse_args argv = sub_parse (tl argv) SubArgs_init []"

record sub_stats =
  sb_recv_bytes :: u64
  sb_recv_count :: u32
  sb_latencies :: "real list"

definition sub_stats_init :: sub_stats where
  "sub_stats_init = \<lparr>sb_recv_bytes = 0, sb_recv_count = 0, sb_latencies = []\<rparr>"

datatype sub_output = ToDecoder bytes | ShowJpeg bytes | ShowRaw bytes

text \<open>
  The callback: \<open>seconds\<close> reads a double and \<open>now\<close> is the time of arrival. It reads the time stamp and,
  for raw pictures, as many bytes as the picture is to have, whatever the length of the payload.
\<close>

definition sub_on_image ::
  "SubArgs \<Rightarrow> (u64 \<Rightarrow> real) \<Rightarrow> real \<Rightarrow> bytes \<Rightarrow> sub_stats \<Rightarrow> MemFault + sub_output \<times> sub_stats" where
  "sub_on_image a seconds now data st =
     (if length data < 8 then Inl OutOfBounds
      else
        let send_time = seconds (rd64 (take 8 data));
            latency_ms = (now - send_time) * 1000;
            body = drop 8 data;
            picture = nat (sa_width a) * nat (sa_height a) * 3;
            output = (if sa_h264 a then Inr (ToDecoder body)
                      else if sa_compressed a then Inr (ShowJpeg body)
                      else if length body < picture then Inl OutOfBounds else Inr (ShowRaw (take picture body)))
        in ebind output (\<lambda>shown.
             let latencies = sb_latencies st @ [latency_ms];
                 latencies = (if length latencies > 30 then tl latencies else latencies)
             in Inr (shown, \<lparr>sb_recv_bytes = sb_recv_bytes st + word_of_nat (length data),
                             sb_recv_count = sb_recv_count st + 1, sb_latencies = latencies\<rparr>)))"

text \<open>The average that every thirtieth frame prints.\<close>

definition sub_report :: "sub_stats \<Rightarrow> real option" where
  "sub_report st =
     (if unat (sb_recv_count st) mod 30 = 0
      then Some (sum_list (sb_latencies st) / real (length (sb_latencies st))) else None)"

fun sub_run ::
  "SubArgs \<Rightarrow> (u64 \<Rightarrow> real) \<Rightarrow> (real \<times> bytes) list \<Rightarrow> sub_stats \<Rightarrow> MemFault + sub_output list \<times> sub_stats" where
  "sub_run a seconds [] st = Inr ([], st)"
| "sub_run a seconds ((now, data) # arrivals) st =
     ebind (sub_on_image a seconds now data st) (\<lambda>(shown, st).
     ebind (sub_run a seconds arrivals st) (\<lambda>(rest, st). Inr (shown # rest, st)))"

section \<open>camera_stream publishes what it prints\<close>

lemma stream_step_line:
  assumes "half_exact rnd" and "stream_step sendmsg_to env rnd jpeg t s = Inr (lines, out, s')"
    and "ab_wf (ss_controller s)" and "ac_cfg (ss_controller s) = stream_config"
  shows "ab_wf (ss_controller s') \<and> ac_cfg (ss_controller s') = stream_config \<and>
    (case st_frame t of
       None \<Rightarrow> lines = [] \<and> ss_frame_id s' = ss_frame_id s
     | Some frame \<Rightarrow> (\<exists>q. 20 \<le> q \<and> q \<le> 80 \<and> ss_frame_id s' = ss_frame_id s + 1 \<and>
         lines = [\<lparr>sl_frame = ss_frame_id s, sl_raw = length frame, sl_compressed = length (jpeg 70 frame),
                   sl_adaptive = jpeg q frame, sl_quality = q\<rparr>]))"
proof (cases "st_frame t")
  case None
  then show ?thesis using assms by (simp add: stream_step_def)
next
  case (Some frame)
  obtain q c where q: "next_quality rnd (st_motion t) (st_now_sec t) (ss_controller s) = (q, c)" by fastforce
  note w = half_exact.next_quality_wf [OF assms(1,3) q]
  have range: "20 \<le> q \<and> q \<le> 80" using w assms(4) by (simp add: stream_config_def)
  have "ss_controller s' = record_sent (length (jpeg q frame)) (st_now_sec t) c" "ss_frame_id s' = ss_frame_id s + 1"
    "lines = [\<lparr>sl_frame = ss_frame_id s, sl_raw = length frame, sl_compressed = length (jpeg 70 frame),
              sl_adaptive = jpeg q frame, sl_quality = q\<rparr>]"
    using assms(2) by (auto simp: stream_step_def Some q Let_def ebind_Inr split: prod.splits)
  then show ?thesis
    using w record_sent_wf [of c] assms(4) range by (auto simp: Some)
qed

lemma stream_loop_lines:
  assumes "half_exact rnd" and "ab_wf (ss_controller s)" and "ac_cfg (ss_controller s) = stream_config"
    and "stream_loop sendmsg_to env rnd jpeg ts s = Inr (lines, out, s')"
  shows "list_all2 (\<lambda>l frame. \<exists>q. 20 \<le> q \<and> q \<le> 80 \<and> sl_quality l = q \<and> sl_adaptive l = jpeg q frame \<and>
      sl_raw l = length frame \<and> sl_compressed l = length (jpeg 70 frame)) lines (List.map_filter st_frame ts) \<and>
    map sl_frame lines = map (\<lambda>i. ss_frame_id s + word_of_nat i) [0..<length lines]"
  using assms(2-)
proof (induction ts arbitrary: s lines out)
  case Nil
  then show ?case by (simp add: map_filter_simps)
next
  case (Cons t ts)
  obtain line out1 s1 lines1 outs where step: "stream_step sendmsg_to env rnd jpeg t s = Inr (line, out1, s1)"
    and rest: "stream_loop sendmsg_to env rnd jpeg ts s1 = Inr (lines1, outs, s')" and l: "lines = line @ lines1"
    using Cons.prems(3) by (auto simp: ebind_Inr)
  note one = stream_step_line [OF assms(1) step Cons.prems(1,2)]
  then have IH: "list_all2 (\<lambda>l frame. \<exists>q. 20 \<le> q \<and> q \<le> 80 \<and> sl_quality l = q \<and> sl_adaptive l = jpeg q frame \<and>
      sl_raw l = length frame \<and> sl_compressed l = length (jpeg 70 frame)) lines1 (List.map_filter st_frame ts)"
    "map sl_frame lines1 = map (\<lambda>i. ss_frame_id s1 + word_of_nat i) [0..<length lines1]"
    using Cons.IH [OF _ _ rest] by auto
  show ?case
  proof (cases "st_frame t")
    case None
    then show ?thesis using one IH l by (simp add: map_filter_simps)
  next
    case (Some frame)
    obtain q where q: "20 \<le> q" "q \<le> 80" "ss_frame_id s1 = ss_frame_id s + 1"
      "line = [\<lparr>sl_frame = ss_frame_id s, sl_raw = length frame, sl_compressed = length (jpeg 70 frame),
                sl_adaptive = jpeg q frame, sl_quality = q\<rparr>]"
      using one Some by auto
    have "map sl_frame lines = map (\<lambda>i. ss_frame_id s + word_of_nat i) [0..<length lines]"
      using IH(2) l q(3,4) by (simp add: upt_first comp_def add.assoc del: upt_Suc)
    then show ?thesis using IH(1) l q Some by (simp add: map_filter_simps)
  qed
qed

lemma map_sum_Inr: "map_sum f g x = Inr y \<longleftrightarrow> (\<exists>z. x = Inr z \<and> y = g z)"
  by (cases x) auto

lemma ebind_NodeThrows:
  "ebind (map_sum NodeThrows id x) (\<lambda>(a, b, c). Inr (f a b c)) = Inl e \<Longrightarrow> \<exists>e'. e = NodeThrows e'"
  by (cases x) auto

text \<open>
  Every frame that is read is published once under the next frame id, and the adaptive topic gets the
  encoding of that very frame at a quality between 20 and 80, which is the quality stamped on it, exactly,
  as a byte; the controller never rejects the configuration of the program.
\<close>

theorem camera_stream_publishes:
  assumes "\<And>x y. x \<le> y \<Longrightarrow> rnd x \<le> rnd y"
    and "\<And>k. 0 \<le> k \<Longrightarrow> k \<le> 201 \<Longrightarrow> rnd (of_int k / 2) = of_int k / 2"
  shows "case stream_run_publisher sendmsg_to env rnd jpeg True turns n of
      Inl e \<Rightarrow> \<exists>e'. e = NodeThrows e'
    | Inr (Inl _, _) \<Rightarrow> False
    | Inr (Inr (lines, s), _) \<Rightarrow>
        list_all2 (\<lambda>l frame. sl_adaptive l = jpeg (sl_quality l) frame \<and> sl_raw l = length frame \<and>
            20 \<le> sl_quality l \<and> sl_quality l \<le> 80 \<and> uint (word_of_int (sl_quality l) :: u8) = sl_quality l)
          lines (List.map_filter st_frame turns) \<and>
        map sl_frame lines = map word_of_nat [0..<length lines]"
proof -
  have h: "half_exact rnd" using assms by (simp add: half_exact_def)
  obtain c where c: "AdaptiveBitrateController_ctor stream_config = Inr c"
    by (simp add: AdaptiveBitrateController_ctor_def stream_config_def AdaptiveBitrateConfig_default_def Let_def)
  note wf = ctor_wf [OF c]
  have cfg: "ac_cfg c = stream_config"
    using c by (auto simp: AdaptiveBitrateController_ctor_def stream_config_def AdaptiveBitrateConfig_default_def Let_def
        split: if_splits)
  show ?thesis
  proof (cases "stream_run_publisher sendmsg_to env rnd jpeg True turns n")
    case (Inl e)
    then show ?thesis
      by (cases "stream_advertise env n")
        (auto simp: stream_run_publisher_def c split: prod.splits dest!: ebind_NodeThrows)
  next
    case (Inr r)
    then obtain n1 startup lines out s where
      loop: "stream_loop sendmsg_to env rnd jpeg turns \<lparr>ss_node = n1, ss_controller = c, ss_frame_id = 0\<rparr> = Inr (lines, out, s)"
      and r: "r = (Inr (lines, s), startup @ out)"
      by (auto simp: stream_run_publisher_def c ebind_Inr map_sum_Inr)
    have byte: "uint (word_of_int q :: u8) = q" if "20 \<le> q" "q \<le> 80" for q
      using that by (simp add: unsigned_of_int take_bit_int_eq_self)
    note l = stream_loop_lines [OF h _ _ loop]
    have "list_all2 (\<lambda>l frame. sl_adaptive l = jpeg (sl_quality l) frame \<and> sl_raw l = length frame \<and>
            20 \<le> sl_quality l \<and> sl_quality l \<le> 80 \<and> uint (word_of_int (sl_quality l) :: u8) = sl_quality l)
          lines (List.map_filter st_frame turns)"
      using l wf cfg by (auto elim!: list_all2_mono intro: byte)
    moreover have "map sl_frame lines = map word_of_nat [0..<length lines]"
      using l wf cfg by simp
    ultimately show ?thesis by (simp add: Inr r)
  qed
qed

theorem camera_stream_publishes_witness:
  "case stream_run_publisher (platform_send (\<lambda>d. int (length (snd d))) False) sample_world grid (\<lambda>q f. take (nat q) f) True
      [\<lparr>st_frame = Some (replicate 9 7), st_motion = 3, st_now_sec = 1, st_capture_ts = 5, st_now_ns = 6\<rparr>]
      (RelinkNode_init :: nat RelinkNode) of
      Inl e \<Rightarrow> \<exists>e'. e = NodeThrows e'
    | Inr (Inl _, _) \<Rightarrow> False
    | Inr (Inr (lines, s), _) \<Rightarrow> True"
  using camera_stream_publishes [where rnd = grid and jpeg = "\<lambda>q f. take (nat q) f" and env = sample_world
      and sendmsg_to = "platform_send (\<lambda>d. int (length (snd d))) False" and n = "RelinkNode_init :: nat RelinkNode"
      and turns = "[\<lparr>st_frame = Some (replicate 9 7), st_motion = 3, st_now_sec = 1, st_capture_ts = 5, st_now_ns = 6\<rparr>]"]
  by (simp add: grid_mono grid_half split: sum.splits prod.splits)

text \<open>
  The latency the subscriber prints is a difference of unsigned numbers: a capture time ahead of the
  subscriber's clock, by however little, prints as about 18446744073709 milliseconds.
\<close>

lemma stream_skewed_latency:
  assumes "unat now < unat ts"
  shows "stream_on now (DeliverCompressed OnAdaptive fid data ts q) =
    [AdaptiveWritten fid data q ((2 ^ 64 - real (unat ts - unat now)) / 1000000)]"
proof -
  have "unat (now - ts) = 2 ^ 64 + unat now - unat ts"
    using assms by (simp add: unat_sub_if' not_le)
  moreover have "unat ts < 2 ^ 64" using unsigned_less [of ts, where ?'a = nat] by simp
  ultimately show ?thesis using assms by (simp add: of_nat_diff)
qed

section \<open>Each access unit carries the time of its frame\<close>

fun captured_times :: "pub_event list \<Rightarrow> u64 list" where
  "captured_times [] = []"
| "captured_times (Captured frame t rs # evs) = t # captured_times evs"
| "captured_times (_ # evs) = captured_times evs"

fun encoded_units :: "pub_event list \<Rightarrow> bytes list" where
  "encoded_units [] = []"
| "encoded_units (Encoded unit # evs) = unit # encoded_units evs"
| "encoded_units (_ # evs) = encoded_units evs"

lemma pub_send_result:
  "pub_send sendmsg_to env payload s = Inr (ps, out, s') \<Longrightarrow>
   ps = [payload] \<and> pb_pending s' = pb_pending s \<and> pb_frame_id s' = pb_frame_id s + 1"
  by (auto simp: pub_send_def ebind_Inr)

lemma pub_spin_result:
  "pub_spin env (ps, out, s) = Inr (ps', out', s') \<Longrightarrow>
   ps' = ps \<and> pb_pending s' = pb_pending s \<and> pb_frame_id s' = pb_frame_id s"
  by (auto simp: pub_spin_def ebind_Inr)

lemma pub_run_stamps:
  assumes "cm_h264 a" and "pub_run sendmsg_to env jpeg a evs s = Inr (payloads, out, s')"
    and "\<forall>k. length (encoded_units (take k evs)) \<le> length (pb_pending s @ captured_times (take k evs))"
  shows "payloads = map2 stamped (take (length (encoded_units evs)) (pb_pending s @ captured_times evs)) (encoded_units evs)"
  using assms(2,3)
proof (induction evs arbitrary: s payloads out)
  case Nil
  then show ?case by simp
next
  case (Cons ev evs)
  obtain ps out1 s1 ps' outs where step: "pub_step sendmsg_to env jpeg a ev s = Inr (ps, out1, s1)"
    and rest: "pub_run sendmsg_to env jpeg a evs s1 = Inr (ps', outs, s')" and p: "payloads = ps @ ps'"
    using Cons.prems(1) by (auto simp: ebind_Inr)
  have causal: "length (encoded_units (ev # take k evs)) \<le> length (pb_pending s @ captured_times (ev # take k evs))" for k
    using Cons.prems(2) [rule_format, of "Suc k"] by simp
  show ?case
  proof (cases ev)
    case (Captured frame t rs)
    then have "ps = [] \<and> pb_pending s1 = pb_pending s @ [t]"
      using step assms(1) by (auto simp: pub_step_def Let_def dest!: pub_spin_result split: prod.splits)
    then show ?thesis using Cons.IH [OF rest] causal Captured p by simp
  next
    case NoFrame
    then have "ps = [] \<and> pb_pending s1 = pb_pending s" using step by (auto simp: pub_step_def)
    then show ?thesis using Cons.IH [OF rest] causal NoFrame p by simp
  next
    case (Encoded u)
    have "pb_pending s \<noteq> []" using causal [of 0] Encoded by auto
    then obtain t ts where t: "pb_pending s = t # ts" by (cases "pb_pending s") auto
    then have "ps = [stamped t u] \<and> pb_pending s1 = ts"
      using step Encoded by (auto simp: pub_step_def dest!: pub_send_result)
    then show ?thesis using Cons.IH [OF rest] causal Encoded p t by simp
  qed
qed

text \<open>On a started node that knows no other topic of the same id, publishing goes on without an exception.\<close>

definition camera_ready :: "'c RelinkNode \<Rightarrow> bool" where
  "camera_ready n \<longleftrightarrow> nd_started n \<and> map_of (nd_topic_names n) (fnv1a32 TOPIC_CAMERA) \<in> {None, Some TOPIC_CAMERA}"

lemma camera_topic: "fnv1a32 TOPIC_CAMERA \<noteq> kNatPunchTopicId"
  by code_simp

lemma publish_image_ready:
  assumes "camera_ready n"
  shows "\<exists>ok out n'. publish_image sendmsg_to env topic data fid n = Inr (ok, out, n') \<and> camera_ready n'"
  using assms by (auto simp: publish_image_def ensure_started_def camera_ready_def Let_def split: prod.splits)

lemma pub_send_ready:
  assumes "camera_ready (pb_node s)"
  shows "\<exists>out s'. pub_send sendmsg_to env payload s = Inr ([payload], out, s') \<and> camera_ready (pb_node s')"
proof -
  obtain n where n: "topic_id_for TOPIC_CAMERA (pb_node s) = Inr (fnv1a32 TOPIC_CAMERA, n)" "camera_ready n"
    using assms camera_topic by (auto simp: topic_id_for_def camera_ready_def om_put_get Let_def split: option.splits)
  then show ?thesis
    using publish_image_ready [OF n(2), of sendmsg_to env "fnv1a32 TOPIC_CAMERA" payload "pb_frame_id s"]
    by (auto simp: pub_send_def by_name_def)
qed

lemma pub_step_ready:
  assumes "camera_ready (pb_node s)"
  shows "\<exists>ps out s'. pub_step sendmsg_to env jpeg a ev s = Inr (ps, out, s') \<and> camera_ready (pb_node s')"
proof -
  have spin: "\<exists>out' s'. pub_spin env (ps, out, x) = Inr (ps, out', s') \<and> camera_ready (pb_node s')"
    if "camera_ready (pb_node x)" for ps out and x :: "'a pub_state"
    using that by (simp add: pub_spin_def spin_once_def ensure_started_def camera_ready_def)
  have sent: "\<exists>ps out s'. ebind (pub_send sendmsg_to env payload x) (pub_spin env) = Inr (ps, out, s') \<and> camera_ready (pb_node s')"
    if "camera_ready (pb_node x)" for payload and x :: "'a pub_state"
    using pub_send_ready [OF that, of sendmsg_to env payload] spin by fastforce
  show ?thesis
  proof (cases ev)
    case (Captured frame t rs)
    have fed: "\<exists>ps out s'. pub_spin env ([], [], s\<lparr>pb_failures := 0, pb_pending := p, pb_encoder_input := i\<rparr>) =
        Inr (ps, out, s') \<and> camera_ready (pb_node s')" for p i
      using spin [of "s\<lparr>pb_failures := 0, pb_pending := p, pb_encoder_input := i\<rparr>" "[]" "[]"] assms by auto
    show ?thesis
      using Captured sent [of "s\<lparr>pb_failures := 0\<rparr>"] fed assms
      by (simp add: pub_step_def Let_def split: prod.splits)
  next
    case NoFrame
    then show ?thesis using assms by (simp add: pub_step_def)
  next
    case (Encoded u)
    then show ?thesis
      using assms pub_send_ready [of "s\<lparr>pb_pending := ts\<rparr>" for ts]
      by (auto simp: pub_step_def split: list.splits)
        (metis (no_types, lifting) pub_state.select_convs(1) pub_state.surjective pub_state.update_convs(5))
  qed
qed

lemma pub_run_ready:
  "camera_ready (pb_node s) \<Longrightarrow> \<exists>ps out s'. pub_run sendmsg_to env jpeg a evs s = Inr (ps, out, s')"
proof (induction evs arbitrary: s)
  case (Cons ev evs)
  then show ?case
    using pub_step_ready [OF Cons.prems, of sendmsg_to env jpeg a ev] by (auto simp: ebind_Inr) (metis ebind.simps(2) prod.case)
qed simp

text \<open>
  C36: In the mode with the external encoder, whatever the interleaving of the thread that captures and the
  thread that reads the encoder, the n-th access unit is published with the time at which the n-th frame
  was captured, none is lost and none sent twice, as long as the encoder never hands over more units than
  it was given frames.
\<close>

theorem h264_units_carry_their_times:
  assumes "cm_h264 a" and "pb_pending s = []" and "camera_ready (pb_node s)"
    and "\<forall>k. length (encoded_units (take k evs)) \<le> length (captured_times (take k evs))"
  shows "\<exists>out s'. pub_run sendmsg_to env jpeg a evs s =
    Inr (map2 stamped (take (length (encoded_units evs)) (captured_times evs)) (encoded_units evs), out, s')"
proof -
  obtain ps out s' where r: "pub_run sendmsg_to env jpeg a evs s = Inr (ps, out, s')"
    using pub_run_ready [OF assms(3)] by blast
  show ?thesis using pub_run_stamps [OF assms(1) r] assms(2,4) r by simp
qed

theorem h264_units_carry_their_times_witness:
  "\<exists>out s'. pub_run (platform_send (\<lambda>d. int (length (snd d))) False) sample_world (\<lambda>q f. f) (PubArgs_init\<lparr>cm_h264 := True\<rparr>)
      [Captured [1] 11 [1], Captured [2] 12 [1], Encoded [9], NoFrame, Encoded [8]]
      \<lparr>pb_node = (RelinkNode_init :: nat RelinkNode)\<lparr>nd_started := True\<rparr>, pb_frame_id = 0, pb_sent_bytes = 0,
       pb_failures = 0, pb_pending = [], pb_encoder_input = []\<rparr> = Inr ([stamped 11 [9], stamped 12 [8]], out, s')"
proof -
  let ?evs = "[Captured [1] 11 [1], Captured [2] 12 [1], Encoded [9], NoFrame, Encoded [8]] :: pub_event list"
  have "\<forall>k. length (encoded_units (take k ?evs)) \<le> length (captured_times (take k ?evs))"
    by (intro allI, rename_tac k, case_tac k rule: nat.exhaust) (auto simp: take_Cons split: nat.splits)
  then show ?thesis
    using h264_units_carry_their_times [of "PubArgs_init\<lparr>cm_h264 := True\<rparr>" "\<lparr>pb_node = (RelinkNode_init :: nat RelinkNode)\<lparr>nd_started := True\<rparr>,
       pb_frame_id = 0, pb_sent_bytes = 0, pb_failures = 0, pb_pending = [], pb_encoder_input = []\<rparr>" ?evs]
    by (simp add: camera_ready_def RelinkNode_init_def)
qed

section \<open>What the subscriber trusts\<close>

text \<open>
  The subscriber's callback stays inside the payload exactly when the payload holds the time stamp
  and, in raw mode, a whole picture of the configured size: a shorter image, which any publisher on the
  topic can send, makes it read past the end.
\<close>

theorem sub_callback_faults:
  "(sub_on_image a seconds now data st = Inl OutOfBounds) =
   (length data < (if sa_h264 a \<or> sa_compressed a then 8 else 8 + nat (sa_width a) * nat (sa_height a) * 3))"
  by (auto simp: sub_on_image_def Let_def)

text \<open>A payload of the publisher comes out as what was put in, with the time between the two.\<close>

lemma stamped_received:
  "sub_on_image (SubArgs_init\<lparr>sa_compressed := True\<rparr>) seconds now (stamped t body) st =
   Inr (ShowJpeg body, \<lparr>sb_recv_bytes = sb_recv_bytes st + word_of_nat (8 + length body), sb_recv_count = sb_recv_count st + 1,
     sb_latencies = (if length (sb_latencies st) < 30 then sb_latencies st else tl (sb_latencies st)) @ [(now - seconds t) * 1000]\<rparr>)"
  by (cases "sb_latencies st") (auto simp: sub_on_image_def stamped_def Let_def SubArgs_init_def)

text \<open>An option at the end of the line, without its value, makes either program read the null pointer.\<close>

lemma missing_value_faults:
  "pub_parse [''--width''] a pos = Inl NullArgument" "sub_parse [''--height''] b pos = Inl NullArgument"
  by (simp_all add: pub_flag_def pub_value_def sub_flag_def sub_value_def)

end
