(* ===== verification/Largescale.thy ===== *)
theory Largescale
  imports Relink_Node Command_Line
begin

text \<open>
  The stress program \<^verbatim>\<open>cpp/examples/largescale_topics.cpp\<close>: two processes with \<open>n\<close> named topics in each
  direction, the pacing of the publications, and the statistics. Clock readings are inputs of each turn,
  doubles are reals, but the one that travels is its bit pattern. The data thread only touches the
  statistics, and those under a lock, so arrivals are a sequence of their own.
\<close>

section \<open>Names and messages\<close>

text \<open>\<^verbatim>\<open>%0*d\<close>, and \<^verbatim>\<open>snprintf\<close> into 64 characters, the last of which ends the string.\<close>

definition zero_padded :: "nat \<Rightarrow> string \<Rightarrow> string" where
  "zero_padded width s = replicate (width - length s) CHR ''0'' @ s"

definition topic_name :: "string \<Rightarrow> nat \<Rightarrow> int \<Rightarrow> string" where
  "topic_name direction i n_pairs =
     (let width = length (show_int (n_pairs - 1))
      in take 63 (''/relink/stress/'' @ direction @ ''_'' @ zero_padded width (show_int (int i))))"

record Probe =
  pr_seq :: u32
  pr_send_us :: u64
  pr_value :: u64

text \<open>The struct in memory: four bytes of padding, of any value, align the second member.\<close>

definition enc_Probe :: "bytes \<Rightarrow> Probe \<Rightarrow> bytes" where
  "enc_Probe padding p = le32 (pr_seq p) @ padding @ le64 (pr_send_us p) @ le64 (pr_value p)"

definition dec_Probe :: "bytes \<Rightarrow> Probe" where
  "dec_Probe b =
     \<lparr>pr_seq = rd32 (bslice 0 4 b), pr_send_us = rd64 (bslice 8 8 b), pr_value = rd64 (bslice 16 8 b)\<rparr>"

section \<open>Sending\<close>

record 'c stress =
  sx_node :: "'c RelinkNode"
  sx_seqs :: "u32 list"
  sx_sent :: "int list"
  sx_next_send :: "real list"

text \<open>
  One pass over the topics at time \<open>t\<close>: the soonest time at which one is due, the messages with the
  topics they were sent on, the datagrams and the new state. \<open>clock i\<close> is the reading for topic \<open>i\<close>,
  \<open>tenth\<close> the value computed of a sequence number.
\<close>

definition send_due ::
  "(datagram \<Rightarrow> int) \<Rightarrow> node_env \<Rightarrow> bytes \<Rightarrow> (u32 \<Rightarrow> u64) \<Rightarrow> string list \<Rightarrow> real \<Rightarrow> real \<Rightarrow> u64 \<Rightarrow> nat \<Rightarrow>
   'c stress \<Rightarrow> NodeError + (nat \<times> Probe) list \<times> datagram list \<times> 'c stress" where
  "send_due sendto env padding tenth out_topics period t now_us i s =
     (if t \<ge> sx_next_send s ! i then
        let msg = \<lparr>pr_seq = sx_seqs s ! i, pr_send_us = now_us, pr_value = tenth (sx_seqs s ! i)\<rparr>
        in ebind (by_name (\<lambda>topic. node_publish sendto env False topic (enc_Probe padding msg))
                    (str_bytes (out_topics ! i)) (sx_node s))
             (\<lambda>(ok, out, n).
               Inr ([(i, msg)], out,
                    \<lparr>sx_node = n, sx_seqs = (sx_seqs s)[i := sx_seqs s ! i + 1],
                     sx_sent = (sx_sent s)[i := sx_sent s ! i + 1],
                     sx_next_send = (sx_next_send s)[i := sx_next_send s ! i + period]\<rparr>))
      else Inr ([], [], s))"

fun send_pass ::
  "(datagram \<Rightarrow> int) \<Rightarrow> node_env \<Rightarrow> bytes \<Rightarrow> (u32 \<Rightarrow> u64) \<Rightarrow> string list \<Rightarrow> real \<Rightarrow> real \<Rightarrow> (nat \<Rightarrow> u64) \<Rightarrow> nat list \<Rightarrow>
   real \<Rightarrow> 'c stress \<Rightarrow> NodeError + real \<times> (nat \<times> Probe) list \<times> datagram list \<times> 'c stress" where
  "send_pass sendto env padding tenth out_topics period t clock [] soonest s = Inr (soonest, [], [], s)"
| "send_pass sendto env padding tenth out_topics period t clock (i # is) soonest s =
     ebind (send_due sendto env padding tenth out_topics period t (clock i) i s) (\<lambda>(msg, out, s).
       let soonest = (if soonest < 0 \<or> sx_next_send s ! i < soonest then sx_next_send s ! i else soonest)
       in ebind (send_pass sendto env padding tenth out_topics period t clock is soonest s)
            (\<lambda>(soonest, msgs, outs, s). Inr (soonest, msg @ msgs, out @ outs, s)))"

text \<open>How long the loop sleeps, in microseconds.\<close>

definition stress_sleep :: "real \<Rightarrow> int option" where
  "stress_sleep remaining = (if remaining > 0 then Some \<lfloor>min remaining 0.001 * 1000000\<rfloor> else None)"

text \<open>A turn of the loop: the reading of its condition, that of the pass, the clock, and the one after it.\<close>

record stress_turn =
  tn_check :: real
  tn_pass :: real
  tn_clock :: "nat \<Rightarrow> u64"
  tn_after :: real

fun stress_loop ::
  "(datagram \<Rightarrow> int) \<Rightarrow> node_env \<Rightarrow> bytes \<Rightarrow> (u32 \<Rightarrow> u64) \<Rightarrow> string list \<Rightarrow> real \<Rightarrow> real \<Rightarrow> stress_turn list \<Rightarrow>
   'c stress \<Rightarrow> NodeError + (nat \<times> Probe) list \<times> int option list \<times> datagram list \<times> 'c stress" where
  "stress_loop sendto env padding tenth out_topics period duration [] s = Inr ([], [], [], s)"
| "stress_loop sendto env padding tenth out_topics period duration (t # ts) s =
     (if \<not> tn_check t < duration then Inr ([], [], [], s)
      else
        ebind (send_pass sendto env padding tenth out_topics period (tn_pass t) (tn_clock t)
                 [0..<length out_topics] (-1) s) (\<lambda>(soonest, msgs, out, s).
        ebind (spin_once env (sx_node s)) (\<lambda>(n, startup, punch).
        ebind (stress_loop sendto env padding tenth out_topics period duration ts (s\<lparr>sx_node := n\<rparr>))
          (\<lambda>(rest, sleeps, outs, s).
            Inr (msgs @ rest, stress_sleep (soonest - tn_after t) # sleeps, out @ startup @ outs, s)))))"

definition stress_init :: "nat \<Rightarrow> real \<Rightarrow> 'c RelinkNode \<Rightarrow> 'c stress" where
  "stress_init n period node =
     \<lparr>sx_node = node, sx_seqs = replicate n 0, sx_sent = replicate n 0,
      sx_next_send = map (\<lambda>i. real i * (period / real (max 1 n))) [0..<n]\<rparr>"

section \<open>Set-up\<close>

text \<open>
  The arguments: the role, the address, the number of pairs, the rate and the duration, or the exit status.
  A rate of zero makes the period infinite, and a negative number of pairs makes the vectors throw; for
  neither is there a run.
\<close>

record stress_args =
  sg_role :: string
  sg_rlcore_ip :: string
  sg_pairs :: int
  sg_rate :: real
  sg_duration :: real

definition stress_parse :: "string list \<Rightarrow> int + stress_args" where
  "stress_parse argv =
     (if length argv < 6 then Inl 1
      else Inr \<lparr>sg_role = argv ! 1, sg_rlcore_ip = argv ! 2, sg_pairs = atoi (argv ! 3), sg_rate = atof (argv ! 4),
                sg_duration = atof (argv ! 5)\<rparr>)"

definition stress_topics :: "stress_args \<Rightarrow> string list \<times> string list" where
  "stress_topics a =
     (let out_dir = (if sg_role a = ''a'' then ''a2b'' else ''b2a'');
          in_dir = (if sg_role a = ''a'' then ''b2a'' else ''a2b'')
      in (map (\<lambda>i. topic_name out_dir i (sg_pairs a)) [0..<nat (sg_pairs a)],
          map (\<lambda>i. topic_name in_dir i (sg_pairs a)) [0..<nat (sg_pairs a)]))"

fun stress_resolve :: "string list \<Rightarrow> 'c RelinkNode \<Rightarrow> NodeError + u32 list \<times> 'c RelinkNode" where
  "stress_resolve [] n = Inr ([], n)"
| "stress_resolve (name # names) n =
     ebind (topic_id_for (str_bytes name) n) (\<lambda>(topic, n).
     ebind (stress_resolve names n) (\<lambda>(topics, n). Inr (topic # topics, n)))"

fun stress_advertise :: "os_bind \<Rightarrow> string list \<Rightarrow> 'c RelinkNode \<Rightarrow> NodeError + 'c RelinkNode" where
  "stress_advertise os [] n = Inr n"
| "stress_advertise os (name # names) n =
     ebind (by_name (\<lambda>topic. advertise os False topic False 0) (str_bytes name) n) (stress_advertise os names)"

text \<open>A callback is the index it captures.\<close>

fun stress_subscribe :: "os_bind \<Rightarrow> (nat \<times> string) list \<Rightarrow> nat RelinkNode \<Rightarrow> NodeError + nat RelinkNode" where
  "stress_subscribe os [] n = Inr n"
| "stress_subscribe os ((i, name) # names) n =
     ebind (by_name (\<lambda>topic. subscribe os False 24 topic i False 0) (str_bytes name) n) (stress_subscribe os names)"

definition stress_setup ::
  "(string \<Rightarrow> u32 option) \<Rightarrow> os_bind \<Rightarrow> stress_args \<Rightarrow> NodeError + u32 list \<times> nat RelinkNode" where
  "stress_setup inet_pton os a =
     (case rlcore_ip inet_pton (sg_rlcore_ip a) RelinkNode_init of
        (Some e, n) \<Rightarrow> Inl e
      | (None, n) \<Rightarrow>
          (case stress_topics a of (out_topics, in_topics) \<Rightarrow>
             ebind (stress_resolve in_topics n) (\<lambda>(in_ids, n).
             ebind (stress_advertise os out_topics n) (\<lambda>n.
             ebind (stress_subscribe os (enumerate 0 in_topics) n) (\<lambda>n. Inr (in_ids, n))))))"

text \<open>The loop and the drain after it, \<open>drain\<close> turns long.\<close>

fun stress_drain :: "node_env \<Rightarrow> nat \<Rightarrow> 'c RelinkNode \<Rightarrow> NodeError + datagram list \<times> 'c RelinkNode" where
  "stress_drain env 0 n = Inr ([], n)"
| "stress_drain env (Suc k) n =
     ebind (spin_once env n) (\<lambda>(n, startup, punch).
     ebind (stress_drain env k n) (\<lambda>(out, n). Inr (startup @ out, n)))"

definition stress_run ::
  "(string \<Rightarrow> u32 option) \<Rightarrow> (datagram \<Rightarrow> int) \<Rightarrow> node_env \<Rightarrow> bytes \<Rightarrow> (u32 \<Rightarrow> u64) \<Rightarrow> stress_args \<Rightarrow> stress_turn list \<Rightarrow> nat \<Rightarrow>
   (NodeError + (nat \<times> Probe) list \<times> datagram list \<times> nat stress) option" where
  "stress_run inet_pton sendto env padding tenth a turns drain =
     (if sg_rate a = 0 \<or> sg_pairs a < 0 then None
      else
        let period = 1 / sg_rate a; out_topics = fst (stress_topics a) in
        Some (ebind (stress_setup inet_pton (ne_bind env) a) (\<lambda>(in_ids, n).
              ebind (stress_loop sendto env padding tenth out_topics period (sg_duration a) turns
                       (stress_init (length out_topics) period n)) (\<lambda>(msgs, sleeps, out, s).
              ebind (stress_drain env drain (sx_node s)) (\<lambda>(late, n).
                Inr (msgs, out @ late, s\<lparr>sx_node := n\<rparr>))))))"

section \<open>Statistics\<close>

record stress_stats =
  sc_recv :: "int list"
  sc_max_seq :: "int list"
  sc_lat :: "real list list"

definition stress_stats_init :: "nat \<Rightarrow> stress_stats" where
  "stress_stats_init n = \<lparr>sc_recv = replicate n 0, sc_max_seq = replicate n (-1), sc_lat = replicate n []\<rparr>"

definition on_probe :: "u64 \<Rightarrow> nat \<Rightarrow> Probe \<Rightarrow> stress_stats \<Rightarrow> stress_stats" where
  "on_probe now_us idx m st =
     (let lat_ms = (real (unat now_us) - real (unat (pr_send_us m))) / 1000
      in \<lparr>sc_recv = (sc_recv st)[idx := sc_recv st ! idx + 1],
          sc_max_seq = (if int (unat (pr_seq m)) > sc_max_seq st ! idx
                        then (sc_max_seq st)[idx := int (unat (pr_seq m))] else sc_max_seq st),
          sc_lat = (sc_lat st)[idx := sc_lat st ! idx @ [lat_ms]]\<rparr>)"

definition stress_receive :: "nat \<Rightarrow> (u64 \<times> nat \<times> Probe) list \<Rightarrow> stress_stats" where
  "stress_receive n arrivals = fold (\<lambda>(now_us, idx, m). on_probe now_us idx m) arrivals (stress_stats_init n)"

definition pct :: "real list \<Rightarrow> real \<Rightarrow> real" where
  "pct all_lats p = (if all_lats = [] then -1 else all_lats ! nat \<lfloor>p * real (length all_lats - 1)\<rfloor>)"

record stress_report =
  sp_total_sent :: int
  sp_total_recv :: int
  sp_est_peer_sent :: int
  sp_delivery :: real
  sp_zero_recv_topics :: nat
  sp_latency :: "(real \<times> real \<times> real \<times> real) option"

definition stress_totals :: "int list \<Rightarrow> stress_stats \<Rightarrow> stress_report" where
  "stress_totals sent st =
     (let total_recv = sum_list (sc_recv st);
          est_peer_sent = sum_list (map (\<lambda>m. m + 1) (filter (\<lambda>m. m \<ge> 0) (sc_max_seq st)));
          all_lats = sort (concat (sc_lat st))
      in \<lparr>sp_total_sent = sum_list sent, sp_total_recv = total_recv, sp_est_peer_sent = est_peer_sent,
          sp_delivery = 100 * of_int total_recv / of_int (max 1 est_peer_sent),
          sp_zero_recv_topics = length (filter (\<lambda>r. r = 0) (sc_recv st)),
          sp_latency = (if all_lats = [] then None
                        else Some (pct all_lats 0.5, pct all_lats 0.9, pct all_lats 0.99, last all_lats))\<rparr>)"

section \<open>The names are apart\<close>

definition digits_value :: "string \<Rightarrow> nat" where
  "digits_value s = fold (\<lambda>c v. v * 10 + (of_char c - 48)) s 0"

lemma digits_value_to_digits [simp]: "digits_value (to_digits n) = n"
proof (induction n rule: to_digits.induct)
  case (1 n)
  then show ?case by (subst to_digits.simps) (simp add: digits_value_def div_mult_mod_eq)
qed

lemma digits_value_zeros [simp]: "digits_value (replicate k CHR ''0'' @ s) = digits_value s"
  by (induction k) (simp_all add: digits_value_def)

lemma to_digits_length: "n < 10 ^ Suc k \<Longrightarrow> length (to_digits n) \<le> Suc k"
proof (induction k arbitrary: n)
  case 0
  then show ?case by (subst to_digits.simps) simp
next
  case (Suc k)
  then have "n div 10 < 10 ^ Suc k" by (simp add: less_mult_imp_div_less mult.commute)
  with Suc.IH show ?case by (subst to_digits.simps) simp
qed

lemma topic_name_eq:
  assumes "i < nat n" and "n \<le> 2 ^ 31" and "length d = 3"
  shows "\<exists>k. topic_name d i n = ''/relink/stress/'' @ d @ ''_'' @ replicate k CHR ''0'' @ to_digits i"
proof -
  have "nat (n - 1) < 10 ^ Suc 9" "i < 10 ^ Suc 9" using assms(1,2) by auto
  then have "length (to_digits (nat (n - 1))) \<le> 10" "length (to_digits i) \<le> 10"
    using to_digits_length [of _ 9] by simp_all
  then show ?thesis
    using assms by (auto simp: topic_name_def show_int_def zero_padded_def Let_def)
qed

text \<open>
  However many pairs there are, no two of the topics of the test, over both directions, have the same
  name: the padding and the buffer of \<^verbatim>\<open>topic_name\<close> keep the indices apart.
\<close>

theorem stress_names_distinct:
  assumes "0 \<le> sg_pairs a" and "sg_pairs a < 2 ^ 31"
  shows "distinct (fst (stress_topics a) @ snd (stress_topics a))"
proof -
  have inj: "d = e \<and> i = j" if "topic_name d i n = topic_name e j n" "i < nat n" "j < nat n" "n \<le> 2 ^ 31"
    "length d = 3" "length e = 3" for d e :: string and i j n
  proof -
    note h = that
    obtain k where k: "topic_name d i n = ''/relink/stress/'' @ d @ ''_'' @ replicate k CHR ''0'' @ to_digits i"
      using topic_name_eq [of i n d] h by blast
    obtain l where l: "topic_name e j n = ''/relink/stress/'' @ e @ ''_'' @ replicate l CHR ''0'' @ to_digits j"
      using topic_name_eq [of j n e] h by blast
    have eq: "d @ ''_'' @ replicate k CHR ''0'' @ to_digits i = e @ ''_'' @ replicate l CHR ''0'' @ to_digits j"
      using h(1) k l by simp
    then have "d = e" "replicate k CHR ''0'' @ to_digits i = replicate l CHR ''0'' @ to_digits j"
      using h(5,6) append_eq_append_conv [of d e] by auto
    then show ?thesis by (metis digits_value_to_digits digits_value_zeros)
  qed
  have ne: "topic_name ''a2b'' i n \<noteq> topic_name ''b2a'' j n" if "i < nat n" "j < nat n" "n \<le> 2 ^ 31" for i j n
    using inj [of "''a2b''" i n "''b2a''" j] that by auto
  have "inj_on (\<lambda>i. topic_name d i (sg_pairs a)) {..<nat (sg_pairs a)}" if "length d = 3" for d
    using inj [of d _ "sg_pairs a" d] that assms(2) by (auto intro!: inj_onI)
  then show ?thesis
    using assms ne [of _ "sg_pairs a"] ne [of _ "sg_pairs a", THEN not_sym]
    by (auto simp: stress_topics_def Let_def distinct_map atLeast0LessThan)
qed

theorem stress_names_distinct_witness:
  "distinct (fst (stress_topics \<lparr>sg_role = ''a'', sg_rlcore_ip = [], sg_pairs = 1000, sg_rate = 1, sg_duration = 1\<rparr>) @
             snd (stress_topics \<lparr>sg_role = ''a'', sg_rlcore_ip = [], sg_pairs = 1000, sg_rate = 1, sg_duration = 1\<rparr>))"
  by (rule stress_names_distinct) simp_all

section \<open>No topic is ahead of its schedule\<close>

text \<open>\<open>sent_between\<close>: what was sent between two states, topic by topic, carries the consecutive numbers
  from the one count to the other.\<close>

definition sent_between :: "'c stress \<Rightarrow> (nat \<times> Probe) list \<Rightarrow> 'c stress \<Rightarrow> bool" where
  "sent_between s msgs s' \<longleftrightarrow> length (sx_sent s') = length (sx_sent s) \<and>
     (\<forall>i < length (sx_sent s). sx_sent s ! i \<le> sx_sent s' ! i \<and>
        map (\<lambda>m. pr_seq (snd m)) (filter (\<lambda>m. fst m = i) msgs) = map word_of_int [sx_sent s ! i .. sx_sent s' ! i - 1])"

definition paced :: "real \<Rightarrow> real \<Rightarrow> 'c stress \<Rightarrow> bool" where
  "paced period T s \<longleftrightarrow>
     length (sx_seqs s) = length (sx_sent s) \<and> length (sx_next_send s) = length (sx_sent s) \<and>
     (\<forall>i < length (sx_sent s).
        let start = real i * (period / real (max 1 (length (sx_sent s))))
        in sx_seqs s ! i = word_of_int (sx_sent s ! i) \<and>
           sx_next_send s ! i = start + of_int (sx_sent s ! i) * period \<and>
           (sx_sent s ! i = 0 \<or> start + of_int (sx_sent s ! i - 1) * period \<le> T))"

lemma sent_between_refl [simp]: "sent_between s [] s"
  by (simp add: sent_between_def)

lemma sx_node_irrelevant [simp]:
  "paced period T (s\<lparr>sx_node := n\<rparr>) = paced period T s"
  "sent_between s ms (s'\<lparr>sx_node := n\<rparr>) = sent_between s ms s'"
  by (simp_all add: paced_def sent_between_def)

lemma sent_between_trans:
  assumes "sent_between s ms s1" and "sent_between s1 ns s2"
  shows "sent_between s (ms @ ns) s2"
proof -
  have cat: "[a .. b - 1] @ [b .. c - 1] = [a .. c - 1]" if "a \<le> b" "b \<le> c" for a b c :: int
    using that upto_split1 [of a b "c - 1"] by (cases "b = c") auto
  have "map (\<lambda>m. pr_seq (snd m)) (filter (\<lambda>m. fst m = i) (ms @ ns)) = map word_of_int [sx_sent s ! i .. sx_sent s2 ! i - 1]"
    if "i < length (sx_sent s)" for i
  proof -
    have "[sx_sent s ! i .. sx_sent s2 ! i - 1] =
        [sx_sent s ! i .. sx_sent s1 ! i - 1] @ [sx_sent s1 ! i .. sx_sent s2 ! i - 1]"
      using assms that cat by (simp add: sent_between_def)
    then show ?thesis using assms that by (simp add: sent_between_def)
  qed
  then show ?thesis using assms by (fastforce simp: sent_between_def)
qed

lemma send_due_paced:
  assumes "send_due sendto env padding tenth topics period t now_us i s = Inr (msg, out, s')"
    and "paced period T s" and "t \<le> T" and "i < length (sx_sent s)"
  shows "paced period T s' \<and> sent_between s msg s'"
proof (cases "t \<ge> sx_next_send s ! i")
  case False
  then show ?thesis using assms by (simp add: send_due_def)
next
  case True
  then obtain n where s': "s' = \<lparr>sx_node = n, sx_seqs = (sx_seqs s)[i := sx_seqs s ! i + 1],
      sx_sent = (sx_sent s)[i := sx_sent s ! i + 1], sx_next_send = (sx_next_send s)[i := sx_next_send s ! i + period]\<rparr>"
    and msg: "map (\<lambda>m. (fst m, pr_seq (snd m))) msg = [(i, sx_seqs s ! i)]"
    using assms(1) by (auto simp: send_due_def Let_def ebind_Inr)
  obtain p where p: "msg = [(i, p)]" "pr_seq p = sx_seqs s ! i" using msg by (cases msg) auto
  have due: "real i * (period / real (max 1 (length (sx_sent s)))) + of_int (sx_sent s ! i) * period \<le> T"
    "sx_seqs s ! i = word_of_int (sx_sent s ! i)"
    using True assms(2,3,4) by (auto simp: paced_def Let_def)
  have lens: "length (sx_seqs s) = length (sx_sent s)" "length (sx_next_send s) = length (sx_sent s)"
    using assms(2) by (simp_all add: paced_def)
  have "paced period T s'"
    unfolding paced_def Let_def
  proof (intro conjI allI impI)
    fix j
    assume "j < length (sx_sent s')"
    then have j: "j < length (sx_sent s)" by (simp add: s')
    note old = assms(2) [unfolded paced_def Let_def, THEN conjunct2, THEN conjunct2, rule_format, OF j]
    show "sx_seqs s' ! j = word_of_int (sx_sent s' ! j)"
      using old j lens by (cases "j = i") (simp_all add: s')
    show "sx_next_send s' ! j = real j * (period / real (max 1 (length (sx_sent s')))) + of_int (sx_sent s' ! j) * period"
      using old j lens by (cases "j = i") (simp_all add: s' algebra_simps)
    show "sx_sent s' ! j = 0 \<or>
        real j * (period / real (max 1 (length (sx_sent s')))) + of_int (sx_sent s' ! j - 1) * period \<le> T"
      using old j due(1) by (cases "j = i") (simp_all add: s')
  qed (use assms(2) in \<open>simp_all add: s' paced_def\<close>)
  moreover have "sent_between s msg s'"
    using due(2) by (auto simp: sent_between_def s' p nth_list_update)
  ultimately show ?thesis ..
qed

lemma send_pass_paced:
  "send_pass sendto env padding tenth topics period t clock is soonest s = Inr (soonest', msgs, out, s') \<Longrightarrow>
   paced period T s \<Longrightarrow> t \<le> T \<Longrightarrow> set is \<subseteq> {..<length (sx_sent s)} \<Longrightarrow>
   paced period T s' \<and> sent_between s msgs s'"
proof (induction "is" arbitrary: soonest s msgs out)
  case (Cons i "is")
  obtain m o1 s1 so ms os where
    a: "send_due sendto env padding tenth topics period t (clock i) i s = Inr (m, o1, s1)"
    and b: "send_pass sendto env padding tenth topics period t clock is so s1 = Inr (soonest', ms, os, s')"
    and msgs: "msgs = m @ ms"
    using Cons.prems(1) by (auto simp: ebind_Inr Let_def)
  have one: "paced period T s1 \<and> sent_between s m s1"
    using send_due_paced [OF a Cons.prems(2,3)] Cons.prems(4) by simp
  then have "set is \<subseteq> {..<length (sx_sent s1)}" using Cons.prems(4) by (simp add: sent_between_def)
  then show ?case
    using Cons.IH [OF b _ Cons.prems(3)] one sent_between_trans by (auto simp: msgs)
qed simp

text \<open>
  From the start on, the n-th message of a topic carries number n, counted from 0 and modulo 2^32, and it is
  sent at the earliest n periods after the topic's start, which the topics spread over one period.
\<close>

lemma stress_loop_paced:
  "stress_loop sendto env padding tenth topics period duration turns s = Inr (msgs, sleeps, out, s') \<Longrightarrow>
   paced period T s \<Longrightarrow> list_all (\<lambda>t. tn_pass t \<le> T) turns \<Longrightarrow> length topics = length (sx_sent s) \<Longrightarrow>
   paced period T s' \<and> sent_between s msgs s'"
proof (induction turns arbitrary: s msgs sleeps out)
  case (Cons t ts)
  show ?case
  proof (cases "tn_check t < duration")
    case True
    then obtain so ms o1 s1 n ms' sl os where
      a: "send_pass sendto env padding tenth topics period (tn_pass t) (tn_clock t) [0..<length topics] (-1) s =
          Inr (so, ms, o1, s1)"
      and b: "stress_loop sendto env padding tenth topics period duration ts (s1\<lparr>sx_node := n\<rparr>) = Inr (ms', sl, os, s')"
      and msgs: "msgs = ms @ ms'"
      using Cons.prems(1) by (auto simp: ebind_Inr)
    have one: "paced period T s1 \<and> sent_between s ms s1"
      using send_pass_paced [OF a Cons.prems(2)] Cons.prems(3,4) by (simp add: atLeast0LessThan)
    then have "paced period T (s1\<lparr>sx_node := n\<rparr>)" "sent_between s ms (s1\<lparr>sx_node := n\<rparr>)"
      by simp_all
    then show ?thesis
      using Cons.IH [OF b] Cons.prems(3,4) sent_between_trans [of s ms "s1\<lparr>sx_node := n\<rparr>" ms' s'] one
      by (simp add: msgs sent_between_def [of s ms s1])
  qed (use Cons.prems in simp)
qed simp

lemma stress_paced:
  assumes "stress_loop sendto env padding tenth topics period duration turns (stress_init n period node) =
      Inr (msgs, sleeps, out, s)"
    and "list_all (\<lambda>t. tn_pass t \<le> T) turns" and "length topics = n" and "i < n"
  shows "map (\<lambda>m. pr_seq (snd m)) (filter (\<lambda>m. fst m = i) msgs) = map word_of_int [0 .. sx_sent s ! i - 1]"
    and "sx_sent s ! i = 0 \<or> real i * (period / real n) + of_int (sx_sent s ! i - 1) * period \<le> T"
proof -
  have "paced period T (stress_init n period node)" by (simp add: paced_def stress_init_def Let_def)
  from stress_loop_paced [OF assms(1) this assms(2)] assms(3,4)
  have p: "paced period T s" "sent_between (stress_init n period node) msgs s" by (simp_all add: stress_init_def)
  then have l: "length (sx_sent s) = n" by (simp add: sent_between_def stress_init_def)
  show "map (\<lambda>m. pr_seq (snd m)) (filter (\<lambda>m. fst m = i) msgs) = map word_of_int [0 .. sx_sent s ! i - 1]"
    using p(2) assms(4) by (simp add: sent_between_def stress_init_def)
  show "sx_sent s ! i = 0 \<or> real i * (period / real n) + of_int (sx_sent s ! i - 1) * period \<le> T"
    using p(1) l assms(4) by (simp add: paced_def Let_def max_def)
qed

section \<open>The delivery rate\<close>

lemma stress_receive_inv:
  assumes "list_all (\<lambda>(now_us, i, m). i < n) arrivals"
  shows "length (sc_recv (stress_receive n arrivals)) = n \<and> length (sc_max_seq (stress_receive n arrivals)) = n \<and>
    (\<forall>i < n. sc_recv (stress_receive n arrivals) ! i = int (length (filter (\<lambda>a. fst (snd a) = i) arrivals)) \<and>
       -1 \<le> sc_max_seq (stress_receive n arrivals) ! i \<and>
       (\<forall>(now_us, j, m) \<in> set arrivals. j = i \<longrightarrow> int (unat (pr_seq m)) \<le> sc_max_seq (stress_receive n arrivals) ! i))"
  using assms
proof (induction arrivals rule: rev_induct)
  case Nil
  then show ?case by (simp add: stress_receive_def stress_stats_init_def)
next
  case (snoc a arrivals)
  obtain now_us i m where a: "a = (now_us, i, m)" by (metis prod_cases3)
  have step: "stress_receive n (arrivals @ [a]) = on_probe now_us i m (stress_receive n arrivals)"
    by (simp add: stress_receive_def a)
  have IH: "length (sc_recv (stress_receive n arrivals)) = n" "length (sc_max_seq (stress_receive n arrivals)) = n"
    "\<And>i. i < n \<Longrightarrow> sc_recv (stress_receive n arrivals) ! i = int (length (filter (\<lambda>a. fst (snd a) = i) arrivals))"
    "\<And>i. i < n \<Longrightarrow> -1 \<le> sc_max_seq (stress_receive n arrivals) ! i"
    "\<And>i t m. i < n \<Longrightarrow> (t, i, m) \<in> set arrivals \<Longrightarrow> int (unat (pr_seq m)) \<le> sc_max_seq (stress_receive n arrivals) ! i"
    using snoc by fastforce+
  show ?case
    unfolding step using IH snoc.prems
    by (auto simp: on_probe_def a nth_list_update dest!: IH(5) [rotated] intro: order_trans [OF _ uint_ge_0])
qed

text \<open>
  The delivery rate the program prints is at most 100 per cent whenever no message arrives twice; the
  number of messages that arrived on a topic is at most one more than the highest number seen there.
\<close>

theorem stress_delivery_bounded:
  assumes "distinct (map (\<lambda>(now_us, i, m). (i, pr_seq m)) arrivals)"
    and "list_all (\<lambda>(now_us, i, m). i < n) arrivals"
  shows "sp_total_recv (stress_totals sent (stress_receive n arrivals)) \<le> sp_est_peer_sent (stress_totals sent (stress_receive n arrivals)) \<and>
    sp_delivery (stress_totals sent (stress_receive n arrivals)) \<le> 100"
proof -
  let ?st = "stress_receive n arrivals"
  note inv = stress_receive_inv [OF assms(2)]
  have each: "sc_recv ?st ! i \<le> sc_max_seq ?st ! i + 1" if i: "i < n" for i
  proof -
    let ?as = "filter (\<lambda>a. fst (snd a) = i) arrivals"
    let ?key = "\<lambda>a. nat (uint (pr_seq (snd (snd a))))"
    have "inj_on (\<lambda>(now_us, i, m). (i, pr_seq m)) (set arrivals)" "distinct arrivals"
      using assms(1) by (simp_all add: distinct_map)
    then have "inj_on ?key (set ?as)" "distinct ?as"
      by (fastforce simp: inj_on_def dest: iffD2 [OF word_unat_eq_iff])+
    then have d: "distinct (map ?key ?as)" by (simp add: distinct_map)
    have "set (map ?key ?as) \<subseteq> {..<nat (sc_max_seq ?st ! i + 1)}"
    proof
      fix x
      assume "x \<in> set (map ?key ?as)"
      then obtain t m where "(t, i, m) \<in> set arrivals" "x = unat (pr_seq m)" by auto
      then have "int x \<le> sc_max_seq ?st ! i" using inv i by fastforce
      then show "x \<in> {..<nat (sc_max_seq ?st ! i + 1)}" by auto
    qed
    then have "card (set (map ?key ?as)) \<le> nat (sc_max_seq ?st ! i + 1)"
      using card_mono [of "{..<nat (sc_max_seq ?st ! i + 1)}"] by fastforce
    then show ?thesis using distinct_card [OF d] inv i by fastforce
  qed
  have "sum_list (sc_recv ?st) \<le> sum_list (map (\<lambda>m. m + 1) (sc_max_seq ?st))"
    using each inv sum_list_mono2 [of "sc_recv ?st" "map (\<lambda>m. m + 1) (sc_max_seq ?st)"] by simp
  also have "\<dots> = sum_list (map (\<lambda>m. m + 1) (filter (\<lambda>m. m \<ge> 0) (sc_max_seq ?st)))"
  proof -
    have "sum_list (map (\<lambda>m. m + 1) xs) = sum_list (map (\<lambda>m. m + 1) (filter (\<lambda>m. m \<ge> 0) xs))"
      if "\<forall>x \<in> set xs. -1 \<le> x" for xs :: "int list"
      using that by (induction xs) auto
    moreover have "\<forall>x \<in> set (sc_max_seq ?st). -1 \<le> x" using inv by (auto simp: in_set_conv_nth)
    ultimately show ?thesis by blast
  qed
  finally have le: "sp_total_recv (stress_totals sent ?st) \<le> sp_est_peer_sent (stress_totals sent ?st)"
    by (simp add: stress_totals_def Let_def)
  have "100 * of_int r / of_int (max 1 e) \<le> (100 :: real)" if "r \<le> e" for r e :: int
    using that by (simp add: divide_le_eq le_max_iff_disj)
  with le show ?thesis by (simp add: stress_totals_def Let_def)
qed

theorem stress_delivery_bounded_witness:
  "sp_delivery (stress_totals [] (stress_receive 2
     [(5, 0, \<lparr>pr_seq = 0, pr_send_us = 1, pr_value = 0\<rparr>), (9, 0, \<lparr>pr_seq = 2, pr_send_us = 3, pr_value = 0\<rparr>)])) \<le> 100"
  using stress_delivery_bounded [of "[(5, 0, \<lparr>pr_seq = 0, pr_send_us = 1, pr_value = 0\<rparr>),
     (9, 0, \<lparr>pr_seq = 2, pr_send_us = 3, pr_value = 0\<rparr>)]" 2 "[]"] by simp

end
