(* ===== verification/Sample_Topics.thy ===== *)
theory Sample_Topics
  imports Relink_Node Standard_Msgs Command_Line
begin

text \<open>
  The sample programs that exchange one message of each type, \<^verbatim>\<open>cpp/examples/*_msgs_pubsub.cpp\<close> and
  \<^verbatim>\<open>builtin_types_pubsub.cpp\<close>: the topics they subscribe to and advertise, in order, with the C++ type of each,
  and the arguments that the callbacks hand to \<^verbatim>\<open>printf\<close>. The loops that fill in and publish constant
  messages are left out.
\<close>

section \<open>What a callback prints\<close>

text \<open>
  An argument is a member of the message, reached by names and indices; text, read by an accessor of
  \<^verbatim>\<open>standard_msgs.hpp\<close> that stops at the end of the array; or the array itself, which \<^verbatim>\<open>%s\<close> reads up to a zero.
\<close>

datatype access = Member string | Index nat

datatype print_arg = Value "access list" | Text "access list" | CStr "access list"

fun locate :: "nat \<Rightarrow> ctype \<Rightarrow> access list \<Rightarrow> (nat \<times> ctype) option" where
  "locate off T [] = Some (off, T)"
| "locate off T (Member f # as) =
     (case member_of T f of Some (o', U) \<Rightarrow> locate (off + o') U as | None \<Rightarrow> None)"
| "locate off (Arr n U) (Index i # as) = (if i < n then locate (off + i * csize U) U as else None)"
| "locate off T (Index i # as) = None"

text \<open>What an argument makes of the bytes of a message; \<open>None\<close> is a read past its end.\<close>

fun arg_value :: "ctype \<Rightarrow> bytes \<Rightarrow> print_arg \<Rightarrow> bytes option" where
  "arg_value T m (Value as) =
     (case locate 0 T as of Some (off, U) \<Rightarrow> if off + csize U \<le> length m then Some (bslice off (csize U) m) else None
      | None \<Rightarrow> None)"
| "arg_value T m (Text as) =
     (case locate 0 T as of
        Some (off, U) \<Rightarrow> if off + csize U \<le> length m then Some (c_string (bslice off (csize U) m)) else None
      | None \<Rightarrow> None)"
| "arg_value T m (CStr as) =
     (case locate 0 T as of Some (off, U) \<Rightarrow> if 0 \<in> set (drop off m) then Some (c_string (drop off m)) else None
      | None \<Rightarrow> None)"

datatype sample_sub = SampleSub (sm_topic: string) (sm_type: ctype) (sm_args: "print_arg list")

fun all_values :: "'a option list \<Rightarrow> 'a list option" where
  "all_values [] = Some []"
| "all_values (x # xs) = (case x of None \<Rightarrow> None | Some y \<Rightarrow> map_option ((#) y) (all_values xs))"

definition sample_callback :: "sample_sub \<Rightarrow> bytes \<Rightarrow> bytes list option" where
  "sample_callback s m = all_values (map (arg_value (sm_type s) m) (sm_args s))"

section \<open>The programs\<close>

text \<open>The array messages of \<^verbatim>\<open>std_msgs_pubsub.cpp\<close>.\<close>

definition kMultiArrayCap :: nat where "kMultiArrayCap = 8"

definition MultiArray_t :: "prim \<Rightarrow> ctype" where
  "MultiArray_t p = Struct [(''count'', Prim TU32), (''data'', Arr kMultiArrayCap (Prim p))]"

definition standard_msgs_subs :: "sample_sub list" where
  "standard_msgs_subs =
     [SampleSub ''/relink/std/empty'' Empty_t [],
      SampleSub ''/relink/std/time'' Time_t [Value [Member ''sec''], Value [Member ''nsec'']],
      SampleSub ''/relink/std/duration'' Duration_t [Value [Member ''sec''], Value [Member ''nsec'']],
      SampleSub ''/relink/std/color'' ColorRGBA_t [Value [Member ''r''], Value [Member ''g''], Value [Member ''b''], Value [Member ''a'']],
      SampleSub ''/relink/std/header'' Header_t [Value [Member ''seq''], Text [Member ''frame_id'']],
      SampleSub ''/relink/std/string'' String_t [Text [Member ''data'']],
      SampleSub ''/relink/geo/vector3'' Vector3_t [Value [Member ''x''], Value [Member ''y''], Value [Member ''z'']],
      SampleSub ''/relink/geo/point'' Point_t [Value [Member ''x''], Value [Member ''y''], Value [Member ''z'']],
      SampleSub ''/relink/geo/point32'' Point32_t [Value [Member ''x''], Value [Member ''y''], Value [Member ''z'']],
      SampleSub ''/relink/geo/quaternion'' Quaternion_t [Value [Member ''x''], Value [Member ''y''], Value [Member ''z''], Value [Member ''w'']],
      SampleSub ''/relink/geo/pose'' Pose_t [Value [Member ''position'', Member ''x''], Value [Member ''position'', Member ''y''], Value [Member ''position'', Member ''z'']],
      SampleSub ''/relink/geo/twist'' Twist_t [Value [Member ''linear'', Member ''x''], Value [Member ''angular'', Member ''z'']],
      SampleSub ''/relink/geo/accel'' Accel_t [Value [Member ''linear'', Member ''x'']],
      SampleSub ''/relink/geo/wrench'' Wrench_t [Value [Member ''force'', Member ''z'']],
      SampleSub ''/relink/geo/pose_stamped'' PoseStamped_t [Text [Member ''header'', Member ''frame_id'']],
      SampleSub ''/relink/geo/twist_stamped'' TwistStamped_t [Text [Member ''header'', Member ''frame_id'']],
      SampleSub ''/relink/geo/transform'' Transform_t [Value [Member ''translation'', Member ''x'']],
      SampleSub ''/relink/geo/transform_stamped'' TransformStamped_t [Text [Member ''child_frame_id'']],
      SampleSub ''/relink/geo/pose_cov'' PoseWithCovariance_t [Value [Member ''covariance'', Index 0]],
      SampleSub ''/relink/geo/twist_cov'' TwistWithCovariance_t [Value [Member ''covariance'', Index 0]],
      SampleSub ''/relink/geo/pose_array'' PoseArray_t [Value [Member ''count'']],
      SampleSub ''/relink/geo/polygon'' Polygon_t [Value [Member ''count'']],
      SampleSub ''/relink/sensor/imu'' Imu_t [Value [Member ''linear_acceleration'', Member ''z'']],
      SampleSub ''/relink/sensor/navsat_status'' NavSatStatus_t [Value [Member ''status'']],
      SampleSub ''/relink/sensor/navsat_fix'' NavSatFix_t [Value [Member ''latitude''], Value [Member ''longitude'']],
      SampleSub ''/relink/sensor/mag'' MagneticField_t [Value [Member ''magnetic_field'', Member ''x'']],
      SampleSub ''/relink/sensor/temp'' Temperature_t [Value [Member ''temperature'']],
      SampleSub ''/relink/sensor/range'' Range_t [Value [Member ''range'']],
      SampleSub ''/relink/sensor/roi'' RegionOfInterest_t [Value [Member ''width''], Value [Member ''height'']],
      SampleSub ''/relink/sensor/camera_info'' CameraInfo_t [Value [Member ''width''], Value [Member ''height''], Text [Member ''distortion_model'']],
      SampleSub ''/relink/sensor/point_field'' PointField_t [Text [Member ''name'']],
      SampleSub ''/relink/sensor/point_cloud2'' PointCloud2_t [Value [Member ''width''], Value [Member ''height''], Value [Member ''fields_count'']],
      SampleSub ''/relink/sensor/laser_scan'' LaserScan_t [Value [Member ''ranges_count'']],
      SampleSub ''/relink/sensor/joint_state'' JointState_t [Value [Member ''count''], Text [Member ''name'', Index 0]],
      SampleSub ''/relink/nav/odometry'' Odometry_t [Text [Member ''child_frame_id'']],
      SampleSub ''/relink/nav/map_meta'' MapMetaData_t [Value [Member ''width''], Value [Member ''height''], Value [Member ''resolution'']],
      SampleSub ''/relink/nav/path'' Path_t [Value [Member ''count'']],
      SampleSub ''/relink/nav/occupancy_grid'' OccupancyGrid_t [Value [Member ''data_len'']],
      SampleSub ''/relink/nav/grid_cells'' GridCells_t [Value [Member ''count'']],
      SampleSub ''/relink/diag/key_value'' KeyValue_t [Text [Member ''key''], Text [Member ''value'']],
      SampleSub ''/relink/diag/status'' DiagnosticStatus_t [Value [Member ''level''], CStr [Member ''name'']],
      SampleSub ''/relink/diag/array'' DiagnosticArray_t [Value [Member ''status_count'']],
      SampleSub ''/relink/traj/point'' JointTrajectoryPoint_t [Value [Member ''count''], Value [Member ''positions'', Index 0]],
      SampleSub ''/relink/traj/trajectory'' JointTrajectory_t [Value [Member ''points_count'']],
      SampleSub ''/relink/traj/multidof_point'' MultiDOFJointTrajectoryPoint_t [Value [Member ''count'']],
      SampleSub ''/relink/traj/multidof_trajectory'' MultiDOFJointTrajectory_t [Value [Member ''points_count'']],
      SampleSub ''/relink/action/goal_id'' GoalID_t [Text [Member ''id'']],
      SampleSub ''/relink/action/goal_status'' GoalStatus_t [Value [Member ''status''], Text [Member ''text'']],
      SampleSub ''/relink/action/goal_status_array'' GoalStatusArray_t [Value [Member ''status_list_count'']]]"

definition standard_msgs_advs :: "(string \<times> ctype) list" where
  "standard_msgs_advs =
     [(''/relink/std/empty'', Empty_t), (''/relink/std/time'', Time_t),
      (''/relink/std/duration'', Duration_t), (''/relink/std/color'', ColorRGBA_t),
      (''/relink/std/header'', Header_t), (''/relink/std/string'', String_t),
      (''/relink/geo/vector3'', Vector3_t), (''/relink/geo/point'', Point_t),
      (''/relink/geo/point32'', Point32_t), (''/relink/geo/quaternion'', Quaternion_t),
      (''/relink/geo/pose'', Pose_t), (''/relink/geo/twist'', Twist_t), (''/relink/geo/accel'', Accel_t),
      (''/relink/geo/wrench'', Wrench_t), (''/relink/geo/pose_stamped'', PoseStamped_t),
      (''/relink/geo/twist_stamped'', TwistStamped_t), (''/relink/geo/transform'', Transform_t),
      (''/relink/geo/transform_stamped'', TransformStamped_t),
      (''/relink/geo/pose_cov'', PoseWithCovariance_t), (''/relink/geo/twist_cov'', TwistWithCovariance_t),
      (''/relink/geo/pose_array'', PoseArray_t), (''/relink/geo/polygon'', Polygon_t),
      (''/relink/sensor/imu'', Imu_t), (''/relink/sensor/navsat_status'', NavSatStatus_t),
      (''/relink/sensor/navsat_fix'', NavSatFix_t), (''/relink/sensor/mag'', MagneticField_t),
      (''/relink/sensor/temp'', Temperature_t), (''/relink/sensor/range'', Range_t),
      (''/relink/sensor/roi'', RegionOfInterest_t), (''/relink/sensor/camera_info'', CameraInfo_t),
      (''/relink/sensor/point_field'', PointField_t), (''/relink/sensor/point_cloud2'', PointCloud2_t),
      (''/relink/sensor/laser_scan'', LaserScan_t), (''/relink/sensor/joint_state'', JointState_t),
      (''/relink/nav/odometry'', Odometry_t), (''/relink/nav/map_meta'', MapMetaData_t),
      (''/relink/nav/path'', Path_t), (''/relink/nav/occupancy_grid'', OccupancyGrid_t),
      (''/relink/nav/grid_cells'', GridCells_t), (''/relink/diag/key_value'', KeyValue_t),
      (''/relink/diag/status'', DiagnosticStatus_t), (''/relink/diag/array'', DiagnosticArray_t),
      (''/relink/traj/point'', JointTrajectoryPoint_t), (''/relink/traj/trajectory'', JointTrajectory_t),
      (''/relink/traj/multidof_point'', MultiDOFJointTrajectoryPoint_t),
      (''/relink/traj/multidof_trajectory'', MultiDOFJointTrajectory_t),
      (''/relink/action/goal_id'', GoalID_t), (''/relink/action/goal_status'', GoalStatus_t),
      (''/relink/action/goal_status_array'', GoalStatusArray_t)]"

definition std_msgs_subs :: "sample_sub list" where
  "std_msgs_subs =
     [SampleSub ''/relink/std/empty'' Empty_t [],
      SampleSub ''/relink/std/time'' Time_t [Value [Member ''sec''], Value [Member ''nsec'']],
      SampleSub ''/relink/std/duration'' Duration_t [Value [Member ''sec''], Value [Member ''nsec'']],
      SampleSub ''/relink/std/color'' ColorRGBA_t [Value [Member ''r''], Value [Member ''g''], Value [Member ''b''], Value [Member ''a'']],
      SampleSub ''/relink/std/header'' Header_t [Value [Member ''seq''], Text [Member ''frame_id'']],
      SampleSub ''/relink/std/string'' String_t [Text [Member ''data'']],
      SampleSub ''/relink/std/multiarray/byte'' (MultiArray_t TU8) [Value [Member ''count''], Value [Member ''data'', Index 0]],
      SampleSub ''/relink/std/multiarray/int8'' (MultiArray_t TI8) [Value [Member ''count''], Value [Member ''data'', Index 0]],
      SampleSub ''/relink/std/multiarray/int16'' (MultiArray_t TI16) [Value [Member ''count''], Value [Member ''data'', Index 0]],
      SampleSub ''/relink/std/multiarray/int32'' (MultiArray_t TI32) [Value [Member ''count''], Value [Member ''data'', Index 0]],
      SampleSub ''/relink/std/multiarray/int64'' (MultiArray_t TI64) [Value [Member ''count''], Value [Member ''data'', Index 0]],
      SampleSub ''/relink/std/multiarray/uint8'' (MultiArray_t TU8) [Value [Member ''count''], Value [Member ''data'', Index 0]],
      SampleSub ''/relink/std/multiarray/uint16'' (MultiArray_t TU16) [Value [Member ''count''], Value [Member ''data'', Index 0]],
      SampleSub ''/relink/std/multiarray/uint32'' (MultiArray_t TU32) [Value [Member ''count''], Value [Member ''data'', Index 0]],
      SampleSub ''/relink/std/multiarray/uint64'' (MultiArray_t TU64) [Value [Member ''count''], Value [Member ''data'', Index 0]],
      SampleSub ''/relink/std/multiarray/float32'' (MultiArray_t TF32) [Value [Member ''count''], Value [Member ''data'', Index 0]],
      SampleSub ''/relink/std/multiarray/float64'' (MultiArray_t TF64) [Value [Member ''count''], Value [Member ''data'', Index 0]]]"

definition std_msgs_advs :: "(string \<times> ctype) list" where
  "std_msgs_advs =
     [(''/relink/std/empty'', Empty_t), (''/relink/std/time'', Time_t),
      (''/relink/std/duration'', Duration_t), (''/relink/std/color'', ColorRGBA_t),
      (''/relink/std/header'', Header_t), (''/relink/std/string'', String_t),
      (''/relink/std/multiarray/byte'', MultiArray_t TU8),
      (''/relink/std/multiarray/int8'', MultiArray_t TI8),
      (''/relink/std/multiarray/int16'', MultiArray_t TI16),
      (''/relink/std/multiarray/int32'', MultiArray_t TI32),
      (''/relink/std/multiarray/int64'', MultiArray_t TI64),
      (''/relink/std/multiarray/uint8'', MultiArray_t TU8),
      (''/relink/std/multiarray/uint16'', MultiArray_t TU16),
      (''/relink/std/multiarray/uint32'', MultiArray_t TU32),
      (''/relink/std/multiarray/uint64'', MultiArray_t TU64),
      (''/relink/std/multiarray/float32'', MultiArray_t TF32),
      (''/relink/std/multiarray/float64'', MultiArray_t TF64)]"

definition geometry_msgs_subs :: "sample_sub list" where
  "geometry_msgs_subs =
     [SampleSub ''/relink/geo/vector3'' Vector3_t [Value [Member ''x''], Value [Member ''y''], Value [Member ''z'']],
      SampleSub ''/relink/geo/point'' Point_t [Value [Member ''x''], Value [Member ''y''], Value [Member ''z'']],
      SampleSub ''/relink/geo/point32'' Point32_t [Value [Member ''x''], Value [Member ''y''], Value [Member ''z'']],
      SampleSub ''/relink/geo/quaternion'' Quaternion_t [Value [Member ''x''], Value [Member ''y''], Value [Member ''z''], Value [Member ''w'']],
      SampleSub ''/relink/geo/pose'' Pose_t [Value [Member ''position'', Member ''x''], Value [Member ''position'', Member ''y''], Value [Member ''position'', Member ''z'']],
      SampleSub ''/relink/geo/twist'' Twist_t [Value [Member ''linear'', Member ''x''], Value [Member ''angular'', Member ''z'']],
      SampleSub ''/relink/geo/accel'' Accel_t [Value [Member ''linear'', Member ''x'']],
      SampleSub ''/relink/geo/wrench'' Wrench_t [Value [Member ''force'', Member ''z'']],
      SampleSub ''/relink/geo/pose_stamped'' PoseStamped_t [Text [Member ''header'', Member ''frame_id'']],
      SampleSub ''/relink/geo/twist_stamped'' TwistStamped_t [Text [Member ''header'', Member ''frame_id'']],
      SampleSub ''/relink/geo/transform'' Transform_t [Value [Member ''translation'', Member ''x'']],
      SampleSub ''/relink/geo/transform_stamped'' TransformStamped_t [Text [Member ''child_frame_id'']],
      SampleSub ''/relink/geo/pose_cov'' PoseWithCovariance_t [Value [Member ''covariance'', Index 0]],
      SampleSub ''/relink/geo/twist_cov'' TwistWithCovariance_t [Value [Member ''covariance'', Index 0]],
      SampleSub ''/relink/geo/pose_array'' PoseArray_t [Value [Member ''count'']],
      SampleSub ''/relink/geo/polygon'' Polygon_t [Value [Member ''count'']]]"

definition geometry_msgs_advs :: "(string \<times> ctype) list" where
  "geometry_msgs_advs =
     [(''/relink/geo/vector3'', Vector3_t), (''/relink/geo/point'', Point_t),
      (''/relink/geo/point32'', Point32_t), (''/relink/geo/quaternion'', Quaternion_t),
      (''/relink/geo/pose'', Pose_t), (''/relink/geo/twist'', Twist_t), (''/relink/geo/accel'', Accel_t),
      (''/relink/geo/wrench'', Wrench_t), (''/relink/geo/pose_stamped'', PoseStamped_t),
      (''/relink/geo/twist_stamped'', TwistStamped_t), (''/relink/geo/transform'', Transform_t),
      (''/relink/geo/transform_stamped'', TransformStamped_t),
      (''/relink/geo/pose_cov'', PoseWithCovariance_t), (''/relink/geo/twist_cov'', TwistWithCovariance_t),
      (''/relink/geo/pose_array'', PoseArray_t), (''/relink/geo/polygon'', Polygon_t)]"

definition sensor_msgs_subs :: "sample_sub list" where
  "sensor_msgs_subs =
     [SampleSub ''/relink/sensor/imu'' Imu_t [Value [Member ''linear_acceleration'', Member ''z'']],
      SampleSub ''/relink/sensor/navsat_status'' NavSatStatus_t [Value [Member ''status'']],
      SampleSub ''/relink/sensor/navsat_fix'' NavSatFix_t [Value [Member ''latitude''], Value [Member ''longitude'']],
      SampleSub ''/relink/sensor/mag'' MagneticField_t [Value [Member ''magnetic_field'', Member ''x'']],
      SampleSub ''/relink/sensor/temp'' Temperature_t [Value [Member ''temperature'']],
      SampleSub ''/relink/sensor/range'' Range_t [Value [Member ''range'']],
      SampleSub ''/relink/sensor/roi'' RegionOfInterest_t [Value [Member ''width''], Value [Member ''height'']],
      SampleSub ''/relink/sensor/camera_info'' CameraInfo_t [Value [Member ''width''], Value [Member ''height''], Text [Member ''distortion_model'']],
      SampleSub ''/relink/sensor/point_field'' PointField_t [Text [Member ''name'']],
      SampleSub ''/relink/sensor/point_cloud2'' PointCloud2_t [Value [Member ''width''], Value [Member ''height''], Value [Member ''fields_count'']],
      SampleSub ''/relink/sensor/laser_scan'' LaserScan_t [Value [Member ''ranges_count'']],
      SampleSub ''/relink/sensor/joint_state'' JointState_t [Value [Member ''count''], Text [Member ''name'', Index 0]]]"

definition sensor_msgs_advs :: "(string \<times> ctype) list" where
  "sensor_msgs_advs =
     [(''/relink/sensor/imu'', Imu_t), (''/relink/sensor/navsat_status'', NavSatStatus_t),
      (''/relink/sensor/navsat_fix'', NavSatFix_t), (''/relink/sensor/mag'', MagneticField_t),
      (''/relink/sensor/temp'', Temperature_t), (''/relink/sensor/range'', Range_t),
      (''/relink/sensor/roi'', RegionOfInterest_t), (''/relink/sensor/camera_info'', CameraInfo_t),
      (''/relink/sensor/point_field'', PointField_t), (''/relink/sensor/point_cloud2'', PointCloud2_t),
      (''/relink/sensor/laser_scan'', LaserScan_t), (''/relink/sensor/joint_state'', JointState_t)]"

definition nav_msgs_subs :: "sample_sub list" where
  "nav_msgs_subs =
     [SampleSub ''/relink/nav/odometry'' Odometry_t [Text [Member ''child_frame_id'']],
      SampleSub ''/relink/nav/map_meta'' MapMetaData_t [Value [Member ''width''], Value [Member ''height''], Value [Member ''resolution'']],
      SampleSub ''/relink/nav/path'' Path_t [Value [Member ''count'']],
      SampleSub ''/relink/nav/occupancy_grid'' OccupancyGrid_t [Value [Member ''data_len'']],
      SampleSub ''/relink/nav/grid_cells'' GridCells_t [Value [Member ''count'']]]"

definition nav_msgs_advs :: "(string \<times> ctype) list" where
  "nav_msgs_advs =
     [(''/relink/nav/odometry'', Odometry_t), (''/relink/nav/map_meta'', MapMetaData_t),
      (''/relink/nav/path'', Path_t), (''/relink/nav/occupancy_grid'', OccupancyGrid_t),
      (''/relink/nav/grid_cells'', GridCells_t)]"

definition diagnostic_msgs_subs :: "sample_sub list" where
  "diagnostic_msgs_subs =
     [SampleSub ''/relink/diag/key_value'' KeyValue_t [Text [Member ''key''], Text [Member ''value'']],
      SampleSub ''/relink/diag/status'' DiagnosticStatus_t [Value [Member ''level''], CStr [Member ''name'']],
      SampleSub ''/relink/diag/array'' DiagnosticArray_t [Value [Member ''status_count'']]]"

definition diagnostic_msgs_advs :: "(string \<times> ctype) list" where
  "diagnostic_msgs_advs =
     [(''/relink/diag/key_value'', KeyValue_t), (''/relink/diag/status'', DiagnosticStatus_t),
      (''/relink/diag/array'', DiagnosticArray_t)]"

definition trajectory_msgs_subs :: "sample_sub list" where
  "trajectory_msgs_subs =
     [SampleSub ''/relink/traj/point'' JointTrajectoryPoint_t [Value [Member ''count''], Value [Member ''positions'', Index 0]],
      SampleSub ''/relink/traj/trajectory'' JointTrajectory_t [Value [Member ''points_count'']],
      SampleSub ''/relink/traj/multidof_point'' MultiDOFJointTrajectoryPoint_t [Value [Member ''count'']],
      SampleSub ''/relink/traj/multidof_trajectory'' MultiDOFJointTrajectory_t [Value [Member ''points_count'']]]"

definition trajectory_msgs_advs :: "(string \<times> ctype) list" where
  "trajectory_msgs_advs =
     [(''/relink/traj/point'', JointTrajectoryPoint_t), (''/relink/traj/trajectory'', JointTrajectory_t),
      (''/relink/traj/multidof_point'', MultiDOFJointTrajectoryPoint_t),
      (''/relink/traj/multidof_trajectory'', MultiDOFJointTrajectory_t)]"

definition actionlib_msgs_subs :: "sample_sub list" where
  "actionlib_msgs_subs =
     [SampleSub ''/relink/action/goal_id'' GoalID_t [Text [Member ''id'']],
      SampleSub ''/relink/action/goal_status'' GoalStatus_t [Value [Member ''status''], Text [Member ''text'']],
      SampleSub ''/relink/action/goal_status_array'' GoalStatusArray_t [Value [Member ''status_list_count'']]]"

definition actionlib_msgs_advs :: "(string \<times> ctype) list" where
  "actionlib_msgs_advs =
     [(''/relink/action/goal_id'', GoalID_t), (''/relink/action/goal_status'', GoalStatus_t),
      (''/relink/action/goal_status_array'', GoalStatusArray_t)]"

definition builtin_types_subs :: "sample_sub list" where
  "builtin_types_subs =
     [SampleSub ''/relink/types/bool'' Bool_t [Value [Member ''data'']],
      SampleSub ''/relink/types/byte'' Byte_t [Value [Member ''data'']],
      SampleSub ''/relink/types/char'' Char_t [Value [Member ''data'']],
      SampleSub ''/relink/types/int8'' Int8_t [Value [Member ''data'']],
      SampleSub ''/relink/types/int16'' Int16_t [Value [Member ''data'']],
      SampleSub ''/relink/types/int32'' Int32_t [Value [Member ''data'']],
      SampleSub ''/relink/types/int64'' Int64_t [Value [Member ''data'']],
      SampleSub ''/relink/types/uint8'' UInt8_t [Value [Member ''data'']],
      SampleSub ''/relink/types/uint16'' UInt16_t [Value [Member ''data'']],
      SampleSub ''/relink/types/uint32'' UInt32_t [Value [Member ''data'']],
      SampleSub ''/relink/types/uint64'' UInt64_t [Value [Member ''data'']],
      SampleSub ''/relink/types/float32'' Float32_t [Value [Member ''data'']],
      SampleSub ''/relink/types/float64'' Float64_t [Value [Member ''data'']]]"

definition builtin_types_advs :: "(string \<times> ctype) list" where
  "builtin_types_advs =
     [(''/relink/types/bool'', Bool_t), (''/relink/types/byte'', Byte_t), (''/relink/types/char'', Char_t),
      (''/relink/types/int8'', Int8_t), (''/relink/types/int16'', Int16_t),
      (''/relink/types/int32'', Int32_t), (''/relink/types/int64'', Int64_t),
      (''/relink/types/uint8'', UInt8_t), (''/relink/types/uint16'', UInt16_t),
      (''/relink/types/uint32'', UInt32_t), (''/relink/types/uint64'', UInt64_t),
      (''/relink/types/float32'', Float32_t), (''/relink/types/float64'', Float64_t)]"

definition sample_programs :: "(sample_sub list \<times> (string \<times> ctype) list) list" where
  "sample_programs =
     [(standard_msgs_subs, standard_msgs_advs), (std_msgs_subs, std_msgs_advs),
      (geometry_msgs_subs, geometry_msgs_advs), (sensor_msgs_subs, sensor_msgs_advs), (nav_msgs_subs, nav_msgs_advs),
      (diagnostic_msgs_subs, diagnostic_msgs_advs), (trajectory_msgs_subs, trajectory_msgs_advs),
      (actionlib_msgs_subs, actionlib_msgs_advs), (builtin_types_subs, builtin_types_advs)]"

text \<open>The calls of a program before its loop; a callback is the position of its subscription.\<close>

fun sample_subscribe :: "os_bind \<Rightarrow> nat \<Rightarrow> sample_sub list \<Rightarrow> nat RelinkNode \<Rightarrow> NodeError + nat RelinkNode" where
  "sample_subscribe os i [] n = Inr n"
| "sample_subscribe os i (s # ss) n =
     ebind (by_name (\<lambda>topic. subscribe os False (csize (sm_type s)) topic i False 0) (str_bytes (sm_topic s)) n)
       (sample_subscribe os (Suc i) ss)"

fun sample_advertise :: "os_bind \<Rightarrow> (string \<times> ctype) list \<Rightarrow> 'c RelinkNode \<Rightarrow> NodeError + 'c RelinkNode" where
  "sample_advertise os [] n = Inr n"
| "sample_advertise os (a # as) n =
     ebind (by_name (\<lambda>topic. advertise os False topic False 0) (str_bytes (fst a)) n) (sample_advertise os as)"

definition sample_setup ::
  "os_bind \<Rightarrow> sample_sub list \<times> (string \<times> ctype) list \<Rightarrow> NodeError + nat RelinkNode" where
  "sample_setup os p =
     ebind (use_multicast_discovery RelinkNode_init) (\<lambda>n.
     ebind (sample_subscribe os 0 (fst p) n) (sample_advertise os (snd p)))"

section \<open>Setting up declares the topics and installs the callbacks\<close>

definition topic_of :: "string \<Rightarrow> u32" where
  "topic_of name = fnv1a32 (str_bytes name)"

text \<open>The names a node has seen are among \<open>S\<close>, each filed under its hash.\<close>

definition names_of :: "string set \<Rightarrow> 'c RelinkNode \<Rightarrow> bool" where
  "names_of S n \<longleftrightarrow> nd_multiplex n \<and> nd_topic_pair_id n = [] \<and>
     (\<forall>i nm. map_of (nd_topic_names n) i = Some nm \<longrightarrow> (\<exists>s \<in> S. nm = str_bytes s \<and> i = topic_of s))"

lemma topic_id_known:
  assumes "names_of S n" and "inj_on topic_of S" and "s \<in> S" and "topic_of s \<noteq> kNatPunchTopicId"
  shows "\<exists>n'. topic_id_for (str_bytes s) n = Inr (topic_of s, n') \<and> names_of S n' \<and>
    nd_transport n' = nd_transport n \<and> nd_declared_topics n' = nd_declared_topics n"
proof (cases "map_of (nd_topic_names n) (topic_of s)")
  case None
  then show ?thesis
    using assms(1,3,4) by (auto simp: topic_id_for_def topic_of_def names_of_def om_put_get Let_def)
next
  case (Some nm)
  then obtain s' where "s' \<in> S" "nm = str_bytes s'" "topic_of s' = topic_of s"
    using assms(1) unfolding names_of_def by metis
  then have "nm = str_bytes s" using assms(2,3) by (auto dest: inj_onD)
  then show ?thesis using assms(1,4) Some by (auto simp: topic_id_for_def topic_of_def Let_def)
qed

lemma subscribe_known:
  assumes "names_of S n" and "inj_on topic_of S" and "s \<in> S" and "topic_of s \<noteq> kNatPunchTopicId"
  shows "\<exists>n'. by_name (\<lambda>topic. subscribe os False sz topic cb False 0) (str_bytes s) n = Inr n' \<and> names_of S n' \<and>
    ut_handlers (nd_transport n') = (ut_handlers (nd_transport n))(topic_of s \<mapsto> Typed sz cb) \<and>
    set (nd_declared_topics n') = insert (topic_of s) (set (nd_declared_topics n))"
proof -
  obtain n1 where n1: "topic_id_for (str_bytes s) n = Inr (topic_of s, n1)" "names_of S n1"
    "nd_transport n1 = nd_transport n" "nd_declared_topics n1 = nd_declared_topics n" using topic_id_known [OF assms] by blast
  let ?n' = "(declare_subscribed (topic_of s) n1)\<lparr>nd_transport := set_topic_handler (topic_of s) (Typed sz cb) (nd_transport n1)\<rparr>"
  have "nd_multiplex n1" "nd_topic_pair_id n1 = []" using n1(2) by (simp_all add: names_of_def)
  then have "by_name (\<lambda>topic. subscribe os False sz topic cb False 0) (str_bytes s) n = Inr ?n'"
    by (simp add: by_name_def n1(1) subscribe_def register_pair_def transport_for_def set_transport_def get_transport_def
        declare_subscribed_def Let_def)
  then show ?thesis
    using n1(2-4) by (intro exI [of _ ?n']) (auto simp: names_of_def declare_subscribed_def set_topic_handler_def set_add_def)
qed

lemma advertise_known:
  assumes "names_of S n" and "inj_on topic_of S" and "s \<in> S" and "topic_of s \<noteq> kNatPunchTopicId"
  shows "\<exists>n'. by_name (\<lambda>topic. advertise os False topic False 0) (str_bytes s) n = Inr n' \<and> names_of S n' \<and>
    nd_transport n' = nd_transport n \<and>
    set (nd_declared_topics n') = insert (topic_of s) (set (nd_declared_topics n))"
proof -
  obtain n1 where n1: "topic_id_for (str_bytes s) n = Inr (topic_of s, n1)" "names_of S n1"
    "nd_transport n1 = nd_transport n" "nd_declared_topics n1 = nd_declared_topics n" using topic_id_known [OF assms] by blast
  let ?n' = "declare_advertised (topic_of s) n1"
  have "nd_multiplex n1" "nd_topic_pair_id n1 = []" using n1(2) by (simp_all add: names_of_def)
  then have "by_name (\<lambda>topic. advertise os False topic False 0) (str_bytes s) n = Inr ?n'"
    by (simp add: by_name_def n1(1) advertise_def register_pair_def transport_for_def)
  then show ?thesis
    using n1(2-4) by (intro exI [of _ ?n']) (auto simp: names_of_def declare_advertised_def set_add_def)
qed

lemma subscribe_all:
  assumes "names_of S n" and "inj_on topic_of S" and "set (map sm_topic ss) \<subseteq> S" and "kNatPunchTopicId \<notin> topic_of ` S"
    and "distinct (map sm_topic ss)"
  shows "\<exists>n'. sample_subscribe os i ss n = Inr n' \<and> names_of S n' \<and>
    ut_handlers (nd_transport n') = (\<lambda>t. case map_of (zip (map (topic_of \<circ> sm_topic) ss) (enumerate i ss)) t of
       Some (k, s) \<Rightarrow> Some (Typed (csize (sm_type s)) k) | None \<Rightarrow> ut_handlers (nd_transport n) t) \<and>
    set (nd_declared_topics n') = topic_of ` set (map sm_topic ss) \<union> set (nd_declared_topics n)"
  using assms(1,3,5)
proof (induction ss arbitrary: i n)
  case (Cons s ss)
  have s: "sm_topic s \<in> S" "topic_of (sm_topic s) \<noteq> kNatPunchTopicId" and ss: "set (map sm_topic ss) \<subseteq> S" "distinct (map sm_topic ss)"
    using Cons.prems(2,3) assms(4) by (auto simp: image_iff)
  obtain n1 where n1: "by_name (\<lambda>topic. subscribe os False (csize (sm_type s)) topic i False 0) (str_bytes (sm_topic s)) n = Inr n1"
    "names_of S n1" "ut_handlers (nd_transport n1) = (ut_handlers (nd_transport n))(topic_of (sm_topic s) \<mapsto> Typed (csize (sm_type s)) i)"
    "set (nd_declared_topics n1) = insert (topic_of (sm_topic s)) (set (nd_declared_topics n))"
    using subscribe_known [OF Cons.prems(1) assms(2) s, of os "csize (sm_type s)" i] by blast
  obtain n2 where n2: "sample_subscribe os (Suc i) ss n1 = Inr n2" "names_of S n2"
    "ut_handlers (nd_transport n2) = (\<lambda>t. case map_of (zip (map (topic_of \<circ> sm_topic) ss) (enumerate (Suc i) ss)) t of
       Some (k, s) \<Rightarrow> Some (Typed (csize (sm_type s)) k) | None \<Rightarrow> ut_handlers (nd_transport n1) t)"
    "set (nd_declared_topics n2) = topic_of ` set (map sm_topic ss) \<union> set (nd_declared_topics n1)"
    using Cons.IH [OF n1(2) ss, of "Suc i"] by blast
  have "topic_of (sm_topic s) \<notin> topic_of ` set (map sm_topic ss)"
  proof
    assume "topic_of (sm_topic s) \<in> topic_of ` set (map sm_topic ss)"
    then obtain x where "x \<in> set (map sm_topic ss)" "topic_of (sm_topic s) = topic_of x" by blast
    then show False using inj_onD [OF assms(2), of "sm_topic s" x] s(1) ss(1) Cons.prems(3) by auto
  qed
  then have none: "map_of (zip (map (topic_of \<circ> sm_topic) ss) (enumerate (Suc i) ss)) (topic_of (sm_topic s)) = None"
    by (auto simp: map_of_eq_None_iff dest!: set_zip_leftD)
  have "ut_handlers (nd_transport n2) = (\<lambda>t. case map_of (zip (map (topic_of \<circ> sm_topic) (s # ss)) (enumerate i (s # ss))) t of
       Some (k, s) \<Rightarrow> Some (Typed (csize (sm_type s)) k) | None \<Rightarrow> ut_handlers (nd_transport n) t)"
  proof (rule ext)
    fix t
    show "ut_handlers (nd_transport n2) t = (case map_of (zip (map (topic_of \<circ> sm_topic) (s # ss)) (enumerate i (s # ss))) t of
       Some (k, s) \<Rightarrow> Some (Typed (csize (sm_type s)) k) | None \<Rightarrow> ut_handlers (nd_transport n) t)"
      by (cases "t = topic_of (sm_topic s)")
        (simp_all add: n2(3) n1(3) none del: map_of_zip_is_None split: option.split)
  qed
  moreover have "set (nd_declared_topics n2) = topic_of ` set (map sm_topic (s # ss)) \<union> set (nd_declared_topics n)"
    by (simp add: n2(4) n1(4))
  moreover have "sample_subscribe os i (s # ss) n = Inr n2" by (simp add: n1(1) n2(1))
  ultimately show ?case using n2(2) by blast
qed simp

lemma advertise_all:
  assumes "names_of S n" and "inj_on topic_of S" and "set (map fst as) \<subseteq> S" and "kNatPunchTopicId \<notin> topic_of ` S"
  shows "\<exists>n'. sample_advertise os as n = Inr n' \<and> names_of S n' \<and> nd_transport n' = nd_transport n \<and>
    set (nd_declared_topics n') = topic_of ` set (map fst as) \<union> set (nd_declared_topics n)"
  using assms(1,3)
proof (induction as arbitrary: n)
  case (Cons a as)
  have a: "fst a \<in> S" "topic_of (fst a) \<noteq> kNatPunchTopicId" and as: "set (map fst as) \<subseteq> S"
    using Cons.prems(2) assms(4) by (auto simp: image_iff)
  obtain n1 where n1: "by_name (\<lambda>topic. advertise os False topic False 0) (str_bytes (fst a)) n = Inr n1"
    "names_of S n1" "nd_transport n1 = nd_transport n"
    "set (nd_declared_topics n1) = insert (topic_of (fst a)) (set (nd_declared_topics n))"
    using advertise_known [OF Cons.prems(1) assms(2) a, of os] by blast
  obtain n2 where n2: "sample_advertise os as n1 = Inr n2" "names_of S n2" "nd_transport n2 = nd_transport n1"
    "set (nd_declared_topics n2) = topic_of ` set (map fst as) \<union> set (nd_declared_topics n1)"
    using Cons.IH [OF n1(2) as] by blast
  have "sample_advertise os (a # as) n = Inr n2" by (simp add: n1(1) n2(1))
  then show ?case using n1(3,4) n2(2-4) by (intro exI [of _ n2]) simp
qed simp

text \<open>
  A program whose names have different hashes starts, with the callback of each subscription installed
  for messages of its type's size, and no topic declared but its own.
\<close>

lemma sample_setup_installs:
  assumes "distinct (map (topic_of \<circ> sm_topic) (fst p))" and "map fst (snd p) = map sm_topic (fst p)"
    and "kNatPunchTopicId \<notin> set (map (topic_of \<circ> sm_topic) (fst p))"
  shows "\<exists>n. sample_setup os p = Inr n \<and> set (nd_declared_topics n) = set (map (topic_of \<circ> sm_topic) (fst p)) \<and>
    (\<forall>i < length (fst p). ut_handlers (nd_transport n) (topic_of (sm_topic (fst p ! i))) =
       Some (Typed (csize (sm_type (fst p ! i))) i))"
proof -
  let ?S = "set (map sm_topic (fst p))" and ?ids = "map (topic_of \<circ> sm_topic) (fst p)"
  obtain n0 :: "nat RelinkNode" where n0: "use_multicast_discovery RelinkNode_init = Inr n0" "names_of ?S n0"
    "nd_declared_topics n0 = []"
    by (simp add: use_multicast_discovery_def select_mode_def RelinkNode_init_def names_of_def)
  have inj: "inj_on topic_of ?S" and d: "distinct (map sm_topic (fst p))"
    using assms(1) by (auto simp: distinct_map inj_on_def)
  have nat: "kNatPunchTopicId \<notin> topic_of ` ?S" using assms(3) by auto
  obtain n1 where n1: "sample_subscribe os 0 (fst p) n0 = Inr n1" "names_of ?S n1"
    "ut_handlers (nd_transport n1) = (\<lambda>t. case map_of (zip ?ids (enumerate 0 (fst p))) t of
       Some (k, s) \<Rightarrow> Some (Typed (csize (sm_type s)) k) | None \<Rightarrow> ut_handlers (nd_transport n0) t)"
    "set (nd_declared_topics n1) = topic_of ` ?S"
    using subscribe_all [OF n0(2) inj subset_refl nat d, of os 0] by (simp add: n0(3)) blast
  obtain n2 where n2: "sample_advertise os (snd p) n1 = Inr n2" "nd_transport n2 = nd_transport n1"
    "set (nd_declared_topics n2) = topic_of ` ?S"
    using advertise_all [OF n1(2) inj _ nat, of "snd p" os] by (simp add: n1(4) assms(2)) blast
  have "map_of (zip ?ids (enumerate 0 (fst p))) (topic_of (sm_topic (fst p ! i))) = Some (i, fst p ! i)"
    if "i < length (fst p)" for i
    using map_of_zip_nth [of ?ids "enumerate 0 (fst p)" i] assms(1) that by (simp add: nth_enumerate_eq)
  then show ?thesis
    using n0(1) n1(1,3) n2 by (auto simp: sample_setup_def)
qed

text \<open>The hashes of the names.\<close>

lemma topics_std: "map topic_of
    [''/relink/std/empty'', ''/relink/std/time'', ''/relink/std/duration'', ''/relink/std/color'',
     ''/relink/std/header'', ''/relink/std/string''] =
    [2246302063, 4024716411, 148520262, 1666503181, 2795600259, 1925891571]"
  by code_simp

lemma topics_geo: "map topic_of
    [''/relink/geo/vector3'', ''/relink/geo/point'', ''/relink/geo/point32'', ''/relink/geo/quaternion'',
     ''/relink/geo/pose'', ''/relink/geo/twist'', ''/relink/geo/accel'', ''/relink/geo/wrench'',
     ''/relink/geo/pose_stamped'', ''/relink/geo/twist_stamped'', ''/relink/geo/transform'',
     ''/relink/geo/transform_stamped'', ''/relink/geo/pose_cov'', ''/relink/geo/twist_cov'',
     ''/relink/geo/pose_array'', ''/relink/geo/polygon''] =
    [426474738, 1060079664, 3847614161, 3144546246, 3323732563, 2496415265, 2224661906, 136396767,
     904535394, 515291480, 1647668470, 3607101939, 2642021112, 1293065726, 3988246969, 1766128832]"
  by code_simp

lemma topics_sensor: "map topic_of
    [''/relink/sensor/imu'', ''/relink/sensor/navsat_status'', ''/relink/sensor/navsat_fix'',
     ''/relink/sensor/mag'', ''/relink/sensor/temp'', ''/relink/sensor/range'',
     ''/relink/sensor/roi'', ''/relink/sensor/camera_info'', ''/relink/sensor/point_field'',
     ''/relink/sensor/point_cloud2'', ''/relink/sensor/laser_scan'', ''/relink/sensor/joint_state''] =
    [3141445916, 1312748479, 1596515368, 2439909594, 960424221, 1521284816, 3819088671, 444226161,
     1468392552, 145152157, 711312738, 2200162139]"
  by code_simp

lemma topics_nav: "map topic_of
    [''/relink/nav/odometry'', ''/relink/nav/map_meta'', ''/relink/nav/path'',
     ''/relink/nav/occupancy_grid'', ''/relink/nav/grid_cells''] =
    [2881076437, 3455989008, 3298610765, 3477001308, 1578613332]"
  by code_simp

lemma topics_diag: "map topic_of
    [''/relink/diag/key_value'', ''/relink/diag/status'', ''/relink/diag/array''] =
    [1356008161, 1567466034, 3631558253]"
  by code_simp

lemma topics_traj: "map topic_of
    [''/relink/traj/point'', ''/relink/traj/trajectory'', ''/relink/traj/multidof_point'',
     ''/relink/traj/multidof_trajectory''] =
    [1225203732, 180880127, 1674651457, 2596835912]"
  by code_simp

lemma topics_action: "map topic_of
    [''/relink/action/goal_id'', ''/relink/action/goal_status'', ''/relink/action/goal_status_array''] =
    [4121694928, 1195211391, 2163502301]"
  by code_simp

lemma topics_multiarray: "map topic_of
    [''/relink/std/multiarray/byte'', ''/relink/std/multiarray/int8'', ''/relink/std/multiarray/int16'',
     ''/relink/std/multiarray/int32'', ''/relink/std/multiarray/int64'',
     ''/relink/std/multiarray/uint8'', ''/relink/std/multiarray/uint16'',
     ''/relink/std/multiarray/uint32'', ''/relink/std/multiarray/uint64'',
     ''/relink/std/multiarray/float32'', ''/relink/std/multiarray/float64''] =
    [2819630231, 1265114506, 1658154953, 4140845207, 1589911644, 1341068547, 409977242, 477381908,
     411110075, 420502504, 2366161855]"
  by code_simp

lemma topics_types: "map topic_of
    [''/relink/types/bool'', ''/relink/types/byte'', ''/relink/types/char'', ''/relink/types/int8'',
     ''/relink/types/int16'', ''/relink/types/int32'', ''/relink/types/int64'',
     ''/relink/types/uint8'', ''/relink/types/uint16'', ''/relink/types/uint32'',
     ''/relink/types/uint64'', ''/relink/types/float32'', ''/relink/types/float64''] =
    [3488972254, 2047702072, 1045625574, 1777117161, 2627570184, 2560165518, 279247977, 4032292114,
     2423495249, 2221869631, 2355251940, 2734303409, 385981202]"
  by code_simp

lemmas topic_ids =
  topics_std [simplified]
  topics_geo [simplified]
  topics_sensor [simplified]
  topics_nav [simplified]
  topics_diag [simplified]
  topics_traj [simplified]
  topics_action [simplified]
  topics_multiarray [simplified]
  topics_types [simplified]

lemmas sample_tables =
  standard_msgs_subs_def standard_msgs_advs_def
  std_msgs_subs_def std_msgs_advs_def
  geometry_msgs_subs_def geometry_msgs_advs_def
  sensor_msgs_subs_def sensor_msgs_advs_def
  nav_msgs_subs_def nav_msgs_advs_def
  diagnostic_msgs_subs_def diagnostic_msgs_advs_def
  trajectory_msgs_subs_def trajectory_msgs_advs_def
  actionlib_msgs_subs_def actionlib_msgs_advs_def
  builtin_types_subs_def builtin_types_advs_def

lemma sample_lists:
  "list_all (\<lambda>p. map (\<lambda>s. (sm_topic s, sm_type s)) (fst p) = snd p) sample_programs"
  by (simp add: sample_programs_def sample_tables)

lemma sample_names:
  "list_all (\<lambda>p. distinct (map (topic_of \<circ> sm_topic) (fst p)) \<and> kNatPunchTopicId \<notin> set (map (topic_of \<circ> sm_topic) (fst p)))
     sample_programs"
  by (simp add: sample_programs_def sample_tables topic_ids kNatPunchTopicId_def)

text \<open>
  Every sample program starts, and two instances of it understand each other: no call of its set-up throws,
  and on the node it sets up the handler of each topic it advertises is the typed one of its own subscription,
  for messages of exactly the size of the advertised type.
\<close>

theorem sample_programs_start:
  "list_all (\<lambda>p. \<exists>n. sample_setup os p = Inr n \<and>
     map (\<lambda>a. ut_handlers (nd_transport n) (topic_of (fst a))) (snd p) =
     map (\<lambda>(i, a). Some (Typed (csize (snd a)) i)) (enumerate 0 (snd p))) sample_programs"
proof -
  have "\<exists>n. sample_setup os p = Inr n \<and>
     map (\<lambda>a. ut_handlers (nd_transport n) (topic_of (fst a))) (snd p) =
     map (\<lambda>(i, a). Some (Typed (csize (snd a)) i)) (enumerate 0 (snd p))" if p: "p \<in> set sample_programs" for p
  proof -
    have snd: "snd p = map (\<lambda>s. (sm_topic s, sm_type s)) (fst p)" using sample_lists p by (simp add: list_all_iff)
    have "distinct (map (topic_of \<circ> sm_topic) (fst p))" "kNatPunchTopicId \<notin> set (map (topic_of \<circ> sm_topic) (fst p))"
      using sample_names p by (simp_all add: list_all_iff)
    from sample_setup_installs [OF this(1) _ this(2), of os] snd obtain n where n: "sample_setup os p = Inr n"
      "\<And>i. i < length (fst p) \<Longrightarrow> ut_handlers (nd_transport n) (topic_of (sm_topic (fst p ! i))) =
         Some (Typed (csize (sm_type (fst p ! i))) i)" by (auto simp: comp_def)
    have "map (\<lambda>a. ut_handlers (nd_transport n) (topic_of (fst a))) (snd p) =
      map (\<lambda>(i, a). Some (Typed (csize (snd a)) i)) (enumerate 0 (snd p))"
      by (rule nth_equalityI) (simp_all add: snd n(2) nth_enumerate_eq)
    with n(1) show ?thesis by blast
  qed
  then show ?thesis by (simp add: list_all_iff)
qed

section \<open>The callbacks stay inside the messages\<close>

text \<open>The path of an argument leads to a member: no sizes are needed to see it.\<close>

fun reaches :: "ctype \<Rightarrow> access list \<Rightarrow> bool" where
  "reaches T [] = True"
| "reaches (Struct ms) (Member f # as) = (case map_of ms f of Some U \<Rightarrow> reaches U as | None \<Rightarrow> False)"
| "reaches (Arr n U) (Index i # as) = (i < n \<and> reaches U as)"
| "reaches T (a # as) = False"

fun reads_inside :: "ctype \<Rightarrow> print_arg \<Rightarrow> bool" where
  "reads_inside T (Value as) = reaches T as"
| "reads_inside T (Text as) = reaches T as"
| "reads_inside T (CStr as) = False"

lemma find_member_map_of: "map_of ms f = Some U \<Longrightarrow> \<exists>o'. find_member off ms f = Some (o', U)"
  by (induction off ms f rule: find_member.induct) auto

lemma elem_end: "i < n \<Longrightarrow> i * m + m \<le> n * m" for i n m :: nat
  using mult_le_mono1 [of "Suc i" n m] by simp

lemma locate_inside:
  "reaches T as \<Longrightarrow> \<exists>o' U. locate off T as = Some (o', U) \<and> o' + csize U \<le> off + csize T"
proof (induction T as arbitrary: off rule: reaches.induct)
  case (2 ms f as)
  then obtain U where U: "map_of ms f = Some U" "reaches U as" by (auto split: option.splits)
  obtain o' where o': "member_of (Struct ms) f = Some (o', U)" using find_member_map_of [OF U(1)] by auto
  show ?case using "2.IH" [OF U, of "off + o'"] o' member_of_range [OF o'] by (auto simp del: csize.simps)
next
  case (3 n U i as)
  then show ?case using "3.IH" [of "off + i * csize U"] elem_end [of i n "csize U"] by fastforce
qed simp_all

lemma all_values_Some: "all_values xs \<noteq> None \<longleftrightarrow> None \<notin> set xs"
  by (induction xs) (auto split: option.splits)

lemma inside_callback:
  assumes "list_all (reads_inside (sm_type s)) (sm_args s)" and "length m = csize (sm_type s)"
  shows "sample_callback s m \<noteq> None"
proof -
  have "arg_value (sm_type s) m a \<noteq> None" if "reads_inside (sm_type s) a" for a
    using that locate_inside [of "sm_type s" _ 0] assms(2) by (cases a) fastforce+
  then show ?thesis using assms(1) unfolding sample_callback_def all_values_Some by (fastforce simp: list_all_iff)
qed

lemmas sample_layouts =
  Empty_t_def Bool_t_def Byte_t_def Char_t_def Int8_t_def Int16_t_def Int32_t_def Int64_t_def UInt8_t_def
  UInt16_t_def UInt32_t_def UInt64_t_def Float32_t_def Float64_t_def Time_t_def Duration_t_def
  ColorRGBA_t_def kFrameIdMaxLen_def Header_t_def kStringMaxLen_def String_t_def Vector3_t_def
  Point_t_def Quaternion_t_def Pose_t_def Twist_t_def Accel_t_def Wrench_t_def PoseStamped_t_def
  TwistStamped_t_def Point32_t_def Transform_t_def TransformStamped_t_def PoseWithCovariance_t_def
  TwistWithCovariance_t_def kMaxPosesInArray_def PoseArray_t_def kMaxPolygonPoints_def Polygon_t_def
  Imu_t_def NavSatStatus_t_def NavSatFix_t_def MagneticField_t_def Temperature_t_def Range_t_def
  RegionOfInterest_t_def kMaxDistortionCoeffs_def CameraInfo_t_def PointField_t_def kMaxPointFields_def
  kMaxPointCloudBytes_def PointCloud2_t_def kMaxLaserScanPoints_def LaserScan_t_def kMaxJoints_def
  JointState_t_def Odometry_t_def MapMetaData_t_def kMaxPathPoses_def Path_t_def
  kMaxOccupancyGridCells_def OccupancyGrid_t_def kMaxGridCells_def GridCells_t_def kKvMaxLen_def
  KeyValue_t_def kMaxKeyValues_def DiagnosticStatus_t_def kMaxDiagnosticStatuses_def
  DiagnosticArray_t_def kMaxDOF_def JointTrajectoryPoint_t_def kMaxTrajectoryPoints_def
  JointTrajectory_t_def MultiDOFJointTrajectoryPoint_t_def kMaxMultiDOFTrajectoryPoints_def
  MultiDOFJointTrajectory_t_def GoalID_t_def GoalStatus_t_def kMaxGoalStatuses_def GoalStatusArray_t_def
  MultiArray_t_def kMultiArrayCap_def

abbreviation status_sample :: sample_sub where
  "status_sample \<equiv> SampleSub ''/relink/diag/status'' DiagnosticStatus_t [Value [Member ''level''], CStr [Member ''name'']]"

lemma sample_inside:
  "list_all (\<lambda>p. list_all (\<lambda>s. if sm_topic s = ''/relink/diag/status'' then s = status_sample
     else list_all (reads_inside (sm_type s)) (sm_args s)) (fst p)) sample_programs"
  by (simp add: sample_programs_def sample_tables sample_layouts)

text \<open>
  On every message of its type's size a callback of the sample programs reads only the message, except
  that of \<^verbatim>\<open>DiagnosticStatus\<close>, which hands the array \<^verbatim>\<open>name\<close> itself to \<^verbatim>\<open>%s\<close>: it reads past the end of the
  message exactly when no byte from the second on is zero.
\<close>

theorem sample_callbacks:
  assumes "p \<in> set sample_programs" and "s \<in> set (fst p)" and "length m = csize (sm_type s)"
  shows "sample_callback s m = None \<longleftrightarrow> sm_topic s = ''/relink/diag/status'' \<and> 0 \<notin> set (drop 1 m)"
proof (cases "sm_topic s = ''/relink/diag/status''")
  case False
  then have "list_all (reads_inside (sm_type s)) (sm_args s)"
    using sample_inside assms(1,2) by (auto simp: list_all_iff split: if_splits)
  then show ?thesis using inside_callback [OF _ assms(3)] False by simp
next
  case True
  then have s: "s = status_sample" using sample_inside assms(1,2) by (auto simp: list_all_iff split: if_splits)
  have "locate 0 DiagnosticStatus_t [Member ''level''] = Some (0, Prim TI8)"
    "\<exists>U. locate 0 DiagnosticStatus_t [Member ''name''] = Some (1, U)" "csize DiagnosticStatus_t \<ge> 1"
    by (simp_all add: DiagnosticStatus_t_def)
  then show ?thesis using assms(3) by (auto simp: s sample_callback_def)
qed

end
