(* ===== verification/First_Message.thy ===== *)
theory First_Message
  imports Rlcore_Daemon Relink_Node
begin

text \<open>
  From a node that has not started to the delivery of its first message: the request that the start-up of
  \<^verbatim>\<open>relink.hpp\<close> sends, the answer of \<^verbatim>\<open>relink_rlcore.cpp\<close>, the peers learned from it, and the frame that
  then reaches a subscriber. The lemmas on the exchange are shared with the root theory.
\<close>

section \<open>Request and acknowledgement\<close>

lemma request_opened:
  assumes "wire_request (rc_encrypt_key c) nonce ip port ts (word_of_nat (length ts)) = Some req"
    and "length ts < 65536" and "length nonce = 12"
  shows "opened c req = Some (request_image ip port ts)"
proof -
  have enc: "encode_register_request ip port ts (word_of_nat (length ts)) 65507 = Inr (request_image ip port ts)"
    using assms(1) encode_request_eq [OF assms(2), of ip port 65507]
    by (auto simp: wire_request_def split: if_splits sum.splits)
  show ?thesis
  proof (cases "rc_encrypt_key c")
    case None
    then show ?thesis using assms(1) enc by (simp add: wire_request_def opened_def)
  next
    case (Some key)
    then have sealed: "aes256gcm_seal key nonce (request_image ip port ts) 65507 = Some req"
      using assms(1) enc by (simp add: wire_request_def)
    have "length (request_image ip port ts) + 28 \<le> 65507"
      using sealed by (auto simp: aes256gcm_seal_def gcm_consts split: if_splits)
    from gcm_seal_opens [OF assms(3) this, of 65507 key] this sealed show ?thesis
      by (auto simp: opened_def Some)
  qed
qed

lemma accept_opened:
  "opened c w = Some (ack_image 0 ps) \<Longrightarrow> length ps < 65536 \<Longrightarrow>
   accept_reply (rc_encrypt_key c) (Some w) = Some \<lparr>ro_ok = True, ro_peers = ps\<rparr>"
  using decode_ack_image [of ps 0]
  by (auto simp: accept_reply_def opened_def split: option.splits)

lemma registration_answered:
  assumes "plain_traffic c buf" and "opened c buf = Some (request_image ip port ts)" and "length ts < 65536"
    and "length nonce = 12" and "others (identity c src ip port) ts (prune_stale (rc_relay_mode c) now d) \<le> 4092"
  shows "\<exists>wire d'. rlcore_datagram c now n nonce src (Some buf) d = ([(addr_of src, wire)], d') \<and>
    length wire \<le> 65507 \<and>
    accept_reply (rc_encrypt_key c) (Some wire) =
      Some \<lparr>ro_ok = True, ro_peers = ack_peers (identity c src ip port) ts d'\<rparr> \<and>
    (\<forall>t p. registered d' t p \<longleftrightarrow>
       registered (prune_stale (rc_relay_mode c) now d) t p \<or> t \<in> set ts \<and> p = identity c src ip port)"
proof -
  let ?self = "identity c src ip port" and ?d = "prune_stale (rc_relay_mode c) now d"
  obtain d' where reg: "rlcore_register c n nonce src buf ?d =
       ((case encode_register_ack 0 (ack_peers ?self ts d') (word_of_nat (length (ack_peers ?self ts d'))) 65507 of
           Inl _ \<Rightarrow> []
         | Inr ack \<Rightarrow> (case seal_ack (rc_encrypt_key c) nonce ack of
                         None \<Rightarrow> [] | Some w \<Rightarrow> [(addr_of src, w)])), d')"
    and live: "\<forall>t p. registered d' t p \<longleftrightarrow> registered ?d t p \<or> t \<in> set ts \<and> p = ?self"
    and count: "length (ack_peers ?self ts d') = others ?self ts ?d"
    using register_eq [OF assms(2,3), of n nonce src ?d] by blast
  let ?ack = "ack_image 0 (ack_peers ?self ts d')"
  have len: "length (ack_peers ?self ts d') \<le> 4092" using count assms(5) by simp
  then have ack: "length ?ack + 28 \<le> 65507" by simp
  obtain wire where wire: "seal_ack (rc_encrypt_key c) nonce ?ack = Some wire" "opened c wire = Some ?ack"
    "length wire \<le> 65507"
  proof (cases "rc_encrypt_key c")
    case None
    then show ?thesis using ack that [of ?ack] by (simp add: seal_ack_def opened_def)
  next
    case (Some key)
    obtain w where "aes256gcm_seal key nonce ?ack 65507 = Some w" "length w = length ?ack + 28"
      "aes256gcm_open key w 65507 = Some ?ack"
      using gcm_seal_opens [OF assms(4) ack, of 65507 key] ack by auto
    then show ?thesis using that [of w] ack by (simp add: seal_ack_def opened_def Some)
  qed
  have "rlcore_datagram c now n nonce src (Some buf) d = ([(addr_of src, wire)], d')"
    using len by (simp add: datagram_registers [OF assms(1)] reg encode_ack_eq wire(1))
  moreover have "accept_reply (rc_encrypt_key c) (Some wire) =
      Some \<lparr>ro_ok = True, ro_peers = ack_peers ?self ts d'\<rparr>"
    using accept_opened [OF wire(2)] len by simp
  ultimately show ?thesis using live wire(3) by blast
qed

section \<open>Starting on a shared transport\<close>

lemma peers_push_fold:
  "peers_for_topic t (n\<lparr>nd_peers := fold (peers_push t') as ps\<rparr>) =
    (if t = t' then peers_for_topic t (n\<lparr>nd_peers := ps\<rparr>) @ as else peers_for_topic t (n\<lparr>nd_peers := ps\<rparr>))"
  by (induction as arbitrary: ps) (auto simp: peers_push_def peers_for_topic_def om_put_get split: option.splits)

text \<open>What start-up learns is appended in the order of the acknowledgement.\<close>

lemma learn_initial_peers:
  "peers_for_topic t (learn_initial ps n) =
    peers_for_topic t n @ concat (map candidates (filter (\<lambda>p. ap_topic_id p = t) ps))"
proof -
  have "peers_for_topic t (n\<lparr>nd_peers := fold (\<lambda>p peers. fold (peers_push (ap_topic_id p)) (candidates p) peers) ps m\<rparr>) =
      peers_for_topic t (n\<lparr>nd_peers := m\<rparr>) @ concat (map candidates (filter (\<lambda>p. ap_topic_id p = t) ps))" for m
    by (induction ps arbitrary: m) (auto simp: peers_push_fold)
  from this [of "nd_peers n"] show ?thesis by (simp add: learn_initial_def)
qed

text \<open>
  A node in rlcore mode with one shared transport registers all its topics in one request, once; it goes
  on whether or not it is answered.
\<close>

definition start_run :: "node_env \<Rightarrow> u32 \<Rightarrow> u16 \<Rightarrow> 'c RelinkNode \<Rightarrow> register_run" where
  "start_run env self_ip port n =
     register_with_rlcore_on_socket (cf_key (nd_rlcore n)) (ne_nonce env) (ut_running (nd_transport n)) self_ip port
       (nd_declared_topics n) (word_of_nat (length (nd_declared_topics n))) 1 300 (ne_register env Shared (nd_declared_topics n))"

lemma started_shared:
  assumes "\<not> nd_started n" and "nd_mode n = ModeRlCore" and "cf_ip_set (nd_rlcore n)" and "nd_multiplex n"
    and "nd_declared_topics n \<noteq> []" and "ne_bind env = (Some s, True, Some port)" and "ne_self_ip env = Some self_ip"
  shows "\<exists>n' startup punch. ensure_started env n = Inr (n', startup, punch) \<and> nd_started n' \<and> nd_multiplex n' \<and>
    ut_seq_counter (nd_transport n') = ut_seq_counter (nd_transport n) \<and>
    (let run = start_run env self_ip port n;
         learned = (if ro_ok (rr_outcome run) then ro_peers (rr_outcome run) else [])
     in set (map (Pair (rlcore_addr n)) (rr_sent run)) \<subseteq> set startup \<and>
        peers_for_topic t n' = peers_for_topic t n @ concat (map candidates (filter (\<lambda>p. ap_topic_id p = t) learned)))"
proof -
  obtain tr where tr: "bind_new (ne_bind env) (nd_transport n) = Inr tr" "ut_local_port tr = port"
    "ut_seq_counter tr = ut_seq_counter (nd_transport n)" "ut_running tr = ut_running (nd_transport n)"
    by (auto simp: bind_new_def transport_bind_def apply_large_buffers_def Let_def assms(6))
  have "\<exists>n2. resolve_relay n = Inr n2 \<and> nd_rlcore n2 = nd_rlcore n \<and> nd_mode n2 = ModeRlCore \<and>
    nd_multiplex n2 \<and> nd_declared_topics n2 = nd_declared_topics n \<and> nd_transport n2 = nd_transport n \<and>
    nd_peers n2 = nd_peers n \<and> nd_topic_transports n2 = nd_topic_transports n"
    using assms(2,4) by (simp add: resolve_relay_def)
  then obtain n2 where n2: "resolve_relay n = Inr n2" "nd_rlcore n2 = nd_rlcore n" "nd_mode n2 = ModeRlCore"
    "nd_multiplex n2" "nd_declared_topics n2 = nd_declared_topics n" "nd_transport n2 = nd_transport n"
    "nd_peers n2 = nd_peers n" "nd_topic_transports n2 = nd_topic_transports n"
    by blast
  let ?ds = "nd_declared_topics n"
  let ?n3 = "n2\<lparr>nd_transport := tr\<rparr>"
  have groups: "topic_groups ?n3 = [(Shared, ?ds)]" using n2 assms(5) by (simp add: topic_groups_def)
  obtain rt where n4: "route_groups [(Shared, ?ds)] ?n3 = ?n3\<lparr>nd_topic_route := rt, nd_transport := enable_relay_dedup tr\<rparr>"
    using n2(3) by (simp add: route_groups_def set_transport_def get_transport_def)
  let ?n4 = "?n3\<lparr>nd_topic_route := rt, nd_transport := enable_relay_dedup tr\<rparr>"
  let ?run = "start_run env self_ip port n"
  let ?learned = "if ro_ok (rr_outcome ?run) then ro_peers (rr_outcome ?run) else []"
  have "register_group env self_ip Shared ?ds 1 300 ?n4 = (rr_outcome ?run, map (Pair (rlcore_addr n)) (rr_sent ?run))"
    using tr n2 by (simp add: register_group_def start_run_def get_transport_def enable_relay_dedup_def rlcore_addr_def Let_def)
  then have reg: "register_groups env self_ip [(Shared, ?ds)] ?n4 =
      (map (Pair (rlcore_addr n)) (rr_sent ?run), map (Pair Shared) (concat (map candidates ?learned)), learn_initial ?learned ?n4)"
    by (simp add: Let_def)
  have keep: "nd_transport (learn_initial ps m) = nd_transport m" "nd_mode (learn_initial ps m) = nd_mode m"
    "nd_multiplex (learn_initial ps m) = nd_multiplex m" for ps and m :: "'c RelinkNode"
    by (simp_all add: learn_initial_def)
  have peers: "peers_for_topic t (learn_initial ?learned ?n4) =
      peers_for_topic t n @ concat (map candidates (filter (\<lambda>p. ap_topic_id p = t) ?learned))"
    using n2(7) by (simp only: learn_initial_peers) (simp add: peers_for_topic_def)
  define L where "L = ?learned"
  define M where "M = learn_initial L ?n4"
  define S where "S = start_transports (M\<lparr>nd_rlcore_self_ip := self_ip, nd_rlcore_groups := [(Shared, ?ds)]\<rparr>)"
  define R where "R = (if nd_mode S = ModeRlCore \<and> \<not> nd_repunch_enabled S
    then S\<lparr>nd_repunch_enabled := True, nd_repunch_interval := 1\<rparr> else S)"
  have "\<exists>rest. ensure_started env n =
      Inr (R\<lparr>nd_started := True\<rparr>, map (Pair (rlcore_addr n)) (rr_sent ?run) @ rest, map (Pair Shared) (concat (map candidates L)))"
    using assms(1-3) n2(3) reg [folded L_def, folded M_def] unfolding R_def S_def
    by (simp add: ensure_started_def n2(1,6) tr(1) groups n4 assms(7) Let_def del: register_groups.simps
        split del: if_split)
  then obtain rest where start: "ensure_started env n =
      Inr (R\<lparr>nd_started := True\<rparr>, map (Pair (rlcore_addr n)) (rr_sent ?run) @ rest, map (Pair Shared) (concat (map candidates L)))" ..
  have R: "nd_multiplex R" "nd_peers R = nd_peers M" "ut_seq_counter (nd_transport R) = ut_seq_counter (nd_transport n)"
    using n2(4) tr(3) by (simp_all add: R_def S_def M_def start_transports_def transport_start_def keep enable_relay_dedup_def Let_def)
  have "peers_for_topic t (R\<lparr>nd_started := True\<rparr>) = peers_for_topic t M"
    using R(2) by (simp add: peers_for_topic_def)
  with peers start R show ?thesis by (simp add: Let_def L_def M_def)
qed

text \<open>A call that finds the node not started starts it, and then publishes as on a started node.\<close>

lemma publish_starts:
  assumes "ensure_started env n = Inr (n', startup, punch)" and "nd_started n'"
    and "node_publish sendto env large_blob topic payload n' = Inr (ok, out, n'')"
  shows "node_publish sendto env large_blob topic payload n = Inr (ok, startup @ out, n'')"
proof (cases "if large_blob then Inr (Shared, declare_advertised topic n')
    else transport_for (ne_bind env) topic (declare_advertised topic n')")
  case (Inl e)
  then show ?thesis using assms(2,3) by (simp add: node_publish_def ensure_started_def Let_def)
next
  case (Inr q)
  then show ?thesis
    using assms(2,3) by (auto simp: node_publish_def assms(1) ensure_started_def [of env n'] Let_def split: prod.splits)
qed

section \<open>The first message\<close>

text \<open>
  C2: The first message of a node reaches a node it has never heard of, through the server: when a
  subscriber has registered with the daemon at most three seconds ago, a node that has advertised the
  topic and not yet started publishes; this one call starts it, sends its registration to the daemon,
  learns the subscriber from the daemon's answer, and sends it a frame which, when the subscriber
  receives it, calls its callback with exactly the published bytes. The two may share a key with the
  daemon, and the daemon may have anything else on file, as long as its answer lists at most 4092 peers.
\<close>

theorem first_message_delivered:
  assumes "rlcore_wf d"
    and "wire_request (rc_encrypt_key c) na ipA portA tsA (word_of_nat (length tsA)) = Some reqA"
    and "wire_request (rc_encrypt_key c) (ne_nonce env) ipB portB (nd_declared_topics n)
           (word_of_nat (length (nd_declared_topics n))) = Some reqB"
    and "length tsA < 65536" and "length (nd_declared_topics n) < 65536" and "length na = 12" and "length (ne_nonce env) = 12"
    and "plain_traffic c reqA" and "plain_traffic c reqB" and "length nonce = 12"
    and "topic \<in> set tsA" and "topic \<in> set (nd_declared_topics n)" and "nowB - nA \<le> 3"
    and "identity c srcA ipA portA \<noteq> identity c srcB ipB portB"
    and "dA = snd (rlcore_datagram c nowA nA nonceA srcA (Some reqA) d)"
    and "others (identity c srcB ipB portB) (nd_declared_topics n) (prune_stale (rc_relay_mode c) nowB dA) \<le> 4092"
    and "\<not> nd_started n" and "nd_mode n = ModeRlCore" and "cf_ip_set (nd_rlcore n)" and "nd_multiplex n"
    and "cf_key (nd_rlcore n) = rc_encrypt_key c"
    and "ne_bind env = (Some s, True, Some portB)" and "ne_self_ip env = Some ipB"
    and "ne_register env Shared (nd_declared_topics n) 0 =
      (int (length reqB), map_of (fst (rlcore_datagram c nowB nB nonce srcB (Some reqB) dA)) (addr_of srcB))"
    and "length payload \<le> 1400"
    and "ut_handlers (get_transport r m) topic = Some (Typed (length payload) cb)" and "windows_wf (get_transport r m)"
    and "ut_seq_counter (nd_transport n) \<notin> set (sw_list (window_of topic (get_transport r m)))"
  shows "\<exists>ok out n' frame m'. node_publish sendto env False topic payload n = Inr (ok, out, n') \<and>
    (rlcore_addr n, reqB) \<in> set out \<and> (addr_of (identity c srcA ipA portA), frame) \<in> set out \<and>
    node_receive r (Some frame) m = Inr (Some (DeliverBytes cb payload), m')"
proof -
  let ?A = "identity c srcA ipA portA" and ?B = "identity c srcB ipB portB" and ?ts = "nd_declared_topics n"
  have "map_of (rl_last_seen dA) (topic, ?A) = Some nA"
    using register_eq [OF request_opened [OF assms(2,4,6)] assms(4), of nA nonceA srcA
        "prune_stale (rc_relay_mode c) nowA d"] assms(11)
    by (auto simp: assms(15) datagram_registers [OF assms(8)])
  then have on_file: "registered (prune_stale (rc_relay_mode c) nowB dA) topic ?A"
    using prune_registered [OF datagram_wf [OF assms(1)]] assms(13,15) by blast
  obtain wire d2 where w: "rlcore_datagram c nowB nB nonce srcB (Some reqB) dA = ([(addr_of srcB, wire)], d2)"
    "length wire \<le> 65507" "accept_reply (rc_encrypt_key c) (Some wire) = Some \<lparr>ro_ok = True, ro_peers = ack_peers ?B ?ts d2\<rparr>"
    "registered d2 topic ?A"
    using registration_answered [OF assms(9) request_opened [OF assms(3,5,7)] assms(5,10,16), of nB] on_file by blast
  obtain x where x: "x \<in> set (ack_peers ?B ?ts d2)" "ap_ip x = pe_ip ?A" "ap_port x = pe_port ?A" "ap_topic_id x = topic"
    using ack_peers_iff [of ?B ?ts d2 ?A topic] w(4) assms(12,14) by blast
  have run: "rr_outcome (start_run env ipB portB n) = \<lparr>ro_ok = True, ro_peers = ack_peers ?B ?ts d2\<rparr>"
    "rr_sent (start_run env ipB portB n) = [reqB]"
    using w(2,3) by (simp_all add: start_run_def register_with_rlcore_on_socket_def assms(3,21,24) w(1) attempts_step
        attempt_result_def Let_def)
  have "?ts \<noteq> []" using assms(12) by auto
  from started_shared [OF assms(17-20) this assms(22,23), of topic]
  obtain n1 startup punch where n1: "ensure_started env n = Inr (n1, startup, punch)" "nd_started n1" "nd_multiplex n1"
    "ut_seq_counter (nd_transport n1) = ut_seq_counter (nd_transport n)" "(rlcore_addr n, reqB) \<in> set startup"
    "peers_for_topic topic n1 = peers_for_topic topic n @
      concat (map candidates (filter (\<lambda>p. ap_topic_id p = topic) (ack_peers ?B ?ts d2)))"
    by (auto simp: run Let_def)
  have known: "addr_of ?A \<in> set (peers_for_topic topic n1)"
  proof -
    have "addr_of ?A \<in> set (candidates x)" using x(2,3) by (simp add: addr_of_def candidates_def)
    then show ?thesis using x(1,4) by (auto simp: n1(6))
  qed
  let ?f = "frame_bytes topic (ut_seq_counter (nd_transport n)) payload"
  obtain ok out n2 where pub: "node_publish sendto env False topic payload n1 = Inr (ok, out, n2)" "(addr_of ?A, ?f) \<in> set out"
    using node_publish_sends [OF n1(2,3) assms(25), of topic sendto env] known by (auto simp: Let_def n1(4))
  obtain m' where "node_receive r (Some ?f) m = Inr (Some (DeliverBytes cb payload), m')"
    using frame_delivered_once [OF assms(26,27,25,28)] by auto
  then show ?thesis using publish_starts [OF n1(1,2) pub(1)] pub(2) n1(5) by fastforce
qed

text \<open>A daemon that has heard of one node: what the two witnesses of a meeting share.\<close>

definition demo_daemon :: rlcore where
  "demo_daemon = snd (rlcore_datagram (demo_config False None) 0 0 [] (PeerEntry 3 4) (Some (request_image 3 4 [7])) rlcore_init)"

lemma demo_plain: "plain_traffic (demo_config False None) (request_image 3 4 [7])"
  "plain_traffic (demo_config False None) (request_image 5 6 [7])"
  by (rule request_plain; simp add: demo_config_def)+

lemma demo_request: "wire_request None nonce ip port [7] (word_of_nat (length [7 :: u32])) = Some (request_image ip port [7])"
  using encode_request_eq [of "[7]" ip port 65507] by (simp add: wire_request_def)

lemma demo_keys [simp]: "rc_encrypt_key (demo_config False None) = None" "rc_relay_mode (demo_config False None) = False"
  "identity (demo_config False None) src ip port = PeerEntry ip port"
  by (simp_all add: demo_config_def identity_def)

lemma demo_few: "others (PeerEntry 5 6) [7] (prune_stale False 1 demo_daemon) \<le> 4092"
proof -
  have "opened (demo_config False None) (request_image 3 4 [7]) = Some (request_image 3 4 [7])" by (simp add: opened_def)
  from register_eq [OF this, of 0 "[]" "PeerEntry 3 4" "prune_stale False 0 rlcore_init"]
  have "registered demo_daemon 7 p \<longleftrightarrow> registered (prune_stale False 0 rlcore_init) 7 p \<or> p = PeerEntry 3 4" for p
    by (auto simp: demo_daemon_def datagram_registers [OF demo_plain(1)])
  moreover have "\<not> registered (prune_stale False 0 rlcore_init) 7 p" for p
    by (simp add: registered_def table_peers_def prune_stale_def rlcore_init_def Let_def)
  ultimately have one: "set (table_peers demo_daemon 7) = {PeerEntry 3 4}" by (auto simp: registered_def)
  have wf: "table_ok demo_daemon" using datagram_wf [OF rlcore_init_wf] by (simp add: demo_daemon_def rlcore_wf_def)
  then have "distinct (table_peers demo_daemon 7)"
    by (auto simp: table_ok_def table_peers_def list_all_iff os_wf_def strict_sorted_iff
        dest!: map_of_SomeD split: option.splits)
  then have len: "length (table_peers demo_daemon 7) = 1" using one distinct_card [of "table_peers demo_daemon 7"] by simp
  have "others (PeerEntry 5 6) [7] (prune_stale False 1 demo_daemon) \<le> length (table_peers demo_daemon 7)"
    unfolding others_def pruned_table_peers [OF wf] by (simp add: length_filter_le filter_filter)
  with len show ?thesis by simp
qed

theorem first_message_delivered_witness:
  "let n = (RelinkNode_init :: nat RelinkNode)\<lparr>nd_mode := ModeRlCore, nd_declared_topics := [7],
         nd_rlcore := (nd_rlcore (RelinkNode_init :: nat RelinkNode))\<lparr>cf_ip_set := True\<rparr>\<rparr>;
       m = (RelinkNode_init :: nat RelinkNode)\<lparr>nd_transport := set_topic_handler 7 (Typed 2 9) UdpTransport_init\<rparr>;
       reqB = request_image 5 6 [7];
       env = \<lparr>ne_bind = (Some 3, True, Some 6), ne_self_ip = Some 5, ne_pid = 1, ne_nonce = replicate 12 0,
         ne_register = \<lambda>r ts i. (int (length reqB),
           map_of (fst (rlcore_datagram (demo_config False None) 1 1 (replicate 12 0) (PeerEntry 5 6) (Some reqB) demo_daemon))
             (addr_of (PeerEntry 5 6)))\<rparr>
   in \<exists>ok out n' frame m'. node_publish (\<lambda>d. int (length (snd d))) env False 7 [1, 2] n = Inr (ok, out, n') \<and>
    (rlcore_addr n, reqB) \<in> set out \<and> (addr_of (PeerEntry 3 4), frame) \<in> set out \<and>
    node_receive Shared (Some frame) m = Inr (Some (DeliverBytes 9 [1, 2]), m')"
  unfolding Let_def
  by (rule first_message_delivered [where c = "demo_config False None" and d = rlcore_init and dA = demo_daemon
        and srcA = "PeerEntry 3 4" and ipA = 3 and portA = 4 and tsA = "[7]" and nA = 0 and nowA = 0 and nonceA = "[]"
        and srcB = "PeerEntry 5 6" and ipB = 5 and portB = 6 and nB = 1 and nowB = 1 and na = "replicate 12 0"
        and nonce = "replicate 12 0" and s = 3, unfolded demo_keys])
    (use rlcore_init_wf demo_plain demo_request demo_few in
      \<open>simp_all add: demo_daemon_def RelinkNode_init_def get_transport_def UdpTransport_init_def set_topic_handler_def
        windows_wf_def window_of_def\<close>)

end
