(* ===== verification/Spec2Isabelle.thy ===== *)
theory Spec2Isabelle
  imports Frame Topic_Hash Ring_Buffer Beacon Register Relay_Wire Topic_Directory Crypto Image
    Adaptive_Bitrate Udp_Transport Multicast_Discovery Rlcore_Client Rlcore_Daemon Relay_Daemon
    Shm_Transport Relink_Node Local_Ipc Standard_Msgs Msg_Schema Rl_Topic Relay_Xdp Platform
    Crypto_Reference Publish_Threads Node_Lifetime Benchmarks Image_Delivery Node_Startup H264_Codec
    Camera_Programs Largescale Sample_Topics First_Message
begin

text \<open>
  A verification development for ReLink-COM, the C++ publish/subscribe middleware under \<^verbatim>\<open>cpp/\<close>.

  \<^bold>\<open>The program.\<close> A process links the header library \<^verbatim>\<open>cpp/include/relink/\<close> and creates a \<^verbatim>\<open>RelinkNode\<close>. A
  topic is a 32-bit id, the FNV-1a hash of its name. The node finds its peers either at the server
  \<^verbatim>\<open>relink_rlcore\<close> (mode A: a RegisterRequest lists the node's topics, the RegisterAck the peers of each)
  or by multicast beacons (mode B). Messages then travel from node to node as UDP frames; images are cut
  into chunks; a relay, standalone or inside rlcore, forwards frames between nodes that cannot reach
  each other directly, and the receiver drops the copy that comes second. On one host a topic can use a
  ring in shared memory instead. Names and roles of topics are kept in a directory that the command-line
  tool \<^verbatim>\<open>rl_topic\<close> queries; the tool prints standard messages from a hand-written schema.

  \<^bold>\<open>Theories, in the order they build on each other.\<close>
  \<^item> \<open>Relink_Prelude\<close>: machine types, little-endian layouts, decimal numbers; locale \<open>packed_codec\<close>, what
    every fixed-size wire struct promises, with the lemmas on arrays of structs proved once.
  \<^item> \<open>Wire\<close> (\<^verbatim>\<open>wire.hpp\<close>): the protocol structs, each an interpretation of \<open>packed_codec\<close>; locale
    \<open>counted_packet\<close> for a header followed by as many elements as it announces.
  \<^item> \<open>Frame\<close> (\<^verbatim>\<open>frame.hpp\<close>), \<open>Topic_Hash\<close>, \<open>Beacon\<close>, \<open>Register\<close>, \<open>Relay_Wire\<close>, \<open>Topic_Directory\<close>: the packet
    codecs under the names of their headers. Shown: encoders and decoders are inverse in both
    directions, every error branch, chunking loses nothing, packet kinds are not confused.
  \<^item> \<open>Ring_Buffer\<close> (\<^verbatim>\<open>ring_buffer.hpp\<close>): refines the locale \<open>lossy_fifo\<close>, a queue that drops its oldest.
  \<^item> \<open>Crypto\<close> (\<^verbatim>\<open>crypto.hpp\<close>): AES-256-GCM from the S-box up. Shown: opening accepts exactly what sealing
    produces, counter blocks never repeat. No cryptographic hardness is claimed. \<open>Crypto_Reference\<close> holds the
    tables and field operations against the definitions of the standards: the S-box from inversion, the
    two multiplications as sums over the bits of a factor, GHASH as Horner's rule. It also defines how keys and nonces
    are drawn from the random source, a parameter, of which nothing is claimed.
  \<^item> \<open>Image\<close> (\<^verbatim>\<open>image.hpp\<close>, \<^verbatim>\<open>compressed_image.hpp\<close>): both reassemblers are interpretations of the locale
    \<open>reassembler\<close>, in which delivery is proved once.
  \<^item> \<open>Adaptive_Bitrate\<close> (\<^verbatim>\<open>adaptive_bitrate.hpp\<close>): the quality controller over reals with a rounding
    parameter; locale \<open>half_exact\<close> is what is needed of the rounding.
  \<^item> \<open>Udp_Transport\<close> (\<^verbatim>\<open>udp_transport.hpp\<close>, the scatter sends of \<^verbatim>\<open>platform.hpp\<close>), \<open>Multicast_Discovery\<close>,
    \<open>Rlcore_Client\<close>: sockets, deduplication, dispatch, beacons, registration with retries. \<open>Platform\<close> (the
    rest of \<^verbatim>\<open>platform.hpp\<close>): what the timeouts and thread requests hand to either operating system.
  \<^item> \<open>Publish_Threads\<close> (\<^verbatim>\<open>udp_transport.hpp\<close>, sending): threads that publish through one transport, access by
    access to its counter and its send buffer, under every schedule. Shown: one thread alone sends what
    the functions of \<open>Udp_Transport\<close> return; one copying sender among scatter-gather senders is safe; two
    copying senders are not, which the default configuration has, since hole punching is one.
  \<^item> \<open>Ordered_Map\<close>: \<^verbatim>\<open>std::map\<close> and \<^verbatim>\<open>std::set\<close> as ordered lists; locale \<open>std_map\<close>.
  \<^item> \<open>Rlcore_Daemon\<close> (\<^verbatim>\<open>rlcore/relink_rlcore.cpp\<close>): one function per datagram kind; an invariant of all
    reachable states; what each request is answered with.
  \<^item> \<open>Relay_Daemon\<close> (\<^verbatim>\<open>rlcore/relink_relay.cpp\<close>, \<^verbatim>\<open>xdp/relay_xdp_kern.c\<close>): forwarding over any packet history.
  \<^item> \<open>Relay_Xdp\<close> (\<^verbatim>\<open>xdp/relay_xdp.hpp\<close> and the AF_XDP loop of \<^verbatim>\<open>relink_relay.cpp\<close>): set-up on every error path,
    the rings, and the loop interleaved with the driver. Shown: no frame is lost or used twice, every
    packet is handled in order, and tear-down gives back what set-up acquired.
  \<^item> \<open>Shm_Transport\<close> (\<^verbatim>\<open>shm_transport.hpp\<close>): the ring as functions, an interpretation of the locale
    \<open>bounded_queue\<close>, and as the single loads and stores of two processes, an \<open>inductive\<close> reachability
    over all interleavings. The model of memory is sequentially consistent; the acquire and release
    orderings of the code are what makes the interleavings of the model the ones that matter.
  \<^item> \<open>Relink_Node\<close> (\<^verbatim>\<open>relink.hpp\<close>): the public class: configuration, names, pairing and transports,
    advertising and subscribing, start-up, publishing, delivery, hole punching, the relay keep-alive and
    the ticks of the re-registration thread. Shown: topic ids are unique, discovery announces each topic once, a tick
    only adds what rlcore vouched for, a late peer is learned within ten ticks.
  \<^item> \<open>Node_Startup\<close> (\<^verbatim>\<open>multicast_discovery.hpp\<close>, \<^verbatim>\<open>udp_transport.hpp\<close>, \<^verbatim>\<open>relink.hpp\<close>): what a start-up opens, call by
    call, and leaves open when it fails. Shown: one attempt is closed by the destructor whichever call
    fails; each attempt after a late failure loses the socket of the one before. A lemma ties the attempts
    to \<open>ensure_started\<close> of \<open>Relink_Node\<close>.
  \<^item> \<open>Image_Delivery\<close> (\<^verbatim>\<open>relink.hpp\<close>, \<^verbatim>\<open>udp_transport.hpp\<close>, the data thread): images from node to node. Both kinds
    of image are interpretations of the locale \<open>chunked_topic\<close>, which extends \<open>reassembler\<close> by the handler of
    the topic and the duplicate window. Shown: frames that arrive in any order, repeated or not, call the
    callback once with the published bytes, after the last missing one.
  \<^item> \<open>Local_Ipc\<close> (\<^verbatim>\<open>relink.hpp\<close>, the \<^verbatim>\<open>local_ipc\<close> operations): nodes over one shared memory; the poll thread.
  \<^item> \<open>Node_Lifetime\<close> (\<^verbatim>\<open>relink.hpp\<close>, the destructor and the start of the threads): the threads of a node as
    their accesses between two looks at a stop flag, the destructor and the destruction of the members
    that follows it, interleaved. Shown: without multicast discovery nothing is used after its
    destruction; with it the listener can be; the destructor never gets stuck.
  \<^item> \<open>Standard_Msgs\<close> (\<^verbatim>\<open>standard_msgs.hpp\<close>, primitive messages of \<^verbatim>\<open>wire.hpp\<close>): layouts and text accessors.
  \<^item> \<open>Msg_Schema\<close> (\<^verbatim>\<open>tools/msg_schema.hpp\<close>): all descriptions, checked against the layouts by evaluation;
    the printer never reads outside a payload of the described size.
  \<^item> \<open>Command_Line\<close>: numbers in text. \<open>Rl_Topic\<close> (\<^verbatim>\<open>tools/rl_topic.cpp\<close>): options, remembered address, queries
    and commands.
  \<^item> \<open>Benchmarks\<close> (\<^verbatim>\<open>tools/relink_benchmark.cpp\<close>, \<^verbatim>\<open>tools/relink_image_benchmark.cpp\<close>): the loops and the
    statistics they print.
  \<^item> \<open>H264_Codec\<close> (\<^verbatim>\<open>examples/ros2_compare/gst_h264_codec.hpp\<close>): the child process with its pipes, over tables of
    descriptors, and the two reader threads. Shown: the access units do not depend on how the pipe cuts
    the stream, the decoder's frames are the consecutive ones, and which descriptors leak or are inherited.
  \<^item> \<open>Camera_Programs\<close> (\<^verbatim>\<open>examples/camera_stream.cpp\<close>, \<^verbatim>\<open>relink_camera_pub_raw.cpp\<close> and \<^verbatim>\<open>relink_camera_sub_raw.cpp\<close>
    of \<^verbatim>\<open>examples/ros2_compare/\<close>): camera publishers and subscribers over the node, the controller and the
    codec. Shown: what is printed is what is published; each access unit carries the time of its frame;
    which payloads the subscriber reads past the end of.
  \<^item> \<open>Largescale\<close> (\<^verbatim>\<open>examples/largescale_topics.cpp\<close>): names, pacing and statistics of the stress test.
  \<^item> \<open>Sample_Topics\<close> (\<^verbatim>\<open>examples/*_msgs_pubsub.cpp\<close>, \<^verbatim>\<open>examples/builtin_types_pubsub.cpp\<close>): the topics of the
    sample programs with what their callbacks print. Shown: every program starts and its subscriptions fit
    its advertisements; the one callback that can read past the end of a message.
  \<^item> \<open>First_Message\<close>: a node that has not started, the daemon and a registered subscriber together: the one call of
    \<open>node_publish\<close> that starts the node, registers it, learns the subscriber and reaches its callback.
  \<^item> This theory: what spans components: the meeting of two nodes at rlcore (client, crypto and daemon),
    the way of a message from publisher to callback (node, transport and frame codec), and the same way
    through the relay (node, relay daemon, node).

  \<^bold>\<open>Conventions.\<close> A struct is a record, an enumeration a datatype. \<^verbatim>\<open>uint8_t\<close> to \<^verbatim>\<open>uint64_t\<close> are words of that
  width; \<^verbatim>\<open>size_t\<close> is a natural number where it counts bytes in memory. A buffer is the list of its bytes.
  Errors and exceptions are \<open>Inl\<close>; the state that an exception leaves behind is only modelled where a
  caller can see it, in \<open>rlcore_ip\<close>, \<open>set_relay\<close> and \<open>Node_Startup\<close>. System calls, clocks and random numbers are arguments.
  Datagrams sent, callbacks called and lines printed are results. Hash containers are kept in insertion
  or key order; properties are stated on sets, or on lists up to an order, where the order is the library's choice.

  \<^bold>\<open>Bounds.\<close> Recursion is structural or has a measure, no definition uses fuel; \<open>decoder_read_loop\<close>, which need not
  end, is a \<open>partial_function\<close>, and where it ends is proved. The waiting loops of the code (\<open>attach_poll\<close>, \<open>pub_wait\<close>, the reply collectors) recurse over the sequence of what the environment
  answers; where the sequence may end first, the result is \<open>None\<close> or what was collected so far. Constants of
  the code (1400-byte payloads, 65507-byte datagrams, the window of eight numbers) are kept at their
  values. \<open>late_peer_learned\<close> needs ten ticks since each tenth one is a full sweep.

  \<^bold>\<open>Not modelled.\<close> The system calls behind sockets and threads, whose results are parameters, and log output;
  allocations that fail, as that of the decoder's frame buffer for a huge frame; NaN and infinity in the
  quality controller; \<^verbatim>\<open>std::random_device\<close> and \<^verbatim>\<open>std::mt19937_64\<close>, which are one function of the seed;
  \<^verbatim>\<open>poll_rx\<close>, which nothing calls; help texts; the publishing loops of the sample programs, and the sample programs with a
  single topic; the unit tests, the comparison programs that call ROS, and the implementations in other
  languages. An operation of a node runs as a whole, as the mutexes of the code make it, except where the code shares state without one: the shared-memory ring,
  the send buffer, and the members under destruction have theories of their own, with sequentially
  consistent memory; in C++ the races shown there are undefined behaviour, of which the interleavings are
  only the mildest outcome. The properties that follow a message from \<open>node_publish\<close> on are those of a call
  that no other copying send overlaps.
\<close>

section \<open>Two nodes meet at rlcore\<close>

text \<open>
  Two nodes that share a topic find each other: after node A's registration request has reached the
  daemon, the request of node B that arrives within three seconds is answered, and B's client, on that
  answer, returns success with A among the peers of the shared topic, under the address the daemon
  files A under; with or without a shared key, whatever else the daemon has on file, as long as the
  answer lists at most 4092 peers.
\<close>

theorem nodes_meet_at_rlcore:
  assumes "rlcore_wf d"
    and "wire_request (rc_encrypt_key c) na ipA portA tsA (word_of_nat (length tsA)) = Some reqA"
    and "wire_request (rc_encrypt_key c) nb ipB portB tsB (word_of_nat (length tsB)) = Some reqB"
    and "length tsA < 65536" and "length tsB < 65536" and "length na = 12" and "length nb = 12"
    and "plain_traffic c reqA" and "plain_traffic c reqB" and "length nonce = 12"
    and "t \<in> set tsA" and "t \<in> set tsB" and "nowB - nA \<le> 3"
    and "identity c srcA ipA portA \<noteq> identity c srcB ipB portB"
    and "others (identity c srcB ipB portB) tsB (prune_stale (rc_relay_mode c) nowB
          (snd (rlcore_datagram c nowA nA nonceA srcA (Some reqA) d))) \<le> 4092"
    and "0 < retries"
  shows "\<exists>wire. fst (rlcore_datagram c nowB nB nonce srcB (Some reqB)
        (snd (rlcore_datagram c nowA nA nonceA srcA (Some reqA) d))) = [(addr_of srcB, wire)] \<and>
    (let out = rr_outcome (register_with_rlcore_on_socket (rc_encrypt_key c) nb q ipB portB tsB
           (word_of_nat (length tsB)) retries timeout (\<lambda>i. (int (length reqB), Some wire)))
     in ro_ok out \<and> (\<exists>x \<in> set (ro_peers out). ap_topic_id x = t \<and>
          ap_ip x = pe_ip (identity c srcA ipA portA) \<and> ap_port x = pe_port (identity c srcA ipA portA)))"
proof -
  let ?A = "identity c srcA ipA portA" and ?B = "identity c srcB ipB portB"
  let ?d1 = "snd (rlcore_datagram c nowA nA nonceA srcA (Some reqA) d)"
  have wf1: "rlcore_wf ?d1" by (rule datagram_wf [OF assms(1)])
  have seen: "map_of (rl_last_seen ?d1) (t, ?A) = Some nA"
    using register_eq [OF request_opened [OF assms(2,4,6)] assms(4), of nA nonceA srcA
        "prune_stale (rc_relay_mode c) nowA d"] assms(11)
    by (auto simp: datagram_registers [OF assms(8)])
  then have on_file: "registered (prune_stale (rc_relay_mode c) nowB ?d1) t ?A"
    using prune_registered [OF wf1] assms(13) by blast
  obtain wire d2 where w: "rlcore_datagram c nowB nB nonce srcB (Some reqB) ?d1 = ([(addr_of srcB, wire)], d2)"
    "length wire \<le> 65507" "accept_reply (rc_encrypt_key c) (Some wire) = Some \<lparr>ro_ok = True, ro_peers = ack_peers ?B tsB d2\<rparr>"
    "registered d2 t ?A"
    using registration_answered [OF assms(9) request_opened [OF assms(3,5,7)] assms(5,10,15), of nB] on_file by blast
  have listed: "\<exists>x \<in> set (ack_peers ?B tsB d2). ap_ip x = pe_ip ?A \<and> ap_port x = pe_port ?A \<and> ap_topic_id x = t"
    unfolding ack_peers_iff using w(4) assms(12,14) by blast
  obtain m where m: "nat retries = Suc m" using assms(16) by (cases "nat retries") auto
  have "rr_outcome (register_with_rlcore_on_socket (rc_encrypt_key c) nb q ipB portB tsB
      (word_of_nat (length tsB)) retries timeout (\<lambda>i. (int (length reqB), Some wire))) =
      \<lparr>ro_ok = True, ro_peers = ack_peers ?B tsB d2\<rparr>"
    using w(2,3) by (simp add: register_with_rlcore_on_socket_def assms(3) m attempts_step attempt_result_def)
  then show ?thesis using w(1) listed by (auto simp: Let_def)
qed

theorem nodes_meet_at_rlcore_witness:
  "\<exists>wire. fst (rlcore_datagram (demo_config False None) 1 1 (replicate 12 0) (PeerEntry 5 6)
        (Some (request_image 5 6 [7])) (snd (rlcore_datagram (demo_config False None) 0 0 [] (PeerEntry 3 4)
          (Some (request_image 3 4 [7])) rlcore_init))) = [(addr_of (PeerEntry 5 6), wire)] \<and>
    ro_ok (rr_outcome (register_with_rlcore_on_socket None (replicate 12 0) False 5 6 [7]
           (word_of_nat (length [7 :: u32])) 1 300 (\<lambda>i. (int (length (request_image 5 6 [7])), Some wire))))"
proof -
  let ?c = "demo_config False None"
  have "others (PeerEntry 5 6) [7] (prune_stale False 1
      (snd (rlcore_datagram ?c 0 0 [] (PeerEntry 3 4) (Some (request_image 3 4 [7])) rlcore_init))) \<le> 4092"
    using demo_few by (simp add: demo_daemon_def)
  then show ?thesis
    using nodes_meet_at_rlcore [of rlcore_init ?c "replicate 12 0" 3 4 "[7]" "request_image 3 4 [7]" "replicate 12 0" 5 6 "[7]"
        "request_image 5 6 [7]" "replicate 12 0" 7 1 0 "PeerEntry 3 4" "PeerEntry 5 6" 0 "[]" 1 1 False 300]
      rlcore_init_wf demo_plain demo_request by (simp add: Let_def) blast
qed

section \<open>A message reaches its subscriber\<close>

definition sample_subscriber :: "bool \<Rightarrow> nat RelinkNode" where
  "sample_subscriber dedup = RelinkNode_init\<lparr>nd_transport :=
     (set_topic_handler 7 (Typed 2 9) UdpTransport_init)\<lparr>ut_relay_dedup_enabled := dedup\<rparr>\<rparr>"

lemma sample_subscriber_facts:
  "ut_handlers (get_transport Shared (sample_subscriber dedup)) 7 = Some (Typed 2 9)"
  "ut_relay_dedup_enabled (get_transport Shared (sample_subscriber dedup)) = dedup"
  "windows_wf (get_transport Shared (sample_subscriber dedup))"
  "sw_list (window_of 7 (get_transport Shared (sample_subscriber dedup))) = []"
  by (simp_all add: sample_subscriber_def get_transport_def UdpTransport_init_def set_topic_handler_def
      windows_wf_def window_of_def)

text \<open>
  C3: A published message reaches its subscribers whole: on a started node with a shared transport, every
  known peer of the topic, and the relay if there is one, is sent the same frame; the first copy of it
  that a subscriber of the topic receives, with a number not among its last eight, calls the
  subscriber's callback with exactly the published bytes. What a second copy does, such as the relayed
  one, depends on whether the subscriber suppresses duplicates, which start-up turns on only where rlcore
  or a relay is in use: with suppression it calls nothing, so the message is delivered once; without, it
  calls the callback again.
\<close>

theorem published_message_delivered_once:
  assumes "nd_started n" and "nd_multiplex n" and "length payload \<le> 1400" and "dest \<in> set (peers_for_topic topic n)"
    and "ut_handlers (get_transport r m) topic = Some (Typed (length payload) cb)" and "windows_wf (get_transport r m)"
    and "ut_seq_counter (nd_transport n) \<notin> set (sw_list (window_of topic (get_transport r m)))"
  shows "\<exists>ok out n' frame m1 m2. node_publish sendto env False topic payload n = Inr (ok, out, n') \<and>
    (dest, frame) \<in> set out \<and> (nd_relay_enabled n \<longrightarrow> (relay_peer n, frame) \<in> set out) \<and>
    node_receive r (Some frame) m = Inr (Some (DeliverBytes cb payload), m1) \<and>
    node_receive r (Some frame) m1 =
      Inr (if ut_relay_dedup_enabled (get_transport r m) then None else Some (DeliverBytes cb payload), m2)"
proof -
  let ?f = "frame_bytes topic (ut_seq_counter (nd_transport n)) payload"
  obtain ok n' where "node_publish sendto env False topic payload n =
      Inr (ok, map (\<lambda>p. (p, ?f)) (peers_for_topic topic n @ (if nd_relay_enabled n then [relay_peer n] else [])), n')"
    using node_publish_sends [OF assms(1-3), of topic sendto env] by (auto simp: Let_def)
  moreover obtain m1 m2 where "node_receive r (Some ?f) m = Inr (Some (DeliverBytes cb payload), m1)"
    "node_receive r (Some ?f) m1 =
       Inr (if ut_relay_dedup_enabled (get_transport r m) then None else Some (DeliverBytes cb payload), m2)"
    using frame_delivered_once [OF assms(5,6,3,7)] by (simp split: if_splits) blast+
  ultimately show ?thesis using assms(4) by fastforce
qed

theorem published_message_delivered_once_witness:
  "(\<exists>ok out n' frame m1 m2. node_publish (\<lambda>d. int (length (snd d))) sample_world False 7 [1, 2]
      ((RelinkNode_init :: nat RelinkNode)\<lparr>nd_started := True, nd_peers := [(7, [\<lparr>pa_ip = 1, pa_port = 2\<rparr>])]\<rparr>) =
      Inr (ok, out, n') \<and> (\<lparr>pa_ip = 1, pa_port = 2\<rparr>, frame) \<in> set out \<and>
    node_receive Shared (Some frame) (sample_subscriber True) = Inr (Some (DeliverBytes 9 [1, 2]), m1) \<and>
    node_receive Shared (Some frame) m1 = Inr (None, m2)) \<and>
   (\<exists>ok out n' frame m1 m2. node_publish (\<lambda>d. int (length (snd d))) sample_world False 7 [1, 2]
      ((RelinkNode_init :: nat RelinkNode)\<lparr>nd_started := True, nd_peers := [(7, [\<lparr>pa_ip = 1, pa_port = 2\<rparr>])]\<rparr>) =
      Inr (ok, out, n') \<and> (\<lparr>pa_ip = 1, pa_port = 2\<rparr>, frame) \<in> set out \<and>
    node_receive Shared (Some frame) (sample_subscriber False) = Inr (Some (DeliverBytes 9 [1, 2]), m1) \<and>
    node_receive Shared (Some frame) m1 = Inr (Some (DeliverBytes 9 [1, 2]), m2))"
  using published_message_delivered_once [where n = "(RelinkNode_init :: nat RelinkNode)\<lparr>nd_started := True,
        nd_peers := [(7, [\<lparr>pa_ip = 1, pa_port = 2\<rparr>])]\<rparr>" and payload = "[1, 2]" and dest = "\<lparr>pa_ip = 1, pa_port = 2\<rparr>"
      and topic = 7 and r = Shared and cb = 9 and m = "sample_subscriber True" and env = sample_world
      and sendto = "\<lambda>d. int (length (snd d))"]
    published_message_delivered_once [where n = "(RelinkNode_init :: nat RelinkNode)\<lparr>nd_started := True,
        nd_peers := [(7, [\<lparr>pa_ip = 1, pa_port = 2\<rparr>])]\<rparr>" and payload = "[1, 2]" and dest = "\<lparr>pa_ip = 1, pa_port = 2\<rparr>"
      and topic = 7 and r = Shared and cb = 9 and m = "sample_subscriber False" and env = sample_world
      and sendto = "\<lambda>d. int (length (snd d))"]
  by (simp_all add: sample_subscriber_facts RelinkNode_init_def peers_for_topic_def UdpTransport_init_def)

section \<open>A message through the relay\<close>

lemma register_decodes: "decode_relay_register (encode_relay_register t 8) = Some t"
  unfolding decode_relay_register_iff by (simp add: encode_relay_register_def)

lemma keepalive_registers:
  assumes "(r, ts) \<in> set groups" and "t \<in> set ts" and "(False, False) # turns = fs"
  shows "(relay_peer m, encode_relay_register t 8) \<in> set (relay_keepalive fs groups m)"
  using assms by (force simp: register_all_topics_with_relay_def)

text \<open>
  C10: A message reaches a subscriber that only the relay can reach: when the subscriber's keep-alive
  packets have arrived at the relay and the last of them is at most thirty seconds old, a message that
  any other node publishes with the relay enabled goes to the relay, is forwarded to the address the
  subscriber registered from, and calls its callback with exactly the published bytes.
\<close>

theorem relayed_message_delivered:
  assumes "nd_started n" and "nd_multiplex n" and "length payload \<le> 1400" and "nd_relay_enabled n"
    and "(g, ts) \<in> set groups" and "topic \<in> set ts"
    and "\<forall>d \<in> set (relay_keepalive [(False, False)] groups m). (s, a, snd d) \<in> set evs"
    and "sorted (t0 # map fst evs)" and "last (t0 # map fst evs) - s \<le> 30" and "a \<noteq> src"
    and "ut_handlers (get_transport r m) topic = Some (Typed (length payload) cb)" and "windows_wf (get_transport r m)"
    and "ut_seq_counter (nd_transport n) \<notin> set (sw_list (window_of topic (get_transport r m)))"
  shows "\<exists>ok out n' frame m'. node_publish sendto env False topic payload n = Inr (ok, out, n') \<and>
    (relay_peer n, frame) \<in> set out \<and>
    (a, frame) \<in> set (fst (handle_packet now frame src (relay_run evs (relay_start t0)))) \<and>
    node_receive r (Some frame) m = Inr (Some (DeliverBytes cb payload), m')"
proof -
  let ?f = "frame_bytes topic (ut_seq_counter (nd_transport n)) payload" and ?st = "relay_run evs (relay_start t0)"
  have "(s, a, encode_relay_register topic 8) \<in> set evs"
    using keepalive_registers [OF assms(5,6), of "[]" _ m] assms(7) by fastforce
  then obtain s' where s': "last_reg topic a evs = Some s'" "s \<le> s'"
    using last_reg_after [OF _ register_decodes] assms(8) by fastforce
  then have "seen (members_of ?st topic) a s'" using relay_run_members [OF assms(8)] assms(9) by simp
  then have "a \<in> mb_addr ` set (members_of ?st topic)" unfolding seen_addr [symmetric] by blast
  then have fwd: "(a, ?f) \<in> set (fst (handle_packet now ?f src ?st))"
    using assms(10) frame_forwarded [OF decode_frame_bytes, of payload now topic _ src ?st] assms(3)
    by (auto simp: frame_value_def frame_header_def)
  obtain ok n' where pub: "node_publish sendto env False topic payload n =
      Inr (ok, map (\<lambda>p. (p, ?f)) (peers_for_topic topic n @ [relay_peer n]), n')"
    using node_publish_sends [OF assms(1-3), of topic sendto env] assms(4) by (auto simp: Let_def)
  obtain m' where "node_receive r (Some ?f) m = Inr (Some (DeliverBytes cb payload), m')"
    using frame_delivered_once [OF assms(11,12,3,13)] by auto
  then show ?thesis using pub fwd
    by (intro exI [of _ ok] exI [of _ "map (\<lambda>p. (p, ?f)) (peers_for_topic topic n @ [relay_peer n])"]
        exI [of _ n'] exI [of _ ?f] exI [of _ m']) simp
qed

theorem relayed_message_delivered_witness:
  "let n = (RelinkNode_init :: nat RelinkNode)\<lparr>nd_started := True, nd_relay_enabled := True\<rparr>;
       m = (RelinkNode_init :: nat RelinkNode)\<lparr>nd_transport := set_topic_handler 7 (Typed 2 9) UdpTransport_init\<rparr>;
       evs = [(10, \<lparr>pa_ip = 1, pa_port = 2\<rparr>, encode_relay_register 7 8)]
   in \<exists>ok out n' frame m'. node_publish (\<lambda>d. int (length (snd d))) sample_world False 7 [1, 2] n = Inr (ok, out, n') \<and>
    (relay_peer n, frame) \<in> set out \<and>
    (\<lparr>pa_ip = 1, pa_port = 2\<rparr>, frame) \<in> set (fst (handle_packet 15 frame \<lparr>pa_ip = 3, pa_port = 4\<rparr> (relay_run evs (relay_start 9)))) \<and>
    node_receive Shared (Some frame) m = Inr (Some (DeliverBytes 9 [1, 2]), m')"
  unfolding Let_def
  by (rule relayed_message_delivered [where groups = "[(Shared, [7])]" and ts = "[7]" and g = Shared and s = 10])
    (simp_all add: RelinkNode_init_def get_transport_def UdpTransport_init_def register_all_topics_with_relay_def
      set_topic_handler_def windows_wf_def window_of_def)

end
